(* ===== verification/Prelude.thy ===== *)
theory Prelude
  imports Main "HOL-Library.AList" "HOL-Library.Char_ord" "HOL-Library.List_Lexorder"
begin

section \<open>Shared model of the host language\<close>

text \<open>
  What every component of the development uses: the values the Python code moves through
  channels, checkpoints and stores; its exceptions as values of a sum; dictionaries as
  association lists in insertion order; loops over lists that stop at the first exception.

  \<^item> \<open>val\<close> is the type of the values that occur in channels, writes and checkpoints. The
    sentinel \<open>MISSING\<close> is never a value here: a place that may hold it has type
    \<open>val option\<close>, with \<open>None\<close> for \<open>MISSING\<close>. Equality of values is structural
    (Python's \<open>True == 1\<close> across types is not modelled). A Python set is a list without
    duplicates, compared through its set of elements.
  \<^item> \<open>err\<close> has one constructor per exception class; message texts are not modelled.
  \<^item> A dictionary is an association list with distinct keys. \<open>AList.update\<close> replaces the
    value in place or appends, which is the order Python keeps.
\<close>

named_theorems dict_simps \<open>lookups after dictionary operations\<close>
named_theorems res_simps \<open>evaluation of computations that may raise\<close>

subsection \<open>Values and exceptions\<close>

datatype val =
    VNone
  | VBool bool
  | VInt int
  | VStr string
  | VList "val list"
  | VTuple "val list"
  | VDict "(string \<times> val) list"
  | VSet "val list"
  | VOverwrite val
  | VSend string val val
  | VSnapshot val
  | VInterrupt val string
  | VMsg "string option" bool val
  | VCommand "string option" val val val
  | VObj nat

datatype err =
    EmptyChannelError
  | InvalidUpdateError
  | EmptyInputError
  | KeyError
  | IndexError
  | TypeError
  | ValueError
  | RuntimeError
  | NotImplementedError
  | AssertionError
  | AttributeError
  | GraphInterrupt
  | UnboundLocalError
  | GraphRecursionError
  | GraphDrained
  | ParentCommand val
  | CancelledError
  | NodeCancelledError
  | UserError nat

type_synonym 'a res = "err + 'a"
type_synonym ('k, 'v) dict = "('k \<times> 'v) list"

text \<open>Truth value of a Python object, and iteration over it.\<close>

fun truthy :: "val \<Rightarrow> bool" where
  "truthy VNone = False"
| "truthy (VBool b) = b"
| "truthy (VInt i) = (i \<noteq> 0)"
| "truthy (VStr s) = (s \<noteq> [])"
| "truthy (VList xs) = (xs \<noteq> [])"
| "truthy (VTuple xs) = (xs \<noteq> [])"
| "truthy (VDict d) = (d \<noteq> [])"
| "truthy (VSet xs) = (xs \<noteq> [])"
| "truthy _ = True"

fun py_iter :: "val \<Rightarrow> val list res" where
  "py_iter (VList xs) = Inr xs"
| "py_iter (VTuple xs) = Inr xs"
| "py_iter (VSet xs) = Inr xs"
| "py_iter (VStr s) = Inr (map (\<lambda>c. VStr [c]) s)"
| "py_iter (VDict d) = Inr (map (VStr \<circ> fst) d)"
| "py_iter (VSnapshot v) = Inr [v]"
| "py_iter _ = Inl TypeError"

text \<open>Unpacking \<open>a, b = x\<close>: the right side is iterated and must give two objects.\<close>

definition unpack2 :: "val \<Rightarrow> (val \<times> val) res" where
  "unpack2 x = (case py_iter x of Inl e \<Rightarrow> Inl e
     | Inr [a, b] \<Rightarrow> Inr (a, b)
     | Inr _ \<Rightarrow> Inl ValueError)"

text \<open>Objects that can be members of a Python set or keys of a dictionary.\<close>

fun hashable :: "val \<Rightarrow> bool" where
  "hashable (VList _) = False"
| "hashable (VDict _) = False"
| "hashable (VSet _) = False"
| "hashable (VOverwrite _) = False"
| "hashable (VInterrupt _ _) = False"
| "hashable (VTuple xs) = list_all hashable xs"
| "hashable (VSend n a t) = (hashable a \<and> hashable t)"
| "hashable (VSnapshot v) = hashable v"
| "hashable (VCommand g u r t) = (hashable u \<and> hashable r \<and> hashable t)"
| "hashable _ = True"

subsection \<open>Computations that may raise\<close>

definition rbind :: "'a res \<Rightarrow> ('a \<Rightarrow> 'b res) \<Rightarrow> 'b res" where
  "rbind m f = (case m of Inl e \<Rightarrow> Inl e | Inr x \<Rightarrow> f x)"

lemma rbind_simps [simp, res_simps]:
  "rbind (Inl e) f = Inl e" "rbind (Inr x) f = f x"
  by (simp_all add: rbind_def)

text \<open>For evaluation: the continuation is entered only with a value.\<close>

lemma rbind_case [code_unfold]: "rbind m f = (case m of Inl e \<Rightarrow> Inl e | Inr x \<Rightarrow> f x)"
  by (fact rbind_def)

lemma rbind_Inr_iff: "rbind m f = Inr y \<longleftrightarrow> (\<exists>x. m = Inr x \<and> f x = Inr y)"
  by (cases m) auto

lemma rbind_Inl_iff: "rbind m f = Inl e \<longleftrightarrow> m = Inl e \<or> (\<exists>x. m = Inr x \<and> f x = Inl e)"
  by (cases m) auto

lemma rbind_assoc: "rbind (rbind m f) g = rbind m (\<lambda>x. rbind (f x) g)"
  by (cases m) auto

lemma rbind_Inr_id [simp]: "rbind m Inr = m"
  by (cases m) auto

lemma rbind_cong [fundef_cong]:
  "m = m' \<Longrightarrow> (\<And>x. m' = Inr x \<Longrightarrow> f x = f' x) \<Longrightarrow> rbind m f = rbind m' f'"
  by (cases m') auto

text \<open>A \<open>for\<close> loop over a list with a state; the first exception ends it.\<close>

fun rfold :: "('a \<Rightarrow> 's \<Rightarrow> 's res) \<Rightarrow> 'a list \<Rightarrow> 's \<Rightarrow> 's res" where
  "rfold f [] s = Inr s"
| "rfold f (x # xs) s = rbind (f x s) (rfold f xs)"

lemma rfold_append: "rfold f (xs @ ys) s = rbind (rfold f xs s) (rfold f ys)"
  by (induction xs arbitrary: s) (auto simp: rbind_def split: sum.splits)

text \<open>An invariant of the loop body is an invariant of the loop.\<close>

lemma rfold_invariant:
  assumes "rfold f xs s = Inr s'" and "P s"
    and "\<And>x t t'. x \<in> set xs \<Longrightarrow> P t \<Longrightarrow> f x t = Inr t' \<Longrightarrow> P t'"
  shows "P s'"
  using assms
proof (induction xs arbitrary: s)
  case Nil
  then show ?case by simp
next
  case (Cons x xs)
  from Cons.prems(1) obtain t where t: "f x s = Inr t" "rfold f xs t = Inr s'"
    by (auto simp: rbind_Inr_iff)
  have "P t" by (rule Cons.prems(3) [OF _ Cons.prems(2) t(1)]) simp
  show ?case
    by (rule Cons.IH [OF t(2) \<open>P t\<close>]) (use Cons.prems(3) in auto)
qed

text \<open>A loop whose step on an element touches the part of the state with the element's key only:
  seen through one part, the loop is the step on the element with that key, or nothing.\<close>

lemma rfold_view:
  assumes "\<And>x s s'. key x \<noteq> k \<Longrightarrow> f x s = Inr s' \<Longrightarrow> view s' = view s"
    and "rfold f xs s = Inr s'" and "distinct (map key xs)"
  obtains (no) "k \<notin> key ` set xs" "view s' = view s"
  | (one) x t t' where "x \<in> set xs" "key x = k" "view t = view s" "f x t = Inr t'" "view s' = view t'"
  using assms(2,3)
proof (induction xs arbitrary: s thesis)
  case Nil
  then show ?case by simp
next
  case (Cons x xs)
  from Cons.prems(3) obtain t where t: "f x s = Inr t" "rfold f xs t = Inr s'" by (auto simp: rbind_Inr_iff)
  show ?case
  proof (cases "key x = k")
    case True
    then have "k \<notin> key ` set xs" using Cons.prems(4) by auto
    then have "view s' = view t" using Cons.IH [of t] t(2) Cons.prems(4) by auto
    then show ?thesis using Cons.prems(2) [of x s t] True t(1) by simp
  next
    case False
    then have v: "view t = view s" using assms(1) t(1) by blast
    show ?thesis
    proof (rule Cons.IH [of t])
      show "k \<notin> key ` set xs \<Longrightarrow> view s' = view t \<Longrightarrow> thesis" using Cons.prems(1) False v by auto
      fix y u u'
      assume "y \<in> set xs" "key y = k" "view u = view t" "f y u = Inr u'" "view s' = view u'"
      then show thesis using Cons.prems(2) [of y u u'] v by simp
    qed (use t(2) Cons.prems(4) in simp_all)
  qed
qed

lemma fold_rfold: "rfold (\<lambda>x s. Inr (f x s)) xs s = Inr (fold f xs s)"
  by (induction xs arbitrary: s) simp_all

fun rmap :: "('a \<Rightarrow> 'b res) \<Rightarrow> 'a list \<Rightarrow> 'b list res" where
  "rmap f [] = Inr []"
| "rmap f (x # xs) = rbind (f x) (\<lambda>y. rbind (rmap f xs) (\<lambda>ys. Inr (y # ys)))"

lemma rmap_cong [fundef_cong]: "xs = ys \<Longrightarrow> (\<And>x. x \<in> set ys \<Longrightarrow> f x = g x) \<Longrightarrow> rmap f xs = rmap g ys"
  by (induction ys arbitrary: xs) auto

lemma rmap_Inr: "(\<And>x. x \<in> set xs \<Longrightarrow> f x = Inr (g x)) \<Longrightarrow> rmap f xs = Inr (map g xs)"
  by (induction xs) simp_all

lemma rmap_Inr_length: "rmap f xs = Inr ys \<Longrightarrow> length ys = length xs"
  by (induction xs arbitrary: ys) (auto simp: rbind_Inr_iff)

lemma rmap_append: "rmap f (xs @ ys) = rbind (rmap f xs) (\<lambda>as. rbind (rmap f ys) (\<lambda>bs. Inr (as @ bs)))"
  by (induction xs) (auto simp: rbind_assoc)

lemma rmap_total: "(\<forall>x \<in> set xs. \<exists>y. f x = Inr y) \<longleftrightarrow> (\<exists>ys. rmap f xs = Inr ys)"
  by (induction xs) (auto simp: rbind_Inr_iff)

subsection \<open>Dictionaries\<close>

abbreviation dict_get :: "('k, 'v) dict \<Rightarrow> 'k \<Rightarrow> 'v option" where
  "dict_get d k \<equiv> map_of d k"

abbreviation dict_keys :: "('k, 'v) dict \<Rightarrow> 'k list" where
  "dict_keys d \<equiv> map fst d"

abbreviation in_dict :: "'k \<Rightarrow> ('k, 'v) dict \<Rightarrow> bool" where
  "in_dict k d \<equiv> map_of d k \<noteq> None"

abbreviation dict_set :: "'k \<Rightarrow> 'v \<Rightarrow> ('k, 'v) dict \<Rightarrow> ('k, 'v) dict" where
  "dict_set \<equiv> AList.update"

abbreviation wf_dict :: "('k, 'v) dict \<Rightarrow> bool" where
  "wf_dict d \<equiv> distinct (map fst d)"

text \<open>\<open>d.get(k, x)\<close>, \<open>d[k]\<close>, \<open>d.update(e)\<close> and \<open>d[k].append(x)\<close> on a \<open>defaultdict(list)\<close>.\<close>

definition dict_get_or :: "('k, 'v) dict \<Rightarrow> 'k \<Rightarrow> 'v \<Rightarrow> 'v" where
  "dict_get_or d k x = (case dict_get d k of None \<Rightarrow> x | Some v \<Rightarrow> v)"

definition dict_index :: "('k, 'v) dict \<Rightarrow> 'k \<Rightarrow> 'v res" where
  "dict_index d k = (case dict_get d k of None \<Rightarrow> Inl KeyError | Some v \<Rightarrow> Inr v)"

definition dict_update :: "('k, 'v) dict \<Rightarrow> ('k, 'v) dict \<Rightarrow> ('k, 'v) dict" where
  "dict_update d e = fold (\<lambda>(k, v). dict_set k v) e d"

definition dict_append :: "'k \<Rightarrow> 'v \<Rightarrow> ('k, 'v list) dict \<Rightarrow> ('k, 'v list) dict" where
  "dict_append k x d = dict_set k (dict_get_or d k [] @ [x]) d"

text \<open>\<open>dict(pairs)\<close>: later pairs win, the first occurrence fixes the position.\<close>

definition dict_of :: "('k \<times> 'v) list \<Rightarrow> ('k, 'v) dict" where
  "dict_of ps = dict_update [] ps"

lemma dict_get_set [simp, dict_simps]:
  "dict_get (dict_set k v d) k' = (if k' = k then Some v else dict_get d k')"
  by (simp add: update_conv')

lemma dict_get_update [dict_simps]:
  "dict_get (dict_update d e) k = (case dict_get (rev e) k of None \<Rightarrow> dict_get d k | Some v \<Rightarrow> Some v)"
proof (induction e arbitrary: d)
  case Nil
  then show ?case by (simp add: dict_update_def)
next
  case (Cons p e)
  obtain a b where p: "p = (a, b)" by (cases p)
  have "dict_update d (p # e) = dict_update (dict_set a b d) e"
    by (simp add: dict_update_def p)
  then show ?case
    using Cons.IH [of "dict_set a b d"] by (auto simp: p map_add_def split: option.splits)
qed

lemma dict_get_append [dict_simps]:
  "dict_get (dict_append k x d) k' =
     (if k' = k then Some (dict_get_or d k [] @ [x]) else dict_get d k')"
  by (simp add: dict_append_def)

lemma dict_get_or_append [dict_simps]:
  "dict_get_or (dict_append k x d) k' [] =
     (if k' = k then dict_get_or d k [] @ [x] else dict_get_or d k' [])"
  by (simp add: dict_get_or_def dict_append_def)

lemma wf_dict_set [intro]: "wf_dict d \<Longrightarrow> wf_dict (dict_set k v d)"
  by (rule distinct_update)

lemma wf_dict_update: "wf_dict d \<Longrightarrow> wf_dict (dict_update d e)"
  unfolding dict_update_def
  by (induction e arbitrary: d) (auto intro: distinct_update)

lemma wf_dict_append: "wf_dict d \<Longrightarrow> wf_dict (dict_append k x d)"
  by (simp add: dict_append_def distinct_update)

lemma dict_keys_set: "set (dict_keys (dict_set k v d)) = insert k (set (dict_keys d))"
  by (simp add: dom_update)

lemma dict_keys_set_in: "k \<in> set (dict_keys d) \<Longrightarrow> dict_keys (dict_set k v d) = dict_keys d"
  by (simp add: update_keys)

lemma dict_keys_replace: "dict_get d k = Some w \<Longrightarrow> dict_keys (dict_set k v d) = dict_keys d"
  by (simp add: update_keys) (metis domI dom_map_of_conv_image_fst list.set_map)

lemma in_dict_iff: "in_dict k d \<longleftrightarrow> k \<in> set (dict_keys d)"
  by (simp add: map_of_eq_None_iff)

lemma dict_get_or_Nil [simp]: "dict_get_or [] k x = x"
  by (simp add: dict_get_or_def)

lemma dict_get_in_keys: "dict_get d k = Some v \<Longrightarrow> k \<in> fst ` set d"
  by (metis map_of_eq_None_iff option.distinct(1))

lemma dict_get_or_set [simp, dict_simps]:
  "dict_get_or (dict_set k v d) k' x = (if k' = k then v else dict_get_or d k' x)"
  by (simp add: dict_get_or_def)

lemma dict_get_filter_pairs:
  "wf_dict d \<Longrightarrow> dict_get (filter (\<lambda>(k, v). P k v) d) k =
     (case dict_get d k of Some v \<Rightarrow> if P k v then Some v else None | None \<Rightarrow> None)"
proof (induction d)
  case (Cons p d)
  then have "fst p = k \<Longrightarrow> dict_get d k = None" by (auto simp: map_of_eq_None_iff)
  then show ?case using Cons by (cases p) auto
qed simp

lemma wf_dict_filter: "wf_dict d \<Longrightarrow> wf_dict (filter P d)"
  by (simp add: distinct_map_filter)

lemma dict_set_same: "dict_get d k = Some v \<Longrightarrow> dict_set k v d = d"
  by (induction d) auto

lemma dict_set_twice: "dict_set k v (dict_set k w d) = dict_set k v d"
  by (induction d) auto

lemma dict_eqI:
  assumes "dict_keys a = dict_keys b" "wf_dict b" "\<And>k. dict_get a k = dict_get b k"
  shows "a = b"
proof -
  have rebuild: "wf_dict d \<Longrightarrow> map (\<lambda>k. (k, the (dict_get d k))) (dict_keys d) = d" for d :: "('a, 'b) dict"
    by (auto simp: comp_def intro!: map_idI)
  show ?thesis using rebuild [of a] rebuild [of b] assms by simp
qed

lemma key_set [simp]: "fst ` set (dict_set k v d) = insert k (fst ` set d)"
  using dict_keys_set [of k v d] by simp

lemma in_dict_setD: "x \<in> set (dict_set k v d) \<Longrightarrow> x = (k, v) \<or> x \<in> set d"
  by (induction d) (auto split: if_split_asm)

end
