(* ===== verification/Channel_Contract.thy ===== *)
theory Channel_Contract
  imports Prelude
begin

section \<open>The channel interface (channels/base.py)\<close>

text \<open>
  \<open>BaseChannel\<close> declares what every channel class offers and gives default bodies for
  \<open>copy\<close>, \<open>checkpoint\<close>, \<open>is_available\<close>, \<open>consume\<close> and \<open>finish\<close>, which are the
  \<open>base_\<close> definitions below, parameterised by the abstract methods they call. The locales
  state what the rest of the system relies on: a channel that reports \<open>False\<close> from
  \<open>update\<close>, \<open>consume\<close> or \<open>finish\<close> is unchanged (otherwise its version would not be
  bumped and the change would be lost from the next checkpoint), \<open>is_available\<close> agrees with
  \<open>get\<close>, and a checkpoint restores the channel.
\<close>

subsection \<open>Default methods\<close>

definition base_checkpoint :: "('c \<Rightarrow> val res) \<Rightarrow> 'c \<Rightarrow> val option res" where
  "base_checkpoint get c = (case get c of
       Inr v \<Rightarrow> Inr (Some v)
     | Inl EmptyChannelError \<Rightarrow> Inr None
     | Inl e \<Rightarrow> Inl e)"

definition base_copy :: "('c \<Rightarrow> val option \<Rightarrow> 'c res) \<Rightarrow> ('c \<Rightarrow> val option) \<Rightarrow> 'c \<Rightarrow> 'c res" where
  "base_copy from_checkpoint checkpoint c = from_checkpoint c (checkpoint c)"

definition base_is_available :: "('c \<Rightarrow> val res) \<Rightarrow> 'c \<Rightarrow> bool res" where
  "base_is_available get c = (case get c of
       Inr v \<Rightarrow> Inr True
     | Inl EmptyChannelError \<Rightarrow> Inr False
     | Inl e \<Rightarrow> Inl e)"

definition base_consume :: "'c \<Rightarrow> 'c \<times> bool" where
  "base_consume c = (c, False)"

definition base_finish :: "'c \<Rightarrow> 'c \<times> bool" where
  "base_finish c = (c, False)"

subsection \<open>The contract of a channel\<close>

locale channel_contract =
  fixes get :: "'c \<Rightarrow> val res"
    and is_available :: "'c \<Rightarrow> bool"
    and update :: "'c \<Rightarrow> val list \<Rightarrow> ('c \<times> bool) res"
    and consume :: "'c \<Rightarrow> 'c \<times> bool"
    and finish :: "'c \<Rightarrow> 'c \<times> bool"
    and inv :: "'c \<Rightarrow> bool"
  assumes available_get: "is_available c \<Longrightarrow> \<exists>v. get c = Inr v"
    and unavailable_get: "\<not> is_available c \<Longrightarrow> get c = Inl EmptyChannelError"
    and update_False: "update c vs = Inr (c', False) \<Longrightarrow> c' = c"
    and consume_False: "consume c = (c', False) \<Longrightarrow> c' = c"
    and finish_False: "finish c = (c', False) \<Longrightarrow> c' = c"
    and inv_update: "inv c \<Longrightarrow> update c vs = Inr (c', b) \<Longrightarrow> inv c'"
    and inv_consume: "inv c \<Longrightarrow> consume c = (c', b) \<Longrightarrow> inv c'"
    and inv_finish: "inv c \<Longrightarrow> finish c = (c', b) \<Longrightarrow> inv c'"
begin

lemma is_available_iff_get: "is_available c \<longleftrightarrow> (\<exists>v. get c = Inr v)"
  using available_get [of c] unavailable_get [of c] by (cases "is_available c") auto

lemma get_cases: "get c = Inl EmptyChannelError \<or> (\<exists>v. get c = Inr v)"
  using available_get [of c] unavailable_get [of c] by (cases "is_available c") auto

text \<open>The overriding \<open>is_available\<close> computes what the default would.\<close>

lemma is_available_default: "base_is_available get c = Inr (is_available c)"
  using available_get [of c] unavailable_get [of c]
  by (cases "is_available c") (auto simp: base_is_available_def)

lemma update_changed: "update c vs = Inr (c', b) \<Longrightarrow> c' \<noteq> c \<Longrightarrow> b"
  using update_False [of c vs c'] by (cases b) auto

lemma consume_changed: "consume c = (c', b) \<Longrightarrow> c' \<noteq> c \<Longrightarrow> b"
  using consume_False [of c c'] by (cases b) auto

lemma finish_changed: "finish c = (c', b) \<Longrightarrow> c' \<noteq> c \<Longrightarrow> b"
  using finish_False [of c c'] by (cases b) auto

end

subsection \<open>Channels whose checkpoint restores them\<close>

locale persistent_channel = channel_contract get is_available update consume finish inv
  for get :: "'c \<Rightarrow> val res"
    and is_available :: "'c \<Rightarrow> bool"
    and update :: "'c \<Rightarrow> val list \<Rightarrow> ('c \<times> bool) res"
    and consume :: "'c \<Rightarrow> 'c \<times> bool"
    and finish :: "'c \<Rightarrow> 'c \<times> bool"
    and inv :: "'c \<Rightarrow> bool" +
  fixes checkpoint :: "'c \<Rightarrow> val option"
    and from_checkpoint :: "'c \<Rightarrow> val option \<Rightarrow> 'c res"
  assumes roundtrip: "inv c \<Longrightarrow> from_checkpoint c (checkpoint c) = Inr c"
begin

text \<open>The default \<open>copy\<close> gives an equal channel.\<close>

lemma base_copy_id: "inv c \<Longrightarrow> base_copy from_checkpoint checkpoint c = Inr c"
  by (simp add: base_copy_def roundtrip)

text \<open>A restored channel answers every read as the original does.\<close>

lemma restored_reads:
  "inv c \<Longrightarrow> from_checkpoint c (checkpoint c) = Inr d \<Longrightarrow> get d = get c \<and> is_available d = is_available c"
  by (simp add: roundtrip)

end

end
