(* ===== verification/Channels_Barrier.thy ===== *)
theory Channels_Barrier
  imports Channel_Contract
begin

section \<open>Topics and barriers (topic.py, named_barrier_value.py)\<close>

text \<open>
  \<open>Topic\<close> collects values, over one step or over all of them; the two barrier classes wait
  until every name of a fixed set has been seen. A Python set is a list without duplicates in
  insertion order, compared as a set. Where \<open>update\<close> of a barrier raises, Python leaves
  the names read before the offending one in \<open>seen\<close>; the model gives the exception only.
\<close>

subsection \<open>Topic\<close>

record topic =
  tp_key :: string
  tp_accumulate :: bool
  tp_values :: "val list"

fun flatten :: "val list \<Rightarrow> val list" where
  "flatten [] = []"
| "flatten (VList xs # vs) = xs @ flatten vs"
| "flatten (v # vs) = v # flatten vs"

definition tp_init :: "bool \<Rightarrow> topic" where
  "tp_init accumulate = \<lparr>tp_key = [], tp_accumulate = accumulate, tp_values = []\<rparr>"

definition tp_copy :: "topic \<Rightarrow> topic" where
  "tp_copy c = (tp_init (tp_accumulate c))\<lparr>tp_key := tp_key c, tp_values := tp_values c\<rparr>"

definition tp_checkpoint :: "topic \<Rightarrow> val option" where
  "tp_checkpoint c = Some (VList (tp_values c))"

text \<open>
  A tuple is the old checkpoint format, whose second component is the list. A stored object
  that is no list is refused here; Python accepts it and fails at the first use.
\<close>

fun topic_values :: "val \<Rightarrow> val list res" where
  "topic_values (VTuple (_ # VList xs # _)) = Inr xs"
| "topic_values (VTuple (_ # _ # _)) = Inl TypeError"
| "topic_values (VTuple _) = Inl IndexError"
| "topic_values (VList xs) = Inr xs"
| "topic_values _ = Inl TypeError"

definition tp_from_checkpoint :: "topic \<Rightarrow> val option \<Rightarrow> topic res" where
  "tp_from_checkpoint c ckpt =
     (let empty = (tp_init (tp_accumulate c))\<lparr>tp_key := tp_key c\<rparr>
      in case ckpt of None \<Rightarrow> Inr empty
         | Some v \<Rightarrow> rbind (topic_values v) (\<lambda>xs. Inr (empty\<lparr>tp_values := xs\<rparr>)))"

definition tp_update :: "topic \<Rightarrow> val list \<Rightarrow> (topic \<times> bool) res" where
  "tp_update c values =
     (let (c1, updated) = (if \<not> tp_accumulate c then (c\<lparr>tp_values := []\<rparr>, tp_values c \<noteq> [])
                           else (c, False));
          flat_values = flatten values
      in if flat_values \<noteq> [] then Inr (c1\<lparr>tp_values := tp_values c1 @ flat_values\<rparr>, True)
         else Inr (c1, updated))"

definition tp_get :: "topic \<Rightarrow> val res" where
  "tp_get c = (if tp_values c \<noteq> [] then Inr (VList (tp_values c)) else Inl EmptyChannelError)"

definition tp_is_available :: "topic \<Rightarrow> bool" where
  "tp_is_available c \<longleftrightarrow> tp_values c \<noteq> []"

lemmas tp_defs = tp_init_def tp_copy_def tp_checkpoint_def tp_from_checkpoint_def tp_update_def
  tp_get_def tp_is_available_def base_consume_def base_finish_def Let_def

interpretation tp: persistent_channel tp_get tp_is_available tp_update base_consume base_finish
  "\<lambda>_. True" tp_checkpoint tp_from_checkpoint
  by unfold_locales (auto simp: tp_defs split: option.splits if_splits prod.splits)

lemma flatten_append: "flatten (xs @ ys) = flatten xs @ flatten ys"
  by (induction xs rule: flatten.induct) auto

text \<open>What a topic holds after an update, and when it reports a change.\<close>

lemma tp_update_values:
  "tp_update c vs = Inr (c\<lparr>tp_values := (if tp_accumulate c then tp_values c else []) @ flatten vs\<rparr>,
     flatten vs \<noteq> [] \<or> (\<not> tp_accumulate c \<and> tp_values c \<noteq> []))"
  by (auto simp: tp_update_def Let_def)

text \<open>An accumulating topic receives the same values however the updates are batched.\<close>

lemma tp_update_append:
  assumes "tp_accumulate c" and "tp_update c xs = Inr (d, a)" and "tp_update d ys = Inr (e, b)"
  shows "tp_update c (xs @ ys) = Inr (e, a \<or> b)"
  using assms by (auto simp: tp_update_values flatten_append)

subsection \<open>NamedBarrierValue\<close>

record barrier =
  nb_key :: string
  nb_names :: "val list"
  nb_seen :: "val list"

definition nb_init :: "val list \<Rightarrow> barrier" where
  "nb_init names = \<lparr>nb_key = [], nb_names = names, nb_seen = []\<rparr>"

definition nb_copy :: "barrier \<Rightarrow> barrier" where
  "nb_copy c = (nb_init (nb_names c))\<lparr>nb_key := nb_key c, nb_seen := nb_seen c\<rparr>"

definition nb_checkpoint :: "barrier \<Rightarrow> val option" where
  "nb_checkpoint c = Some (VSet (nb_seen c))"

text \<open>The checkpoint of a barrier is a set; another object is refused where Python would fail later.\<close>

fun set_elements :: "val \<Rightarrow> val list res" where
  "set_elements (VSet xs) = Inr xs"
| "set_elements _ = Inl TypeError"

definition nb_from_checkpoint :: "barrier \<Rightarrow> val option \<Rightarrow> barrier res" where
  "nb_from_checkpoint c ckpt =
     (let empty = (nb_init (nb_names c))\<lparr>nb_key := nb_key c\<rparr>
      in case ckpt of None \<Rightarrow> Inr empty
         | Some v \<Rightarrow> rbind (set_elements v) (\<lambda>xs. Inr (empty\<lparr>nb_seen := xs\<rparr>)))"

text \<open>The body of the loop of \<open>update\<close>, on the set \<open>seen\<close> and the flag \<open>updated\<close>.\<close>

definition barrier_see :: "val list \<Rightarrow> val \<Rightarrow> val list \<times> bool \<Rightarrow> (val list \<times> bool) res" where
  "barrier_see names value st =
     (case st of (seen, updated) \<Rightarrow>
        if \<not> hashable value then Inl TypeError
        else if value \<in> set names
        then if value \<notin> set seen then Inr (seen @ [value], True) else Inr (seen, updated)
        else Inl InvalidUpdateError)"

definition nb_update :: "barrier \<Rightarrow> val list \<Rightarrow> (barrier \<times> bool) res" where
  "nb_update c values = rbind (rfold (barrier_see (nb_names c)) values (nb_seen c, False))
     (\<lambda>(seen, updated). Inr (c\<lparr>nb_seen := seen\<rparr>, updated))"

definition nb_full :: "barrier \<Rightarrow> bool" where
  "nb_full c \<longleftrightarrow> set (nb_seen c) = set (nb_names c)"

definition nb_get :: "barrier \<Rightarrow> val res" where
  "nb_get c = (if \<not> nb_full c then Inl EmptyChannelError else Inr VNone)"

definition nb_is_available :: "barrier \<Rightarrow> bool" where
  "nb_is_available c \<longleftrightarrow> nb_full c"

definition nb_consume :: "barrier \<Rightarrow> barrier \<times> bool" where
  "nb_consume c = (if nb_full c then (c\<lparr>nb_seen := []\<rparr>, True) else (c, False))"

text \<open>What the loop does to \<open>seen\<close>.\<close>

lemma barrier_see_Inr:
  "barrier_see names v (seen, u) = Inr (seen', u') \<longleftrightarrow>
     hashable v \<and> v \<in> set names \<and>
     (if v \<in> set seen then seen' = seen \<and> u' = u else seen' = seen @ [v] \<and> u')"
  by (auto simp: barrier_see_def)

lemma barrier_loop:
  assumes "rfold (barrier_see names) vs (seen, u) = Inr (seen', u')"
  shows "set seen' = set seen \<union> set vs" and "set vs \<subseteq> set names"
    and "distinct seen \<Longrightarrow> distinct seen'" and "\<not> u' \<Longrightarrow> seen' = seen" and "u \<Longrightarrow> u'"
proof -
  have "set seen' = set seen \<union> set vs \<and> set vs \<subseteq> set names \<and>
      (distinct seen \<longrightarrow> distinct seen') \<and> (\<not> u' \<longrightarrow> seen' = seen \<and> \<not> u)"
    using assms
  proof (induction vs arbitrary: seen u)
    case Nil
    then show ?case by simp
  next
    case (Cons v vs)
    from Cons.prems obtain s1 u1 where step: "barrier_see names v (seen, u) = Inr (s1, u1)"
      and rest: "rfold (barrier_see names) vs (s1, u1) = Inr (seen', u')"
      by (auto simp: rbind_Inr_iff)
    from Cons.IH [OF rest] step show ?case
      by (auto simp: barrier_see_Inr split: if_splits)
  qed
  then show "set seen' = set seen \<union> set vs" and "set vs \<subseteq> set names"
    and "distinct seen \<Longrightarrow> distinct seen'" and "\<not> u' \<Longrightarrow> seen' = seen" and "u \<Longrightarrow> u'"
    by auto
qed

text \<open>\<open>seen\<close> holds names only, each once.\<close>

definition nb_inv :: "barrier \<Rightarrow> bool" where
  "nb_inv c \<longleftrightarrow> distinct (nb_seen c) \<and> set (nb_seen c) \<subseteq> set (nb_names c)"

lemmas nb_defs = nb_init_def nb_copy_def nb_checkpoint_def nb_from_checkpoint_def nb_full_def
  nb_get_def nb_is_available_def nb_consume_def base_finish_def Let_def

lemma nb_update_Inr:
  assumes "nb_update c vs = Inr (c', b)"
  obtains seen where "rfold (barrier_see (nb_names c)) vs (nb_seen c, False) = Inr (seen, b)"
    and "c' = c\<lparr>nb_seen := seen\<rparr>"
  using assms by (auto simp: nb_update_def rbind_Inr_iff)

interpretation nb: persistent_channel nb_get nb_is_available nb_update nb_consume base_finish
  nb_inv nb_checkpoint nb_from_checkpoint
proof
  fix c c' vs
  assume "nb_update c vs = Inr (c', False)"
  then show "c' = c" by (rule nb_update_Inr) (auto dest: barrier_loop(4))
next
  fix c c' vs b
  assume "nb_inv c" and "nb_update c vs = Inr (c', b)"
  from this(2) obtain seen where
    loop: "rfold (barrier_see (nb_names c)) vs (nb_seen c, False) = Inr (seen, b)"
    and c': "c' = c\<lparr>nb_seen := seen\<rparr>"
    by (rule nb_update_Inr)
  show "nb_inv c'"
    using \<open>nb_inv c\<close> barrier_loop(1-3) [OF loop] by (auto simp: nb_inv_def c')
qed (auto simp: nb_defs nb_inv_def split: if_splits)

subsection \<open>NamedBarrierValueAfterFinish\<close>

record barrier_after_finish =
  nbf_key :: string
  nbf_names :: "val list"
  nbf_seen :: "val list"
  nbf_finished :: bool

definition nbf_init :: "val list \<Rightarrow> barrier_after_finish" where
  "nbf_init names = \<lparr>nbf_key = [], nbf_names = names, nbf_seen = [], nbf_finished = False\<rparr>"

definition nbf_copy :: "barrier_after_finish \<Rightarrow> barrier_after_finish" where
  "nbf_copy c = (nbf_init (nbf_names c))
     \<lparr>nbf_key := nbf_key c, nbf_seen := nbf_seen c, nbf_finished := nbf_finished c\<rparr>"

definition nbf_checkpoint :: "barrier_after_finish \<Rightarrow> val option" where
  "nbf_checkpoint c = Some (VTuple [VSet (nbf_seen c), VBool (nbf_finished c)])"

definition nbf_from_checkpoint ::
  "barrier_after_finish \<Rightarrow> val option \<Rightarrow> barrier_after_finish res" where
  "nbf_from_checkpoint c ckpt =
     (let empty = (nbf_init (nbf_names c))\<lparr>nbf_key := nbf_key c\<rparr>
      in case ckpt of None \<Rightarrow> Inr empty
         | Some t \<Rightarrow> rbind (unpack2 t) (\<lambda>(s, f). rbind (set_elements s)
             (\<lambda>xs. Inr (empty\<lparr>nbf_seen := xs, nbf_finished := truthy f\<rparr>))))"

definition nbf_update ::
  "barrier_after_finish \<Rightarrow> val list \<Rightarrow> (barrier_after_finish \<times> bool) res" where
  "nbf_update c values = rbind (rfold (barrier_see (nbf_names c)) values (nbf_seen c, False))
     (\<lambda>(seen, updated). Inr (c\<lparr>nbf_seen := seen\<rparr>, updated))"

definition nbf_full :: "barrier_after_finish \<Rightarrow> bool" where
  "nbf_full c \<longleftrightarrow> set (nbf_seen c) = set (nbf_names c)"

definition nbf_get :: "barrier_after_finish \<Rightarrow> val res" where
  "nbf_get c = (if \<not> nbf_finished c \<or> \<not> nbf_full c then Inl EmptyChannelError else Inr VNone)"

definition nbf_is_available :: "barrier_after_finish \<Rightarrow> bool" where
  "nbf_is_available c \<longleftrightarrow> nbf_finished c \<and> nbf_full c"

definition nbf_consume :: "barrier_after_finish \<Rightarrow> barrier_after_finish \<times> bool" where
  "nbf_consume c =
     (if nbf_finished c \<and> nbf_full c
      then (c\<lparr>nbf_finished := False, nbf_seen := []\<rparr>, True) else (c, False))"

definition nbf_finish :: "barrier_after_finish \<Rightarrow> barrier_after_finish \<times> bool" where
  "nbf_finish c =
     (if \<not> nbf_finished c \<and> nbf_full c then (c\<lparr>nbf_finished := True\<rparr>, True) else (c, False))"

text \<open>A finished barrier has seen every name, and stays so until it is consumed.\<close>

definition nbf_inv :: "barrier_after_finish \<Rightarrow> bool" where
  "nbf_inv c \<longleftrightarrow> distinct (nbf_seen c) \<and> set (nbf_seen c) \<subseteq> set (nbf_names c) \<and>
     (nbf_finished c \<longrightarrow> nbf_full c)"

lemmas nbf_defs = nbf_init_def nbf_copy_def nbf_checkpoint_def nbf_from_checkpoint_def nbf_full_def
  nbf_get_def nbf_is_available_def nbf_consume_def nbf_finish_def unpack2_def Let_def

lemma nbf_update_Inr:
  assumes "nbf_update c vs = Inr (c', b)"
  obtains seen where "rfold (barrier_see (nbf_names c)) vs (nbf_seen c, False) = Inr (seen, b)"
    and "c' = c\<lparr>nbf_seen := seen\<rparr>"
  using assms by (auto simp: nbf_update_def rbind_Inr_iff)

interpretation nbf: persistent_channel nbf_get nbf_is_available nbf_update nbf_consume nbf_finish
  nbf_inv nbf_checkpoint nbf_from_checkpoint
proof
  fix c c' vs
  assume "nbf_update c vs = Inr (c', False)"
  then show "c' = c" by (rule nbf_update_Inr) (auto dest: barrier_loop(4))
next
  fix c c' vs b
  assume "nbf_inv c" and "nbf_update c vs = Inr (c', b)"
  from this(2) obtain seen where
    loop: "rfold (barrier_see (nbf_names c)) vs (nbf_seen c, False) = Inr (seen, b)"
    and c': "c' = c\<lparr>nbf_seen := seen\<rparr>"
    by (rule nbf_update_Inr)
  show "nbf_inv c'"
    using \<open>nbf_inv c\<close> barrier_loop(1-3) [OF loop] by (auto simp: nbf_inv_def nbf_full_def c')
qed (auto simp: nbf_defs nbf_inv_def split: if_splits)

lemma barrier_copies: "tp_copy tp = tp" "nb_copy nb = nb" "nbf_copy nbf = nbf"
  by (simp_all add: tp_defs nb_defs nbf_defs)

end
