(* ===== verification/Channels_Reduce.thy ===== *)
theory Channels_Reduce
  imports Channel_Contract
begin

section \<open>Reducer channels (binop.py, delta.py)\<close>

text \<open>
  \<open>BinaryOperatorAggregate\<close> folds a binary operator over the writes of a step;
  \<open>DeltaChannel\<close> applies a batch reducer and is rebuilt from the writes of earlier steps.
  The operator and the reducer are the user's functions and may raise. The instance that the
  value type's constructor gives is a parameter, \<open>bo_typ\<close> and \<open>dc_typ\<close>: the value, or the
  exception that the call raises. The rewriting of special typing forms that comes before
  that call is not modelled.
\<close>

subsection \<open>Overwrite values\<close>

definition OVERWRITE :: string where
  "OVERWRITE = ''__overwrite__''"

text \<open>\<open>Some v\<close> stands for the pair \<open>(True, v)\<close> of the source, \<open>None\<close> for \<open>(False, None)\<close>.\<close>

fun get_overwrite :: "val \<Rightarrow> val option" where
  "get_overwrite (VOverwrite v) = Some v"
| "get_overwrite (VDict d) =
     (if length d = 1 \<and> in_dict OVERWRITE d then dict_get d OVERWRITE
      else if dict_get d ''type'' = Some (VStr OVERWRITE) \<and> in_dict ''value'' d
      then dict_get d ''value''
      else None)"
| "get_overwrite _ = None"

text \<open>The three spellings of an overwrite are recognised alike.\<close>

lemma get_overwrite_forms:
  "get_overwrite (VOverwrite v) = Some v"
  "get_overwrite (VDict [(OVERWRITE, v)]) = Some v"
  "get_overwrite (VDict [(''value'', v), (''type'', VStr OVERWRITE)]) = Some v"
  by (simp_all add: OVERWRITE_def)

subsection \<open>BinaryOperatorAggregate\<close>

record binop =
  bo_key :: string
  bo_value :: "val option"
  bo_operator :: "val \<Rightarrow> val \<Rightarrow> val res"
  bo_typ :: "val res"

definition bo_init :: "val res \<Rightarrow> (val \<Rightarrow> val \<Rightarrow> val res) \<Rightarrow> binop" where
  "bo_init typ operator =
     \<lparr>bo_key = [], bo_value = (case typ of Inr v \<Rightarrow> Some v | Inl _ \<Rightarrow> None),
      bo_operator = operator, bo_typ = typ\<rparr>"

definition bo_copy :: "binop \<Rightarrow> binop" where
  "bo_copy c = (bo_init (bo_typ c) (bo_operator c))\<lparr>bo_key := bo_key c, bo_value := bo_value c\<rparr>"

definition bo_from_checkpoint :: "binop \<Rightarrow> val option \<Rightarrow> binop res" where
  "bo_from_checkpoint c ckpt =
     (let empty = (bo_init (bo_typ c) (bo_operator c))\<lparr>bo_key := bo_key c\<rparr>
      in case ckpt of None \<Rightarrow> Inr empty | Some v \<Rightarrow> Inr (empty\<lparr>bo_value := Some v\<rparr>))"

text \<open>The loop body of \<open>update\<close>, on \<open>self.value\<close> and \<open>seen_overwrite\<close>.\<close>

definition bo_step :: "(val \<Rightarrow> val \<Rightarrow> val res) \<Rightarrow> val \<Rightarrow> val \<times> bool \<Rightarrow> (val \<times> bool) res" where
  "bo_step operator value st = (case st of (cur, seen_overwrite) \<Rightarrow>
     (case get_overwrite value of
        Some overwrite_value \<Rightarrow>
          if seen_overwrite then Inl InvalidUpdateError else Inr (overwrite_value, True)
      | None \<Rightarrow>
          if \<not> seen_overwrite then rbind (operator cur value) (\<lambda>x. Inr (x, seen_overwrite))
          else Inr (cur, seen_overwrite)))"

definition bo_update :: "binop \<Rightarrow> val list \<Rightarrow> (binop \<times> bool) res" where
  "bo_update c values =
     (case values of [] \<Rightarrow> Inr (c, False)
      | v0 # rest \<Rightarrow>
         (let (cur, todo) = (case bo_value c of None \<Rightarrow> (v0, rest) | Some v \<Rightarrow> (v, values))
          in rbind (rfold (bo_step (bo_operator c)) todo (cur, False))
               (\<lambda>(v, _). Inr (c\<lparr>bo_value := Some v\<rparr>, True))))"

definition bo_get :: "binop \<Rightarrow> val res" where
  "bo_get c = (case bo_value c of None \<Rightarrow> Inl EmptyChannelError | Some v \<Rightarrow> Inr v)"

definition bo_is_available :: "binop \<Rightarrow> bool" where
  "bo_is_available c \<longleftrightarrow> bo_value c \<noteq> None"

definition bo_checkpoint :: "binop \<Rightarrow> val option" where
  "bo_checkpoint c = bo_value c"

text \<open>A channel with no value is one whose type has no instance to start from.\<close>

definition bo_inv :: "binop \<Rightarrow> bool" where
  "bo_inv c \<longleftrightarrow> (bo_value c = None \<longrightarrow> (\<exists>e. bo_typ c = Inl e))"

lemmas bo_defs = bo_init_def bo_copy_def bo_from_checkpoint_def bo_update_def bo_get_def
  bo_is_available_def bo_checkpoint_def bo_inv_def base_consume_def base_finish_def Let_def

interpretation bo: persistent_channel bo_get bo_is_available bo_update base_consume base_finish
  bo_inv bo_checkpoint bo_from_checkpoint
  by unfold_locales
    (auto simp: bo_defs rbind_Inr_iff split: option.splits if_splits list.splits prod.splits sum.splits)

lemma bo_copy_id: "bo_copy c = c"
  by (simp add: bo_defs)

lemma bo_init_inv: "bo_inv (bo_init typ f)"
  by (auto simp: bo_defs split: sum.splits)

text \<open>Without overwrites the update is the fold of the operator.\<close>

lemma bo_loop_plain:
  "\<forall>v \<in> set vs. get_overwrite v = None \<Longrightarrow>
   rfold (bo_step f) vs (x, False) =
     rbind (rfold (\<lambda>v acc. f acc v) vs x) (\<lambda>y. Inr (y, False))"
  by (induction vs arbitrary: x) (auto simp: bo_step_def rbind_def split: sum.splits)

text \<open>After an overwrite the plain writes of the step are dropped.\<close>

lemma bo_loop_seen:
  "\<forall>v \<in> set vs. get_overwrite v = None \<Longrightarrow> rfold (bo_step f) vs (x, True) = Inr (x, True)"
  by (induction vs) (auto simp: bo_step_def)

lemma bo_loop_second_overwrite:
  "\<exists>v \<in> set vs. get_overwrite v \<noteq> None \<Longrightarrow> rfold (bo_step f) vs (x, True) = Inl InvalidUpdateError"
proof (induction vs arbitrary: x)
  case Nil
  then show ?case by simp
next
  case (Cons v vs)
  then show ?case by (cases "get_overwrite v") (auto simp: bo_step_def)
qed

subsection \<open>DeltaChannel\<close>

record delta =
  dc_key :: string
  dc_value :: "val option"
  dc_reducer :: "val \<Rightarrow> val list \<Rightarrow> val res"
  dc_typ :: "val res"
  dc_frequency :: int

definition dc_init :: "(val \<Rightarrow> val list \<Rightarrow> val res) \<Rightarrow> val res \<Rightarrow> int \<Rightarrow> delta res" where
  "dc_init reducer typ snapshot_frequency =
     (if snapshot_frequency \<le> 0 then Inl ValueError
      else Inr \<lparr>dc_key = [], dc_value = None, dc_reducer = reducer, dc_typ = typ,
                dc_frequency = snapshot_frequency\<rparr>)"

definition dc_copy :: "delta \<Rightarrow> delta res" where
  "dc_copy c = rbind (dc_init (dc_reducer c) (dc_typ c) (dc_frequency c))
     (\<lambda>new. Inr (new\<lparr>dc_key := dc_key c, dc_value := dc_value c\<rparr>))"

definition dc_from_checkpoint :: "delta \<Rightarrow> val option \<Rightarrow> delta res" where
  "dc_from_checkpoint c ckpt = rbind (dc_init (dc_reducer c) (dc_typ c) (dc_frequency c))
     (\<lambda>new. let new = new\<lparr>dc_key := dc_key c\<rparr> in
        case ckpt of
          None \<Rightarrow> rbind (dc_typ c) (\<lambda>v. Inr (new\<lparr>dc_value := Some v\<rparr>))
        | Some (VSnapshot v) \<Rightarrow> Inr (new\<lparr>dc_value := Some v\<rparr>)
        | Some v \<Rightarrow> Inr (new\<lparr>dc_value := Some v\<rparr>))"

text \<open>
  The base an overwrite sets: a copy of its value, or a fresh instance where it is \<open>None\<close>.
\<close>

definition overwrite_base :: "val res \<Rightarrow> val \<Rightarrow> val res" where
  "overwrite_base typ ow = (if ow \<noteq> VNone then Inr ow else typ)"

definition replay_scan ::
  "val res \<Rightarrow> nat \<times> val \<Rightarrow> val option \<times> nat \<Rightarrow> (val option \<times> nat) res" where
  "replay_scan typ iv st = (case iv of (i, v) \<Rightarrow> (case st of (base, start) \<Rightarrow>
     (case get_overwrite v of
        Some ow \<Rightarrow> rbind (overwrite_base typ ow) (\<lambda>b. Inr (Some b, i + 1))
      | None \<Rightarrow> Inr (base, start))))"

text \<open>
  \<open>replay_writes\<close> is called on channels that \<open>from_checkpoint\<close> made, which have a value. On
  a channel without one Python hands the sentinel to the reducer; the model raises instead.
\<close>

definition dc_replay_writes :: "delta \<Rightarrow> val list \<Rightarrow> delta res" where
  "dc_replay_writes c values =
     (if values = [] then Inr c
      else rbind (rfold (replay_scan (dc_typ c)) (enumerate 0 values) (dc_value c, 0))
        (\<lambda>(base, start). let remaining = drop start values in
           if remaining = [] then Inr (c\<lparr>dc_value := base\<rparr>)
           else (case base of None \<Rightarrow> Inl TypeError
                 | Some b \<Rightarrow> rbind (dc_reducer c b remaining)
                     (\<lambda>v. Inr (c\<lparr>dc_value := Some v\<rparr>)))))"

definition overwrite_scan :: "nat \<times> val \<Rightarrow> nat option \<Rightarrow> nat option res" where
  "overwrite_scan iv idx = (case iv of (i, v) \<Rightarrow>
     (if get_overwrite v \<noteq> None
      then if idx \<noteq> None then Inl InvalidUpdateError else Inr (Some i)
      else Inr idx))"

definition dc_update :: "delta \<Rightarrow> val list \<Rightarrow> (delta \<times> bool) res" where
  "dc_update c values =
     (if values = [] then Inr (c, False)
      else rbind (rfold overwrite_scan (enumerate 0 values) None)
        (\<lambda>overwrite_idx. case overwrite_idx of
           Some i \<Rightarrow>
             (case get_overwrite (values ! i) of
                Some ow \<Rightarrow> rbind (overwrite_base (dc_typ c) ow)
                  (\<lambda>v. Inr (c\<lparr>dc_value := Some v\<rparr>, True))
              | None \<Rightarrow> Inl TypeError)
         | None \<Rightarrow>
             rbind (case dc_value c of None \<Rightarrow> dc_typ c | Some v \<Rightarrow> Inr v)
               (\<lambda>base. rbind (dc_reducer c base values)
                 (\<lambda>v. Inr (c\<lparr>dc_value := Some v\<rparr>, True)))))"

definition dc_get :: "delta \<Rightarrow> val res" where
  "dc_get c = (case dc_value c of None \<Rightarrow> Inl EmptyChannelError | Some v \<Rightarrow> Inr v)"

definition dc_is_available :: "delta \<Rightarrow> bool" where
  "dc_is_available c \<longleftrightarrow> dc_value c \<noteq> None"

definition dc_checkpoint :: "delta \<Rightarrow> val option" where
  "dc_checkpoint c = None"

definition dc_inv :: "delta \<Rightarrow> bool" where
  "dc_inv c \<longleftrightarrow> 0 < dc_frequency c"

lemmas dc_defs = dc_init_def dc_copy_def dc_from_checkpoint_def dc_update_def dc_get_def
  dc_is_available_def dc_checkpoint_def dc_inv_def base_consume_def base_finish_def Let_def

lemma dc_update_Inr:
  assumes "dc_update c vs = Inr (c', b)"
  shows "(b \<and> (\<exists>v. c' = c\<lparr>dc_value := Some v\<rparr>)) \<or> (\<not> b \<and> c' = c \<and> vs = [])"
proof (cases "vs = []")
  case True
  with assms show ?thesis by (simp add: dc_update_def)
next
  case False
  with assms obtain idx where "rfold overwrite_scan (enumerate 0 vs) None = Inr idx"
    by (auto simp: dc_update_def rbind_Inr_iff)
  with assms False show ?thesis
    by (cases idx) (auto simp: dc_update_def rbind_Inr_iff split: option.split_asm)
qed

interpretation dc: channel_contract dc_get dc_is_available dc_update base_consume base_finish dc_inv
proof
  fix c vs c' assume "dc_update c vs = Inr (c', False)"
  then show "c' = c" by (auto dest: dc_update_Inr)
next
  fix c vs c' b assume "dc_inv c" and "dc_update c vs = Inr (c', b)"
  then show "dc_inv c'" by (auto dest!: dc_update_Inr simp: dc_inv_def)
qed (auto simp: dc_get_def dc_is_available_def base_consume_def base_finish_def)

lemma dc_copy_id: "dc_inv c \<Longrightarrow> dc_copy c = Inr c"
  by (simp add: dc_defs)

lemma dc_init_inv: "dc_init r t n = Inr c \<Longrightarrow> dc_inv c"
  by (auto simp: dc_defs split: if_splits)

text \<open>What the scans find.\<close>

lemma overwrite_scan_none:
  "\<forall>v \<in> set vs. get_overwrite v = None \<Longrightarrow> rfold overwrite_scan (enumerate n vs) idx = Inr idx"
  by (induction vs arbitrary: n) (auto simp: overwrite_scan_def)

lemma replay_scan_none:
  "\<forall>v \<in> set vs. get_overwrite v = None \<Longrightarrow>
   rfold (replay_scan typ) (enumerate n vs) st = Inr st"
  by (induction vs arbitrary: n) (auto simp: replay_scan_def split: prod.splits)

lemma overwrite_scan_last:
  "\<forall>v \<in> set vs. get_overwrite v = None \<Longrightarrow> get_overwrite w \<noteq> None \<Longrightarrow>
   rfold overwrite_scan (enumerate 0 (vs @ [w])) None = Inr (Some (length vs))"
  by (auto simp: enumerate_append_eq rfold_append overwrite_scan_none) (simp add: overwrite_scan_def)

lemma dc_update_plain:
  assumes "vs \<noteq> []" and "\<forall>v \<in> set vs. get_overwrite v = None" and "dc_value c = Some s"
  shows "dc_update c vs = rbind (dc_reducer c s vs) (\<lambda>v. Inr (c\<lparr>dc_value := Some v\<rparr>, True))"
  using assms by (simp add: dc_update_def overwrite_scan_none)

lemma dc_replay_plain:
  assumes "vs \<noteq> []" and "\<forall>v \<in> set vs. get_overwrite v = None" and "dc_value c = Some s"
  shows "dc_replay_writes c vs = rbind (dc_reducer c s vs) (\<lambda>v. Inr (c\<lparr>dc_value := Some v\<rparr>))"
  using assms by (simp add: dc_replay_writes_def replay_scan_none)

lemma dc_update_overwrite_last:
  assumes "\<forall>v \<in> set vs. get_overwrite v = None" and "get_overwrite w = Some ow"
  shows "dc_update c (vs @ [w]) =
    rbind (overwrite_base (dc_typ c) ow) (\<lambda>v. Inr (c\<lparr>dc_value := Some v\<rparr>, True))"
  using assms by (simp add: dc_update_def overwrite_scan_last)

text \<open>
  A write list cut at an overwrite: replay starts again from the overwrite's base, whatever
  came before.
\<close>

lemma rfold_replay_shift:
  "rfold (replay_scan typ) (enumerate (Suc n) ws) (base, Suc n) =
     rbind (rfold (replay_scan typ) (enumerate 0 ws) (base, 0)) (\<lambda>(b, k). Inr (b, k + Suc n))"
proof -
  have gen: "rfold (replay_scan typ) (enumerate (m + Suc n) ws) (base, k + Suc n) =
     rbind (rfold (replay_scan typ) (enumerate m ws) (base, k)) (\<lambda>(b, j). Inr (b, j + Suc n))"
    for m k base
  proof (induction ws arbitrary: m k base)
    case Nil
    then show ?case by simp
  next
    case (Cons w ws)
    show ?case
    proof (cases "get_overwrite w")
      case None
      then show ?thesis using Cons.IH [of "Suc m" base k] by (simp add: replay_scan_def)
    next
      case (Some ow)
      show ?thesis
      proof (cases "overwrite_base typ ow")
        case (Inl e)
        with Some show ?thesis by (simp add: replay_scan_def)
      next
        case (Inr b)
        with Some show ?thesis
          using Cons.IH [of "Suc m" "Some b" "Suc m"] by (simp add: replay_scan_def)
      qed
    qed
  qed
  show ?thesis using gen [of 0 base 0] by simp
qed

lemma replay_scan_value_irrelevant:
  assumes "rfold (replay_scan typ) (enumerate n ws) (b, k) = Inr (b', k')"
  shows "\<exists>b'' k''. rfold (replay_scan typ) (enumerate n ws) (c, j) = Inr (b'', k'')"
  using assms
proof (induction ws arbitrary: n b k c j)
  case Nil
  then show ?case by simp
next
  case (Cons w ws)
  from Cons.prems obtain st where 1: "replay_scan typ (n, w) (b, k) = Inr st"
    and 2: "rfold (replay_scan typ) (enumerate (Suc n) ws) st = Inr (b', k')"
    by (auto simp: rbind_Inr_iff)
  obtain b1 k1 where st: "st = (b1, k1)" by (cases st)
  from 1 obtain st2 where "replay_scan typ (n, w) (c, j) = Inr st2"
    by (auto simp: replay_scan_def rbind_Inr_iff split: option.splits)
  moreover obtain b2 k2 where "st2 = (b2, k2)" by (cases st2)
  moreover from Cons.IH [OF 2 [unfolded st]] obtain b'' k'' where
    "rfold (replay_scan typ) (enumerate (Suc n) ws) (b2, k2) = Inr (b'', k'')" by blast
  ultimately show ?case by simp
qed

lemma dc_replay_from_overwrite:
  assumes plain: "\<forall>v \<in> set vs. get_overwrite v = None" and ow: "get_overwrite w = Some o'"
    and base: "overwrite_base (dc_typ c) o' = Inr b"
  shows "dc_replay_writes c (vs @ w # ws) = dc_replay_writes (c\<lparr>dc_value := Some b\<rparr>) ws"
proof -
  let ?scan = "rfold (replay_scan (dc_typ c))"
  have pre: "?scan (enumerate 0 (vs @ w # ws)) (dc_value c, 0) =
      ?scan (enumerate (Suc (length vs)) ws) (Some b, Suc (length vs))"
    using plain ow base
    by (simp add: enumerate_append_eq rfold_append replay_scan_none) (simp add: replay_scan_def)
  show ?thesis
  proof (cases "?scan (enumerate 0 ws) (Some b, 0)")
    case (Inl e)
    then have "ws \<noteq> []" by auto
    with Inl pre show ?thesis
      by (simp add: dc_replay_writes_def rfold_replay_shift)
  next
    case (Inr st)
    obtain b' k where "st = (b', k)" by (cases st)
    moreover have "drop (k + Suc (length vs)) (vs @ w # ws) = drop k ws" by simp
    ultimately show ?thesis
      using Inr pre by (cases "ws = []")
        (auto simp: dc_replay_writes_def rfold_replay_shift Let_def simp del: drop_append
          split: option.split)
  qed
qed

subsection \<open>Batching-invariant reducers\<close>

text \<open>
  What \<open>DeltaChannel\<close> demands of a reducer: applying two batches one after the other is
  applying their concatenation. \<open>ok\<close> are the states the demand is made on.
\<close>

locale batching_reducer =
  fixes reducer :: "val \<Rightarrow> val list \<Rightarrow> val res"
    and ok :: "val \<Rightarrow> bool"
  assumes reduce_ok: "ok s \<Longrightarrow> reducer s xs = Inr s' \<Longrightarrow> ok s'"
    and batching: "ok s \<Longrightarrow> reducer s xs = Inr s1 \<Longrightarrow> reducer s1 ys = Inr s2 \<Longrightarrow>
      reducer s (xs @ ys) = Inr s2"
begin

text \<open>One step of a live channel, dropping the flag.\<close>

lemma replay_batches:
  assumes "dc_reducer c = reducer" and "dc_value c = Some s" and "ok s"
    and "\<forall>b \<in> set batches. \<forall>v \<in> set b. get_overwrite v = None"
    and "rfold (\<lambda>b d. rbind (dc_update d b) (\<lambda>(d', _). Inr d')) batches c = Inr c'"
  shows "dc_replay_writes c (concat batches) = Inr c'"
  using assms
proof (induction batches arbitrary: c s)
  case Nil
  then show ?case by (simp add: dc_replay_writes_def)
next
  case (Cons b bs)
  show ?case
  proof (cases "b = []")
    case True
    with Cons.prems(5) have "rfold (\<lambda>b d. rbind (dc_update d b) (\<lambda>(d', _). Inr d')) bs c = Inr c'"
      by (simp add: dc_update_def)
    with Cons.IH [of c s] Cons.prems(1-4) True show ?thesis by simp
  next
    case False
    have plain: "\<forall>v \<in> set b. get_overwrite v = None" using Cons.prems(4) by simp
    from Cons.prems(5) obtain s1 where red: "reducer s b = Inr s1"
      and rest: "rfold (\<lambda>b d. rbind (dc_update d b) (\<lambda>(d', _). Inr d')) bs
        (c\<lparr>dc_value := Some s1\<rparr>) = Inr c'"
      by (auto simp: dc_update_plain [OF False plain Cons.prems(2)] Cons.prems(1) rbind_Inr_iff)
    have ok1: "ok s1" by (rule reduce_ok [OF Cons.prems(3) red])
    have IH: "dc_replay_writes (c\<lparr>dc_value := Some s1\<rparr>) (concat bs) = Inr c'"
      by (rule Cons.IH [OF _ _ ok1 _ rest]) (use Cons.prems(1,4) in auto)
    show ?thesis
    proof (cases "concat bs = []")
      case True
      with IH have "c' = c\<lparr>dc_value := Some s1\<rparr>" by (simp add: dc_replay_writes_def)
      moreover have cb: "concat (b # bs) = b" using True by (simp del: concat_eq_Nil_conv)
      ultimately show ?thesis
        unfolding cb using dc_replay_plain [OF False plain Cons.prems(2)] red Cons.prems(1) by simp
    next
      case ne: False
      have all: "\<forall>v \<in> set (concat bs). get_overwrite v = None" using Cons.prems(4) by auto
      from IH obtain s2 where red2: "reducer s1 (concat bs) = Inr s2"
        and c': "c' = c\<lparr>dc_value := Some s2\<rparr>"
        by (auto simp: dc_replay_plain [OF ne all, of _ s1] Cons.prems(1) rbind_Inr_iff)
      have "reducer s (b @ concat bs) = Inr s2"
        by (rule batching [OF Cons.prems(3) red red2])
      moreover have "b @ concat bs \<noteq> []" and "\<forall>v \<in> set (b @ concat bs). get_overwrite v = None"
        using False plain all by auto
      ultimately show ?thesis
        using dc_replay_plain [of "b @ concat bs" c s] Cons.prems(1,2) c' by simp
    qed
  qed
qed

end

end
