(* ===== verification/Messages.thy ===== *)
theory Messages
  imports Channels_Barrier Channels_Reduce
begin

section \<open>Message reducers (graph/message.py)\<close>

text \<open>
  Messages are values \<open>VMsg id remove content\<close>; \<open>remove\<close> tells a \<open>RemoveMessage\<close>. The
  library's \<open>convert_to_messages\<close> (with \<open>message_chunk_to_message\<close> in \<open>add_messages\<close>) is
  the parameter \<open>conv\<close>, the source of fresh UUIDs the parameter \<open>uuid\<close>, and the OpenAI
  formatting the parameter \<open>fmt\<close>.
\<close>

fun is_msg :: "val \<Rightarrow> bool" where
  "is_msg (VMsg _ _ _) = True"
| "is_msg _ = False"

fun msg_id :: "val \<Rightarrow> string option" where
  "msg_id (VMsg i _ _) = i"
| "msg_id _ = None"

fun is_remove :: "val \<Rightarrow> bool" where
  "is_remove (VMsg _ r _) = r"
| "is_remove _ = False"

fun set_msg_id :: "string \<Rightarrow> val \<Rightarrow> val" where
  "set_msg_id i (VMsg _ r x) = VMsg (Some i) r x"
| "set_msg_id i v = v"

text \<open>\<open>{m.id: i for i, m in enumerate(ms) if m.id is not None}\<close>\<close>

definition id_index :: "val list \<Rightarrow> (string, nat) dict" where
  "id_index ms = dict_of (List.map_filter
     (\<lambda>(i, m). map_option (\<lambda>k. (k, i)) (msg_id m)) (enumerate 0 ms))"

subsection \<open>The batch reducer\<close>

definition delta_msg_step ::
  "val \<Rightarrow> val option list \<times> (string, nat) dict \<Rightarrow> val option list \<times> (string, nat) dict" where
  "delta_msg_step msg st = (case st of (result, index) \<Rightarrow>
     (case msg_id msg of
        None \<Rightarrow> (result @ [Some msg], index)
      | Some mid \<Rightarrow>
          if is_remove msg
          then (case dict_get index mid of
                  Some i \<Rightarrow> (result[i := None], AList.delete mid index)
                | None \<Rightarrow> (result, index))
          else (case dict_get index mid of
                  Some i \<Rightarrow> (result[i := Some msg], index)
                | None \<Rightarrow> (result @ [Some msg], dict_set mid (length result) index))))"

abbreviation live :: "val option list \<Rightarrow> val list" where
  "live result \<equiv> List.map_filter (\<lambda>x. x) result"

definition delta_msg_loop :: "val list \<Rightarrow> val list \<Rightarrow> val list" where
  "delta_msg_loop state_msgs msgs =
     live (fst (fold delta_msg_step msgs (map Some state_msgs, id_index state_msgs)))"

definition messages_delta_reducer :: "(val list \<Rightarrow> val list res) \<Rightarrow> val \<Rightarrow> val list \<Rightarrow> val res" where
  "messages_delta_reducer conv state writes =
     (case state of VList st \<Rightarrow>
        rbind (if st \<noteq> [] \<and> is_msg (hd st) then Inr st else conv st) (\<lambda>state_msgs.
        rbind (conv (flatten writes)) (\<lambda>msgs.
          if list_all is_msg state_msgs \<and> list_all is_msg msgs
          then Inr (VList (delta_msg_loop state_msgs msgs))
          else Inl AttributeError))
      | _ \<Rightarrow> Inl TypeError)"

subsection \<open>What one message does\<close>

definition apply_msg :: "val \<Rightarrow> val list \<Rightarrow> val list" where
  "apply_msg m xs = (case msg_id m of
     None \<Rightarrow> xs @ [m]
   | Some k \<Rightarrow>
       if is_remove m then filter (\<lambda>x. msg_id x \<noteq> Some k) xs
       else if \<exists>x \<in> set xs. msg_id x = Some k
       then map (\<lambda>x. if msg_id x = Some k then m else x) xs
       else xs @ [m])"

definition distinct_ids :: "val list \<Rightarrow> bool" where
  "distinct_ids xs \<longleftrightarrow> distinct (List.map_filter msg_id xs)"

lemma map_filter_append: "List.map_filter f (xs @ ys) = List.map_filter f xs @ List.map_filter f ys"
  by (induction xs) (auto simp: List.map_filter_simps split: option.splits)

lemma set_map_filter_id: "set (live r) = {m. Some m \<in> set r}"
  by (induction r) (auto simp: List.map_filter_simps split: option.splits)

lemma live_map_Some [simp]: "live (map Some xs) = xs"
  by (induction xs) (auto simp: List.map_filter_simps)

lemma live_snoc: "live (r @ [Some m]) = live r @ [m]"
  by (simp add: map_filter_append List.map_filter_simps)

text \<open>The index maps each identifier to the position of its message.\<close>

definition index_ok :: "val option list \<times> (string, nat) dict \<Rightarrow> bool" where
  "index_ok st \<longleftrightarrow> (case st of (result, index) \<Rightarrow>
     (\<forall>k i. dict_get index k = Some i \<longleftrightarrow>
        i < length result \<and> (\<exists>m. result ! i = Some m \<and> msg_id m = Some k)))"

lemma index_okD:
  "index_ok (result, index) \<Longrightarrow> dict_get index k = Some i \<Longrightarrow>
     i < length result \<and> (\<exists>m. result ! i = Some m \<and> msg_id m = Some k)"
  by (simp add: index_ok_def)

lemma index_okI:
  "index_ok (result, index) \<Longrightarrow> i < length result \<Longrightarrow> result ! i = Some m \<Longrightarrow> msg_id m = Some k \<Longrightarrow>
     dict_get index k = Some i"
  by (auto simp: index_ok_def)

lemma index_ok_absent:
  assumes "index_ok (result, index)" and "dict_get index k = None"
  shows "\<forall>x \<in> set (live result). msg_id x \<noteq> Some k"
  using assms by (fastforce simp: set_map_filter_id in_set_conv_nth dest: index_okI)

lemma index_ok_update_eq:
  assumes ok: "index_ok (result, index)" and i: "dict_get index k = Some i"
  shows "result[i := y] =
    map (\<lambda>z. case z of None \<Rightarrow> None | Some x \<Rightarrow> if msg_id x = Some k then y else Some x) result"
proof (rule nth_equalityI)
  fix j assume "j < length (result[i := y])"
  then have j: "j < length result" by simp
  have "i < length result" and "\<exists>m. result ! i = Some m \<and> msg_id m = Some k"
    using index_okD [OF ok i] by auto
  then show "result[i := y] ! j = map (\<lambda>z. case z of None \<Rightarrow> None
      | Some x \<Rightarrow> if msg_id x = Some k then y else Some x) result ! j"
    using j index_okI [OF ok j, of _ k] i
    by (cases "j = i") (auto split: option.split)
qed simp

lemma live_map_remove:
  "live (map (\<lambda>z. case z of None \<Rightarrow> None | Some x \<Rightarrow> if msg_id x = Some k then None else Some x) r) =
   filter (\<lambda>x. msg_id x \<noteq> Some k) (live r)"
  by (induction r) (auto simp: List.map_filter_simps split: option.splits)

lemma live_map_replace:
  "live (map (\<lambda>z. case z of None \<Rightarrow> None | Some x \<Rightarrow> if msg_id x = Some k then Some m else Some x) r) =
   map (\<lambda>x. if msg_id x = Some k then m else x) (live r)"
  by (induction r) (auto simp: List.map_filter_simps split: option.splits)

lemma live_remove:
  "index_ok (result, index) \<Longrightarrow> dict_get index k = Some i \<Longrightarrow>
     live (result[i := None]) = filter (\<lambda>x. msg_id x \<noteq> Some k) (live result)"
  by (simp add: index_ok_update_eq live_map_remove)

lemma live_replace:
  "index_ok (result, index) \<Longrightarrow> dict_get index k = Some i \<Longrightarrow>
     live (result[i := Some m]) = map (\<lambda>x. if msg_id x = Some k then m else x) (live result)"
  by (simp add: index_ok_update_eq live_map_replace)

lemma index_ok_append:
  assumes "index_ok (result, index)" and "msg_id m = None"
  shows "index_ok (result @ [Some m], index)"
  using assms by (auto simp: index_ok_def nth_append less_Suc_eq)

lemma index_ok_append_new:
  assumes "index_ok (result, index)" and "msg_id m = Some k" and "dict_get index k = None"
  shows "index_ok (result @ [Some m], dict_set k (length result) index)"
  using assms by (auto simp: index_ok_def nth_append less_Suc_eq) (metis option.distinct(1))+

lemma index_ok_remove:
  assumes ok: "index_ok (result, index)" and i: "dict_get index k = Some i"
  shows "index_ok (result[i := None], AList.delete k index)"
  unfolding index_ok_def prod.case
proof (intro allI)
  fix k' j
  have "dict_get (AList.delete k index) k' = (if k' = k then None else dict_get index k')"
    by (simp add: delete_conv')
  then show "dict_get (AList.delete k index) k' = Some j \<longleftrightarrow> j < length (result[i := None]) \<and>
      (\<exists>m. result[i := None] ! j = Some m \<and> msg_id m = Some k')"
    using index_okD [OF ok, of k' j] index_okI [OF ok, of j _ k'] index_okD [OF ok i] i
    by (cases "j = i") (auto simp: nth_list_update)
qed

lemma index_ok_replace:
  assumes ok: "index_ok (result, index)" and i: "dict_get index k = Some i" and m: "msg_id m = Some k"
  shows "index_ok (result[i := Some m], index)"
  unfolding index_ok_def prod.case
proof (intro allI)
  fix k' j
  show "dict_get index k' = Some j \<longleftrightarrow> j < length (result[i := Some m]) \<and>
      (\<exists>x. result[i := Some m] ! j = Some x \<and> msg_id x = Some k')"
    using index_okD [OF ok, of k' j] index_okI [OF ok, of j _ k'] index_okD [OF ok i] i m
    by (cases "j = i") (auto simp: nth_list_update)
qed

text \<open>One step of the loop is one step on the list of live messages.\<close>

lemma delta_msg_step_refines:
  assumes ok: "index_ok st"
  shows "index_ok (delta_msg_step m st)"
    and "live (fst (delta_msg_step m st)) = apply_msg m (live (fst st))"
proof -
  obtain result index where st: "st = (result, index)" by (cases st)
  note ok' = ok [unfolded st]
  have "index_ok (delta_msg_step m st) \<and>
      live (fst (delta_msg_step m st)) = apply_msg m (live (fst st))"
  proof (cases "msg_id m")
    case None
    then show ?thesis
      by (simp add: delta_msg_step_def st apply_msg_def live_snoc index_ok_append ok')
  next
    case (Some k)
    show ?thesis
    proof (cases "dict_get index k")
      case None
      note absent = index_ok_absent [OF ok' None]
      then have "filter (\<lambda>x. msg_id x \<noteq> Some k) (live result) = live result"
        by (simp add: filter_id_conv)
      then show ?thesis
        using Some None absent
        by (auto simp: delta_msg_step_def st apply_msg_def live_snoc ok' index_ok_append_new)
    next
      case i: (Some i)
      then obtain x where x: "Some x \<in> set result" "msg_id x = Some k"
        using index_okD [OF ok' i] by (metis nth_mem)
      then have ex: "\<exists>x \<in> set (live result). msg_id x = Some k"
        by (auto simp: set_map_filter_id)
      show ?thesis
        using Some i ex
        by (simp add: delta_msg_step_def st apply_msg_def index_ok_remove [OF ok' i]
            index_ok_replace [OF ok' i] live_remove [OF ok' i] live_replace [OF ok' i])
    qed
  qed
  then show "index_ok (delta_msg_step m st)"
    and "live (fst (delta_msg_step m st)) = apply_msg m (live (fst st))" by auto
qed

lemma delta_msg_fold_refines:
  "index_ok st \<Longrightarrow> index_ok (fold delta_msg_step msgs st) \<and>
     live (fst (fold delta_msg_step msgs st)) = fold apply_msg msgs (live (fst st))"
  by (induction msgs arbitrary: st) (simp_all add: delta_msg_step_refines)

text \<open>The index that the reducer starts from.\<close>

lemma id_index_get:
  "distinct_ids ms \<Longrightarrow> dict_get (id_index ms) k = Some i \<longleftrightarrow> i < length ms \<and> msg_id (ms ! i) = Some k"
proof -
  let ?f = "\<lambda>(i, m). map_option (\<lambda>k. (k, i)) (msg_id m)"
  have keys: "map fst (List.map_filter ?f (enumerate n ms)) = List.map_filter msg_id ms" for n
    by (induction ms arbitrary: n) (auto simp: List.map_filter_simps split: option.splits)
  have mem: "(k, i) \<in> set (List.map_filter ?f (enumerate n ms)) \<longleftrightarrow>
      n \<le> i \<and> i < n + length ms \<and> msg_id (ms ! (i - n)) = Some k" for n
  proof (induction ms arbitrary: n)
    case Nil
    then show ?case by (simp add: List.map_filter_simps)
  next
    case (Cons m ms)
    have "(k, i) \<in> set (List.map_filter ?f (enumerate n (m # ms))) \<longleftrightarrow>
        (msg_id m = Some k \<and> i = n) \<or> (k, i) \<in> set (List.map_filter ?f (enumerate (Suc n) ms))"
      by (auto simp: List.map_filter_simps split: option.splits)
    then show ?case
      unfolding Cons.IH by (cases "i = n") (auto simp: nth_Cons' Suc_diff_le)
  qed
  assume "distinct_ids ms"
  then have dist: "distinct (map fst (List.map_filter ?f (enumerate 0 ms)))"
    by (simp add: keys distinct_ids_def)
  have "dict_get (id_index ms) k = map_of (rev (List.map_filter ?f (enumerate 0 ms))) k"
    by (simp add: id_index_def dict_of_def dict_get_update split: option.split)
  then show "dict_get (id_index ms) k = Some i \<longleftrightarrow> i < length ms \<and> msg_id (ms ! i) = Some k"
    using dist mem [of 0] map_of_eq_Some_iff [of "rev (List.map_filter ?f (enumerate 0 ms))" k i]
    by (simp add: rev_map [symmetric])
qed

lemma index_ok_init: "distinct_ids ms \<Longrightarrow> index_ok (map Some ms, id_index ms)"
  by (auto simp: index_ok_def id_index_get)

lemma delta_msg_loop_eq:
  "distinct_ids ms \<Longrightarrow> delta_msg_loop ms msgs = fold apply_msg msgs ms"
  using delta_msg_fold_refines [OF index_ok_init, of ms msgs] by (simp add: delta_msg_loop_def)

subsection \<open>The reducer is batching-invariant on states without duplicate identifiers\<close>

lemma map_filter_filter_ids:
  "List.map_filter msg_id (filter (\<lambda>x. msg_id x \<noteq> Some k) xs) =
   filter (\<lambda>i. i \<noteq> k) (List.map_filter msg_id xs)"
  by (induction xs) (auto simp: List.map_filter_simps split: option.splits)

lemma map_filter_map_ids:
  "msg_id m = Some k \<Longrightarrow>
   List.map_filter msg_id (map (\<lambda>x. if msg_id x = Some k then m else x) xs) = List.map_filter msg_id xs"
  by (induction xs) (auto simp: List.map_filter_simps split: option.splits)

lemma set_ids: "set (List.map_filter msg_id xs) = {k. \<exists>x \<in> set xs. msg_id x = Some k}"
  by (induction xs) (auto simp: List.map_filter_simps split: option.splits)

lemma apply_msg_distinct: "distinct_ids xs \<Longrightarrow> distinct_ids (apply_msg m xs)"
  by (auto simp: apply_msg_def distinct_ids_def map_filter_filter_ids map_filter_map_ids
      map_filter_append set_ids List.map_filter_simps split: option.splits)

lemma apply_msgs_distinct: "distinct_ids xs \<Longrightarrow> distinct_ids (fold apply_msg ms xs)"
  by (induction ms arbitrary: xs) (simp_all add: apply_msg_distinct)

lemma apply_msg_is_msg: "list_all is_msg xs \<Longrightarrow> is_msg m \<Longrightarrow> list_all is_msg (apply_msg m xs)"
  by (auto simp: apply_msg_def list_all_iff split: option.splits)

lemma apply_msgs_is_msg:
  "list_all is_msg xs \<Longrightarrow> list_all is_msg ms \<Longrightarrow> list_all is_msg (fold apply_msg ms xs)"
  by (induction ms arbitrary: xs) (simp_all add: apply_msg_is_msg)

text \<open>
  The states the reducer is started from: typed messages with distinct identifiers, as its own
  results are.
\<close>

definition msg_state :: "val \<Rightarrow> bool" where
  "msg_state s \<longleftrightarrow> (\<exists>ms. s = VList ms \<and> list_all is_msg ms \<and> distinct_ids ms)"

text \<open>
  What is used of \<open>convert_to_messages\<close>: it converts element by element, so a concatenation
  converts to the concatenation of the results.
\<close>

definition conv_pointwise :: "(val list \<Rightarrow> val list res) \<Rightarrow> bool" where
  "conv_pointwise conv \<longleftrightarrow> conv [] = Inr [] \<and>
     (\<forall>xs ys a b. conv xs = Inr a \<longrightarrow> conv ys = Inr b \<longrightarrow> conv (xs @ ys) = Inr (a @ b))"

lemma messages_delta_reducer_eq:
  assumes "conv [] = Inr []" and "list_all is_msg ms" and "distinct_ids ms"
  shows "messages_delta_reducer conv (VList ms) ws = rbind (conv (flatten ws)) (\<lambda>msgs.
     if list_all is_msg msgs then Inr (VList (fold apply_msg msgs ms)) else Inl AttributeError)"
proof -
  have "(if ms \<noteq> [] \<and> is_msg (hd ms) then Inr ms else conv ms) = Inr ms"
    using assms(1,2) by (cases ms) auto
  then show ?thesis
    using assms(2,3) by (simp add: messages_delta_reducer_def delta_msg_loop_eq cong: if_cong)
qed

lemma messages_batching:
  assumes conv: "conv_pointwise conv"
  shows "batching_reducer (messages_delta_reducer conv) msg_state"
proof
  fix s xs s'
  assume "msg_state s" and red: "messages_delta_reducer conv s xs = Inr s'"
  then obtain ms where s: "s = VList ms" "list_all is_msg ms" "distinct_ids ms"
    by (auto simp: msg_state_def)
  with red conv show "msg_state s'"
    by (auto simp: messages_delta_reducer_eq conv_pointwise_def rbind_Inr_iff msg_state_def
        apply_msgs_is_msg apply_msgs_distinct split: if_splits)
next
  fix s xs s1 ys s2
  assume "msg_state s" and red1: "messages_delta_reducer conv s xs = Inr s1"
    and red2: "messages_delta_reducer conv s1 ys = Inr s2"
  then obtain ms where s: "s = VList ms" "list_all is_msg ms" "distinct_ids ms"
    by (auto simp: msg_state_def)
  have nil: "conv [] = Inr []" using conv by (simp add: conv_pointwise_def)
  from red1 obtain a where a: "conv (flatten xs) = Inr a" "list_all is_msg a"
    and s1: "s1 = VList (fold apply_msg a ms)"
    by (auto simp: s messages_delta_reducer_eq nil rbind_Inr_iff split: if_splits)
  have "list_all is_msg (fold apply_msg a ms)" and "distinct_ids (fold apply_msg a ms)"
    using s a by (simp_all add: apply_msgs_is_msg apply_msgs_distinct)
  with red2 obtain b where b: "conv (flatten ys) = Inr b" "list_all is_msg b"
    and s2: "s2 = VList (fold apply_msg b (fold apply_msg a ms))"
    by (auto simp: s1 messages_delta_reducer_eq nil rbind_Inr_iff split: if_splits)
  have "conv (flatten (xs @ ys)) = Inr (a @ b)"
    using conv a(1) b(1) by (auto simp: conv_pointwise_def flatten_append)
  then show "messages_delta_reducer conv s (xs @ ys) = Inr s2"
    using s a(2) b(2) by (simp add: messages_delta_reducer_eq nil s2)
qed

text \<open>Messages that are typed already pass the conversion unchanged.\<close>

interpretation typed_msgs: batching_reducer "messages_delta_reducer Inr" msg_state
  by (rule messages_batching) (simp add: conv_pointwise_def)

end
