(* ===== verification/Ids.thy ===== *)
theory Ids
  imports Prelude
begin

section \<open>Identifiers, versions and sort keys (checkpoint/base/id.py, pregel/_algo.py, memory saver)\<close>

text \<open>
  Tasks, checkpoints and channel versions are ordered by strings: the decimal numbers in them
  are padded with zeros so that the order of strings is the order of numbers. This theory models
  the formatting, the sort key of a task path, the ids made from a hash (the hash function is a
  parameter, it is code of another package), and the version numbers of the two savers. A HOL character is one byte, so a string stands for
  its UTF-8 encoding, whose order is the order of code points.
\<close>

subsection \<open>Formatting of integers\<close>

fun dec_digits :: "nat \<Rightarrow> nat list" where
  "dec_digits n = (if n < 10 then [n] else dec_digits (n div 10) @ [n mod 10])"

declare dec_digits.simps [simp del]

definition digit_char :: "nat \<Rightarrow> char" where
  "digit_char d = char_of (48 + d)"

definition nat_str :: "nat \<Rightarrow> string" where
  "nat_str n = map digit_char (dec_digits n)"

definition zpad :: "nat \<Rightarrow> string \<Rightarrow> string" where
  "zpad w s = replicate (w - length s) (CHR ''0'') @ s"

text \<open>\<open>str(i)\<close> and \<open>format(i, '0wd')\<close>: the sign comes before the padding.\<close>

definition int_str :: "int \<Rightarrow> string" where
  "int_str i = (if i < 0 then CHR ''-'' # nat_str (nat (- i)) else nat_str (nat i))"

definition int_fmt :: "nat \<Rightarrow> int \<Rightarrow> string" where
  "int_fmt w i = (if i < 0 then CHR ''-'' # zpad (w - 1) (nat_str (nat (- i)))
                  else zpad w (nat_str (nat i)))"

text \<open>\<open>int(s)\<close> on a decimal numeral with an optional sign; any other string is a \<open>ValueError\<close>
  (surrounding blanks and underscores, which Python also accepts, do not occur here).\<close>

definition is_digit :: "char \<Rightarrow> bool" where
  "is_digit c \<longleftrightarrow> 48 \<le> (of_char c :: nat) \<and> (of_char c :: nat) \<le> 57"

definition digits_val :: "string \<Rightarrow> nat" where
  "digits_val s = foldl (\<lambda>a c. 10 * a + (of_char c - 48)) 0 s"

definition parse_nat :: "string \<Rightarrow> nat res" where
  "parse_nat s = (if s \<noteq> [] \<and> list_all is_digit s then Inr (digits_val s) else Inl ValueError)"

fun parse_int :: "string \<Rightarrow> int res" where
  "parse_int [] = Inl ValueError"
| "parse_int (c # s) =
     (if c = CHR ''-'' then rbind (parse_nat s) (\<lambda>n. Inr (- int n))
      else if c = CHR ''+'' then rbind (parse_nat s) (\<lambda>n. Inr (int n))
      else rbind (parse_nat (c # s)) (\<lambda>n. Inr (int n)))"

subsection \<open>Digits of a fixed width\<close>

fun fixed_digits :: "nat \<Rightarrow> nat \<Rightarrow> nat list" where
  "fixed_digits 0 n = []"
| "fixed_digits (Suc w) n = fixed_digits w (n div 10) @ [n mod 10]"

lemma length_fixed_digits [simp]: "length (fixed_digits w n) = w"
  by (induction w arbitrary: n) auto

lemma fixed_digits_bound: "d \<in> set (fixed_digits w n) \<Longrightarrow> d < 10"
  by (induction w arbitrary: n) auto

lemma fixed_digits_0: "fixed_digits w 0 = replicate w 0"
  by (induction w) (auto simp flip: replicate_append_same)

lemma dec_digits_length: "n < 10 ^ w \<Longrightarrow> 0 < w \<Longrightarrow> length (dec_digits n) \<le> w"
proof (induction w arbitrary: n)
  case 0
  then show ?case by simp
next
  case (Suc w)
  show ?case
  proof (cases "n < 10")
    case True
    then show ?thesis by (simp add: dec_digits.simps)
  next
    case False
    then have "0 < w" using Suc.prems by (cases w) auto
    moreover have "n div 10 < 10 ^ w" using Suc.prems by (simp add: less_mult_imp_div_less mult.commute)
    ultimately show ?thesis using Suc.IH [of "n div 10"] False by (simp add: dec_digits.simps [of n])
  qed
qed

lemma fixed_digits_dec:
  "n < 10 ^ w \<Longrightarrow> 0 < w \<Longrightarrow> fixed_digits w n = replicate (w - length (dec_digits n)) 0 @ dec_digits n"
proof (induction w arbitrary: n)
  case 0
  then show ?case by simp
next
  case (Suc w)
  show ?case
  proof (cases "n < 10")
    case True
    then show ?thesis by (simp add: dec_digits.simps fixed_digits_0)
  next
    case False
    then have w: "0 < w" using Suc.prems by (cases w) auto
    have "n div 10 < 10 ^ w" using Suc.prems by (simp add: less_mult_imp_div_less mult.commute)
    from Suc.IH [OF this w] show ?thesis using False by (simp add: dec_digits.simps [of n])
  qed
qed

lemma digit_char_0: "digit_char 0 = CHR ''0''"
  by code_simp

lemma of_digit_char: "d < 10 \<Longrightarrow> (of_char (digit_char d) :: nat) = 48 + d"
  by (simp add: digit_char_def)

lemma zpad_fixed:
  "n < 10 ^ w \<Longrightarrow> 0 < w \<Longrightarrow> zpad w (nat_str n) = map digit_char (fixed_digits w n)"
  by (simp add: zpad_def nat_str_def fixed_digits_dec digit_char_0)

lemma length_zpad: "n < 10 ^ w \<Longrightarrow> 0 < w \<Longrightarrow> length (zpad w (nat_str n)) = w"
  by (simp add: zpad_fixed)

subsection \<open>The order of padded numbers\<close>

lemma lex_append_less:
  fixes xs ys :: "('a :: linorder) list"
  shows "length xs = length ys \<Longrightarrow> xs < ys \<Longrightarrow> xs @ u < ys @ v"
  by (induction xs ys rule: list_induct2) auto

lemma lex_append_left:
  fixes xs u v :: "('a :: linorder) list"
  shows "xs @ u < xs @ v \<longleftrightarrow> u < v"
  by (induction xs) auto

lemma digit_char_less: "a < b \<Longrightarrow> b < 10 \<Longrightarrow> digit_char a < digit_char b"
  by (simp add: less_char_def digit_char_def)

lemma fixed_digits_less:
  "a < b \<Longrightarrow> b < 10 ^ w \<Longrightarrow> map digit_char (fixed_digits w a) < map digit_char (fixed_digits w b)"
proof (induction w arbitrary: a b)
  case 0
  then show ?case by simp
next
  case (Suc w)
  have "b div 10 < 10 ^ w" using Suc.prems by (simp add: less_mult_imp_div_less mult.commute)
  consider "a div 10 < b div 10" | "a div 10 = b div 10" "a mod 10 < b mod 10"
    using Suc.prems(1) by (metis div_le_mono div_mult_mod_eq leI less_imp_le nat_add_left_cancel_less
        le_neq_implies_less order.asym)
  then show ?case
  proof cases
    case 1
    then show ?thesis using Suc.IH [OF 1 \<open>b div 10 < 10 ^ w\<close>] by (simp add: lex_append_less)
  next
    case 2
    then show ?thesis by (simp add: lex_append_left digit_char_less)
  qed
qed

lemma zpad_less:
  assumes "a < b" "b < 10 ^ w" "0 < w"
  shows "zpad w (nat_str a) < zpad w (nat_str b)"
  using assms fixed_digits_less [of a b w] by (simp add: zpad_fixed)

lemma zpad_append_less:
  assumes "a < b" "b < 10 ^ w" "0 < w"
  shows "zpad w (nat_str a) @ u < zpad w (nat_str b) @ v"
  using zpad_less [OF assms] assms by (simp add: lex_append_less length_zpad)

subsection \<open>Reading a number back\<close>

lemma digits_val_append: "digits_val (xs @ [c]) = 10 * digits_val xs + (of_char c - 48)"
  by (simp add: digits_val_def)

lemma digits_val_fixed: "n < 10 ^ w \<Longrightarrow> digits_val (map digit_char (fixed_digits w n)) = n"
proof (induction w arbitrary: n)
  case 0
  then show ?case by (simp add: digits_val_def)
next
  case (Suc w)
  have "n div 10 < 10 ^ w" using Suc.prems by (simp add: less_mult_imp_div_less mult.commute)
  from Suc.IH [OF this] show ?case by (simp add: digits_val_append of_digit_char)
qed

lemma is_digit_char: "d < 10 \<Longrightarrow> is_digit (digit_char d)"
  by (simp add: is_digit_def of_digit_char)

lemma fixed_all_digits: "list_all is_digit (map digit_char (fixed_digits w n))"
  using fixed_digits_bound by (auto simp: list_all_iff is_digit_char)

lemma digit_not_sign: "is_digit c \<Longrightarrow> c \<noteq> CHR ''-'' \<and> c \<noteq> CHR ''+'' \<and> c \<noteq> CHR ''.''"
  by (auto simp: is_digit_def)

lemma parse_int_zpad:
  assumes "n < 10 ^ w" "0 < w"
  shows "parse_int (zpad w (nat_str n)) = Inr (int n)"
proof -
  let ?s = "map digit_char (fixed_digits w n)"
  have ne: "?s \<noteq> []" using assms length_fixed_digits [of w n] by (metis length_0_conv length_map less_numeral_extra(3))
  then obtain c s where cs: "?s = c # s" by (cases ?s) auto
  have "list_all is_digit (c # s)" using fixed_all_digits [of w n] cs by simp
  then have "is_digit c" by simp
  then have "parse_int (c # s) = rbind (parse_nat (c # s)) (\<lambda>n. Inr (int n))"
    using digit_not_sign [of c] by simp
  also have "parse_nat (c # s) = Inr n"
    using \<open>list_all is_digit (c # s)\<close> digits_val_fixed [OF assms(1)] cs by (simp add: parse_nat_def)
  finally show ?thesis using assms cs by (simp add: zpad_fixed)
qed

subsection \<open>The sort key of a task\<close>

text \<open>A task path is a tuple of names, numbers, flags (which Python formats as numbers) and
  nested paths.\<close>

datatype path = PStr string | PInt int | PBool bool | PTup "path list"

text \<open>\<open>sep.join(xs)\<close> and \<open>s.split(sep)\<close>.\<close>

fun split_on :: "char \<Rightarrow> string \<Rightarrow> string list" where
  "split_on sep [] = [[]]"
| "split_on sep (c # s) =
     (if c = sep then [] # split_on sep s
      else (case split_on sep s of [] \<Rightarrow> [[c]] | p # ps \<Rightarrow> (c # p) # ps))"

definition join :: "string \<Rightarrow> string list \<Rightarrow> string" where
  "join sep xs = (case xs of [] \<Rightarrow> [] | y # ys \<Rightarrow> y @ concat (map ((@) sep) ys))"

fun task_path_str :: "path \<Rightarrow> string" where
  "task_path_str (PTup xs) = CHR ''~'' # join '', '' (map task_path_str xs)"
| "task_path_str (PInt i) = int_fmt 10 i"
| "task_path_str (PBool b) = int_fmt 10 (if b then 1 else 0)"
| "task_path_str (PStr s) = s"

lemma int_fmt_nat: "int_fmt w (int n) = zpad w (nat_str n)"
  by (simp add: int_fmt_def)

lemma join_two: "join sep [x, y] = x @ sep @ y"
  by (simp add: join_def)

lemma join_prefix: "join sep (x # y # zs) = x @ sep @ y @ concat (map ((@) sep) zs)"
  by (simp add: join_def)

lemma task_path_str_numeric:
  assumes "a < b" "b < 10 ^ 10"
  shows "task_path_str (PTup (PStr s # PInt (int a) # us)) < task_path_str (PTup (PStr s # PInt (int b) # vs))"
  using zpad_append_less [OF assms, simplified]
  by (simp add: join_prefix int_fmt_nat lex_append_left)

subsection \<open>Ids from a hash\<close>

text \<open>\<open>sha1\<close> and \<open>xxh3_128_hexdigest\<close> are the parameter \<open>hexdigest\<close>; the ids are its first 32
  digits in the groups of a UUID.\<close>

definition uuid_groups :: "string \<Rightarrow> string" where
  "uuid_groups hex = take 8 hex @ ''-'' @ take 4 (drop 8 hex) @ ''-'' @ take 4 (drop 12 hex)
     @ ''-'' @ take 4 (drop 16 hex) @ ''-'' @ take 12 (drop 20 hex)"

definition uuid5_str :: "(string \<Rightarrow> string) \<Rightarrow> string \<Rightarrow> string list \<Rightarrow> string" where
  "uuid5_str hexdigest namespace parts = uuid_groups (hexdigest (namespace @ concat parts))"

definition xxhash_str :: "(string \<Rightarrow> string) \<Rightarrow> string \<Rightarrow> string list \<Rightarrow> string" where
  "xxhash_str hexdigest namespace parts = uuid_groups (hexdigest (namespace @ concat parts))"

text \<open>The groups keep all 32 digits, so distinct digests give distinct ids.\<close>

definition ungroup :: "string \<Rightarrow> string" where
  "ungroup s = take 8 s @ take 4 (drop 9 s) @ take 4 (drop 14 s) @ take 4 (drop 19 s) @ drop 24 s"

lemma ungroup_groups: "length h = 32 \<Longrightarrow> ungroup (uuid_groups h) = h"
proof -
  assume l: "length h = 32"
  have "take 12 h = take 8 h @ take 4 (drop 8 h)" using take_add [of 8 4 h] by simp
  moreover have "take 16 h = take 12 h @ take 4 (drop 12 h)" using take_add [of 12 4 h] by simp
  moreover have "take 20 h = take 16 h @ take 4 (drop 16 h)" using take_add [of 16 4 h] by simp
  moreover have "h = take 20 h @ drop 20 h" by simp
  ultimately have "h = take 8 h @ take 4 (drop 8 h) @ take 4 (drop 12 h) @ take 4 (drop 16 h) @ drop 20 h"
    by (metis append.assoc)
  then show ?thesis using l by (simp add: ungroup_def uuid_groups_def)
qed

lemma uuid_groups_eq_iff:
  "length h = 32 \<Longrightarrow> length h' = 32 \<Longrightarrow> uuid_groups h = uuid_groups h' \<longleftrightarrow> h = h'"
  by (metis ungroup_groups)

subsection \<open>Channel versions\<close>

text \<open>Versions are whole numbers or strings (fractional numbers, which a saver may also use, are
  left out). Comparing a number with a string raises in Python; no saver mixes them in one
  checkpoint, and the order below puts numbers first.\<close>

datatype version = IVer int | SVer string

instantiation version :: linorder
begin

fun less_eq_version :: "version \<Rightarrow> version \<Rightarrow> bool" where
  "less_eq_version (IVer a) (IVer b) = (a \<le> b)"
| "less_eq_version (IVer _) (SVer _) = True"
| "less_eq_version (SVer _) (IVer _) = False"
| "less_eq_version (SVer s) (SVer t) = (s \<le> t)"

definition less_version :: "version \<Rightarrow> version \<Rightarrow> bool" where
  "less_version a b \<longleftrightarrow> a \<le> b \<and> \<not> b \<le> (a :: version)"

instance
proof
  fix x y z :: version
  show "x < y \<longleftrightarrow> x \<le> y \<and> \<not> y \<le> x" by (rule less_version_def)
  show "x \<le> x" by (cases x) auto
  show "x \<le> y \<Longrightarrow> y \<le> z \<Longrightarrow> x \<le> z" by (cases x; cases y; cases z) auto
  show "x \<le> y \<Longrightarrow> y \<le> x \<Longrightarrow> x = y" by (cases x; cases y) auto
  show "x \<le> y \<or> y \<le> x" by (cases x; cases y) auto
qed

end

lemma less_version_simps [simp]:
  "IVer a < IVer b \<longleftrightarrow> a < b" "IVer a < SVer t" "\<not> SVer s < IVer b" "SVer s < SVer t \<longleftrightarrow> s < t"
  by (auto simp: less_version_def)

text \<open>The default of \<open>BaseCheckpointSaver\<close> counts; the in-memory saver pads the counter and adds
  a random part, the text \<open>rand\<close> here.\<close>

fun base_get_next_version :: "version option \<Rightarrow> version res" where
  "base_get_next_version (Some (SVer _)) = Inl NotImplementedError"
| "base_get_next_version None = Inr (IVer 1)"
| "base_get_next_version (Some (IVer i)) = Inr (IVer (i + 1))"

definition mem_get_next_version :: "string \<Rightarrow> version option \<Rightarrow> version res" where
  "mem_get_next_version rand current =
     rbind (case current of
              None \<Rightarrow> Inr 0
            | Some (IVer i) \<Rightarrow> Inr i
            | Some (SVer s) \<Rightarrow> parse_int (takeWhile (\<lambda>c. c \<noteq> CHR ''.'') s))
       (\<lambda>current_v. Inr (SVer (int_fmt 32 (current_v + 1) @ ''.'' @ rand)))"

text \<open>What the algorithm asks of \<open>get_next_version\<close>: the next version is larger. \<open>room k v\<close>
  says that \<open>k\<close> more versions can be drawn after \<open>v\<close>.\<close>

locale version_source =
  fixes nextv :: "('v :: linorder) option \<Rightarrow> 'v res"
    and room :: "nat \<Rightarrow> 'v \<Rightarrow> bool"
  assumes next_larger: "room (Suc k) v \<Longrightarrow> \<exists>w. nextv (Some v) = Inr w \<and> v < w \<and> room k w"
begin

fun draw :: "nat \<Rightarrow> 'v \<Rightarrow> 'v list res" where
  "draw 0 v = Inr []"
| "draw (Suc k) v = rbind (nextv (Some v)) (\<lambda>w. rbind (draw k w) (\<lambda>ws. Inr (w # ws)))"

text \<open>Versions drawn one after the other are strictly increasing and all larger than the first.\<close>

lemma draw_increasing:
  "room k v \<Longrightarrow> \<exists>ws. draw k v = Inr ws \<and> length ws = k \<and> sorted_wrt (<) (v # ws)"
proof (induction k arbitrary: v)
  case 0
  then show ?case by simp
next
  case (Suc k)
  from next_larger [OF Suc.prems] obtain w where w: "nextv (Some v) = Inr w" "v < w" "room k w" by blast
  from Suc.IH [OF w(3)] obtain ws where ws: "draw k w = Inr ws" "length ws = k" "sorted_wrt (<) (w # ws)"
    by blast
  have "sorted_wrt (<) (v # w # ws)" using ws(3) w(2) by auto
  then show ?case using w ws by auto
qed

lemma next_neq: "room (Suc k) v \<Longrightarrow> nextv (Some v) = Inr w \<Longrightarrow> w \<noteq> v"
  using next_larger [of k v] by auto

end

fun int_room :: "nat \<Rightarrow> version \<Rightarrow> bool" where
  "int_room k (IVer _) = True"
| "int_room k (SVer _) = False"

text \<open>A version of the in-memory saver whose counter is \<open>n\<close>.\<close>

definition mem_version :: "nat \<Rightarrow> string \<Rightarrow> version" where
  "mem_version n rand = SVer (zpad 32 (nat_str n) @ ''.'' @ rand)"

definition mem_room :: "nat \<Rightarrow> version \<Rightarrow> bool" where
  "mem_room k v \<longleftrightarrow> (\<exists>n r. v = mem_version n r \<and> n + k < 10 ^ 32)"

lemma mem_next_version:
  assumes "n < 10 ^ 32"
  shows "mem_get_next_version rand (Some (mem_version n r)) = Inr (mem_version (n + 1) rand)"
proof -
  have d: "list_all is_digit (zpad 32 (nat_str n))"
    using assms fixed_all_digits by (simp add: zpad_fixed)
  then have "\<forall>c\<in>set (zpad 32 (nat_str n)). c \<noteq> CHR ''.''"
    using digit_not_sign by (auto simp: list_all_iff)
  then have "takeWhile (\<lambda>c. c \<noteq> CHR ''.'') (zpad 32 (nat_str n) @ ''.'' @ r) = zpad 32 (nat_str n)"
    by (simp add: takeWhile_append)
  then show ?thesis
    using assms int_fmt_nat [of 32 "n + 1"] parse_int_zpad [of n 32]
    by (simp add: mem_get_next_version_def mem_version_def algebra_simps)
qed

lemma mem_next_version_none: "mem_get_next_version rand None = Inr (mem_version 1 rand)"
  using int_fmt_nat [of 32 1] by (simp add: mem_get_next_version_def mem_version_def)

interpretation base_versions: version_source base_get_next_version int_room
proof
  fix k v assume "int_room (Suc k) v"
  then show "\<exists>w. base_get_next_version (Some v) = Inr w \<and> v < w \<and> int_room k w"
    by (cases v) auto
qed

interpretation mem_versions: version_source "mem_get_next_version rand" mem_room for rand
proof
  fix k v assume "mem_room (Suc k) v"
  then obtain n r where v: "v = mem_version n r" "n + Suc k < 10 ^ 32" by (auto simp: mem_room_def)
  have "mem_version n r < mem_version (n + 1) rand"
    using zpad_append_less [of n "n + 1" 32] v(2) by (simp add: mem_version_def)
  moreover have "mem_room k (mem_version (n + 1) rand)"
    unfolding mem_room_def using v(2) by (intro exI [of _ "n + 1"] exI [of _ rand]) simp
  ultimately show "\<exists>w. mem_get_next_version rand (Some v) = Inr w \<and> v < w \<and> mem_room k w"
    using mem_next_version [of n rand r] v by auto
qed

end
