(* ===== verification/Uuid6.thy ===== *)
theory Uuid6
  imports Ids
begin

section \<open>Time-ordered UUIDs (checkpoint/base/id.py)\<close>

text \<open>
  A checkpoint id is a version 6 UUID: the timestamp in steps of 100 ns in its high bits, then the
  clock sequence and the node. Python's integers are unbounded, so the layout is computed on
  \<open>int\<close> with the operators of the source. The clock and the random source are arguments; the
  module variable \<open>_last_v6_timestamp\<close> is state that is passed in and returned.
\<close>

unbundle bit_operations_syntax

definition uuid_of_int :: "int \<Rightarrow> int option \<Rightarrow> int res" where
  "uuid_of_int i version =
     (if \<not> (0 \<le> i \<and> i < push_bit 128 1) then Inl ValueError
      else case version of
        None \<Rightarrow> Inr i
      | Some ver \<Rightarrow>
          if \<not> (6 \<le> ver \<and> ver \<le> 8) then Inl ValueError
          else
            let i = i AND NOT (push_bit 48 0xC000);
                i = i OR push_bit 48 0x8000;
                i = i AND NOT (push_bit 64 0xF000);
                i = i OR push_bit 76 ver
            in Inr i)"

definition uuid6_fields :: "int \<Rightarrow> int \<Rightarrow> int \<Rightarrow> int" where
  "uuid6_fields timestamp clock_seq node =
     (let time_high_and_time_mid = (drop_bit 12 timestamp) AND 0xFFFFFFFFFFFF;
          time_low_and_version = timestamp AND 0x0FFF;
          i = push_bit 80 time_high_and_time_mid;
          i = i OR push_bit 64 time_low_and_version;
          i = i OR push_bit 48 (clock_seq AND 0x3FFF)
      in i OR (node AND 0xFFFFFFFFFFFF))"

definition next_timestamp :: "int option \<Rightarrow> int \<Rightarrow> int" where
  "next_timestamp last_ts nanoseconds =
     (let timestamp = nanoseconds div 100 + 0x01B21DD213814000
      in case last_ts of
           None \<Rightarrow> timestamp
         | Some t \<Rightarrow> if timestamp \<le> t then t + 1 else timestamp)"

text \<open>\<open>rand14\<close> and \<open>rand48\<close> are what \<open>random.getrandbits\<close> gives in this call.\<close>

definition uuid6 ::
  "int \<Rightarrow> int \<Rightarrow> int \<Rightarrow> int option \<Rightarrow> int option \<Rightarrow> int option \<Rightarrow> int res \<times> int option" where
  "uuid6 nanoseconds rand14 rand48 node clock_seq last_ts =
     (let timestamp = next_timestamp last_ts nanoseconds;
          clock_seq = (case clock_seq of None \<Rightarrow> rand14 | Some c \<Rightarrow> c);
          node = (case node of None \<Rightarrow> rand48 | Some n \<Rightarrow> n)
      in (uuid_of_int (uuid6_fields timestamp clock_seq node) (Some 6), Some timestamp))"

text \<open>The timestamp of a version 6 UUID, from the fields of its standard layout.\<close>

definition uuid_time_low :: "int \<Rightarrow> int" where
  "uuid_time_low u = drop_bit 96 u"

definition uuid_time_mid :: "int \<Rightarrow> int" where
  "uuid_time_mid u = drop_bit 80 u AND 0xFFFF"

definition uuid_time_hi_version :: "int \<Rightarrow> int" where
  "uuid_time_hi_version u = drop_bit 64 u AND 0xFFFF"

definition uuid6_time :: "int \<Rightarrow> int" where
  "uuid6_time u = push_bit 28 (uuid_time_low u) OR push_bit 12 (uuid_time_mid u)
     OR (uuid_time_hi_version u AND 0x0FFF)"

subsection \<open>The layout\<close>

lemma and_masks:
  fixes x :: int
  shows "x AND 0xFFFFFFFFFFFF = take_bit 48 x" "x AND 0x0FFF = take_bit 12 x"
    "x AND 0x3FFF = take_bit 14 x" "x AND 0xFFFF = take_bit 16 x"
  by (simp_all add: take_bit_eq_mask mask_eq_exp_minus_1)

lemma bit_variant_mask: "bit (0xC000 :: int) k \<longleftrightarrow> k = 14 \<or> k = 15"
proof -
  have "(0xC000 :: int) = push_bit 14 (mask 2)" by (simp add: mask_eq_exp_minus_1 push_bit_eq_mult)
  then show ?thesis by (simp only: bit_push_bit_iff bit_mask_iff) auto
qed

lemma bit_version_mask: "bit (0xF000 :: int) k \<longleftrightarrow> 12 \<le> k \<and> k < 16"
proof -
  have "(0xF000 :: int) = push_bit 12 (mask 4)" by (simp add: mask_eq_exp_minus_1 push_bit_eq_mult)
  then show ?thesis by (simp only: bit_push_bit_iff bit_mask_iff) auto
qed

lemma bit_variant: "bit (0x8000 :: int) k \<longleftrightarrow> k = 15"
proof -
  have "(0x8000 :: int) = push_bit 15 1" by (simp add: push_bit_eq_mult)
  then show ?thesis by (simp only: bit_push_bit_iff bit_1_iff) auto
qed

lemma bit_six: "bit (6 :: int) k \<longleftrightarrow> k = 1 \<or> k = 2"
proof -
  have "(6 :: int) = push_bit 1 (mask 2)" by (simp add: mask_eq_exp_minus_1 push_bit_eq_mult)
  then show ?thesis by (simp only: bit_push_bit_iff bit_mask_iff) auto
qed

definition uuid6_int :: "int \<Rightarrow> int \<Rightarrow> int \<Rightarrow> int" where
  "uuid6_int t c n = ((uuid6_fields t c n AND NOT (push_bit 48 0xC000) OR push_bit 48 0x8000)
     AND NOT (push_bit 64 0xF000)) OR push_bit 76 6"

lemma uuid6_bit:
  "bit (uuid6_int t c n) k \<longleftrightarrow>
     (if k < 48 then bit n k
      else if k < 62 then bit c (k - 48)
      else if k < 64 then k = 63
      else if k < 76 then bit t (k - 64)
      else if k < 80 then k = 77 \<or> k = 78
      else k < 128 \<and> bit t (k - 68))"
  unfolding uuid6_int_def uuid6_fields_def Let_def and_masks bit_or_iff bit_and_iff bit_not_iff
    bit_push_bit_iff bit_take_bit_iff bit_drop_bit_eq bit_variant_mask bit_version_mask bit_variant
    bit_six comp_def
  by (auto simp: add.commute)

lemma uuid6_fields_range: "0 \<le> uuid6_fields t c n \<and> uuid6_fields t c n < 2 ^ 128"
proof -
  have "take_bit 128 (uuid6_fields t c n) = uuid6_fields t c n"
    by (rule bit_eqI) (auto simp: uuid6_fields_def Let_def and_masks bit_or_iff bit_push_bit_iff
        bit_take_bit_iff bit_drop_bit_eq)
  then show ?thesis by (simp add: take_bit_int_eq_self_iff)
qed

lemma uuid6_int_range: "0 \<le> uuid6_int t c n \<and> uuid6_int t c n < 2 ^ 128"
proof -
  have "take_bit 128 (uuid6_int t c n) = uuid6_int t c n"
    by (rule bit_eqI) (auto simp: bit_take_bit_iff uuid6_bit)
  then show ?thesis by (simp add: take_bit_int_eq_self_iff)
qed

lemma uuid_of_int_six: "uuid_of_int (uuid6_fields t c n) (Some 6) = Inr (uuid6_int t c n)"
  using uuid6_fields_range [of t c n]
  by (simp add: uuid_of_int_def uuid6_int_def Let_def push_bit_eq_mult)

lemma uuid6_top: "0 \<le> t \<Longrightarrow> t < 2 ^ 60 \<Longrightarrow> drop_bit 80 (uuid6_int t c n) = drop_bit 12 t"
proof (rule bit_eqI)
  fix k assume t: "0 \<le> t" "t < 2 ^ 60"
  then have "take_bit 60 t = t" by (simp add: take_bit_int_eq_self_iff)
  then have "bit t m \<Longrightarrow> m < 60" for m by (metis bit_take_bit_iff)
  from this [of "12 + k"] have "bit t (12 + k) \<Longrightarrow> k < 48" by simp
  then show "bit (drop_bit 80 (uuid6_int t c n)) k \<longleftrightarrow> bit (drop_bit 12 t) k"
    by (auto simp: bit_drop_bit_eq uuid6_bit)
qed

lemma uuid6_low: "take_bit 12 (drop_bit 64 (uuid6_int t c n)) = take_bit 12 t"
  by (rule bit_eqI) (auto simp: bit_take_bit_iff bit_drop_bit_eq uuid6_bit)

lemma uuid6_version: "take_bit 4 (drop_bit 76 (uuid6_int t c n)) = 6"
  by (rule bit_eqI) (auto simp: bit_take_bit_iff bit_drop_bit_eq uuid6_bit bit_six)

text \<open>The high half as a number.\<close>

lemma uuid6_high_half:
  assumes "0 \<le> t" "t < 2 ^ 60"
  shows "uuid6_int t c n div 2 ^ 64 = (t div 4096 * 16 + 6) * 4096 + t mod 4096"
proof -
  let ?u = "uuid6_int t c n"
  have a: "?u div 2 ^ 80 = t div 4096"
    using uuid6_top [OF assms, of c n] by (simp add: drop_bit_eq_div)
  have b: "?u div 2 ^ 76 mod 16 = 6" using uuid6_version [of t c n] by (simp add: drop_bit_eq_div take_bit_eq_mod)
  have c: "?u div 2 ^ 64 mod 4096 = t mod 4096"
    using uuid6_low [of t c n] by (simp add: drop_bit_eq_div take_bit_eq_mod)
  have "?u div 2 ^ 76 div 16 = ?u div 2 ^ 80" by (simp add: div_mult2_eq [symmetric])
  then have d: "?u div 2 ^ 76 = t div 4096 * 16 + 6" using a b by (metis div_mult_mod_eq)
  have "?u div 2 ^ 64 div 4096 = ?u div 2 ^ 76" by (simp add: div_mult2_eq [symmetric])
  then show ?thesis using c d by (metis div_mult_mod_eq)
qed

lemma uuid6_int_less:
  assumes "0 \<le> t" "t < t'" "t' < 2 ^ 60"
  shows "uuid6_int t c n < uuid6_int t' c' n'"
proof -
  have "uuid6_int t c n div 2 ^ 64 < uuid6_int t' c' n' div 2 ^ 64"
  proof -
    have le: "t div 4096 \<le> t' div 4096" using assms(2) by (simp add: zdiv_mono1)
    have m: "0 \<le> t' mod 4096" "t mod 4096 < 4096" by simp_all
    have eq: "t div 4096 = t' div 4096 \<Longrightarrow> t mod 4096 < t' mod 4096"
      using assms(2) div_mult_mod_eq [of t 4096] div_mult_mod_eq [of t' 4096] by linarith
    have "(t div 4096 * 16 + 6) * 4096 + t mod 4096 < (t' div 4096 * 16 + 6) * 4096 + t' mod 4096"
      using le eq m by (cases "t div 4096 = t' div 4096") auto
    then show ?thesis using assms uuid6_high_half [of t c n] uuid6_high_half [of t' c' n'] by simp
  qed
  then have "\<not> uuid6_int t' c' n' \<le> uuid6_int t c n"
    using zdiv_mono1 [of "uuid6_int t' c' n'" "uuid6_int t c n" "2 ^ 64"] by fastforce
  then show ?thesis by simp
qed

lemma uuid6_time_int:
  assumes "0 \<le> t" "t < 2 ^ 60"
  shows "uuid6_time (uuid6_int t c n) = t"
proof (rule bit_eqI)
  fix k
  have "take_bit 60 t = t" using assms by (simp add: take_bit_int_eq_self_iff)
  then have t: "bit t k \<Longrightarrow> k < 60" by (metis bit_take_bit_iff)
  consider "k < 12" | "12 \<le> k" "k < 28" | "28 \<le> k" by linarith
  then show "bit (uuid6_time (uuid6_int t c n)) k \<longleftrightarrow> bit t k"
    unfolding uuid6_time_def uuid_time_low_def uuid_time_mid_def uuid_time_hi_version_def and_masks
      bit_or_iff bit_push_bit_iff bit_take_bit_iff bit_drop_bit_eq comp_def uuid6_bit
    by cases (use t in auto)
qed

subsection \<open>A sequence of ids\<close>

text \<open>The calls of one process, each with its own clock reading and random bits.\<close>

type_synonym uuid_call = "int \<times> int \<times> int \<times> int option \<times> int option"

fun uuid6_calls :: "uuid_call list \<Rightarrow> int option \<Rightarrow> int res list" where
  "uuid6_calls [] last_ts = []"
| "uuid6_calls ((ns, r14, r48, node, cs) # calls) last_ts =
     (let (u, last') = uuid6 ns r14 r48 node cs last_ts in u # uuid6_calls calls last')"

text \<open>The clock can be read in every call so that the timestamps stay below 60 bits (until the
  year 5236), with a margin for the calls that arrive within one step of the clock.\<close>

definition clock_ok :: "uuid_call list \<Rightarrow> bool" where
  "clock_ok calls \<longleftrightarrow> (\<forall>(ns, _) \<in> set calls. 0 \<le> ns \<and> ns div 100 + 0x01B21DD213814000 + int (length calls) < 2 ^ 60)"

definition last_ok :: "nat \<Rightarrow> int option \<Rightarrow> bool" where
  "last_ok k last_ts \<longleftrightarrow> (case last_ts of None \<Rightarrow> True | Some t \<Rightarrow> 0 \<le> t \<and> t + int k < 2 ^ 60)"

lemma clock_ok_Cons:
  "clock_ok ((ns, r) # calls) \<Longrightarrow>
     clock_ok calls \<and> 0 \<le> ns \<and> ns div 100 + 0x01B21DD213814000 + int (length calls) + 1 < 2 ^ 60"
  by (force simp: clock_ok_def)

lemma next_timestamp_ok:
  assumes "clock_ok ((ns, r) # calls)" "last_ok (Suc (length calls)) last_ts"
  shows "0 \<le> next_timestamp last_ts ns \<and> next_timestamp last_ts ns + int (length calls) < 2 ^ 60
    \<and> (case last_ts of None \<Rightarrow> True | Some t \<Rightarrow> t < next_timestamp last_ts ns)"
  using clock_ok_Cons [OF assms(1)] assms(2)
  by (auto simp: next_timestamp_def last_ok_def Let_def split: option.splits)

lemma uuid6_result:
  "\<exists>c n. uuid6 ns r14 r48 node cs last_ts
     = (Inr (uuid6_int (next_timestamp last_ts ns) c n), Some (next_timestamp last_ts ns))"
  by (auto simp: uuid6_def Let_def uuid_of_int_six)

lemma uuid6_calls_sorted:
  assumes "clock_ok calls" "last_ok (length calls) last_ts"
  shows "\<exists>ids. uuid6_calls calls last_ts = map Inr ids \<and> sorted_wrt (<) ids
    \<and> (\<forall>t c n. last_ts = Some t \<longrightarrow> (\<forall>i\<in>set ids. uuid6_int t c n < i))"
  using assms
proof (induction calls arbitrary: last_ts)
  case Nil
  then show ?case by simp
next
  case (Cons call calls)
  obtain ns r14 r48 node cs where call: "call = (ns, r14, r48, node, cs)" by (cases call)
  let ?t = "next_timestamp last_ts ns"
  from uuid6_result obtain c n where u: "uuid6 ns r14 r48 node cs last_ts = (Inr (uuid6_int ?t c n), Some ?t)"
    by blast
  have t: "0 \<le> ?t" "?t + int (length calls) < 2 ^ 60"
    "case last_ts of None \<Rightarrow> True | Some t \<Rightarrow> t < ?t"
    using next_timestamp_ok [of ns "(r14, r48, node, cs)" calls last_ts] Cons.prems call by auto
  have "clock_ok calls" using Cons.prems(1) call clock_ok_Cons by blast
  moreover have "last_ok (length calls) (Some ?t)" using t by (simp add: last_ok_def)
  ultimately obtain ids where ids: "uuid6_calls calls (Some ?t) = map Inr ids" "sorted_wrt (<) ids"
    "\<forall>c n. \<forall>i\<in>set ids. uuid6_int ?t c n < i" using Cons.IH by blast
  have below: "uuid6_int t0 c0 n0 < uuid6_int ?t c' n'" if "last_ts = Some t0" for t0 c0 n0 c' n'
    using uuid6_int_less [of t0 ?t c0 n0 c' n'] t Cons.prems(2) that by (simp add: last_ok_def)
  have "sorted_wrt (<) (uuid6_int ?t c n # ids)" using ids by simp
  moreover have "\<forall>t0 c0 n0. last_ts = Some t0 \<longrightarrow> (\<forall>i\<in>set (uuid6_int ?t c n # ids). uuid6_int t0 c0 n0 < i)"
  proof (intro allI impI ballI)
    fix t0 c0 n0 i assume l: "last_ts = Some t0" and i: "i \<in> set (uuid6_int ?t c n # ids)"
    have b: "uuid6_int t0 c0 n0 < uuid6_int ?t c n" using below l by blast
    show "uuid6_int t0 c0 n0 < i"
    proof (cases "i = uuid6_int ?t c n")
      case False
      then have "uuid6_int ?t c n < i" using i ids(3) by simp
      then show ?thesis using b by simp
    qed (use b in simp)
  qed
  ultimately show ?case using call u ids(1)
    by (intro exI [of _ "uuid6_int ?t c n # ids"]) (simp add: Let_def)
qed

end
