(* ===== verification/Channels_Value.thy ===== *)
theory Channels_Value
  imports Channel_Contract
begin

section \<open>Channels that hold one value (last_value.py, any_value.py, ephemeral_value.py, untracked_value.py)\<close>

text \<open>
  One record per class, one definition per method. A method that mutates \<open>self\<close> returns the
  new record with the method's result; where it raises, the Python object is unchanged in
  these classes. The \<open>typ\<close> attribute and the two type properties carry no behaviour and are
  left out.
\<close>

subsection \<open>LastValue\<close>

record last_value =
  lv_key :: string
  lv_value :: "val option"

definition lv_init :: "string \<Rightarrow> last_value" where
  "lv_init key = \<lparr>lv_key = key, lv_value = None\<rparr>"

definition lv_copy :: "last_value \<Rightarrow> last_value" where
  "lv_copy c = (lv_init (lv_key c))\<lparr>lv_value := lv_value c\<rparr>"

definition lv_from_checkpoint :: "last_value \<Rightarrow> val option \<Rightarrow> last_value res" where
  "lv_from_checkpoint c ckpt =
     (let empty = lv_init (lv_key c)
      in case ckpt of None \<Rightarrow> Inr empty | Some v \<Rightarrow> Inr (empty\<lparr>lv_value := Some v\<rparr>))"

definition lv_update :: "last_value \<Rightarrow> val list \<Rightarrow> (last_value \<times> bool) res" where
  "lv_update c values =
     (if length values = 0 then Inr (c, False)
      else if length values \<noteq> 1 then Inl InvalidUpdateError
      else Inr (c\<lparr>lv_value := Some (last values)\<rparr>, True))"

definition lv_get :: "last_value \<Rightarrow> val res" where
  "lv_get c = (case lv_value c of None \<Rightarrow> Inl EmptyChannelError | Some v \<Rightarrow> Inr v)"

definition lv_is_available :: "last_value \<Rightarrow> bool" where
  "lv_is_available c \<longleftrightarrow> lv_value c \<noteq> None"

definition lv_checkpoint :: "last_value \<Rightarrow> val option" where
  "lv_checkpoint c = lv_value c"

lemmas lv_defs = lv_init_def lv_copy_def lv_from_checkpoint_def lv_update_def lv_get_def
  lv_is_available_def lv_checkpoint_def base_consume_def base_finish_def Let_def

interpretation lv: persistent_channel lv_get lv_is_available lv_update base_consume base_finish
  "\<lambda>_. True" lv_checkpoint lv_from_checkpoint
  by unfold_locales (auto simp: lv_defs split: option.splits if_splits)

subsection \<open>LastValueAfterFinish\<close>

record last_value_after_finish =
  lvf_key :: string
  lvf_value :: "val option"
  lvf_finished :: bool

definition lvf_init :: "string \<Rightarrow> last_value_after_finish" where
  "lvf_init key = \<lparr>lvf_key = key, lvf_value = None, lvf_finished = False\<rparr>"

definition lvf_checkpoint :: "last_value_after_finish \<Rightarrow> val option" where
  "lvf_checkpoint c = (case lvf_value c of None \<Rightarrow> None
     | Some v \<Rightarrow> Some (VTuple [v, VBool (lvf_finished c)]))"

definition lvf_from_checkpoint ::
  "last_value_after_finish \<Rightarrow> val option \<Rightarrow> last_value_after_finish res" where
  "lvf_from_checkpoint c ckpt =
     (let empty = (lvf_init [])\<lparr>lvf_key := lvf_key c\<rparr>
      in case ckpt of None \<Rightarrow> Inr empty
         | Some t \<Rightarrow> rbind (unpack2 t)
             (\<lambda>(v, f). Inr (empty\<lparr>lvf_value := Some v, lvf_finished := truthy f\<rparr>)))"

definition lvf_update ::
  "last_value_after_finish \<Rightarrow> val list \<Rightarrow> (last_value_after_finish \<times> bool) res" where
  "lvf_update c values =
     (if length values = 0 then Inr (c, False)
      else Inr (c\<lparr>lvf_finished := False, lvf_value := Some (last values)\<rparr>, True))"

definition lvf_consume :: "last_value_after_finish \<Rightarrow> last_value_after_finish \<times> bool" where
  "lvf_consume c =
     (if lvf_finished c then (c\<lparr>lvf_finished := False, lvf_value := None\<rparr>, True)
      else (c, False))"

definition lvf_finish :: "last_value_after_finish \<Rightarrow> last_value_after_finish \<times> bool" where
  "lvf_finish c =
     (if \<not> lvf_finished c \<and> lvf_value c \<noteq> None then (c\<lparr>lvf_finished := True\<rparr>, True)
      else (c, False))"

definition lvf_get :: "last_value_after_finish \<Rightarrow> val res" where
  "lvf_get c = (case lvf_value c of None \<Rightarrow> Inl EmptyChannelError
     | Some v \<Rightarrow> if \<not> lvf_finished c then Inl EmptyChannelError else Inr v)"

definition lvf_is_available :: "last_value_after_finish \<Rightarrow> bool" where
  "lvf_is_available c \<longleftrightarrow> lvf_value c \<noteq> None \<and> lvf_finished c"

text \<open>An empty channel is never finished, so \<open>MISSING\<close> is enough to restore it.\<close>

definition lvf_inv :: "last_value_after_finish \<Rightarrow> bool" where
  "lvf_inv c \<longleftrightarrow> (lvf_value c = None \<longrightarrow> \<not> lvf_finished c)"

lemmas lvf_defs = lvf_init_def lvf_checkpoint_def lvf_from_checkpoint_def lvf_update_def
  lvf_consume_def lvf_finish_def lvf_get_def lvf_is_available_def lvf_inv_def unpack2_def Let_def

interpretation lvf: persistent_channel lvf_get lvf_is_available lvf_update lvf_consume lvf_finish
  lvf_inv lvf_checkpoint lvf_from_checkpoint
  by unfold_locales (auto simp: lvf_defs split: option.splits if_splits)

subsection \<open>AnyValue\<close>

record any_value =
  av_key :: string
  av_value :: "val option"

definition av_init :: "string \<Rightarrow> any_value" where
  "av_init key = \<lparr>av_key = key, av_value = None\<rparr>"

definition av_copy :: "any_value \<Rightarrow> any_value" where
  "av_copy c = (av_init (av_key c))\<lparr>av_value := av_value c\<rparr>"

definition av_from_checkpoint :: "any_value \<Rightarrow> val option \<Rightarrow> any_value res" where
  "av_from_checkpoint c ckpt =
     (let empty = av_init (av_key c)
      in case ckpt of None \<Rightarrow> Inr empty | Some v \<Rightarrow> Inr (empty\<lparr>av_value := Some v\<rparr>))"

definition av_update :: "any_value \<Rightarrow> val list \<Rightarrow> (any_value \<times> bool) res" where
  "av_update c values =
     (if length values = 0
      then if av_value c = None then Inr (c, False) else Inr (c\<lparr>av_value := None\<rparr>, True)
      else Inr (c\<lparr>av_value := Some (last values)\<rparr>, True))"

definition av_get :: "any_value \<Rightarrow> val res" where
  "av_get c = (case av_value c of None \<Rightarrow> Inl EmptyChannelError | Some v \<Rightarrow> Inr v)"

definition av_is_available :: "any_value \<Rightarrow> bool" where
  "av_is_available c \<longleftrightarrow> av_value c \<noteq> None"

definition av_checkpoint :: "any_value \<Rightarrow> val option" where
  "av_checkpoint c = av_value c"

lemmas av_defs = av_init_def av_copy_def av_from_checkpoint_def av_update_def av_get_def
  av_is_available_def av_checkpoint_def base_consume_def base_finish_def Let_def

interpretation av: persistent_channel av_get av_is_available av_update base_consume base_finish
  "\<lambda>_. True" av_checkpoint av_from_checkpoint
  by unfold_locales (auto simp: av_defs split: option.splits if_splits)

subsection \<open>EphemeralValue\<close>

record ephemeral_value =
  ev_key :: string
  ev_value :: "val option"
  ev_guard :: bool

definition ev_init :: "bool \<Rightarrow> ephemeral_value" where
  "ev_init guard = \<lparr>ev_key = [], ev_value = None, ev_guard = guard\<rparr>"

definition ev_copy :: "ephemeral_value \<Rightarrow> ephemeral_value" where
  "ev_copy c = (ev_init (ev_guard c))\<lparr>ev_key := ev_key c, ev_value := ev_value c\<rparr>"

definition ev_from_checkpoint :: "ephemeral_value \<Rightarrow> val option \<Rightarrow> ephemeral_value res" where
  "ev_from_checkpoint c ckpt =
     (let empty = (ev_init (ev_guard c))\<lparr>ev_key := ev_key c\<rparr>
      in case ckpt of None \<Rightarrow> Inr empty | Some v \<Rightarrow> Inr (empty\<lparr>ev_value := Some v\<rparr>))"

definition ev_update :: "ephemeral_value \<Rightarrow> val list \<Rightarrow> (ephemeral_value \<times> bool) res" where
  "ev_update c values =
     (if length values = 0
      then if ev_value c \<noteq> None then Inr (c\<lparr>ev_value := None\<rparr>, True) else Inr (c, False)
      else if length values \<noteq> 1 \<and> ev_guard c then Inl InvalidUpdateError
      else Inr (c\<lparr>ev_value := Some (last values)\<rparr>, True))"

definition ev_get :: "ephemeral_value \<Rightarrow> val res" where
  "ev_get c = (case ev_value c of None \<Rightarrow> Inl EmptyChannelError | Some v \<Rightarrow> Inr v)"

definition ev_is_available :: "ephemeral_value \<Rightarrow> bool" where
  "ev_is_available c \<longleftrightarrow> ev_value c \<noteq> None"

definition ev_checkpoint :: "ephemeral_value \<Rightarrow> val option" where
  "ev_checkpoint c = ev_value c"

lemmas ev_defs = ev_init_def ev_copy_def ev_from_checkpoint_def ev_update_def ev_get_def
  ev_is_available_def ev_checkpoint_def base_consume_def base_finish_def Let_def

interpretation ev: persistent_channel ev_get ev_is_available ev_update base_consume base_finish
  "\<lambda>_. True" ev_checkpoint ev_from_checkpoint
  by unfold_locales (auto simp: ev_defs split: option.splits if_splits)

subsection \<open>UntrackedValue\<close>

record untracked_value =
  uv_key :: string
  uv_value :: "val option"
  uv_guard :: bool

definition uv_init :: "bool \<Rightarrow> untracked_value" where
  "uv_init guard = \<lparr>uv_key = [], uv_value = None, uv_guard = guard\<rparr>"

definition uv_copy :: "untracked_value \<Rightarrow> untracked_value" where
  "uv_copy c = (uv_init (uv_guard c))\<lparr>uv_key := uv_key c, uv_value := uv_value c\<rparr>"

definition uv_checkpoint :: "untracked_value \<Rightarrow> val option" where
  "uv_checkpoint c = None"

definition uv_from_checkpoint :: "untracked_value \<Rightarrow> val option \<Rightarrow> untracked_value res" where
  "uv_from_checkpoint c ckpt = Inr ((uv_init (uv_guard c))\<lparr>uv_key := uv_key c\<rparr>)"

definition uv_update :: "untracked_value \<Rightarrow> val list \<Rightarrow> (untracked_value \<times> bool) res" where
  "uv_update c values =
     (if length values = 0 then Inr (c, False)
      else if length values \<noteq> 1 \<and> uv_guard c then Inl InvalidUpdateError
      else Inr (c\<lparr>uv_value := Some (last values)\<rparr>, True))"

definition uv_get :: "untracked_value \<Rightarrow> val res" where
  "uv_get c = (case uv_value c of None \<Rightarrow> Inl EmptyChannelError | Some v \<Rightarrow> Inr v)"

definition uv_is_available :: "untracked_value \<Rightarrow> bool" where
  "uv_is_available c \<longleftrightarrow> uv_value c \<noteq> None"

lemmas uv_defs = uv_init_def uv_copy_def uv_from_checkpoint_def uv_update_def uv_get_def
  uv_is_available_def uv_checkpoint_def base_consume_def base_finish_def

interpretation uv: channel_contract uv_get uv_is_available uv_update base_consume base_finish
  "\<lambda>_. True"
  by unfold_locales (auto simp: uv_defs split: option.splits if_splits)

text \<open>Copies of these channels are equal to the original, untracked ones included.\<close>

lemma value_copies:
  "lv_copy lv = lv" "av_copy av = av" "ev_copy ev = ev" "uv_copy uv = uv"
  by (simp_all add: lv_defs av_defs ev_defs uv_defs)

end
