(* ===== verification/Channels.thy ===== *)
theory Channels
  imports Channels_Value Channels_Barrier Channels_Reduce
begin

section \<open>All channel classes together (channels/__init__.py)\<close>

text \<open>
  The Pregel algorithm handles channels through the interface of \<open>BaseChannel\<close>. A channel of
  any class is a value of the datatype \<open>channel\<close>, and a method call dispatches on the class,
  to the class's own method or to the default of the base class.
\<close>

datatype channel =
    LastValue last_value
  | LastValueAfterFinish last_value_after_finish
  | AnyValue any_value
  | EphemeralValue ephemeral_value
  | UntrackedValue untracked_value
  | Topic topic
  | BinaryOperatorAggregate binop
  | DeltaChannel delta
  | NamedBarrierValue barrier
  | NamedBarrierValueAfterFinish barrier_after_finish

fun ch_get :: "channel \<Rightarrow> val res" where
  "ch_get (LastValue c) = lv_get c"
| "ch_get (LastValueAfterFinish c) = lvf_get c"
| "ch_get (AnyValue c) = av_get c"
| "ch_get (EphemeralValue c) = ev_get c"
| "ch_get (UntrackedValue c) = uv_get c"
| "ch_get (Topic c) = tp_get c"
| "ch_get (BinaryOperatorAggregate c) = bo_get c"
| "ch_get (DeltaChannel c) = dc_get c"
| "ch_get (NamedBarrierValue c) = nb_get c"
| "ch_get (NamedBarrierValueAfterFinish c) = nbf_get c"

fun ch_is_available :: "channel \<Rightarrow> bool" where
  "ch_is_available (LastValue c) = lv_is_available c"
| "ch_is_available (LastValueAfterFinish c) = lvf_is_available c"
| "ch_is_available (AnyValue c) = av_is_available c"
| "ch_is_available (EphemeralValue c) = ev_is_available c"
| "ch_is_available (UntrackedValue c) = uv_is_available c"
| "ch_is_available (Topic c) = tp_is_available c"
| "ch_is_available (BinaryOperatorAggregate c) = bo_is_available c"
| "ch_is_available (DeltaChannel c) = dc_is_available c"
| "ch_is_available (NamedBarrierValue c) = nb_is_available c"
| "ch_is_available (NamedBarrierValueAfterFinish c) = nbf_is_available c"

fun ch_checkpoint :: "channel \<Rightarrow> val option" where
  "ch_checkpoint (LastValue c) = lv_checkpoint c"
| "ch_checkpoint (LastValueAfterFinish c) = lvf_checkpoint c"
| "ch_checkpoint (AnyValue c) = av_checkpoint c"
| "ch_checkpoint (EphemeralValue c) = ev_checkpoint c"
| "ch_checkpoint (UntrackedValue c) = uv_checkpoint c"
| "ch_checkpoint (Topic c) = tp_checkpoint c"
| "ch_checkpoint (BinaryOperatorAggregate c) = bo_checkpoint c"
| "ch_checkpoint (DeltaChannel c) = dc_checkpoint c"
| "ch_checkpoint (NamedBarrierValue c) = nb_checkpoint c"
| "ch_checkpoint (NamedBarrierValueAfterFinish c) = nbf_checkpoint c"

abbreviation as_channel :: "('a \<Rightarrow> channel) \<Rightarrow> 'a res \<Rightarrow> channel res" where
  "as_channel f \<equiv> map_sum (\<lambda>e. e) f"

abbreviation as_update :: "('a \<Rightarrow> channel) \<Rightarrow> ('a \<times> bool) res \<Rightarrow> (channel \<times> bool) res" where
  "as_update f \<equiv> map_sum (\<lambda>e. e) (\<lambda>(c, b). (f c, b))"

abbreviation as_notice :: "('a \<Rightarrow> channel) \<Rightarrow> 'a \<times> bool \<Rightarrow> channel \<times> bool" where
  "as_notice f \<equiv> (\<lambda>(c, b). (f c, b))"

fun ch_from_checkpoint :: "channel \<Rightarrow> val option \<Rightarrow> channel res" where
  "ch_from_checkpoint (LastValue c) v = as_channel LastValue (lv_from_checkpoint c v)"
| "ch_from_checkpoint (LastValueAfterFinish c) v =
     as_channel LastValueAfterFinish (lvf_from_checkpoint c v)"
| "ch_from_checkpoint (AnyValue c) v = as_channel AnyValue (av_from_checkpoint c v)"
| "ch_from_checkpoint (EphemeralValue c) v = as_channel EphemeralValue (ev_from_checkpoint c v)"
| "ch_from_checkpoint (UntrackedValue c) v = as_channel UntrackedValue (uv_from_checkpoint c v)"
| "ch_from_checkpoint (Topic c) v = as_channel Topic (tp_from_checkpoint c v)"
| "ch_from_checkpoint (BinaryOperatorAggregate c) v =
     as_channel BinaryOperatorAggregate (bo_from_checkpoint c v)"
| "ch_from_checkpoint (DeltaChannel c) v = as_channel DeltaChannel (dc_from_checkpoint c v)"
| "ch_from_checkpoint (NamedBarrierValue c) v = as_channel NamedBarrierValue (nb_from_checkpoint c v)"
| "ch_from_checkpoint (NamedBarrierValueAfterFinish c) v =
     as_channel NamedBarrierValueAfterFinish (nbf_from_checkpoint c v)"

fun ch_copy :: "channel \<Rightarrow> channel res" where
  "ch_copy (LastValue c) = Inr (LastValue (lv_copy c))"
| "ch_copy (LastValueAfterFinish c) =
     as_channel LastValueAfterFinish (base_copy lvf_from_checkpoint lvf_checkpoint c)"
| "ch_copy (AnyValue c) = Inr (AnyValue (av_copy c))"
| "ch_copy (EphemeralValue c) = Inr (EphemeralValue (ev_copy c))"
| "ch_copy (UntrackedValue c) = Inr (UntrackedValue (uv_copy c))"
| "ch_copy (Topic c) = Inr (Topic (tp_copy c))"
| "ch_copy (BinaryOperatorAggregate c) = Inr (BinaryOperatorAggregate (bo_copy c))"
| "ch_copy (DeltaChannel c) = as_channel DeltaChannel (dc_copy c)"
| "ch_copy (NamedBarrierValue c) = Inr (NamedBarrierValue (nb_copy c))"
| "ch_copy (NamedBarrierValueAfterFinish c) = Inr (NamedBarrierValueAfterFinish (nbf_copy c))"

fun ch_update :: "channel \<Rightarrow> val list \<Rightarrow> (channel \<times> bool) res" where
  "ch_update (LastValue c) vs = as_update LastValue (lv_update c vs)"
| "ch_update (LastValueAfterFinish c) vs = as_update LastValueAfterFinish (lvf_update c vs)"
| "ch_update (AnyValue c) vs = as_update AnyValue (av_update c vs)"
| "ch_update (EphemeralValue c) vs = as_update EphemeralValue (ev_update c vs)"
| "ch_update (UntrackedValue c) vs = as_update UntrackedValue (uv_update c vs)"
| "ch_update (Topic c) vs = as_update Topic (tp_update c vs)"
| "ch_update (BinaryOperatorAggregate c) vs = as_update BinaryOperatorAggregate (bo_update c vs)"
| "ch_update (DeltaChannel c) vs = as_update DeltaChannel (dc_update c vs)"
| "ch_update (NamedBarrierValue c) vs = as_update NamedBarrierValue (nb_update c vs)"
| "ch_update (NamedBarrierValueAfterFinish c) vs =
     as_update NamedBarrierValueAfterFinish (nbf_update c vs)"

fun ch_consume :: "channel \<Rightarrow> channel \<times> bool" where
  "ch_consume (LastValueAfterFinish c) = as_notice LastValueAfterFinish (lvf_consume c)"
| "ch_consume (NamedBarrierValue c) = as_notice NamedBarrierValue (nb_consume c)"
| "ch_consume (NamedBarrierValueAfterFinish c) =
     as_notice NamedBarrierValueAfterFinish (nbf_consume c)"
| "ch_consume c = base_consume c"

fun ch_finish :: "channel \<Rightarrow> channel \<times> bool" where
  "ch_finish (LastValueAfterFinish c) = as_notice LastValueAfterFinish (lvf_finish c)"
| "ch_finish (NamedBarrierValueAfterFinish c) =
     as_notice NamedBarrierValueAfterFinish (nbf_finish c)"
| "ch_finish c = base_finish c"

subsection \<open>The contract holds for every class\<close>

fun ch_inv :: "channel \<Rightarrow> bool" where
  "ch_inv (LastValueAfterFinish c) = lvf_inv c"
| "ch_inv (BinaryOperatorAggregate c) = bo_inv c"
| "ch_inv (DeltaChannel c) = dc_inv c"
| "ch_inv (NamedBarrierValue c) = nb_inv c"
| "ch_inv (NamedBarrierValueAfterFinish c) = nbf_inv c"
| "ch_inv _ = True"

text \<open>The classes whose \<open>checkpoint\<close> holds their whole state.\<close>

fun is_untracked :: "channel \<Rightarrow> bool" where
  "is_untracked (UntrackedValue _) = True"
| "is_untracked _ = False"

fun is_delta :: "channel \<Rightarrow> bool" where
  "is_delta (DeltaChannel _) = True"
| "is_delta _ = False"

definition ch_persists :: "channel \<Rightarrow> bool" where
  "ch_persists c \<longleftrightarrow> \<not> is_untracked c \<and> \<not> is_delta c"

lemma as_update_Inr:
  "as_update f r = Inr (c', b) \<longleftrightarrow> (\<exists>d. r = Inr (d, b) \<and> c' = f d)"
  by (cases r) auto

lemma as_channel_Inr: "as_channel f r = Inr c' \<longleftrightarrow> (\<exists>d. r = Inr d \<and> c' = f d)"
  by (cases r) auto

lemmas ch_avail_rules = lv.available_get lvf.available_get av.available_get ev.available_get
  uv.available_get tp.available_get bo.available_get dc.available_get nb.available_get nbf.available_get

lemmas ch_unavail_rules = lv.unavailable_get lvf.unavailable_get av.unavailable_get
  ev.unavailable_get uv.unavailable_get tp.unavailable_get bo.unavailable_get dc.unavailable_get
  nb.unavailable_get nbf.unavailable_get

lemmas ch_update_False_rules = lv.update_False lvf.update_False av.update_False ev.update_False
  uv.update_False tp.update_False bo.update_False dc.update_False nb.update_False nbf.update_False

lemma ch_update_False: "ch_update c vs = Inr (c', False) \<Longrightarrow> c' = c"
  by (cases c) (auto simp: as_update_Inr dest: ch_update_False_rules)

lemma ch_consume_False: "ch_consume c = (c', False) \<Longrightarrow> c' = c"
  by (cases c) (auto simp: base_consume_def split: prod.splits
      dest: lvf.consume_False nb.consume_False nbf.consume_False)

lemma ch_finish_False: "ch_finish c = (c', False) \<Longrightarrow> c' = c"
  by (cases c) (auto simp: base_finish_def split: prod.splits dest: lvf.finish_False nbf.finish_False)

lemma ch_inv_update: "ch_inv c \<Longrightarrow> ch_update c vs = Inr (c', b) \<Longrightarrow> ch_inv c'"
  by (cases c) (auto simp: as_update_Inr dest: lvf.inv_update bo.inv_update dc.inv_update
      nb.inv_update nbf.inv_update)

lemma ch_inv_consume: "ch_inv c \<Longrightarrow> ch_consume c = (c', b) \<Longrightarrow> ch_inv c'"
  by (cases c) (auto simp: base_consume_def split: prod.splits dest: lvf.inv_consume nb.inv_consume
      nbf.inv_consume)

lemma ch_inv_finish: "ch_inv c \<Longrightarrow> ch_finish c = (c', b) \<Longrightarrow> ch_inv c'"
  by (cases c) (auto simp: base_finish_def split: prod.splits dest: lvf.inv_finish nbf.inv_finish)

interpretation ch: channel_contract ch_get ch_is_available ch_update ch_consume ch_finish ch_inv
proof
  fix c show "ch_is_available c \<Longrightarrow> \<exists>v. ch_get c = Inr v"
    by (cases c) (auto dest: ch_avail_rules)
  show "\<not> ch_is_available c \<Longrightarrow> ch_get c = Inl EmptyChannelError"
    by (cases c) (auto dest: ch_unavail_rules)
qed (rule ch_update_False ch_consume_False ch_finish_False ch_inv_update ch_inv_consume ch_inv_finish;
     assumption)+

subsection \<open>Persistence\<close>

lemma ch_update_class: "ch_update c vs = Inr (c', b) \<Longrightarrow> ch_persists c' = ch_persists c"
  by (cases c) (auto simp: as_update_Inr ch_persists_def)

lemma ch_consume_class: "ch_consume c = (c', b) \<Longrightarrow> ch_persists c' = ch_persists c"
  by (cases c) (auto simp: ch_persists_def base_consume_def split: prod.splits)

lemma ch_finish_class: "ch_finish c = (c', b) \<Longrightarrow> ch_persists c' = ch_persists c"
  by (cases c) (auto simp: ch_persists_def base_finish_def split: prod.splits)

lemma ch_roundtrip: "ch_inv c \<Longrightarrow> ch_persists c \<Longrightarrow> ch_from_checkpoint c (ch_checkpoint c) = Inr c"
  by (cases c) (simp_all add: ch_persists_def lv.roundtrip lvf.roundtrip av.roundtrip ev.roundtrip
      tp.roundtrip bo.roundtrip nb.roundtrip nbf.roundtrip)

interpretation pch: persistent_channel ch_get ch_is_available ch_update ch_consume ch_finish
  "\<lambda>c. ch_inv c \<and> ch_persists c" ch_checkpoint ch_from_checkpoint
proof
  fix c c' vs b
  show "ch_inv c \<and> ch_persists c \<Longrightarrow> ch_update c vs = Inr (c', b) \<Longrightarrow> ch_inv c' \<and> ch_persists c'"
    by (auto simp: ch_update_class intro: ch_inv_update)
  show "ch_inv c \<and> ch_persists c \<Longrightarrow> ch_consume c = (c', b) \<Longrightarrow> ch_inv c' \<and> ch_persists c'"
    by (auto simp: ch_consume_class intro: ch_inv_consume)
  show "ch_inv c \<and> ch_persists c \<Longrightarrow> ch_finish c = (c', b) \<Longrightarrow> ch_inv c' \<and> ch_persists c'"
    by (auto simp: ch_finish_class intro: ch_inv_finish)
  show "ch_inv c \<and> ch_persists c \<Longrightarrow> ch_from_checkpoint c (ch_checkpoint c) = Inr c"
    by (simp add: ch_roundtrip)
qed (fact ch.available_get ch.unavailable_get ch_update_False ch_consume_False ch_finish_False)+

text \<open>Copying keeps the state, for the classes that checkpoint nothing as well.\<close>

lemma ch_copy_id: "ch_inv c \<Longrightarrow> ch_copy c = Inr c"
  by (cases c) (simp_all add: value_copies barrier_copies bo_copy_id dc_copy_id lvf.base_copy_id)

text \<open>An update with no writes never raises.\<close>

lemma ch_update_empty: "\<exists>c' b. ch_update c [] = Inr (c', b)"
  by (cases c) (auto simp: lv_defs lvf_defs av_defs ev_defs uv_defs tp_update_values bo_update_def
      dc_update_def nb_update_def nbf_update_def)

text \<open>A channel whose \<open>consume\<close> reports a change was available.\<close>

lemma ch_consume_True: "ch_inv c \<Longrightarrow> ch_consume c = (c', True) \<Longrightarrow> ch_is_available c"
  by (cases c) (auto simp: base_consume_def lvf_defs nb_defs nbf_defs split: if_splits prod.splits)

text \<open>A barrier over no names would stay available after it is consumed; the graph compiler
  makes barriers for joins, which have names.\<close>

fun has_names :: "channel \<Rightarrow> bool" where
  "has_names (NamedBarrierValue c) = (nb_names c \<noteq> [])"
| "has_names (NamedBarrierValueAfterFinish c) = (nbf_names c \<noteq> [])"
| "has_names _ = True"

lemma ch_consume_empties: "has_names c \<Longrightarrow> ch_consume c = (c', True) \<Longrightarrow> \<not> ch_is_available c'"
  by (cases c) (auto simp: base_consume_def lvf_defs nb_defs nbf_defs split: if_splits prod.splits)

lemma has_names_update: "has_names c \<Longrightarrow> ch_update c vs = Inr (c', b) \<Longrightarrow> has_names c'"
  by (cases c) (auto simp: as_update_Inr elim!: nb_update_Inr nbf_update_Inr)

lemma has_names_consume: "has_names c \<Longrightarrow> ch_consume c = (c', b) \<Longrightarrow> has_names c'"
  by (cases c) (auto simp: base_consume_def nb_consume_def nbf_consume_def split: if_splits prod.splits)

lemma has_names_finish: "has_names c \<Longrightarrow> ch_finish c = (c', b) \<Longrightarrow> has_names c'"
  by (cases c) (auto simp: base_finish_def nbf_finish_def split: if_splits prod.splits)

end
