(* ===== verification/Pregel_Types.thy ===== *)
theory Pregel_Types
  imports Channels Ids
begin

section \<open>Data of the Pregel algorithm (_internal/_constants.py, types.py, checkpoint/base)\<close>

text \<open>
  The reserved names, the checkpoint, the writes of a task and the pending writes, with the
  source's fields. \<open>TypedDict\<close>s with fixed keys are records.
\<close>

subsection \<open>Reserved names\<close>

definition INPUT :: string where "INPUT = ''__input__''"
definition INTERRUPT :: string where "INTERRUPT = ''__interrupt__''"
definition RESUME :: string where "RESUME = ''__resume__''"
definition ERROR :: string where "ERROR = ''__error__''"
definition ERROR_SOURCE_NODE :: string where "ERROR_SOURCE_NODE = ''__error_source_node__''"
definition NO_WRITES :: string where "NO_WRITES = ''__no_writes__''"
definition TASKS :: string where "TASKS = ''__pregel_tasks''"
definition RETURN :: string where "RETURN = ''__return__''"
definition PREVIOUS :: string where "PREVIOUS = ''__previous__''"
definition START :: string where "START = ''__start__''"
definition TAG_HIDDEN :: string where "TAG_HIDDEN = ''langsmith:hidden''"
definition PUSH :: string where "PUSH = ''__pregel_push''"
definition PULL :: string where "PULL = ''__pregel_pull''"
definition NS_SEP :: string where "NS_SEP = ''|''"
definition NS_END :: string where "NS_END = '':''"
definition CONF :: string where "CONF = ''configurable''"
definition NULL_TASK_ID :: string where
  "NULL_TASK_ID = ''00000000-0000-0000-0000-000000000000''"

definition CONFIG_KEYS :: "string list" where
  "CONFIG_KEYS = [''__pregel_send'', ''__pregel_read'', ''__pregel_checkpointer'',
     ''__pregel_stream'', ''checkpoint_map'', ''__pregel_resuming'', ''__pregel_replay_state'',
     ''__pregel_task_id'', ''checkpoint_id'', ''checkpoint_ns'',
     ''__pregel_timed_attempt_observer'', ''__pregel_resume_map'', ''__pregel_stream_messages_v2'']"

definition RESERVED :: "string list" where
  "RESERVED = [TAG_HIDDEN, INPUT, INTERRUPT, RESUME, ERROR, ERROR_SOURCE_NODE, NO_WRITES]
     @ CONFIG_KEYS @ [PUSH, PULL, NS_SEP, NS_END, CONF]"

lemmas name_defs = INPUT_def INTERRUPT_def RESUME_def ERROR_def ERROR_SOURCE_NODE_def NO_WRITES_def
  TASKS_def RETURN_def PREVIOUS_def START_def TAG_HIDDEN_def PUSH_def PULL_def NS_SEP_def NS_END_def
  CONF_def NULL_TASK_ID_def CONFIG_KEYS_def RESERVED_def

text \<open>The channel of pending sends and the functional API's own channels are not reserved.\<close>

lemma not_reserved: "TASKS \<notin> set RESERVED" "RETURN \<notin> set RESERVED" "PREVIOUS \<notin> set RESERVED"
  by (simp_all add: name_defs)

subsection \<open>Checkpoints and writes\<close>

type_synonym versions = "(string, version) dict"

record checkpoint =
  cp_v :: int
  cp_id :: string
  cp_ts :: string
  cp_channel_values :: "(string, val) dict"
  cp_channel_versions :: versions
  cp_versions_seen :: "(string, versions) dict"
  cp_updated_channels :: "string list option"

type_synonym chan_write = "string \<times> val"
type_synonym pending_write = "string \<times> string \<times> val"

text \<open>The protocol \<open>WritesProtocol\<close>, which \<open>PregelTaskWrites\<close> implements and executable tasks extend.\<close>

record task_writes =
  tw_path :: "path list"
  tw_name :: string
  tw_writes :: "chan_write list"
  tw_triggers :: "string list"

text \<open>A \<open>str | Sequence[str]\<close> that names channels.\<close>

datatype select = One string | Many "string list"

text \<open>The bounds of the run that managed values read; \<open>PregelScratchpad\<close> extends it.\<close>

record step_bounds =
  sp_step :: int
  sp_stop :: int

subsection \<open>Managed values (managed/is_last_step.py)\<close>

datatype managed = IsLastStepManager | RemainingStepsManager

fun managed_get :: "managed \<Rightarrow> 'a step_bounds_scheme \<Rightarrow> val" where
  "managed_get IsLastStepManager s = VBool (sp_step s = sp_stop s - 1)"
| "managed_get RemainingStepsManager s = VInt (sp_stop s - sp_step s)"

type_synonym channels = "(string, channel) dict"
type_synonym managed_map = "(string, managed) dict"

lemma managed_last_step:
  "managed_get IsLastStepManager s = VBool True \<longleftrightarrow> managed_get RemainingStepsManager s = VInt 1"
  by auto

subsection \<open>Null versions\<close>

text \<open>\<open>type(version)()\<close>: zero, or the empty string.\<close>

fun null_of :: "version \<Rightarrow> version" where
  "null_of (IVer _) = IVer 0"
| "null_of (SVer _) = SVer []"

definition checkpoint_null_version :: "checkpoint \<Rightarrow> version option" where
  "checkpoint_null_version cp =
     (case cp_channel_versions cp of [] \<Rightarrow> None | (k, v) # _ \<Rightarrow> Some (null_of v))"

subsection \<open>Configuration\<close>

text \<open>
  A \<open>PregelScratchpad\<close>: its three counters, the resume values of the task, and the closure
  \<open>get_null_resume\<close>, which is the list of the null resume writes it looks at, its own and then
  those of the enclosing tasks. Objects of other packages and user functions are numbers, their
  identities.
\<close>

type_synonym runnable = nat

record scratchpad = step_bounds +
  sp_call_counter :: nat
  sp_interrupt_counter :: nat
  sp_subgraph_counter :: nat
  sp_resume :: "val list"
  sp_null_resume :: "pending_write option list"

record execution_info =
  ei_checkpoint_id :: string
  ei_checkpoint_ns :: string
  ei_task_id :: string
  ei_thread_id :: "string option"
  ei_run_id :: "string option"
  ei_node_attempt :: nat
  ei_first_attempt_time :: "nat option"

record runtime =
  rt_previous :: val
  rt_store :: "nat option"
  rt_execution_info :: "execution_info option"

text \<open>The values under \<open>configurable\<close>.\<close>

datatype cval =
    CNone
  | CStr string
  | CMap "(string, string) dict"
  | CResumeMap "(string, val) dict"
  | CScratchpad scratchpad
  | CRuntime runtime
  | CCheckpointer nat
  | CSend
  | CRead scratchpad task_writes
  | CNodeError string val
  | CInt int
  | CBool bool
  | CReplay string
  | CObj nat

record config =
  cfg_configurable :: "(string, cval) dict"
  cfg_tags :: "string list"
  cfg_metadata :: "(string, val) dict"
  cfg_run_id :: "string option"
  cfg_run_name :: "string option"
  cfg_callbacks :: "nat option"

definition empty_config :: config where
  "empty_config = \<lparr>cfg_configurable = [], cfg_tags = [], cfg_metadata = [], cfg_run_id = None,
     cfg_run_name = None, cfg_callbacks = None\<rparr>"

subsection \<open>Tasks\<close>

record cache_key =
  ck_ns :: "string list"
  ck_key :: string
  ck_ttl :: "int option"

record exec_task = task_writes +
  et_id :: string
  et_input :: val
  et_proc :: runnable
  et_config :: config
  et_retry_policy :: "nat list"
  et_cache_key :: "cache_key option"
  et_writers :: "runnable list"
  et_subgraphs :: "nat list"
  et_timeout :: val

definition task_hidden :: "exec_task \<Rightarrow> bool" where
  "task_hidden t \<longleftrightarrow> TAG_HIDDEN \<in> set (cfg_tags (et_config t))"

end
