(* ===== verification/Pregel_IO.thy ===== *)
theory Pregel_IO
  imports Pregel_Types
begin

section \<open>Reading channels and mapping input and output (pregel/_io.py, local_read)\<close>

text \<open>
  Reads of the channels, the translation of a graph's input and of a \<open>Command\<close> to writes, and
  of the writes of a step to output chunks. Generators give the list of what they yield.
\<close>

subsection \<open>Reads\<close>

definition read_channel :: "channels \<Rightarrow> string \<Rightarrow> bool \<Rightarrow> val res" where
  "read_channel chs chan catch =
     (case dict_get chs chan of
        None \<Rightarrow> Inl KeyError
      | Some c \<Rightarrow> (case ch_get c of
            Inr v \<Rightarrow> Inr v
          | Inl EmptyChannelError \<Rightarrow> if catch then Inr VNone else Inl EmptyChannelError
          | Inl e \<Rightarrow> Inl e))"

definition read_step :: "channels \<Rightarrow> bool \<Rightarrow> string \<Rightarrow> (string, val) dict \<Rightarrow> (string, val) dict res" where
  "read_step chs skip_empty k values =
     (case read_channel chs k (\<not> skip_empty) of
        Inr v \<Rightarrow> Inr (dict_set k v values)
      | Inl EmptyChannelError \<Rightarrow> Inr values
      | Inl e \<Rightarrow> Inl e)"

fun read_channels :: "channels \<Rightarrow> select \<Rightarrow> bool \<Rightarrow> val res" where
  "read_channels chs (One k) skip_empty = read_channel chs k True"
| "read_channels chs (Many ks) skip_empty =
     rbind (rfold (read_step chs skip_empty) ks []) (\<lambda>d. Inr (VDict d))"

text \<open>\<open>local_read\<close>: the state as the task sees it, its own writes applied to copies if \<open>fresh\<close>.\<close>

fun local_updates :: "select \<Rightarrow> managed_map \<Rightarrow> chan_write list \<Rightarrow> (string, val list) dict" where
  "local_updates (One s) mg ws = fold (\<lambda>(c, v) d. if c = s then dict_append c v d else d) ws []"
| "local_updates (Many ks) mg ws =
     (let sel = filter (\<lambda>k. \<not> in_dict k mg) ks
      in fold (\<lambda>(c, v) d. if c \<in> set sel then dict_append c v d else d) ws [])"

definition local_channel_step ::
  "(string, val list) dict \<Rightarrow> string \<times> channel \<Rightarrow> channels \<Rightarrow> channels res" where
  "local_channel_step updated = (\<lambda>(k, c) locals.
     rbind (ch_copy c) (\<lambda>cc.
     rbind (ch_update cc (dict_get_or updated k [])) (\<lambda>(cc, _).
     Inr (dict_set k cc locals))))"

definition local_channels :: "channels \<Rightarrow> (string, val list) dict \<Rightarrow> channels res" where
  "local_channels chs updated = rfold (local_channel_step updated) chs []"

definition add_managed :: "'a step_bounds_scheme \<Rightarrow> managed_map \<Rightarrow> string list \<Rightarrow> val \<Rightarrow> val" where
  "add_managed scratchpad mg managed_keys values =
     (case values of
        VDict d \<Rightarrow> VDict (dict_update d
          (List.map_filter (\<lambda>k. map_option (\<lambda>m. (k, managed_get m scratchpad)) (dict_get mg k)) managed_keys))
      | v \<Rightarrow> v)"

definition local_read ::
  "'a step_bounds_scheme \<Rightarrow> channels \<Rightarrow> managed_map \<Rightarrow> 'b task_writes_scheme \<Rightarrow> select \<Rightarrow> bool \<Rightarrow> val res" where
  "local_read scratchpad chs mg task sel fresh =
     (let updated = local_updates sel mg (tw_writes task);
          managed_keys = (case sel of One _ \<Rightarrow> [] | Many ks \<Rightarrow> filter (\<lambda>k. in_dict k mg) ks);
          sel' = (case sel of One s \<Rightarrow> One s | Many ks \<Rightarrow> Many (filter (\<lambda>k. \<not> in_dict k mg) ks))
      in rbind (if fresh
                then rbind (local_channels chs updated) (\<lambda>locals. read_channels locals sel' True)
                else read_channels chs sel' True)
           (\<lambda>values. Inr (if managed_keys = [] then values
                          else add_managed scratchpad mg managed_keys values)))"

subsection \<open>Input\<close>

fun is_pair_update :: "val \<Rightarrow> bool" where
  "is_pair_update (VTuple [VStr _, _]) = True"
| "is_pair_update _ = False"

fun pair_update :: "val \<Rightarrow> chan_write" where
  "pair_update (VTuple [VStr k, v]) = (k, v)"
| "pair_update v = ([], v)"

text \<open>\<open>annotated\<close> gives the items of an object whose class has annotated keys, a list that is
  empty for any other object (\<open>get_cached_annotated_keys\<close>, \<open>get_update_as_tuples\<close>).\<close>

record command =
  cmd_graph :: "string option"
  cmd_update :: val
  cmd_resume :: val
  cmd_goto :: val

definition PARENT :: string where "PARENT = ''__parent__''"

definition update_as_tuples :: "(val \<Rightarrow> chan_write list option) \<Rightarrow> val \<Rightarrow> chan_write list" where
  "update_as_tuples annotated u =
     (case u of
        VDict d \<Rightarrow> d
      | VList xs \<Rightarrow> if list_all is_pair_update xs then map pair_update xs
                     else (case annotated u of Some ws \<Rightarrow> ws | None \<Rightarrow> [(''__root__'', u)])
      | VTuple xs \<Rightarrow> if list_all is_pair_update xs then map pair_update xs
                      else (case annotated u of Some ws \<Rightarrow> ws | None \<Rightarrow> [(''__root__'', u)])
      | _ \<Rightarrow> (case annotated u of Some ws \<Rightarrow> ws
               | None \<Rightarrow> if u \<noteq> VNone then [(''__root__'', u)] else []))"

fun goto_write :: "val \<Rightarrow> pending_write res" where
  "goto_write (VSend n a t) = Inr (NULL_TASK_ID, TASKS, VSend n a t)"
| "goto_write (VStr s) = Inr (NULL_TASK_ID, ''branch:to:'' @ s, VStr START)"
| "goto_write _ = Inl TypeError"

definition map_command :: "(val \<Rightarrow> chan_write list option) \<Rightarrow> command \<Rightarrow> pending_write list res" where
  "map_command annotated cmd =
     (if cmd_graph cmd = Some PARENT then Inl InvalidUpdateError
      else
        rbind (if truthy (cmd_goto cmd)
               then rmap goto_write (case cmd_goto cmd of VTuple xs \<Rightarrow> xs | VList xs \<Rightarrow> xs | v \<Rightarrow> [v])
               else Inr [])
          (\<lambda>gotos. Inr (gotos
             @ (if cmd_resume cmd \<noteq> VNone then [(NULL_TASK_ID, RESUME, cmd_resume cmd)] else [])
             @ (if truthy (cmd_update cmd)
                then map (\<lambda>(k, v). (NULL_TASK_ID, k, v)) (update_as_tuples annotated (cmd_update cmd))
                else []))))"

text \<open>A chunk's keys outside the input channels are logged and dropped.\<close>

fun map_input :: "select \<Rightarrow> val \<Rightarrow> chan_write list res" where
  "map_input sel VNone = Inr []"
| "map_input (One c) chunk = Inr [(c, chunk)]"
| "map_input (Many cs) (VDict d) = Inr (filter (\<lambda>(k, v). k \<in> set cs) d)"
| "map_input (Many cs) _ = Inl TypeError"

subsection \<open>Output\<close>

text \<open>\<open>pending_writes\<close> is \<open>None\<close> for the literal \<open>True\<close>.\<close>

definition map_output_values ::
  "select \<Rightarrow> chan_write list option \<Rightarrow> channels \<Rightarrow> val list res" where
  "map_output_values out pending chs =
     (case out of
        One c \<Rightarrow>
          if pending = None \<or> (\<exists>(chan, _) \<in> set (the pending). chan = c)
          then rbind (read_channel chs c True) (\<lambda>v. Inr [v]) else Inr []
      | Many cs \<Rightarrow>
          if pending = None \<or> (\<exists>(chan, _) \<in> set (the pending). chan \<in> set cs)
          then rbind (read_channels chs (Many cs) True) (\<lambda>v. Inr [v]) else Inr [])"

text \<open>The tasks whose writes are shown: \<open>ww[0][0]\<close> raises on a task without writes.\<close>

definition first_chan :: "chan_write list \<Rightarrow> string res" where
  "first_chan ww = (case ww of [] \<Rightarrow> Inl IndexError | (c, _) # _ \<Rightarrow> Inr c)"

definition output_task_step ::
  "exec_task \<times> chan_write list \<Rightarrow> (exec_task \<times> chan_write list) list \<Rightarrow> (exec_task \<times> chan_write list) list res"
  where
  "output_task_step = (\<lambda>(t, ww) acc.
     if task_hidden t then Inr acc
     else rbind (first_chan ww)
       (\<lambda>c. Inr (if c \<noteq> ERROR \<and> c \<noteq> INTERRUPT then acc @ [(t, ww)] else acc)))"

definition task_updates :: "select \<Rightarrow> string \<Rightarrow> chan_write list \<Rightarrow> (string \<times> val) list" where
  "task_updates out name writes =
     (case find (\<lambda>(chan, _). chan = RETURN) writes of
        Some (_, rtn) \<Rightarrow> [(name, rtn)]
      | None \<Rightarrow>
          (case out of
             One c \<Rightarrow> map (\<lambda>(_, v). (name, v)) (filter (\<lambda>(chan, _). chan = c) writes)
           | Many cs \<Rightarrow>
               if \<exists>(chan, _) \<in> set writes. chan \<in> set cs then
                 (if \<exists>chan \<in> set cs. length (filter (\<lambda>(c, _). c = chan) writes) > 1
                  then map (\<lambda>(chan, v). (name, VDict [(chan, v)])) (filter (\<lambda>(chan, _). chan \<in> set cs) writes)
                  else [(name, VDict (dict_of (filter (\<lambda>(chan, _). chan \<in> set cs) writes)))])
               else []))"

fun group_value :: "val list \<Rightarrow> val" where
  "group_value [] = VNone"
| "group_value [v] = v"
| "group_value vs = VList vs"

definition map_output_updates ::
  "select \<Rightarrow> (exec_task \<times> chan_write list) list \<Rightarrow> bool \<Rightarrow> (string, val) dict list res" where
  "map_output_updates out tasks cached =
     rbind (rfold output_task_step tasks [])
       (\<lambda>output_tasks.
          if output_tasks = [] then Inr []
          else
            let updated = concat (map (\<lambda>(t, ww). task_updates out (tw_name t) ww) output_tasks);
                grouped = dict_of (map (\<lambda>(t, _). (tw_name t, [])) output_tasks);
                grouped = fold (\<lambda>(node, v) g. dict_append node v g) updated grouped;
                chunk = map (\<lambda>(node, vs). (node, group_value vs)) grouped
            in Inr [if cached then dict_set ''__metadata__'' (VDict [(''cached'', VBool True)]) chunk
                    else chunk])"

end
