(* ===== verification/Apply_Writes.thy ===== *)
theory Apply_Writes
  imports Pregel_IO "HOL-Library.Multiset"
begin

section \<open>Applying the writes of a step (pregel/_algo.py)\<close>

text \<open>
  \<open>apply_writes\<close> ends a superstep: it records what the tasks have seen, consumes the channels
  that triggered them, applies the writes channel by channel in the order of the task paths,
  notifies the channels that got no write and, when no node can run any more, all channels of the
  finish. Each phase is a definition of its own, composed in the order of the source. The dicts
  the code mutates are returned; \<open>set\<close>s are iterated in the order of the first occurrences,
  which changes nothing because every element touches its own channel only. When a channel's
  \<open>update\<close> raises, the result is the exception; the code leaves the dicts half updated then and
  its caller gives them up.
\<close>

subsection \<open>State and helpers\<close>

record apply_state =
  ap_channels :: channels
  ap_versions :: versions
  ap_updated :: "string list"

definition increment :: "int option \<Rightarrow> int" where
  "increment current = (case current of Some c \<Rightarrow> c + 1 | None \<Rightarrow> 1)"

definition path_key :: "'a task_writes_scheme \<Rightarrow> string" where
  "path_key t = task_path_str (PTup (take 3 (tw_path t)))"

definition sort_tasks :: "'a task_writes_scheme list \<Rightarrow> 'a task_writes_scheme list" where
  "sort_tasks tasks = sort_key path_key tasks"

definition max_version :: "versions \<Rightarrow> version option" where
  "max_version vs = (case map snd vs of [] \<Rightarrow> None | x # xs \<Rightarrow> Some (fold max xs x))"

definition bump :: "version option \<Rightarrow> string \<Rightarrow> versions \<Rightarrow> versions" where
  "bump nv chan vers = (case nv of None \<Rightarrow> vers | Some v \<Rightarrow> dict_set chan v vers)"

subsection \<open>The phases\<close>

definition mark_seen ::
  "versions \<Rightarrow> 'a task_writes_scheme \<Rightarrow> (string, versions) dict \<Rightarrow> (string, versions) dict" where
  "mark_seen vers task seen =
     dict_set (tw_name task)
       (dict_update (dict_get_or seen (tw_name task) [])
          (List.map_filter (\<lambda>chan. map_option (Pair chan) (dict_get vers chan)) (tw_triggers task)))
       seen"

definition read_triggers :: "channels \<Rightarrow> 'a task_writes_scheme list \<Rightarrow> string list" where
  "read_triggers chs tasks =
     remdups (filter (\<lambda>chan. chan \<notin> set RESERVED \<and> in_dict chan chs) (concat (map tw_triggers tasks)))"

definition consume_chan :: "version option \<Rightarrow> string \<Rightarrow> apply_state \<Rightarrow> apply_state" where
  "consume_chan nv chan st =
     (case dict_get (ap_channels st) chan of
        None \<Rightarrow> st
      | Some c \<Rightarrow>
          (let (c', changed) = ch_consume c
           in st\<lparr>ap_channels := dict_set chan c' (ap_channels st),
                 ap_versions := (if changed then bump nv chan (ap_versions st) else ap_versions st)\<rparr>))"

definition IGNORED_WRITES :: "string list" where
  "IGNORED_WRITES = [NO_WRITES, PUSH, RESUME, INTERRUPT, RETURN, ERROR, ERROR_SOURCE_NODE]"

definition group_write :: "channels \<Rightarrow> chan_write \<Rightarrow> (string, val list) dict \<Rightarrow> (string, val list) dict" where
  "group_write chs = (\<lambda>(chan, v) pending.
     if chan \<in> set IGNORED_WRITES then pending
     else if in_dict chan chs then dict_append chan v pending
     else pending)"

definition group_writes :: "channels \<Rightarrow> 'a task_writes_scheme list \<Rightarrow> (string, val list) dict" where
  "group_writes chs tasks = fold (group_write chs) (concat (map tw_writes tasks)) []"

text \<open>A channel that changed gets the new version and, if it is available, is reported.\<close>

definition note_change ::
  "version option \<Rightarrow> string \<Rightarrow> channel \<times> bool \<Rightarrow> apply_state \<Rightarrow> apply_state" where
  "note_change nv chan r st =
     (let (c', changed) = r;
          st = st\<lparr>ap_channels := dict_set chan c' (ap_channels st)\<rparr>
      in if changed \<and> nv \<noteq> None
         then st\<lparr>ap_versions := bump nv chan (ap_versions st),
                 ap_updated := (if ch_is_available c' then List.insert chan (ap_updated st)
                                else ap_updated st)\<rparr>
         else st)"

definition update_chan :: "version option \<Rightarrow> string \<times> val list \<Rightarrow> apply_state \<Rightarrow> apply_state res" where
  "update_chan nv = (\<lambda>(chan, vals) st.
     case dict_get (ap_channels st) chan of
       None \<Rightarrow> Inr st
     | Some c \<Rightarrow> rbind (ch_update c vals) (\<lambda>r. Inr (note_change nv chan r st)))"

definition notify_chan :: "version option \<Rightarrow> string \<Rightarrow> apply_state \<Rightarrow> apply_state res" where
  "notify_chan nv chan st =
     (case dict_get (ap_channels st) chan of
        None \<Rightarrow> Inr st
      | Some c \<Rightarrow>
          if ch_is_available c \<and> chan \<notin> set (ap_updated st)
          then rbind (ch_update c []) (\<lambda>r. Inr (note_change nv chan r st))
          else Inr st)"

definition finish_chan :: "version option \<Rightarrow> string \<Rightarrow> apply_state \<Rightarrow> apply_state" where
  "finish_chan nv chan st =
     (case dict_get (ap_channels st) chan of
        None \<Rightarrow> st
      | Some c \<Rightarrow> note_change nv chan (ch_finish c) st)"

text \<open>\<open>updated_channels.isdisjoint(trigger_to_nodes)\<close>\<close>

definition triggers_nothing :: "(string, string list) dict \<Rightarrow> apply_state \<Rightarrow> bool" where
  "triggers_nothing ttn st \<longleftrightarrow> (\<forall>chan \<in> set (ap_updated st). \<not> in_dict chan ttn)"

subsection \<open>\<open>apply_writes\<close>\<close>

definition draw_version ::
  "(version option \<Rightarrow> version res) option \<Rightarrow> versions \<Rightarrow> version option res" where
  "draw_version gnv vers =
     (case gnv of None \<Rightarrow> Inr None | Some f \<Rightarrow> rbind (f (max_version vers)) (\<lambda>v. Inr (Some v)))"

definition apply_channels ::
  "version option \<Rightarrow> bool \<Rightarrow> (string, string list) dict \<Rightarrow> string list \<Rightarrow> (string, val list) dict
     \<Rightarrow> apply_state \<Rightarrow> apply_state res" where
  "apply_channels nv bump_step ttn triggers pending st =
     (let keys = dict_keys (ap_channels st);
          st = fold (consume_chan nv) triggers st
      in rbind (rfold (update_chan nv) pending st)
         (\<lambda>st. rbind (if bump_step then rfold (notify_chan nv) keys st else Inr st)
         (\<lambda>st. Inr (if bump_step \<and> triggers_nothing ttn st then fold (finish_chan nv) keys st
                    else st))))"

definition apply_writes ::
  "checkpoint \<Rightarrow> channels \<Rightarrow> 'a task_writes_scheme list \<Rightarrow> (version option \<Rightarrow> version res) option
     \<Rightarrow> (string, string list) dict \<Rightarrow> (checkpoint \<times> channels \<times> string list) res" where
  "apply_writes cp chs tasks get_next_version trigger_to_nodes =
     (let tasks = sort_tasks tasks;
          bump_step = (\<exists>t \<in> set tasks. tw_triggers t \<noteq> []);
          seen = fold (mark_seen (cp_channel_versions cp)) tasks (cp_versions_seen cp)
      in rbind (draw_version get_next_version (cp_channel_versions cp))
        (\<lambda>nv. rbind (apply_channels nv bump_step trigger_to_nodes (read_triggers chs tasks)
                       (group_writes chs tasks)
                       \<lparr>ap_channels = chs, ap_versions = cp_channel_versions cp, ap_updated = []\<rparr>)
        (\<lambda>st. Inr (cp\<lparr>cp_channel_versions := ap_versions st, cp_versions_seen := seen\<rparr>,
                   ap_channels st, ap_updated st))))"

subsection \<open>Which nodes a step triggers\<close>

definition chan_available :: "channels \<Rightarrow> string \<Rightarrow> bool res" where
  "chan_available chs chan = (case dict_get chs chan of None \<Rightarrow> Inl KeyError
     | Some c \<Rightarrow> Inr (ch_is_available c))"

fun triggers_any ::
  "channels \<Rightarrow> (string \<Rightarrow> bool) \<Rightarrow> string list \<Rightarrow> bool res" where
  "triggers_any chs newer [] = Inr False"
| "triggers_any chs newer (chan # rest) =
     rbind (chan_available chs chan) (\<lambda>a. if a \<and> newer chan then Inr True else triggers_any chs newer rest)"

definition newer_than_seen :: "versions \<Rightarrow> versions \<Rightarrow> version \<Rightarrow> string \<Rightarrow> bool" where
  "newer_than_seen vers seen null chan \<longleftrightarrow> dict_get_or vers chan null > dict_get_or seen chan null"

text \<open>\<open>_triggers\<close>, with \<open>proc.triggers\<close> as the last argument.\<close>

definition triggers :: "channels \<Rightarrow> versions \<Rightarrow> versions option \<Rightarrow> version \<Rightarrow> string list \<Rightarrow> bool res" where
  "triggers chs vers seen null trigs =
     (case seen of
        None \<Rightarrow> triggers_any chs (\<lambda>_. True) trigs
      | Some seen \<Rightarrow> triggers_any chs (newer_than_seen vers seen null) trigs)"

text \<open>\<open>interrupt_nodes\<close> is \<open>None\<close> for \<open>"*"\<close>.\<close>

definition should_interrupt :: "checkpoint \<Rightarrow> string list option \<Rightarrow> exec_task list \<Rightarrow> exec_task list" where
  "should_interrupt cp interrupt_nodes tasks =
     (let vers = cp_channel_versions cp;
          null = (case checkpoint_null_version cp of Some v \<Rightarrow> v | None \<Rightarrow> IVer 0);
          seen = dict_get_or (cp_versions_seen cp) INTERRUPT [];
          any_updates = (\<exists>(chan, v) \<in> set vers. v > dict_get_or seen chan null)
      in if any_updates
         then filter (\<lambda>t. case interrupt_nodes of None \<Rightarrow> \<not> task_hidden t
                                                 | Some ns \<Rightarrow> tw_name t \<in> set ns) tasks
         else [])"

section \<open>Properties of \<open>apply_writes\<close>\<close>

subsection \<open>Every phase is a sequence of changes of single channels\<close>

inductive chan_step :: "version option \<Rightarrow> apply_state \<Rightarrow> apply_state \<Rightarrow> bool" for nv where
  consume: "dict_get (ap_channels st) k = Some c \<Longrightarrow> ch_consume c = (c', b) \<Longrightarrow>
     chan_step nv st (st\<lparr>ap_channels := dict_set k c' (ap_channels st),
        ap_versions := (if b then bump nv k (ap_versions st) else ap_versions st)\<rparr>)"
| update: "dict_get (ap_channels st) k = Some c \<Longrightarrow> ch_update c vs = Inr r \<Longrightarrow>
     chan_step nv st (note_change nv k r st)"
| finish: "dict_get (ap_channels st) k = Some c \<Longrightarrow> chan_step nv st (note_change nv k (ch_finish c) st)"

lemma note_change_channels [simp]:
  "ap_channels (note_change nv k r st) = dict_set k (fst r) (ap_channels st)"
  by (simp add: note_change_def Let_def split: prod.splits)

lemma note_change_versions [simp]:
  "ap_versions (note_change nv k r st) =
     (if snd r then bump nv k (ap_versions st) else ap_versions st)"
  by (auto simp: note_change_def Let_def bump_def split: prod.splits)

lemma note_change_updated [simp]:
  "ap_updated (note_change nv k r st) =
     (if snd r \<and> nv \<noteq> None \<and> ch_is_available (fst r) then List.insert k (ap_updated st)
      else ap_updated st)"
  by (auto simp: note_change_def Let_def split: prod.splits)

lemma bump_get [simp]:
  "dict_get (bump nv k vers) k' = (if k' = k \<and> nv \<noteq> None then nv else dict_get vers k')"
  by (cases nv) (auto simp: bump_def)

lemma consume_chan_steps: "(chan_step nv)\<^sup>*\<^sup>* st (consume_chan nv k st)"
proof (cases "dict_get (ap_channels st) k")
  case None
  then show ?thesis by (simp add: consume_chan_def)
next
  case (Some c)
  obtain c' b where "ch_consume c = (c', b)" by (cases "ch_consume c")
  with consume [OF Some this, of nv] Some show ?thesis by (simp add: consume_chan_def r_into_rtranclp)
qed

lemma update_chan_steps: "update_chan nv p st = Inr st' \<Longrightarrow> (chan_step nv)\<^sup>*\<^sup>* st st'"
  by (auto simp: update_chan_def rbind_Inr_iff split: option.splits prod.splits intro!: r_into_rtranclp update)

lemma notify_chan_steps: "notify_chan nv k st = Inr st' \<Longrightarrow> (chan_step nv)\<^sup>*\<^sup>* st st'"
  by (auto simp: notify_chan_def rbind_Inr_iff split: option.splits if_splits intro!: r_into_rtranclp update)

lemma finish_chan_steps: "(chan_step nv)\<^sup>*\<^sup>* st (finish_chan nv k st)"
  by (auto simp: finish_chan_def split: option.splits intro!: r_into_rtranclp finish)

lemma fold_steps: "(\<And>x s. R\<^sup>*\<^sup>* s (f x s)) \<Longrightarrow> R\<^sup>*\<^sup>* s (fold f xs s)"
  by (induction xs arbitrary: s) (auto intro: rtranclp_trans)

lemma rfold_steps:
  assumes step: "\<And>x s s'. f x s = Inr s' \<Longrightarrow> R\<^sup>*\<^sup>* s s'"
  shows "rfold f xs s = Inr s' \<Longrightarrow> R\<^sup>*\<^sup>* s s'"
proof (induction xs arbitrary: s)
  case (Cons x xs)
  then obtain t where t: "f x s = Inr t" "rfold f xs t = Inr s'" by (auto simp: rbind_Inr_iff)
  show ?case using step [OF t(1)] Cons.IH [OF t(2)] by (rule rtranclp_trans)
qed simp

lemma apply_channels_steps:
  assumes "apply_channels nv b ttn trigs pending st = Inr st'"
  shows "(chan_step nv)\<^sup>*\<^sup>* st st'"
proof -
  let ?keys = "dict_keys (ap_channels st)"
  let ?s1 = "fold (consume_chan nv) trigs st"
  from assms obtain s2 s3 where
    s2: "rfold (update_chan nv) pending ?s1 = Inr s2" and
    s3: "(if b then rfold (notify_chan nv) ?keys s2 else Inr s2) = Inr s3" and
    st': "st' = (if b \<and> triggers_nothing ttn s3 then fold (finish_chan nv) ?keys s3 else s3)"
    by (auto simp: apply_channels_def Let_def rbind_Inr_iff)
  have "(chan_step nv)\<^sup>*\<^sup>* st ?s1" by (rule fold_steps) (rule consume_chan_steps)
  also have "(chan_step nv)\<^sup>*\<^sup>* ?s1 s2" by (rule rfold_steps [OF update_chan_steps s2])
  also have "(chan_step nv)\<^sup>*\<^sup>* s2 s3"
    using s3 rfold_steps [OF notify_chan_steps] by (auto split: if_splits)
  also have "(chan_step nv)\<^sup>*\<^sup>* s3 st'"
    using st' fold_steps [of "chan_step nv" "finish_chan nv" s3 ?keys] finish_chan_steps by auto
  finally show ?thesis .
qed

lemma steps_invariant:
  assumes "(chan_step nv)\<^sup>*\<^sup>* st st'" "P st" "\<And>s s'. chan_step nv s s' \<Longrightarrow> P s \<Longrightarrow> P s'"
  shows "P st'"
  using assms by (induction rule: rtranclp_induct) auto

subsection \<open>What every change keeps\<close>

lemma step_keys: "chan_step nv st st' \<Longrightarrow> dict_keys (ap_channels st') = dict_keys (ap_channels st)"
  by (erule chan_step.cases) (simp_all add: dict_keys_replace)

definition channels_inv :: "channels \<Rightarrow> bool" where
  "channels_inv chs \<longleftrightarrow>
     wf_dict chs \<and> (\<forall>k c. dict_get chs k = Some c \<longrightarrow> ch_inv c \<and> has_names c)"

lemma channels_inv_get: "channels_inv chs \<Longrightarrow> dict_get chs k = Some c \<Longrightarrow> ch_inv c \<and> has_names c"
  unfolding channels_inv_def by blast

lemma channels_inv_set:
  "channels_inv chs \<Longrightarrow> ch_inv c \<Longrightarrow> has_names c \<Longrightarrow> channels_inv (dict_set k c chs)"
  unfolding channels_inv_def by (simp add: wf_dict_set)

lemma step_inv: "chan_step nv st st' \<Longrightarrow> channels_inv (ap_channels st) \<Longrightarrow> channels_inv (ap_channels st')"
proof (erule chan_step.cases, goal_cases)
  case (1 s k c c' b)
  then show ?case using ch_inv_consume [of c c' b] has_names_consume [of c c' b]
    by (simp add: channels_inv_get channels_inv_set)
next
  case (2 s k c vs r)
  then show ?case using ch_inv_update [of c vs "fst r" "snd r"] has_names_update [of c vs "fst r" "snd r"]
    by (simp add: channels_inv_get channels_inv_set)
next
  case (3 s k c)
  then show ?case using ch_inv_finish [of c "fst (ch_finish c)" "snd (ch_finish c)"] has_names_finish [of c "fst (ch_finish c)" "snd (ch_finish c)"]
    by (simp add: channels_inv_get channels_inv_set)
qed

text \<open>A channel without the new version is as it was, and so is its version.\<close>

definition unbumped_same :: "version \<Rightarrow> apply_state \<Rightarrow> string \<Rightarrow> apply_state \<Rightarrow> bool" where
  "unbumped_same v st0 k st \<longleftrightarrow> dict_get (ap_versions st) k = Some v
     \<or> dict_get (ap_versions st) k = dict_get (ap_versions st0) k
       \<and> dict_get (ap_channels st) k = dict_get (ap_channels st0) k"

lemma step_unbumped: "chan_step (Some v) st st' \<Longrightarrow> unbumped_same v st0 k st \<Longrightarrow> unbumped_same v st0 k st'"
proof (erule chan_step.cases, goal_cases)
  case (1 s k' c c' b)
  then show ?case using ch_consume_False [of c c'] by (cases b) (auto simp: unbumped_same_def)
next
  case (2 s k' c vs r)
  then show ?case using ch_update_False [of c vs "fst r"]
    by (cases r; cases "snd r") (auto simp: unbumped_same_def)
next
  case (3 s k' c)
  then show ?case using ch_finish_False [of c "fst (ch_finish c)"]
    by (cases "ch_finish c"; cases "snd (ch_finish c)") (auto simp: unbumped_same_def)
qed

subsection \<open>The reported channels\<close>

text \<open>A reported channel is a channel of the graph, is available and has the new version.\<close>

definition reported_ok :: "version \<Rightarrow> apply_state \<Rightarrow> string \<Rightarrow> bool" where
  "reported_ok v st k \<longleftrightarrow> dict_get (ap_versions st) k = Some v
     \<and> (\<exists>c. dict_get (ap_channels st) k = Some c \<and> ch_is_available c)"

definition all_reported :: "version \<Rightarrow> apply_state \<Rightarrow> bool" where
  "all_reported v st \<longleftrightarrow> (\<forall>k \<in> set (ap_updated st). reported_ok v st k)"

lemma ch_finish_available: "ch_is_available c \<Longrightarrow> ch_is_available (fst (ch_finish c))"
  by (cases c) (auto simp: base_finish_def lvf_defs nbf_defs split: prod.splits if_splits)

lemma note_change_reported:
  assumes "all_reported v st" and "k \<in> set (ap_updated st) \<Longrightarrow> ch_is_available (fst r)"
  shows "all_reported v (note_change (Some v) k r st)"
  using assms by (auto simp: all_reported_def reported_ok_def)

lemma consume_reported:
  "ap_updated st = [] \<Longrightarrow> ap_updated (fold (consume_chan nv) trigs st) = []"
proof (induction trigs arbitrary: st)
  case (Cons t trigs)
  have "ap_updated (consume_chan nv t st) = []"
    using Cons.prems by (simp add: consume_chan_def Let_def split: option.splits prod.splits)
  then show ?case using Cons.IH by simp
qed simp

lemma update_chan_updated:
  "update_chan nv (k, vs) st = Inr t \<Longrightarrow> set (ap_updated t) \<subseteq> insert k (set (ap_updated st))"
  by (auto simp: update_chan_def rbind_Inr_iff split: option.splits if_splits)

lemma update_reported:
  assumes "rfold (update_chan (Some v)) pending st = Inr st'" "distinct (map fst pending)"
    "all_reported v st" "\<forall>k \<in> set (ap_updated st). k \<notin> fst ` set pending"
  shows "all_reported v st'"
  using assms
proof (induction pending arbitrary: st)
  case Nil
  then show ?case by simp
next
  case (Cons p pending)
  obtain k vs where p: "p = (k, vs)" by (cases p)
  from Cons.prems(1) obtain t where t: "update_chan (Some v) (k, vs) st = Inr t"
    "rfold (update_chan (Some v)) pending t = Inr st'" by (auto simp: p rbind_Inr_iff)
  have "all_reported v t"
    using t(1) Cons.prems(3,4) note_change_reported [of v st k]
    by (auto simp: update_chan_def p rbind_Inr_iff split: option.splits)
  then show ?case using Cons.IH [OF t(2)] Cons.prems(2,4) update_chan_updated [OF t(1)] by (auto simp: p)
qed

lemma notify_reported:
  assumes "rfold (notify_chan (Some v)) ks st = Inr st'" "all_reported v st"
  shows "all_reported v st'"
proof (rule rfold_invariant [where P = "all_reported v", OF assms])
  fix k t t' assume "all_reported v t" "notify_chan (Some v) k t = Inr t'"
  then show "all_reported v t'"
    using note_change_reported [of v t k]
    by (auto simp: notify_chan_def rbind_Inr_iff split: option.splits if_splits)
qed

lemma finish_reported:
  assumes "all_reported v st"
  shows "all_reported v (finish_chan (Some v) k st)"
proof (cases "dict_get (ap_channels st) k")
  case None
  then show ?thesis using assms by (simp add: finish_chan_def)
next
  case (Some c)
  have "k \<in> set (ap_updated st) \<Longrightarrow> ch_is_available (fst (ch_finish c))"
    using assms Some ch_finish_available [of c] by (auto simp: all_reported_def reported_ok_def)
  then show ?thesis using note_change_reported [OF assms, of k "ch_finish c"] Some by (simp add: finish_chan_def)
qed

lemma fold_invariant_all: "P s \<Longrightarrow> (\<And>x s. P s \<Longrightarrow> P (f x s)) \<Longrightarrow> P (fold f xs s)"
  by (induction xs arbitrary: s) auto

lemma apply_channels_reported:
  assumes "apply_channels (Some v) b ttn trigs pending st = Inr st'" "ap_updated st = []"
    "distinct (map fst pending)"
  shows "all_reported v st'"
proof -
  let ?keys = "dict_keys (ap_channels st)"
  let ?s1 = "fold (consume_chan (Some v)) trigs st"
  from assms(1) obtain s2 s3 where
    s2: "rfold (update_chan (Some v)) pending ?s1 = Inr s2" and
    s3: "(if b then rfold (notify_chan (Some v)) ?keys s2 else Inr s2) = Inr s3" and
    st': "st' = (if b \<and> triggers_nothing ttn s3 then fold (finish_chan (Some v)) ?keys s3 else s3)"
    by (auto simp: apply_channels_def Let_def rbind_Inr_iff)
  have "all_reported v s2"
    using update_reported [OF s2 assms(3)] consume_reported [OF assms(2)] by (simp add: all_reported_def)
  then have "all_reported v s3" using s3 notify_reported by (auto split: if_splits)
  then show ?thesis
    using st' fold_invariant_all [of "all_reported v" s3 "finish_chan (Some v)" ?keys] finish_reported
    by auto
qed

lemma wf_group_writes: "distinct (map fst (group_writes chs tasks))"
proof -
  have "distinct (map fst (fold (group_write chs) ws d))" if "distinct (map fst d)" for ws d
    using that
  proof (induction ws arbitrary: d)
    case (Cons w ws)
    have "distinct (map fst (group_write chs w d))"
      using Cons.prems by (auto simp: group_write_def split: prod.splits intro: wf_dict_append)
    then show ?case using Cons.IH by simp
  qed simp
  then show ?thesis by (simp add: group_writes_def)
qed

text \<open>Conversely, an available channel with the new version is reported.\<close>

definition report_complete :: "version \<Rightarrow> apply_state \<Rightarrow> bool" where
  "report_complete v st \<longleftrightarrow> (\<forall>k c. dict_get (ap_versions st) k = Some v \<longrightarrow>
     dict_get (ap_channels st) k = Some c \<longrightarrow> ch_is_available c \<longrightarrow> k \<in> set (ap_updated st))"

lemma note_change_complete:
  assumes "report_complete v st" "dict_get (ap_channels st) k = Some c" "\<not> snd r \<Longrightarrow> fst r = c"
  shows "report_complete v (note_change (Some v) k r st)"
proof (cases "snd r")
  case True
  then show ?thesis using assms(1) by (auto simp: report_complete_def)
next
  case False
  then show ?thesis using assms by (auto simp: report_complete_def)
qed

lemma step_complete:
  "chan_step (Some v) st st' \<Longrightarrow> channels_inv (ap_channels st) \<and> report_complete v st \<Longrightarrow>
     channels_inv (ap_channels st') \<and> report_complete v st'"
proof (frule step_inv, blast, erule chan_step.cases, goal_cases)
  case (1 s k c c' b)
  then have "has_names c" using channels_inv_get by blast
  then have "b \<Longrightarrow> \<not> ch_is_available c'" "\<not> b \<Longrightarrow> c' = c"
    using ch_consume_empties ch_consume_False 1 by auto
  then show ?case using 1 by (cases b) (auto simp: report_complete_def)
next
  case (2 s k c vs r)
  have "\<not> snd r \<Longrightarrow> fst r = c" using ch_update_False [of c vs "fst r"] 2 by (cases r) auto
  then show ?case using 2 note_change_complete [of v s k c r] by simp
next
  case (3 s k c)
  have "\<not> snd (ch_finish c) \<Longrightarrow> fst (ch_finish c) = c"
    using ch_finish_False [of c "fst (ch_finish c)"] by (cases "ch_finish c") auto
  then show ?case using 3 note_change_complete [of v s k c "ch_finish c"] by simp
qed

subsection \<open>The result of \<open>apply_writes\<close>\<close>

definition start_state :: "checkpoint \<Rightarrow> channels \<Rightarrow> apply_state" where
  "start_state cp chs = \<lparr>ap_channels = chs, ap_versions = cp_channel_versions cp, ap_updated = []\<rparr>"

lemma start_state_simps [simp]:
  "ap_channels (start_state cp chs) = chs" "ap_versions (start_state cp chs) = cp_channel_versions cp"
  "ap_updated (start_state cp chs) = []"
  by (simp_all add: start_state_def)

definition has_triggers :: "'a task_writes_scheme list \<Rightarrow> bool" where
  "has_triggers tasks \<longleftrightarrow> (\<exists>t \<in> set tasks. tw_triggers t \<noteq> [])"

lemma set_sort_tasks [simp]: "set (sort_tasks tasks) = set tasks"
  by (simp add: sort_tasks_def)

lemma apply_writes_Inr:
  assumes "apply_writes cp chs tasks gnv ttn = Inr (cp', chs', upd)"
  obtains nv st where "draw_version gnv (cp_channel_versions cp) = Inr nv"
    "apply_channels nv (has_triggers tasks) ttn (read_triggers chs (sort_tasks tasks))
       (group_writes chs (sort_tasks tasks)) (start_state cp chs) = Inr st"
    "chs' = ap_channels st" "upd = ap_updated st"
    "cp' = cp\<lparr>cp_channel_versions := ap_versions st,
       cp_versions_seen := fold (mark_seen (cp_channel_versions cp)) (sort_tasks tasks) (cp_versions_seen cp)\<rparr>"
  using assms that
  by (auto simp: apply_writes_def Let_def rbind_Inr_iff has_triggers_def start_state_def)

lemma apply_writes_steps:
  assumes "apply_writes cp chs tasks gnv ttn = Inr (cp', chs', upd)"
  obtains nv st where "draw_version gnv (cp_channel_versions cp) = Inr nv"
    "(chan_step nv)\<^sup>*\<^sup>* (start_state cp chs) st"
    "chs' = ap_channels st" "upd = ap_updated st" "cp_channel_versions cp' = ap_versions st"
  by (rule apply_writes_Inr [OF assms], rule that, assumption, erule apply_channels_steps) simp_all

lemma draw_version_Some: "draw_version (Some f) vers = Inr nv \<longleftrightarrow> (\<exists>v. f (max_version vers) = Inr v \<and> nv = Some v)"
  by (auto simp: draw_version_def rbind_Inr_iff)

lemma apply_writes_keys:
  assumes "apply_writes cp chs tasks gnv ttn = Inr (cp', chs', upd)"
  shows "dict_keys chs' = dict_keys chs"
  using assms
proof (rule apply_writes_steps)
  fix nv st
  assume "(chan_step nv)\<^sup>*\<^sup>* (start_state cp chs) st" and "chs' = ap_channels st"
  with steps_invariant [of nv "start_state cp chs" st "\<lambda>s. dict_keys (ap_channels s) = dict_keys chs"]
  show ?thesis by (simp add: step_keys)
qed

lemma apply_writes_inv:
  assumes "apply_writes cp chs tasks gnv ttn = Inr (cp', chs', upd)" "channels_inv chs"
  shows "channels_inv chs'"
  using assms(1)
proof (rule apply_writes_steps)
  fix nv st
  assume "(chan_step nv)\<^sup>*\<^sup>* (start_state cp chs) st" and "chs' = ap_channels st"
  with steps_invariant [of nv "start_state cp chs" st "\<lambda>s. channels_inv (ap_channels s)"] assms(2)
  show ?thesis by (simp add: step_inv)
qed

lemma apply_writes_unbumped:
  assumes "apply_writes cp chs tasks (Some f) ttn = Inr (cp', chs', upd)"
    "f (max_version (cp_channel_versions cp)) = Inr v"
  shows "dict_get (cp_channel_versions cp') k = Some v
    \<or> dict_get (cp_channel_versions cp') k = dict_get (cp_channel_versions cp) k \<and> dict_get chs' k = dict_get chs k"
  using assms(1)
proof (rule apply_writes_steps)
  fix nv st
  assume nv: "draw_version (Some f) (cp_channel_versions cp) = Inr nv"
    and st: "(chan_step nv)\<^sup>*\<^sup>* (start_state cp chs) st"
    and eqs: "chs' = ap_channels st" "cp_channel_versions cp' = ap_versions st"
  have v: "nv = Some v" using nv assms(2) by (simp add: draw_version_Some)
  have "unbumped_same v (start_state cp chs) k st"
    by (rule steps_invariant [OF st [unfolded v]], simp add: unbumped_same_def, erule (1) step_unbumped)
  then show ?thesis using eqs by (simp add: unbumped_same_def)
qed

lemma apply_writes_reported:
  assumes "apply_writes cp chs tasks (Some f) ttn = Inr (cp', chs', upd)"
    "f (max_version (cp_channel_versions cp)) = Inr v" "channels_inv chs"
    "\<forall>k. dict_get (cp_channel_versions cp) k \<noteq> Some v"
  shows "k \<in> set upd \<longleftrightarrow> dict_get (cp_channel_versions cp') k = Some v
    \<and> (\<exists>c. dict_get chs' k = Some c \<and> ch_is_available c)"
  using assms(1)
proof (rule apply_writes_Inr)
  fix nv st
  assume nv: "draw_version (Some f) (cp_channel_versions cp) = Inr nv"
    and ac: "apply_channels nv (has_triggers tasks) ttn (read_triggers chs (sort_tasks tasks))
       (group_writes chs (sort_tasks tasks)) (start_state cp chs) = Inr st"
    and eqs: "chs' = ap_channels st" "upd = ap_updated st"
    "cp' = cp\<lparr>cp_channel_versions := ap_versions st,
       cp_versions_seen := fold (mark_seen (cp_channel_versions cp)) (sort_tasks tasks) (cp_versions_seen cp)\<rparr>"
  have v: "nv = Some v" using nv assms(2) by (simp add: draw_version_Some)
  have "all_reported v st"
    by (rule apply_channels_reported [OF ac [unfolded v] _ wf_group_writes]) simp
  moreover have "channels_inv (ap_channels st) \<and> report_complete v st"
    by (rule steps_invariant [OF apply_channels_steps [OF ac [unfolded v]]],
        use assms(3,4) in \<open>simp add: report_complete_def\<close>, erule (1) step_complete)
  ultimately show ?thesis using eqs by (auto simp: all_reported_def reported_ok_def report_complete_def)
qed

subsection \<open>What the tasks have seen\<close>

lemma dict_get_map_filter:
  "dict_get (rev (List.map_filter (\<lambda>c. map_option (Pair c) (f c)) cs)) k = (if k \<in> set cs then f k else None)"
proof -
  have "dict_get (List.map_filter (\<lambda>c. map_option (Pair c) (f c)) cs) k = (if k \<in> set cs then f k else None)" for cs
    by (induction cs) (auto simp: List.map_filter_def split: option.splits)
  moreover have "rev (List.map_filter (\<lambda>c. map_option (Pair c) (f c)) cs)
      = List.map_filter (\<lambda>c. map_option (Pair c) (f c)) (rev cs)" for cs
    by (simp add: List.map_filter_def rev_map rev_filter)
  ultimately show ?thesis by simp
qed

lemma mark_seen_get:
  "dict_get (mark_seen vers t seen) n = (if n = tw_name t
     then Some (dict_update (dict_get_or seen n []) (List.map_filter (\<lambda>c. map_option (Pair c) (dict_get vers c)) (tw_triggers t)))
     else dict_get seen n)"
  by (simp add: mark_seen_def)

definition seen_version :: "(string, versions) dict \<Rightarrow> string \<Rightarrow> string \<Rightarrow> version option" where
  "seen_version seen n c = dict_get (dict_get_or seen n []) c"

lemma mark_seen_version:
  "seen_version (mark_seen vers t seen) n c = (if n = tw_name t \<and> c \<in> set (tw_triggers t) \<and> in_dict c vers
     then dict_get vers c else seen_version seen n c)"
  by (auto simp: seen_version_def dict_get_or_def mark_seen_get dict_get_update dict_get_map_filter split: option.splits)

lemma mark_all_version:
  "seen_version (fold (mark_seen vers) ts seen) n c =
     (if (\<exists>t \<in> set ts. n = tw_name t \<and> c \<in> set (tw_triggers t)) \<and> in_dict c vers
      then dict_get vers c else seen_version seen n c)"
  by (induction ts arbitrary: seen) (auto simp: mark_seen_version)

lemma mark_all_None:
  "dict_get (fold (mark_seen vers) ts seen) n = None \<longleftrightarrow> dict_get seen n = None \<and> n \<notin> tw_name ` set ts"
  by (induction ts arbitrary: seen) (auto simp: mark_seen_get)

subsection \<open>No node that is due to run is missed\<close>

lemma triggers_any_iff:
  assumes "\<forall>c \<in> set trigs. in_dict c chs"
  shows "triggers_any chs newer trigs
    = Inr (\<exists>c \<in> set trigs. (\<exists>ch. dict_get chs c = Some ch \<and> ch_is_available ch) \<and> newer c)"
  using assms by (induction trigs) (auto simp: chan_available_def split: option.splits)

definition due :: "channels \<Rightarrow> versions \<Rightarrow> (string, versions) dict \<Rightarrow> version \<Rightarrow> string \<Rightarrow> string list \<Rightarrow> bool" where
  "due chs vers seen null n trigs \<longleftrightarrow> triggers chs vers (dict_get seen n) null trigs = Inr True"

lemma due_iff:
  assumes "\<forall>c \<in> set trigs. in_dict c chs"
  shows "due chs vers seen null n trigs \<longleftrightarrow>
    (\<exists>c \<in> set trigs. \<exists>ch. dict_get chs c = Some ch \<and> ch_is_available ch
       \<and> (dict_get seen n = None \<or> newer_than_seen vers (dict_get_or seen n []) null c))"
  using assms by (auto simp: due_def triggers_def triggers_any_iff dict_get_or_def split: option.splits)

lemma newer_cong:
  "dict_get vers c = dict_get vers' c \<Longrightarrow> dict_get seen c = dict_get seen' c \<Longrightarrow>
     newer_than_seen vers seen null c = newer_than_seen vers' seen' null c"
  by (simp add: newer_than_seen_def dict_get_or_def)

lemma due_reported:
  assumes aw: "apply_writes cp chs tasks (Some f) ttn = Inr (cp', chs', upd)"
    and f: "f (max_version (cp_channel_versions cp)) = Inr v"
    and inv: "channels_inv chs"
    and fresh: "\<forall>k. dict_get (cp_channel_versions cp) k \<noteq> Some v"
    and trigs: "\<forall>c \<in> set trigs. in_dict c chs"
    and ran: "due chs (cp_channel_versions cp) (cp_versions_seen cp) null n trigs \<Longrightarrow>
       \<exists>t \<in> set tasks. tw_name t = n \<and> set trigs \<subseteq> set (tw_triggers t)"
    and seen: "\<And>c. c \<in> set trigs \<Longrightarrow> seen_version (cp_versions_seen cp) n c \<noteq> None \<Longrightarrow> in_dict c (cp_channel_versions cp)"
    and due': "due chs' (cp_channel_versions cp') (cp_versions_seen cp') null n trigs"
  shows "\<exists>c \<in> set trigs. c \<in> set upd"
proof (rule ccontr)
  assume contra: "\<not> ?thesis"
  let ?vers = "cp_channel_versions cp" and ?seen = "cp_versions_seen cp"
  let ?vers' = "cp_channel_versions cp'" and ?seen' = "cp_versions_seen cp'"
  have trigs': "\<forall>c \<in> set trigs. in_dict c chs'"
    using trigs apply_writes_keys [OF aw] in_dict_iff by metis
  have seen': "?seen' = fold (mark_seen ?vers) (sort_tasks tasks) ?seen"
    using aw by (elim apply_writes_Inr) simp
  from due' obtain c ch where c: "c \<in> set trigs" "dict_get chs' c = Some ch" "ch_is_available ch"
    and nw: "dict_get ?seen' n = None \<or> newer_than_seen ?vers' (dict_get_or ?seen' n []) null c"
    unfolding due_iff [OF trigs'] by blast
  have "dict_get ?vers' c \<noteq> Some v"
    using apply_writes_reported [OF aw f inv fresh, of c] c contra by blast
  then have same: "dict_get ?vers' c = dict_get ?vers c" "dict_get chs c = Some ch"
    using apply_writes_unbumped [OF aw f, of c] c(2) by auto
  show False
  proof (cases "(\<exists>t \<in> set tasks. n = tw_name t \<and> c \<in> set (tw_triggers t)) \<and> in_dict c ?vers")
    case True
    then have "dict_get (dict_get_or ?seen' n []) c = dict_get ?vers c"
      using mark_all_version [of ?vers "sort_tasks tasks" ?seen n c] by (simp add: seen' seen_version_def)
    moreover have "dict_get ?seen' n \<noteq> None" using True seen' by (auto simp: mark_all_None)
    ultimately show False using nw same(1) by (simp add: newer_than_seen_def dict_get_or_def)
  next
    case False
    have "dict_get (dict_get_or ?seen' n []) c = dict_get (dict_get_or ?seen n []) c"
      using mark_all_version [of ?vers "sort_tasks tasks" ?seen n c, unfolded set_sort_tasks if_not_P [OF False]]
      by (simp add: seen' seen_version_def)
    then have eq: "newer_than_seen ?vers' (dict_get_or ?seen' n []) null c
        = newer_than_seen ?vers (dict_get_or ?seen n []) null c"
      using same(1) by (intro newer_cong) auto
    have "dict_get ?seen' n = None \<Longrightarrow> dict_get ?seen n = None" by (simp add: seen' mark_all_None)
    then have "due chs ?vers ?seen null n trigs"
      unfolding due_iff [OF trigs] using nw eq c same(2)
      by (intro bexI [OF _ c(1)] exI [of _ ch]) auto
    then obtain t where t: "t \<in> set tasks" "tw_name t = n" "c \<in> set (tw_triggers t)" using ran c(1) by blast
    then have nov: "\<not> in_dict c ?vers" using False by auto
    then have "dict_get (dict_get_or ?seen n []) c = None"
      using seen [OF c(1)]
      by (cases "dict_get (dict_get_or ?seen n []) c") (auto simp: seen_version_def)
    then have "\<not> newer_than_seen ?vers (dict_get_or ?seen n []) null c"
      using nov by (simp add: newer_than_seen_def dict_get_or_def)
    moreover have "dict_get ?seen' n \<noteq> None" using t by (auto simp: seen' mark_all_None)
    ultimately show False using nw eq by simp
  qed
qed

subsection \<open>Each channel on its own\<close>

text \<open>
  What a step does to one channel, as a function of that channel alone: \<open>triggered\<close> says that
  a task read it as a trigger, \<open>ws\<close> are the writes to it in the order of the task paths, \<open>bump\<close>
  that some task has triggers and \<open>fin\<close> that the finish is announced.
\<close>

definition chan_spec :: "bool \<Rightarrow> val list \<Rightarrow> bool \<Rightarrow> bool \<Rightarrow> channel \<Rightarrow> channel res" where
  "chan_spec triggered ws bump_step fin c =
     (let c = (if triggered then fst (ch_consume c) else c)
      in rbind (if ws = [] then Inr (c, False) else ch_update c ws)
         (\<lambda>(c, changed).
            rbind (if bump_step \<and> ch_is_available c \<and> \<not> changed then ch_update c [] else Inr (c, changed))
            (\<lambda>(c, _). Inr (if fin then fst (ch_finish c) else c))))"

text \<open>The part of the state that belongs to one channel.\<close>

definition chan_view :: "string \<Rightarrow> apply_state \<Rightarrow> channel option \<times> bool" where
  "chan_view k st = (dict_get (ap_channels st) k, k \<in> set (ap_updated st))"

lemma view_note_other: "j \<noteq> k \<Longrightarrow> chan_view k (note_change nv j r st) = chan_view k st"
  by (simp add: chan_view_def)

lemma view_consume_other: "j \<noteq> k \<Longrightarrow> chan_view k (consume_chan nv j st) = chan_view k st"
  by (simp add: consume_chan_def chan_view_def Let_def split: option.splits prod.splits)

lemma view_update_other: "fst p \<noteq> k \<Longrightarrow> update_chan nv p st = Inr st' \<Longrightarrow> chan_view k st' = chan_view k st"
  by (auto simp: update_chan_def rbind_Inr_iff view_note_other split: option.splits prod.splits)

lemma view_notify_other: "j \<noteq> k \<Longrightarrow> notify_chan nv j st = Inr st' \<Longrightarrow> chan_view k st' = chan_view k st"
  by (auto simp: notify_chan_def rbind_Inr_iff view_note_other split: option.splits if_splits)

lemma view_finish_other: "j \<noteq> k \<Longrightarrow> chan_view k (finish_chan nv j st) = chan_view k st"
  by (auto simp: finish_chan_def view_note_other split: option.splits)

lemma view_consume_all:
  assumes "distinct trigs" "chan_view k st = (Some c, u)"
  shows "chan_view k (fold (consume_chan nv) trigs st) = (Some (if k \<in> set trigs then fst (ch_consume c) else c), u)"
proof (rule rfold_view [where f = "\<lambda>x s. Inr (consume_chan nv x s)" and key = "\<lambda>x. x" and xs = trigs
    and s = st and view = "chan_view k" and k = k and s' = "fold (consume_chan nv) trigs st"])
  fix x t t'
  assume "x \<in> set trigs" "x = k" "chan_view k t = chan_view k st" "Inr (consume_chan nv x t) = Inr t'"
    "chan_view k (fold (consume_chan nv) trigs st) = chan_view k t'"
  then show ?thesis using assms(2)
    by (auto simp: consume_chan_def chan_view_def Let_def split: prod.splits)
qed (use assms view_consume_other in \<open>auto simp: fold_rfold\<close>)

lemma view_update_all:
  assumes "rfold (update_chan (Some v)) pending st = Inr st'" "distinct (map fst pending)"
    and "chan_view k st = (Some c, False)"
  shows "\<exists>c' b. (if k \<in> fst ` set pending then ch_update c (dict_get_or pending k []) else Inr (c, False)) = Inr (c', b)
    \<and> chan_view k st' = (Some c', b \<and> ch_is_available c')"
proof (rule rfold_view [where f = "update_chan (Some v)" and key = fst and xs = pending
    and s = st and view = "chan_view k" and k = k and s' = st'])
  fix x t t'
  assume x: "x \<in> set pending" "fst x = k" "chan_view k t = chan_view k st"
    "update_chan (Some v) x t = Inr t'" "chan_view k st' = chan_view k t'"
  obtain vs where "x = (k, vs)" using x(2) by (metis prod.collapse)
  moreover then have "dict_get pending k = Some vs" using x(1) assms(2) by simp
  ultimately show ?thesis using x assms(3)
    by (auto simp: update_chan_def chan_view_def rbind_Inr_iff dict_get_or_def image_iff split: if_splits)
qed (use assms view_update_other in auto)

lemma view_notify_all:
  assumes "rfold (notify_chan (Some v)) ks st = Inr st'" "distinct ks" "k \<in> set ks"
    and "chan_view k st = (Some c, b \<and> ch_is_available c)"
  shows "\<exists>c' b'. (if ch_is_available c \<and> \<not> b then ch_update c [] else Inr (c, b)) = Inr (c', b')
    \<and> dict_get (ap_channels st') k = Some c'"
proof (rule rfold_view [where f = "notify_chan (Some v)" and key = "\<lambda>x. x" and xs = ks
    and s = st and view = "chan_view k" and k = k and s' = st'])
  fix x t t'
  assume "x \<in> set ks" "x = k" "chan_view k t = chan_view k st"
    "notify_chan (Some v) x t = Inr t'" "chan_view k st' = chan_view k t'"
  then show ?thesis using assms(4)
    by (auto simp: notify_chan_def chan_view_def rbind_Inr_iff split: if_splits)
qed (use assms view_notify_other in auto)

lemma view_finish_all:
  assumes "distinct ks" "k \<in> set ks" "dict_get (ap_channels st) k = Some c"
  shows "dict_get (ap_channels (fold (finish_chan nv) ks st)) k = Some (fst (ch_finish c))"
proof (rule rfold_view [where f = "\<lambda>x s. Inr (finish_chan nv x s)" and key = "\<lambda>x. x" and xs = ks
    and s = st and view = "chan_view k" and k = k and s' = "fold (finish_chan nv) ks st"])
  fix x t t'
  assume "x \<in> set ks" "x = k" "chan_view k t = chan_view k st" "Inr (finish_chan nv x t) = Inr t'"
    "chan_view k (fold (finish_chan nv) ks st) = chan_view k t'"
  then show ?thesis using assms(3) by (auto simp: finish_chan_def chan_view_def)
qed (use assms view_finish_other in \<open>auto simp: fold_rfold\<close>)

lemma apply_channels_spec:
  assumes "apply_channels (Some v) b ttn trigs pending st = Inr st'" "ap_updated st = []"
    and "wf_dict (ap_channels st)" "distinct trigs" "distinct (map fst pending)"
    and "\<And>k vs. dict_get pending k = Some vs \<Longrightarrow> vs \<noteq> []"
  shows "\<exists>fin. \<forall>k c. dict_get (ap_channels st) k = Some c \<longrightarrow>
    (\<exists>c'. dict_get (ap_channels st') k = Some c'
       \<and> chan_spec (k \<in> set trigs) (dict_get_or pending k []) b fin c = Inr c')"
proof -
  let ?keys = "dict_keys (ap_channels st)"
  let ?s1 = "fold (consume_chan (Some v)) trigs st"
  from assms(1) obtain s2 s3 where
    s2: "rfold (update_chan (Some v)) pending ?s1 = Inr s2" and
    s3: "(if b then rfold (notify_chan (Some v)) ?keys s2 else Inr s2) = Inr s3" and
    st': "st' = (if b \<and> triggers_nothing ttn s3 then fold (finish_chan (Some v)) ?keys s3 else s3)"
    by (auto simp: apply_channels_def Let_def rbind_Inr_iff)
  define fin where "fin = (b \<and> triggers_nothing ttn s3)"
  have st'_fin: "st' = (if fin then fold (finish_chan (Some v)) ?keys s3 else s3)"
    using st' by (simp add: fin_def)
  have "\<exists>c'. dict_get (ap_channels st') k = Some c'
       \<and> chan_spec (k \<in> set trigs) (dict_get_or pending k []) b fin c = Inr c'"
    if k: "dict_get (ap_channels st) k = Some c" for k c
  proof -
    have key: "k \<in> set ?keys" using k in_dict_iff by force
    let ?c1 = "if k \<in> set trigs then fst (ch_consume c) else c"
    have v1: "chan_view k ?s1 = (Some ?c1, False)"
      using view_consume_all [OF assms(4), of k st c False] k assms(2) by (simp add: chan_view_def)
    have ws: "k \<in> fst ` set pending \<longleftrightarrow> dict_get_or pending k [] \<noteq> []"
      using assms(6) [of k] dict_get_in_keys [of pending k]
      by (auto simp: dict_get_or_def map_of_eq_None_iff split: option.splits)
    from view_update_all [OF s2 assms(5) v1] obtain c2 b2 where
      u0: "(if k \<in> fst ` set pending then ch_update ?c1 (dict_get_or pending k []) else Inr (?c1, False)) = Inr (c2, b2)"
      and v2: "chan_view k s2 = (Some c2, b2 \<and> ch_is_available c2)" by blast
    have u: "(if dict_get_or pending k [] = [] then Inr (?c1, False)
        else ch_update ?c1 (dict_get_or pending k [])) = Inr (c2, b2)"
      using u0 ws by (cases "k \<in> fst ` set pending") simp_all
    obtain c3 b3 where
      n: "(if b \<and> ch_is_available c2 \<and> \<not> b2 then ch_update c2 [] else Inr (c2, b2)) = Inr (c3, b3)"
      and v3: "dict_get (ap_channels s3) k = Some c3"
    proof (cases b)
      case True
      then have "rfold (notify_chan (Some v)) ?keys s2 = Inr s3" using s3 by simp
      from view_notify_all [OF this assms(3) key v2] that True show thesis by auto
    next
      case False
      then show thesis using s3 v2 that [of c2 b2] by (simp add: chan_view_def)
    qed
    have "chan_spec (k \<in> set trigs) (dict_get_or pending k []) b fin c
        = Inr (if fin then fst (ch_finish c3) else c3)"
      by (simp only: chan_spec_def Let_def u n rbind_simps prod.case)
    then show ?thesis
      using view_finish_all [OF assms(3) key v3, of "Some v"] st'_fin v3 by (cases fin) simp_all
  qed
  then show ?thesis by blast
qed

text \<open>The writes to a channel, in the order of the task paths.\<close>

definition writes_to :: "string \<Rightarrow> 'a task_writes_scheme list \<Rightarrow> val list" where
  "writes_to k tasks = map snd (filter (\<lambda>(chan, _). chan = k) (concat (map tw_writes tasks)))"

lemma group_fold_get:
  "dict_get_or (fold (group_write chs) ws d) k [] = dict_get_or d k []
     @ (if k \<notin> set IGNORED_WRITES \<and> in_dict k chs then map snd (filter (\<lambda>(chan, _). chan = k) ws) else [])"
proof (induction ws arbitrary: d)
  case (Cons w ws)
  obtain j v where w: "w = (j, v)" by (cases w)
  show ?case unfolding fold_simps Cons.IH by (auto simp: w group_write_def dict_get_or_append)
qed simp

lemma group_writes_get:
  "dict_get_or (group_writes chs tasks) k [] =
     (if k \<notin> set IGNORED_WRITES \<and> in_dict k chs then writes_to k tasks else [])"
  by (simp add: group_writes_def group_fold_get writes_to_def)

lemma group_writes_nonempty: "dict_get (group_writes chs tasks) k = Some vs \<Longrightarrow> vs \<noteq> []"
proof -
  have "\<forall>k vs. dict_get d k = Some vs \<longrightarrow> vs \<noteq> [] \<Longrightarrow>
    dict_get (fold (group_write chs) ws d) k = Some vs \<Longrightarrow> vs \<noteq> []" for ws d
  proof (induction ws arbitrary: d)
    case (Cons w ws)
    show ?case
    proof (rule Cons.IH [of "group_write chs w d"])
      show "\<forall>k vs. dict_get (group_write chs w d) k = Some vs \<longrightarrow> vs \<noteq> []"
        using Cons.prems(1) by (auto simp: group_write_def dict_append_def split: prod.splits)
    qed (use Cons.prems(2) in simp)
  qed simp
  then show "dict_get (group_writes chs tasks) k = Some vs \<Longrightarrow> vs \<noteq> []"
    unfolding group_writes_def by force
qed

lemma apply_writes_spec:
  assumes "apply_writes cp chs tasks (Some f) ttn = Inr (cp', chs', upd)" "wf_dict chs"
  shows "\<exists>fin. \<forall>k c. dict_get chs k = Some c \<longrightarrow> (\<exists>c'. dict_get chs' k = Some c' \<and>
    chan_spec (k \<notin> set RESERVED \<and> (\<exists>t \<in> set tasks. k \<in> set (tw_triggers t)))
      (if k \<in> set IGNORED_WRITES then [] else writes_to k (sort_tasks tasks))
      (has_triggers tasks) fin c = Inr c')"
  using assms(1)
proof (rule apply_writes_Inr)
  fix nv st
  let ?ts = "sort_tasks tasks"
  assume nv: "draw_version (Some f) (cp_channel_versions cp) = Inr nv"
    and ac: "apply_channels nv (has_triggers tasks) ttn (read_triggers chs ?ts) (group_writes chs ?ts)
      (start_state cp chs) = Inr st"
    and eqs: "chs' = ap_channels st"
  from nv obtain v where v: "nv = Some v" by (auto simp: draw_version_Some)
  have trig: "k \<in> set (read_triggers chs ?ts) \<longleftrightarrow> k \<notin> set RESERVED \<and> (\<exists>t \<in> set tasks. k \<in> set (tw_triggers t))"
    if "dict_get chs k = Some c" for k c using that by (auto simp: read_triggers_def)
  have ws: "dict_get_or (group_writes chs ?ts) k [] = (if k \<in> set IGNORED_WRITES then [] else writes_to k ?ts)"
    if "dict_get chs k = Some c" for k c using that by (simp add: group_writes_get)
  have "\<exists>fin. \<forall>k c. dict_get (ap_channels (start_state cp chs)) k = Some c \<longrightarrow>
    (\<exists>c'. dict_get (ap_channels st) k = Some c'
       \<and> chan_spec (k \<in> set (read_triggers chs ?ts)) (dict_get_or (group_writes chs ?ts) k [])
           (has_triggers tasks) fin c = Inr c')"
    by (rule apply_channels_spec [OF ac [unfolded v]])
      (use assms(2) in \<open>auto simp: read_triggers_def wf_group_writes group_writes_nonempty\<close>)
  then show ?thesis using eqs trig ws by auto
qed

subsection \<open>Order of the tasks, and writes that are dropped\<close>



text \<open>A task without its writes to reserved names and to channels the graph does not have.\<close>

definition drop_ignored :: "channels \<Rightarrow> 'a task_writes_scheme \<Rightarrow> 'a task_writes_scheme" where
  "drop_ignored chs t =
     t\<lparr>tw_writes := filter (\<lambda>(chan, _). chan \<notin> set IGNORED_WRITES \<and> in_dict chan chs) (tw_writes t)\<rparr>"

lemma drop_ignored_simps [simp]:
  "tw_name (drop_ignored chs t) = tw_name t" "tw_triggers (drop_ignored chs t) = tw_triggers t"
  "path_key (drop_ignored chs t) = path_key t"
  by (simp_all add: drop_ignored_def path_key_def)

lemma insort_key_map:
  "(\<And>x. k (g x) = k' x) \<Longrightarrow> insort_key k (g x) (map g xs) = map g (insort_key k' x xs)"
  by (induction xs) simp_all

lemma sort_key_map: "(\<And>x. k (g x) = k' x) \<Longrightarrow> sort_key k (map g xs) = map g (sort_key k' xs)"
  by (induction xs) (simp_all add: insort_key_map)

lemma group_fold_filter:
  "fold (group_write chs) (filter (\<lambda>(chan, _). chan \<notin> set IGNORED_WRITES \<and> in_dict chan chs) ws) d
     = fold (group_write chs) ws d"
proof (induction ws arbitrary: d)
  case (Cons w ws)
  obtain j v where w: "w = (j, v)" by (cases w)
  show ?case
  proof (cases "j \<notin> set IGNORED_WRITES \<and> in_dict j chs")
    case True
    then show ?thesis using Cons.IH by (simp add: w)
  next
    case False
    then have "group_write chs (j, v) d = d" by (cases "j \<in> set IGNORED_WRITES") (simp_all add: group_write_def)
    then show ?thesis using Cons.IH False by (auto simp: w)
  qed
qed simp

lemma group_writes_drop: "group_writes chs (map (drop_ignored chs) ts) = group_writes chs ts"
proof -
  have "concat (map tw_writes (map (drop_ignored chs) ts))
      = filter (\<lambda>(chan, _). chan \<notin> set IGNORED_WRITES \<and> in_dict chan chs) (concat (map tw_writes ts))"
    by (induction ts) (simp_all add: drop_ignored_def)
  then show ?thesis by (simp only: group_writes_def group_fold_filter)
qed

lemma apply_writes_drop:
  "apply_writes cp chs (map (drop_ignored chs) tasks) gnv ttn = apply_writes cp chs tasks gnv ttn"
proof -
  have s: "sort_tasks (map (drop_ignored chs) tasks) = map (drop_ignored chs) (sort_tasks tasks)"
    unfolding sort_tasks_def by (rule sort_key_map) simp
  have m: "fold (mark_seen vers) (map (drop_ignored chs) ts) seen = fold (mark_seen vers) ts seen" for vers ts seen
    by (induction ts arbitrary: seen) (simp_all add: mark_seen_def)
  have r: "read_triggers chs (map (drop_ignored chs) ts) = read_triggers chs ts" for ts
    by (simp add: read_triggers_def comp_def)
  show ?thesis by (simp only: apply_writes_def s m r group_writes_drop Let_def) simp
qed

section \<open>Examples\<close>

text \<open>A graph with one channel that triggers two nodes, which both wrote.\<close>

definition ex_channels :: channels where
  "ex_channels = [(''a'', LastValue \<lparr>lv_key = ''a'', lv_value = Some (VInt 1)\<rparr>),
     (''b'', Topic \<lparr>tp_key = ''b'', tp_accumulate = False, tp_values = []\<rparr>),
     (''c'', LastValue \<lparr>lv_key = ''c'', lv_value = None\<rparr>)]"

definition ex_checkpoint :: checkpoint where
  "ex_checkpoint = \<lparr>cp_v = 4, cp_id = ''1f'', cp_ts = [], cp_channel_values = [(''a'', VInt 1)],
     cp_channel_versions = [(''a'', IVer 1)], cp_versions_seen = [], cp_updated_channels = None\<rparr>"

definition ex_tasks :: "task_writes list" where
  "ex_tasks =
     [\<lparr>tw_path = [PStr PULL, PStr ''n2''], tw_name = ''n2'', tw_writes = [(''b'', VInt 2), (NO_WRITES, VNone)],
       tw_triggers = [''a'']\<rparr>,
      \<lparr>tw_path = [PStr PULL, PStr ''n1''], tw_name = ''n1'', tw_writes = [(''b'', VInt 1), (''c'', VInt 7), (''zz'', VNone)],
       tw_triggers = [''a'']\<rparr>]"

definition ex_trigger_to_nodes :: "(string, string list) dict" where
  "ex_trigger_to_nodes = [(''a'', [''n1'', ''n2'']), (''b'', [''n3''])]"

definition ex_applied :: "checkpoint \<times> channels \<times> string list" where
  "ex_applied = projr (apply_writes ex_checkpoint ex_channels ex_tasks (Some base_get_next_version) ex_trigger_to_nodes)"

lemma ex_applied:
  "apply_writes ex_checkpoint ex_channels ex_tasks (Some base_get_next_version) ex_trigger_to_nodes
     = Inr (fst ex_applied, fst (snd ex_applied), snd (snd ex_applied))"
proof -
  have "\<not> isl (apply_writes ex_checkpoint ex_channels ex_tasks (Some base_get_next_version) ex_trigger_to_nodes)"
    by code_simp
  then show ?thesis by (simp add: ex_applied_def)
qed

lemma ex_channels_inv: "channels_inv ex_channels"
  by (auto simp: channels_inv_def ex_channels_def split: if_splits)

lemma ex_fresh: "\<forall>k. dict_get (cp_channel_versions ex_checkpoint) k \<noteq> Some (IVer 2)"
  by (simp add: ex_checkpoint_def)

lemma ex_next: "base_get_next_version (max_version (cp_channel_versions ex_checkpoint)) = Inr (IVer 2)"
  by code_simp

section \<open>Correctness of a step\<close>

text \<open>
  C1: A step treats every channel on its own: the new state of a channel is a function of its old
  state, of whether a task read it as a trigger, of the writes to it in the order of the task
  paths (none for the reserved names) and of two facts about the whole step.
\<close>

theorem apply_writes_per_channel:
  assumes "apply_writes cp chs tasks (Some f) ttn = Inr (cp', chs', upd)" "wf_dict chs"
  shows "\<exists>fin. \<forall>k c. dict_get chs k = Some c \<longrightarrow> (\<exists>c'. dict_get chs' k = Some c' \<and>
    chan_spec (k \<notin> set RESERVED \<and> (\<exists>t \<in> set tasks. k \<in> set (tw_triggers t)))
      (if k \<in> set IGNORED_WRITES then [] else writes_to k (sort_tasks tasks))
      (has_triggers tasks) fin c = Inr c')"
  using assms by (rule apply_writes_spec)

theorem apply_writes_per_channel_witness:
  "\<exists>fin c'. chan_spec False [VInt 1, VInt 2] True fin (Topic \<lparr>tp_key = ''b'', tp_accumulate = False, tp_values = []\<rparr>) = Inr c'"
proof -
  have w: "writes_to ''b'' (sort_tasks ex_tasks) = [VInt 1, VInt 2]" by code_simp
  have t: "\<not> (\<exists>t \<in> set ex_tasks. ''b'' \<in> set (tw_triggers t))" "has_triggers ex_tasks"
    "''b'' \<notin> set IGNORED_WRITES" by code_simp+
  from apply_writes_per_channel [OF ex_applied] obtain fin where
    "\<forall>k c. dict_get ex_channels k = Some c \<longrightarrow> (\<exists>c'. dict_get (fst (snd ex_applied)) k = Some c' \<and>
    chan_spec (k \<notin> set RESERVED \<and> (\<exists>t \<in> set ex_tasks. k \<in> set (tw_triggers t)))
      (if k \<in> set IGNORED_WRITES then [] else writes_to k (sort_tasks ex_tasks))
      (has_triggers ex_tasks) fin c = Inr c')"
    by (auto simp: ex_channels_def)
  from this [rule_format, of "''b''" "Topic \<lparr>tp_key = ''b'', tp_accumulate = False, tp_values = []\<rparr>"]
  show ?thesis using w t by (auto simp: ex_channels_def)
qed





text \<open>
  C3: A channel that does not get the version of the step is the same channel with the same
  version as before, so a saver that stores only the channels with new versions loses nothing.
\<close>

theorem apply_writes_version_sound:
  assumes "apply_writes cp chs tasks (Some f) ttn = Inr (cp', chs', upd)"
    and "f (max_version (cp_channel_versions cp)) = Inr v"
    and "dict_get (cp_channel_versions cp') k \<noteq> Some v"
  shows "dict_get chs' k = dict_get chs k \<and> dict_get (cp_channel_versions cp') k = dict_get (cp_channel_versions cp) k"
  using apply_writes_unbumped [OF assms(1,2), of k] assms(3) by blast

theorem apply_writes_version_sound_witness:
  "dict_get (fst (snd ex_applied)) ''a'' = Some (LastValue \<lparr>lv_key = ''a'', lv_value = Some (VInt 1)\<rparr>)"
proof -
  have "dict_get (cp_channel_versions (fst ex_applied)) ''a'' \<noteq> Some (IVer 2)" by code_simp
  from apply_writes_version_sound [OF ex_applied ex_next this] show ?thesis by (simp add: ex_channels_def)
qed

text \<open>
  C4: The updated channels that a step returns are exactly the channels that have the version of
  the step and are available afterwards.
\<close>

theorem apply_writes_updated_iff:
  assumes "apply_writes cp chs tasks (Some f) ttn = Inr (cp', chs', upd)"
    and "f (max_version (cp_channel_versions cp)) = Inr v" and "channels_inv chs"
    and "\<forall>k. dict_get (cp_channel_versions cp) k \<noteq> Some v"
  shows "k \<in> set upd \<longleftrightarrow> dict_get (cp_channel_versions cp') k = Some v
    \<and> (\<exists>c. dict_get chs' k = Some c \<and> ch_is_available c)"
  using assms by (rule apply_writes_reported)

theorem apply_writes_updated_iff_witness:
  "''c'' \<in> set (snd (snd ex_applied)) \<longleftrightarrow> dict_get (cp_channel_versions (fst ex_applied)) ''c'' = Some (IVer 2)
    \<and> (\<exists>c. dict_get (fst (snd ex_applied)) ''c'' = Some c \<and> ch_is_available c)"
  by (rule apply_writes_updated_iff [OF ex_applied ex_next ex_channels_inv ex_fresh])

text \<open>
  C2: If every node that was due ran in the step, then every node that is due after it has a
  trigger among the updated channels: looking only at the nodes that the updated channels
  trigger misses none.
\<close>

theorem due_nodes_have_updated_trigger:
  assumes "apply_writes cp chs tasks (Some f) ttn = Inr (cp', chs', upd)"
    and "f (max_version (cp_channel_versions cp)) = Inr v" and "channels_inv chs"
    and "\<forall>k. dict_get (cp_channel_versions cp) k \<noteq> Some v"
    and "\<forall>c \<in> set trigs. in_dict c chs"
    and "due chs (cp_channel_versions cp) (cp_versions_seen cp) null n trigs \<Longrightarrow>
       \<exists>t \<in> set tasks. tw_name t = n \<and> set trigs \<subseteq> set (tw_triggers t)"
    and "\<And>c. c \<in> set trigs \<Longrightarrow> seen_version (cp_versions_seen cp) n c \<noteq> None \<Longrightarrow> in_dict c (cp_channel_versions cp)"
    and "due chs' (cp_channel_versions cp') (cp_versions_seen cp') null n trigs"
  shows "\<exists>c \<in> set trigs. c \<in> set upd"
  using assms by (rule due_reported)

theorem due_nodes_have_updated_trigger_witness: "\<exists>c \<in> set [''b'']. c \<in> set (snd (snd ex_applied))"
proof (rule due_nodes_have_updated_trigger [OF ex_applied ex_next ex_channels_inv ex_fresh])
  show "\<forall>c \<in> set [''b'']. in_dict c ex_channels" by code_simp
  have "\<not> due ex_channels (cp_channel_versions ex_checkpoint) (cp_versions_seen ex_checkpoint) (IVer 0) ''n3'' [''b'']"
    unfolding due_def by code_simp
  then show "due ex_channels (cp_channel_versions ex_checkpoint) (cp_versions_seen ex_checkpoint) (IVer 0) ''n3'' [''b'']
    \<Longrightarrow> \<exists>t \<in> set ex_tasks. tw_name t = ''n3'' \<and> set [''b''] \<subseteq> set (tw_triggers t)" by blast
  show "due (fst (snd ex_applied)) (cp_channel_versions (fst ex_applied)) (cp_versions_seen (fst ex_applied)) (IVer 0) ''n3'' [''b'']"
    unfolding due_def by code_simp
qed (simp add: seen_version_def ex_checkpoint_def)

text \<open>
  C13: Two writes to a \<open>LastValue\<close> channel in one step, by one task or by two, make the step raise.
\<close>

theorem last_value_two_writes_raise:
  assumes "dict_get chs k = Some (LastValue c)" "wf_dict chs" "k \<notin> set IGNORED_WRITES"
    and "length (writes_to k tasks) \<ge> 2"
  shows "\<exists>e. apply_writes cp chs tasks (Some f) ttn = Inl e"
proof (cases "apply_writes cp chs tasks (Some f) ttn")
  case (Inr r)
  obtain cp' chs' upd where r: "r = (cp', chs', upd)" by (cases r)
  let ?ws = "writes_to k (sort_tasks tasks)"
  have "mset (concat (map tw_writes (sort_tasks tasks))) = mset (concat (map tw_writes tasks))"
    by (simp add: mset_concat sort_tasks_def flip: sum_mset_sum_list)
  then have "mset ?ws = mset (writes_to k tasks)" by (simp add: writes_to_def)
  then have len: "length ?ws \<ge> 2" using assms(4) by (metis mset_eq_length)
  from apply_writes_spec [OF Inr [unfolded r] assms(2)] assms(1) obtain fin c' where
    "chan_spec (k \<notin> set RESERVED \<and> (\<exists>t \<in> set tasks. k \<in> set (tw_triggers t)))
       (if k \<in> set IGNORED_WRITES then [] else ?ws) (has_triggers tasks) fin (LastValue c) = Inr c'"
    by blast
  then show ?thesis using len assms(3)
    by (auto simp: chan_spec_def Let_def lv_update_def base_consume_def split: if_splits)
qed simp

theorem last_value_two_writes_raise_witness:
  "\<exists>e. apply_writes ex_checkpoint [(''b'', LastValue \<lparr>lv_key = ''b'', lv_value = None\<rparr>)] ex_tasks
     (Some base_get_next_version) [] = Inl e"
proof (rule last_value_two_writes_raise)
  show "2 \<le> length (writes_to ''b'' ex_tasks)" by code_simp
  show "''b'' \<notin> set IGNORED_WRITES" by code_simp
qed simp_all

text \<open>
  Writes to the reserved names and to channels the graph does not have change nothing:
  without them the step gives the same result.
\<close>

theorem apply_writes_ignored:
  "apply_writes cp chs (map (drop_ignored chs) tasks) gnv ttn = apply_writes cp chs tasks gnv ttn"
  by (rule apply_writes_drop)

end
