(* ===== verification/Resume.thy ===== *)
theory Resume
  imports Pregel_Types
begin

section \<open>Resume values and interrupts (_scratchpad in pregel/_algo.py, interrupt in types.py)\<close>

text \<open>
  A task that was interrupted runs again from its start. Its scratchpad holds the resume values
  of the calls of \<open>interrupt\<close> it already got answers for, and \<open>get_null_resume\<close> gives the
  answer the caller passed for the next interrupt, once.

  \<open>_scratchpad\<close> uses the list of resume values found in the pending writes itself, and appends
  the value of the resume map to it: when that write holds a list, the pending write changes.
  The pending writes are therefore a result as well. The lists of pending writes of the task and
  of its enclosing tasks are a list, the task's own first.
\<close>

subsection \<open>The scratchpad\<close>

definition find_null_resume :: "pending_write list \<Rightarrow> pending_write option" where
  "find_null_resume pws = find (\<lambda>(t, c, v). t = NULL_TASK_ID \<and> c = RESUME) pws"

definition find_task_resume :: "string \<Rightarrow> pending_write list \<Rightarrow> val option" where
  "find_task_resume task_id pws =
     map_option (\<lambda>(t, c, v). v) (find (\<lambda>(t, c, v). t = task_id \<and> c = RESUME) pws)"

definition resume_list :: "val option \<Rightarrow> val list" where
  "resume_list w = (case w of None \<Rightarrow> [] | Some (VList xs) \<Rightarrow> xs | Some v \<Rightarrow> [v])"

text \<open>The list in the first resume write of the task gets the mapped value appended in place.\<close>

fun append_in_place :: "string \<Rightarrow> val \<Rightarrow> pending_write list \<Rightarrow> pending_write list" where
  "append_in_place task_id m [] = []"
| "append_in_place task_id m ((t, c, v) # pws) =
     (if t = task_id \<and> c = RESUME
      then (case v of VList xs \<Rightarrow> (t, c, VList (xs @ [m])) | _ \<Rightarrow> (t, c, v)) # pws
      else (t, c, v) # append_in_place task_id m pws)"

definition make_scratchpad ::
  "scratchpad option \<Rightarrow> pending_write list \<Rightarrow> string \<Rightarrow> string \<Rightarrow> (string, val) dict option \<Rightarrow> int \<Rightarrow> int
     \<Rightarrow> scratchpad \<times> pending_write list" where
  "make_scratchpad parent pws task_id ns_hash resume_map step stop =
     (let null_resume = (if pws = [] then None else find_null_resume pws);
          mapped = (if pws = [] then None
                    else (case resume_map of None \<Rightarrow> None | Some rm \<Rightarrow> dict_get rm ns_hash));
          task_resume = (if pws = [] then [] else resume_list (find_task_resume task_id pws));
          task_resume = (case mapped of None \<Rightarrow> task_resume | Some m \<Rightarrow> task_resume @ [m]);
          pws' = (case mapped of None \<Rightarrow> pws | Some m \<Rightarrow> append_in_place task_id m pws);
          parents = (case parent of None \<Rightarrow> [] | Some p \<Rightarrow> sp_null_resume p)
      in (\<lparr>sp_step = step, sp_stop = stop, sp_call_counter = 0, sp_interrupt_counter = 0,
           sp_subgraph_counter = 0, sp_resume = task_resume, sp_null_resume = null_resume # parents\<rparr>, pws'))"

fun get_null_resume ::
  "bool \<Rightarrow> pending_write option list \<Rightarrow> pending_write list list \<Rightarrow> val \<times> pending_write list list" where
  "get_null_resume consume [] pwss = (VNone, pwss)"
| "get_null_resume consume (_ # _) [] = (VNone, [])"
| "get_null_resume consume (None # chain) (p # pwss) =
     (let (v, pwss') = get_null_resume consume chain pwss in (v, p # pwss'))"
| "get_null_resume consume (Some (t, c, v) # chain) (p # pwss) =
     (if consume
      then (if (t, c, v) \<in> set p then (v, remove1 (t, c, v) p # pwss) else (VNone, p # pwss))
      else (v, p # pwss))"

subsection \<open>\<open>interrupt\<close>\<close>

text \<open>The state of a running task: its scratchpad, the pending writes its closures refer to, and
  the writes it has sent.\<close>

record task_run =
  tr_pad :: scratchpad
  tr_pending :: "pending_write list list"
  tr_sent :: "chan_write list"

definition send_resume :: "task_run \<Rightarrow> task_run" where
  "send_resume r = r\<lparr>tr_sent := tr_sent r @ [(RESUME, VList (sp_resume (tr_pad r)))]\<rparr>"

definition interrupt :: "task_run \<Rightarrow> val res \<times> task_run" where
  "interrupt r =
     (let idx = sp_interrupt_counter (tr_pad r);
          r = r\<lparr>tr_pad := (tr_pad r)\<lparr>sp_interrupt_counter := idx + 1\<rparr>\<rparr>;
          resume = sp_resume (tr_pad r)
      in if resume \<noteq> [] \<and> idx < length resume then (Inr (resume ! idx), send_resume r)
         else
           (let (v, pending) = get_null_resume True (sp_null_resume (tr_pad r)) (tr_pending r);
                r = r\<lparr>tr_pending := pending\<rparr>
            in if v \<noteq> VNone
               then (if length resume \<noteq> idx then (Inl AssertionError, r)
                     else (Inr v, send_resume (r\<lparr>tr_pad := (tr_pad r)\<lparr>sp_resume := resume @ [v]\<rparr>\<rparr>)))
               else (Inl GraphInterrupt, r)))"

text \<open>A node that calls \<open>interrupt\<close> \<open>n\<close> times; the first exception ends it.\<close>

fun interrupts :: "nat \<Rightarrow> task_run \<Rightarrow> val list res \<times> task_run" where
  "interrupts 0 r = (Inr [], r)"
| "interrupts (Suc n) r =
     (case interrupt r of
        (Inl e, r') \<Rightarrow> (Inl e, r')
      | (Inr v, r') \<Rightarrow> (case interrupts n r' of
            (Inl e, r'') \<Rightarrow> (Inl e, r'')
          | (Inr vs, r'') \<Rightarrow> (Inr (v # vs), r'')))"

subsection \<open>Replaying the answers\<close>

lemma interrupt_replay:
  assumes "sp_interrupt_counter (tr_pad r) < length (sp_resume (tr_pad r))"
  shows "interrupt r = (Inr (sp_resume (tr_pad r) ! sp_interrupt_counter (tr_pad r)),
    send_resume (r\<lparr>tr_pad := (tr_pad r)\<lparr>sp_interrupt_counter := sp_interrupt_counter (tr_pad r) + 1\<rparr>\<rparr>))"
  using assms by (auto simp: interrupt_def Let_def)

text \<open>The run after \<open>n\<close> answered interrupts.\<close>

definition replayed :: "nat \<Rightarrow> task_run \<Rightarrow> task_run" where
  "replayed n r = r\<lparr>tr_pad := (tr_pad r)\<lparr>sp_interrupt_counter := sp_interrupt_counter (tr_pad r) + n\<rparr>,
     tr_sent := tr_sent r @ replicate n (RESUME, VList (sp_resume (tr_pad r)))\<rparr>"

lemma interrupts_replay:
  assumes "sp_interrupt_counter (tr_pad r) + n \<le> length (sp_resume (tr_pad r))"
  shows "interrupts n r = (Inr (take n (drop (sp_interrupt_counter (tr_pad r)) (sp_resume (tr_pad r)))), replayed n r)"
  using assms
proof (induction n arbitrary: r)
  case 0
  then show ?case by (simp add: replayed_def)
next
  case (Suc n)
  let ?k = "sp_interrupt_counter (tr_pad r)" and ?rs = "sp_resume (tr_pad r)"
  let ?r = "send_resume (r\<lparr>tr_pad := (tr_pad r)\<lparr>sp_interrupt_counter := ?k + 1\<rparr>\<rparr>)"
  have k: "?k < length ?rs" using Suc.prems by simp
  have "interrupts n ?r = (Inr (take n (drop (Suc ?k) ?rs)), replayed n ?r)"
    using Suc.IH [of ?r] Suc.prems by (simp add: send_resume_def)
  moreover have "take (Suc n) (drop ?k ?rs) = ?rs ! ?k # take n (drop (Suc ?k) ?rs)"
    using k by (metis Cons_nth_drop_Suc take_Suc_Cons)
  moreover have "replayed n ?r = replayed (Suc n) r" by (simp add: replayed_def send_resume_def)
  ultimately show ?case by (simp add: interrupt_replay [OF k])
qed

text \<open>At the end of the answers the null resume is used, at most once; then the task stops.\<close>

lemma interrupt_fresh:
  assumes "sp_interrupt_counter (tr_pad r) = length (sp_resume (tr_pad r))"
    and "get_null_resume True (sp_null_resume (tr_pad r)) (tr_pending r) = (v, pending)" "v \<noteq> VNone"
  shows "interrupt r = (Inr v, send_resume (r\<lparr>tr_pending := pending,
    tr_pad := (tr_pad r)\<lparr>sp_interrupt_counter := sp_interrupt_counter (tr_pad r) + 1,
      sp_resume := sp_resume (tr_pad r) @ [v]\<rparr>\<rparr>))"
  using assms by (auto simp: interrupt_def Let_def)

lemma interrupt_stops:
  assumes "sp_interrupt_counter (tr_pad r) \<ge> length (sp_resume (tr_pad r))"
    and "fst (get_null_resume True (sp_null_resume (tr_pad r)) (tr_pending r)) = VNone"
  shows "fst (interrupt r) = Inl GraphInterrupt"
  using assms by (auto simp: interrupt_def Let_def split: prod.splits)

text \<open>A null resume that is stored once is consumed by the first call that asks for it.\<close>

lemma get_null_resume_once:
  assumes "count_list p (t, c, v) \<le> 1"
    and "get_null_resume True (Some (t, c, v) # chain) (p # pwss) = (v', pwss')"
  shows "fst (get_null_resume True (Some (t, c, v) # chain) pwss') = VNone"
proof (cases "(t, c, v) \<in> set p")
  case True
  have "(t, c, v) \<notin> set (remove1 (t, c, v) p)"
    using assms(1) by (induction p) (auto split: if_splits simp: count_list_0_iff)
  then show ?thesis using assms(2) True by auto
next
  case False
  then show ?thesis using assms(2) by auto
qed

lemma get_null_resume_value: "(t, c, v) \<in> set p \<Longrightarrow>
  get_null_resume True (Some (t, c, v) # chain) (p # pwss) = (v, remove1 (t, c, v) p # pwss)"
  by simp

lemma interrupts_add:
  "interrupts (m + n) r = (case interrupts m r of
      (Inl e, r') \<Rightarrow> (Inl e, r')
    | (Inr vs, r') \<Rightarrow> (case interrupts n r' of
         (Inl e, r'') \<Rightarrow> (Inl e, r'')
       | (Inr ws, r'') \<Rightarrow> (Inr (vs @ ws), r'')))"
proof (induction m arbitrary: r)
  case 0
  then show ?case by (auto split: prod.splits sum.splits)
next
  case (Suc m)
  then show ?case by (auto split: prod.splits sum.splits)
qed

subsection \<open>One answer per run\<close>

text \<open>
  C19: A node that runs again, with the recorded answers and the one new answer in its scratchpad, gets the
  recorded answers from its interrupts in order, then the new one, and the interrupt after that stops it again.
\<close>

theorem resume_answers:
  assumes pad: "sp_interrupt_counter (tr_pad r) = 0" "sp_resume (tr_pad r) = answers"
      "sp_null_resume (tr_pad r) = Some (t, c, v) # parents"
    and pending: "tr_pending r = p # outer" "(t, c, v) \<in> set p" "count_list p (t, c, v) \<le> 1"
    and answer: "v \<noteq> VNone"
  shows "fst (interrupts (length answers) r) = Inr answers
    \<and> fst (interrupts (length answers + 1) r) = Inr (answers @ [v])
    \<and> fst (interrupts (length answers + 2) r) = Inl GraphInterrupt"
proof -
  let ?n = "length answers"
  let ?r1 = "replayed ?n r"
  have r1: "interrupts ?n r = (Inr answers, ?r1)" using interrupts_replay [of r ?n] pad by simp
  let ?r2 = "send_resume (?r1\<lparr>tr_pending := remove1 (t, c, v) p # outer,
    tr_pad := (tr_pad ?r1)\<lparr>sp_interrupt_counter := sp_interrupt_counter (tr_pad ?r1) + 1,
      sp_resume := sp_resume (tr_pad ?r1) @ [v]\<rparr>\<rparr>)"
  have get: "get_null_resume True (sp_null_resume (tr_pad ?r1)) (tr_pending ?r1) = (v, remove1 (t, c, v) p # outer)"
    using pad pending by (simp add: replayed_def)
  have i: "interrupt ?r1 = (Inr v, ?r2)"
    using interrupt_fresh [OF _ get answer] pad by (simp add: replayed_def)
  then have r2: "interrupts 1 ?r1 = (Inr [v], ?r2)" by simp
  have "fst (get_null_resume True (Some (t, c, v) # parents) (remove1 (t, c, v) p # outer)) = VNone"
    using get_null_resume_once [OF pending(3)] pending(2) by force
  then have "fst (interrupt ?r2) = Inl GraphInterrupt"
    using pad by (intro interrupt_stops) (simp_all add: send_resume_def replayed_def)
  then obtain r3 where "interrupt ?r2 = (Inl GraphInterrupt, r3)" by (metis prod.collapse)
  then have "interrupts 1 ?r2 = (Inl GraphInterrupt, r3)" by (simp del: interrupts.simps(2) add: interrupts.simps(2) [of 0])
  then have r3: "interrupts (1 + 1) ?r1 = (Inl GraphInterrupt, r3)" by (simp only: interrupts_add r2 prod.case sum.case)
  have "interrupts (?n + 1) r = (Inr (answers @ [v]), ?r2)"
    by (simp only: interrupts_add [of ?n] r1 r2 prod.case sum.case)
  moreover have "interrupts (?n + (1 + 1)) r = (Inl GraphInterrupt, r3)"
    by (simp only: interrupts_add [of ?n] r1 r3 prod.case sum.case)
  ultimately show ?thesis using r1 by (simp only: one_add_one fst_conv simp_thms)
qed

definition ex_run :: task_run where
  "ex_run = \<lparr>tr_pad = \<lparr>sp_step = 1, sp_stop = 25, sp_call_counter = 0, sp_interrupt_counter = 0,
       sp_subgraph_counter = 0, sp_resume = [VInt 1], sp_null_resume = [Some (NULL_TASK_ID, RESUME, VInt 2)]\<rparr>,
     tr_pending = [[(NULL_TASK_ID, RESUME, VInt 2)]], tr_sent = []\<rparr>"

theorem resume_answers_witness:
  "fst (interrupts 1 ex_run) = Inr [VInt 1] \<and> fst (interrupts 2 ex_run) = Inr [VInt 1, VInt 2]
    \<and> fst (interrupts 3 ex_run) = Inl GraphInterrupt"
proof -
  have "sp_interrupt_counter (tr_pad ex_run) = 0" "sp_resume (tr_pad ex_run) = [VInt 1]"
    "sp_null_resume (tr_pad ex_run) = [Some (NULL_TASK_ID, RESUME, VInt 2)]"
    "tr_pending ex_run = [[(NULL_TASK_ID, RESUME, VInt 2)]]" by (simp_all add: ex_run_def)
  from resume_answers [OF this] show ?thesis
    by (simp del: interrupts.simps add: numeral_2_eq_2 numeral_3_eq_3)
qed

end
