(* ===== verification/Tasks.thy ===== *)
theory Tasks
  imports Apply_Writes Resume
begin

section \<open>Preparing the tasks of a step (pregel/_algo.py)\<close>

text \<open>
  \<open>prepare_next_tasks\<close> builds the tasks of the next superstep: one for every pending \<open>Send\<close> and
  one for every node with a trigger that changed since the node last ran. The functions take the
  many keyword arguments of the source as the record \<open>prep_env\<close>; what they change, the pending
  writes (see Resume) and the cache of inputs, is passed in and returned. User functions (mappers,
  key functions) are fields of the records that hold them, the hash functions are parameters.
\<close>

subsection \<open>Nodes, policies, calls\<close>

record cache_policy =
  cpol_key_func :: "val \<Rightarrow> string"
  cpol_ttl :: "int option"

text \<open>\<open>pn_node\<close> is the runnable of the property \<open>node\<close>, \<open>pn_identifier\<close> what \<open>identifier(proc)\<close>
  gives. A mapper has an identity, by which the input cache compares it, and a body.\<close>

record pregel_node =
  pn_channels :: select
  pn_triggers :: "string list"
  pn_mapper :: "(nat \<times> (val \<Rightarrow> val res)) option"
  pn_node :: "runnable option"
  pn_writers :: "runnable list"
  pn_identifier :: "string option"
  pn_retry_policy :: "nat list"
  pn_cache_policy :: "cache_policy option"
  pn_timeout :: val
  pn_tags :: "string list"
  pn_metadata :: "(string, val) dict"
  pn_subgraphs :: "nat list"
  pn_error_handler :: "string option"

text \<open>A \<open>Call\<close> of the functional API, with the runnable and the name \<open>get_runnable_for_task\<close> gives.\<close>

record call =
  ca_proc :: runnable
  ca_name :: "string option"
  ca_identifier :: "string option"
  ca_input :: val
  ca_retry_policy :: "nat list"
  ca_cache_policy :: "cache_policy option"
  ca_callbacks :: "nat option"
  ca_timeout :: val

record prep_env =
  pe_sha1 :: "string \<Rightarrow> string"
  pe_xxh3 :: "string \<Rightarrow> string"
  pe_checkpoint :: checkpoint
  pe_processes :: "(string, pregel_node) dict"
  pe_channels :: channels
  pe_managed :: managed_map
  pe_config :: config
  pe_step :: int
  pe_stop :: int
  pe_for_execution :: bool
  pe_store :: "nat option"
  pe_checkpointer :: "nat option"
  pe_manager :: "(string \<Rightarrow> nat) option"
  pe_cache_policy :: "cache_policy option"
  pe_retry_policy :: "nat list"

text \<open>Without execution a task is only its id, name and path.\<close>

datatype prepared = PTask string string "path list" | XTask exec_task

fun prepared_id :: "prepared \<Rightarrow> string" where
  "prepared_id (PTask i n p) = i"
| "prepared_id (XTask t) = et_id t"

fun prepared_name :: "prepared \<Rightarrow> string" where
  "prepared_name (PTask i n p) = n"
| "prepared_name (XTask t) = tw_name t"

fun prepared_path :: "prepared \<Rightarrow> path list" where
  "prepared_path (PTask i n p) = p"
| "prepared_path (XTask t) = tw_path t"

subsection \<open>Ids\<close>

fun hex_value :: "char \<Rightarrow> nat option" where
  "hex_value c = (let n = of_char c in
     if 48 \<le> n \<and> n \<le> 57 then Some (n - 48)
     else if 97 \<le> n \<and> n \<le> 102 then Some (n - 87)
     else if 65 \<le> n \<and> n \<le> 70 then Some (n - 55)
     else None)"

text \<open>\<open>binascii.unhexlify\<close>, whose exception is a \<open>ValueError\<close>.\<close>

fun unhexlify :: "string \<Rightarrow> string res" where
  "unhexlify [] = Inr []"
| "unhexlify [c] = Inl ValueError"
| "unhexlify (c # d # s) = (case (hex_value c, hex_value d) of
      (Some a, Some b) \<Rightarrow> rbind (unhexlify s) (\<lambda>bs. Inr (char_of (16 * a + b) # bs))
    | _ \<Rightarrow> Inl ValueError)"

definition checkpoint_id_bytes :: "checkpoint \<Rightarrow> string res" where
  "checkpoint_id_bytes cp = unhexlify (filter (\<lambda>c. c \<noteq> CHR ''-'') (cp_id cp))"

definition task_id_func :: "prep_env \<Rightarrow> string \<Rightarrow> string list \<Rightarrow> string" where
  "task_id_func env namespace parts =
     (if cp_v (pe_checkpoint env) > 1 then xxhash_str (pe_xxh3 env) namespace parts
      else uuid5_str (pe_sha1 env) namespace parts)"

definition conf_str :: "config \<Rightarrow> string \<Rightarrow> string option" where
  "conf_str cfg k = (case dict_get (cfg_configurable cfg) k of Some (CStr s) \<Rightarrow> Some s | _ \<Rightarrow> None)"

definition parent_ns :: "prep_env \<Rightarrow> string" where
  "parent_ns env = (case conf_str (pe_config env) ''checkpoint_ns'' of Some s \<Rightarrow> s | None \<Rightarrow> [])"

definition checkpoint_ns_of :: "prep_env \<Rightarrow> string \<Rightarrow> string" where
  "checkpoint_ns_of env name =
     (if parent_ns env \<noteq> [] then parent_ns env @ NS_SEP @ name else name)"

subsection \<open>The input of a node\<close>

type_synonym input_key = "nat option \<times> string list"
type_synonym input_cache = "(input_key, val) dict"

definition input_cache_key :: "pregel_node \<Rightarrow> input_key" where
  "input_cache_key proc = (map_option fst (pn_mapper proc),
     (case pn_channels proc of Many cs \<Rightarrow> cs | One c \<Rightarrow> [c]))"

definition input_step ::
  "channels \<Rightarrow> managed_map \<Rightarrow> 'a step_bounds_scheme \<Rightarrow> string \<Rightarrow> (string, val) dict \<Rightarrow> (string, val) dict res" where
  "input_step chs mg pad chan d =
     (case dict_get chs chan of
        Some c \<Rightarrow>
          if ch_is_available c then rbind (ch_get c) (\<lambda>v. Inr (dict_set chan v d)) else Inr d
      | None \<Rightarrow> rbind (dict_index mg chan) (\<lambda>m. Inr (dict_set chan (managed_get m pad) d)))"

text \<open>\<open>None\<close> is \<open>MISSING\<close>: the node's channel is empty.\<close>

definition input_value ::
  "channels \<Rightarrow> managed_map \<Rightarrow> 'a step_bounds_scheme \<Rightarrow> bool \<Rightarrow> pregel_node \<Rightarrow> val option res" where
  "input_value chs mg pad for_execution proc =
     rbind (case pn_channels proc of
              Many cs \<Rightarrow> rbind (rfold (input_step chs mg pad) cs []) (\<lambda>d. Inr (Some (VDict d)))
            | One c \<Rightarrow> (case dict_get chs c of
                 Some ch \<Rightarrow> if ch_is_available ch then rbind (ch_get ch) (\<lambda>v. Inr (Some v)) else Inr None
               | None \<Rightarrow> Inr None))
       (\<lambda>r. case r of None \<Rightarrow> Inr None
          | Some v \<Rightarrow> (case pn_mapper proc of
              Some (_, f) \<Rightarrow> if for_execution then rbind (f v) (\<lambda>w. Inr (Some w)) else Inr (Some v)
            | None \<Rightarrow> Inr (Some v)))"

definition proc_input ::
  "channels \<Rightarrow> managed_map \<Rightarrow> 'a step_bounds_scheme \<Rightarrow> bool \<Rightarrow> pregel_node \<Rightarrow> input_cache
     \<Rightarrow> (val option \<times> input_cache) res" where
  "proc_input chs mg pad for_execution proc cache =
     (case dict_get cache (input_cache_key proc) of
        Some v \<Rightarrow> Inr (Some v, cache)
      | None \<Rightarrow> rbind (input_value chs mg pad for_execution proc)
          (\<lambda>r. case r of
             None \<Rightarrow> Inr (None, cache)
           | Some v \<Rightarrow> Inr (Some v, dict_set (input_cache_key proc) v cache)))"

subsection \<open>The configuration of a task\<close>

text \<open>\<open>_merge_metadata\<close>: only \<open>lc_versions\<close> merges one level deeper.\<close>

definition merge_metadata :: "(string, val) dict \<Rightarrow> (string, val) dict \<Rightarrow> (string, val) dict" where
  "merge_metadata base new =
     fold (\<lambda>(key, v) merged.
        case (dict_get merged key, v) of
          (Some (VDict a), VDict b) \<Rightarrow>
            dict_set key (if key = ''lc_versions'' then VDict (dict_update a b) else v) merged
        | _ \<Rightarrow> dict_set key v merged) new base"

text \<open>\<open>merge_configs(config, \<lbrace>"metadata": ..., "tags": ...\<rbrace>)\<close> followed by \<open>patch_config\<close>: a new
  callback manager takes \<open>run_name\<close> and \<open>run_id\<close> away before the name is set.\<close>

definition merge_task_config :: "config \<Rightarrow> (string, val) dict \<Rightarrow> string list \<Rightarrow> config" where
  "merge_task_config cfg metadata tags =
     cfg\<lparr>cfg_metadata := (if metadata = [] then cfg_metadata cfg else merge_metadata (cfg_metadata cfg) metadata),
         cfg_tags := cfg_tags cfg @ tags\<rparr>"

definition patch_config :: "config \<Rightarrow> nat option \<Rightarrow> string \<Rightarrow> (string, cval) dict \<Rightarrow> config" where
  "patch_config cfg callbacks run_name patch =
     (let cfg = (case callbacks of None \<Rightarrow> cfg
                 | Some m \<Rightarrow> cfg\<lparr>cfg_callbacks := Some m, cfg_run_name := None, cfg_run_id := None\<rparr>)
      in cfg\<lparr>cfg_run_name := Some run_name,
             cfg_configurable := dict_update (cfg_configurable cfg) patch\<rparr>)"

definition conf_runtime :: "config \<Rightarrow> runtime" where
  "conf_runtime cfg = (case dict_get (cfg_configurable cfg) ''__pregel_runtime'' of
       Some (CRuntime rt) \<Rightarrow> rt
     | _ \<Rightarrow> \<lparr>rt_previous = VNone, rt_store = None, rt_execution_info = None\<rparr>)"

definition conf_scratchpad :: "config \<Rightarrow> scratchpad option" where
  "conf_scratchpad cfg = (case dict_get (cfg_configurable cfg) ''__pregel_scratchpad'' of
       Some (CScratchpad p) \<Rightarrow> Some p | _ \<Rightarrow> None)"

definition conf_resume_map :: "config \<Rightarrow> (string, val) dict option" where
  "conf_resume_map cfg = (case dict_get (cfg_configurable cfg) ''__pregel_resume_map'' of
       Some (CResumeMap m) \<Rightarrow> Some m | _ \<Rightarrow> None)"

definition conf_checkpoint_map :: "config \<Rightarrow> (string, string) dict" where
  "conf_checkpoint_map cfg = (case dict_get (cfg_configurable cfg) ''checkpoint_map'' of
       Some (CMap m) \<Rightarrow> m | _ \<Rightarrow> [])"

text \<open>\<open>checkpointer or configurable.get(CONFIG_KEY_CHECKPOINTER)\<close>\<close>

definition conf_checkpointer :: "prep_env \<Rightarrow> cval" where
  "conf_checkpointer env = (case pe_checkpointer env of
       Some c \<Rightarrow> CCheckpointer c
     | None \<Rightarrow> (case dict_get (cfg_configurable (pe_config env)) ''__pregel_checkpointer'' of
          Some c \<Rightarrow> c | None \<Rightarrow> CNone))"

definition child_callbacks :: "prep_env \<Rightarrow> nat option" where
  "child_callbacks env = map_option (\<lambda>get_child. get_child (''graph:step:'' @ int_str (pe_step env))) (pe_manager env)"

definition task_execution_info :: "prep_env \<Rightarrow> string \<Rightarrow> string \<Rightarrow> execution_info" where
  "task_execution_info env task_ns task_id =
     \<lparr>ei_checkpoint_id = cp_id (pe_checkpoint env), ei_checkpoint_ns = task_ns, ei_task_id = task_id,
      ei_thread_id = conf_str (pe_config env) ''thread_id'', ei_run_id = cfg_run_id (pe_config env),
      ei_node_attempt = 1, ei_first_attempt_time = None\<rparr>"

text \<open>The entries of \<open>configurable\<close> that every kind of task gets.\<close>

definition task_configurable ::
  "prep_env \<Rightarrow> string \<Rightarrow> string \<Rightarrow> scratchpad \<Rightarrow> runtime \<Rightarrow> task_writes \<Rightarrow> (string, cval) dict" where
  "task_configurable env task_id task_ns pad rt reader =
     [(''__pregel_task_id'', CStr task_id),
      (''__pregel_send'', CSend),
      (''__pregel_read'', CRead pad reader),
      (''__pregel_checkpointer'', conf_checkpointer env),
      (''checkpoint_map'', CMap (dict_set (parent_ns env) (cp_id (pe_checkpoint env)) (conf_checkpoint_map (pe_config env)))),
      (''checkpoint_id'', CNone),
      (''checkpoint_ns'', CStr task_ns),
      (''__pregel_scratchpad'', CScratchpad pad),
      (''__pregel_runtime'', CRuntime rt)]"

fun path_val :: "path \<Rightarrow> val" where
  "path_val (PStr s) = VStr s"
| "path_val (PInt i) = VInt i"
| "path_val (PBool b) = VBool b"
| "path_val (PTup ps) = VTuple (map path_val ps)"

definition task_metadata :: "int \<Rightarrow> string \<Rightarrow> string list \<Rightarrow> path list \<Rightarrow> string \<Rightarrow> (string, val) dict" where
  "task_metadata step name trigs path task_ns =
     [(''langgraph_step'', VInt step), (''langgraph_node'', VStr name),
      (''langgraph_triggers'', VTuple (map VStr trigs)), (''langgraph_path'', VTuple (map path_val path)),
      (''langgraph_checkpoint_ns'', VStr task_ns)]"

definition make_cache_key ::
  "prep_env \<Rightarrow> cache_policy option \<Rightarrow> string option \<Rightarrow> string list \<Rightarrow> val \<Rightarrow> cache_key option" where
  "make_cache_key env policy ident names arg = map_option (\<lambda>pol.
     \<lparr>ck_ns = [''__pregel_ns_writes'', (case ident of Some s \<Rightarrow> if s = [] then ''__dynamic__'' else s
                                                  | None \<Rightarrow> ''__dynamic__'')] @ names,
      ck_key = pe_xxh3 env (cpol_key_func pol arg), ck_ttl = cpol_ttl pol\<rparr>) policy"

definition or_policy :: "cache_policy option \<Rightarrow> cache_policy option \<Rightarrow> cache_policy option" where
  "or_policy a b = (case a of None \<Rightarrow> b | Some p \<Rightarrow> Some p)"

definition or_list :: "'a list \<Rightarrow> 'a list \<Rightarrow> 'a list" where
  "or_list a b = (if a = [] then b else a)"

definition env_previous :: "prep_env \<Rightarrow> val" where
  "env_previous env = dict_get_or (cp_channel_values (pe_checkpoint env)) PREVIOUS VNone"

definition env_scratchpad :: "prep_env \<Rightarrow> string \<Rightarrow> string \<Rightarrow> pending_write list \<Rightarrow> scratchpad \<times> pending_write list" where
  "env_scratchpad env task_id task_ns pws =
     make_scratchpad (conf_scratchpad (pe_config env)) pws task_id (pe_xxh3 env task_ns)
       (conf_resume_map (pe_config env)) (pe_step env) (pe_stop env)"

subsection \<open>PULL tasks\<close>

definition build_pull_task ::
  "prep_env \<Rightarrow> pregel_node \<Rightarrow> string \<Rightarrow> string list \<Rightarrow> string \<Rightarrow> string \<Rightarrow> scratchpad \<Rightarrow> val \<Rightarrow> runnable \<Rightarrow> exec_task" where
  "build_pull_task env proc name trigs task_id task_ns pad v node =
     (let path = [PStr PULL, PStr name];
          metadata = dict_update (task_metadata (pe_step env) name trigs path task_ns) (pn_metadata proc);
          rt = (conf_runtime (pe_config env))\<lparr>rt_previous := env_previous env, rt_store := pe_store env,
                 rt_execution_info := Some (task_execution_info env task_ns task_id)\<rparr>;
          reader = \<lparr>tw_path = path, tw_name = name, tw_writes = [], tw_triggers = trigs\<rparr>
      in \<lparr>tw_path = path, tw_name = name, tw_writes = [], tw_triggers = trigs,
          et_id = task_id, et_input = v, et_proc = node,
          et_config = patch_config (merge_task_config (pe_config env) metadata (pn_tags proc))
            (child_callbacks env) name (task_configurable env task_id task_ns pad rt reader),
          et_retry_policy = or_list (pn_retry_policy proc) (pe_retry_policy env),
          et_cache_key = make_cache_key env (or_policy (pn_cache_policy proc) (pe_cache_policy env))
            (pn_identifier proc) [name] v,
          et_writers = pn_writers proc, et_subgraphs = pn_subgraphs proc, et_timeout = pn_timeout proc\<rparr>)"

definition check_id :: "string \<Rightarrow> string option \<Rightarrow> 'a \<Rightarrow> 'a res" where
  "check_id task_id checksum x =
     (case checksum of Some c \<Rightarrow> if task_id = c then Inr x else Inl AssertionError | None \<Rightarrow> Inr x)"

definition prepare_pull ::
  "prep_env \<Rightarrow> string \<Rightarrow> version option \<Rightarrow> string \<Rightarrow> string option \<Rightarrow> pending_write list \<times> input_cache
     \<Rightarrow> (prepared option \<times> pending_write list \<times> input_cache) res" where
  "prepare_pull env idb null name checksum = (\<lambda>(pws, cache).
     case dict_get (pe_processes env) name of
       None \<Rightarrow> Inr (None, pws, cache)
     | Some proc \<Rightarrow> (case null of
         None \<Rightarrow> Inr (None, pws, cache)
       | Some null_version \<Rightarrow>
           rbind (triggers (pe_channels env) (cp_channel_versions (pe_checkpoint env))
                    (dict_get (cp_versions_seen (pe_checkpoint env)) name) null_version (pn_triggers proc))
           (\<lambda>due. if \<not> due then Inr (None, pws, cache)
             else
               (let trigs = sort (pn_triggers proc);
                    ns = checkpoint_ns_of env name;
                    task_id = task_id_func env idb ([ns, int_str (pe_step env), name, PULL] @ trigs);
                    task_ns = ns @ NS_END @ task_id;
                    (pad, pws) = env_scratchpad env task_id task_ns pws
                in rbind (proc_input (pe_channels env) (pe_managed env) pad (pe_for_execution env) proc cache)
                   (\<lambda>(v, cache). case v of
                        None \<Rightarrow> Inr (None, pws, cache)
                      | Some v \<Rightarrow>
                          rbind (check_id task_id checksum ())
                          (\<lambda>_. if pe_for_execution env
                               then Inr (map_option (\<lambda>node. XTask (build_pull_task env proc name trigs task_id task_ns pad v node))
                                           (pn_node proc), pws, cache)
                               else Inr (Some (PTask task_id name [PStr PULL, PStr name]), pws, cache)))))))"

subsection \<open>PUSH tasks from \<open>Send\<close>\<close>

definition build_send_task ::
  "prep_env \<Rightarrow> pregel_node \<Rightarrow> string \<Rightarrow> val \<Rightarrow> val \<Rightarrow> path list \<Rightarrow> string \<Rightarrow> string \<Rightarrow> scratchpad \<Rightarrow> runnable \<Rightarrow> exec_task" where
  "build_send_task env proc name arg timeout path task_id task_ns pad node =
     (let metadata = dict_update (task_metadata (pe_step env) name [PUSH] path task_ns) (pn_metadata proc);
          rt = (conf_runtime (pe_config env))\<lparr>rt_previous := env_previous env, rt_store := pe_store env,
                 rt_execution_info := Some (task_execution_info env task_ns task_id)\<rparr>;
          reader = \<lparr>tw_path = path, tw_name = name, tw_writes = [], tw_triggers = [PUSH]\<rparr>
      in \<lparr>tw_path = path, tw_name = name, tw_writes = [], tw_triggers = [PUSH],
          et_id = task_id, et_input = arg, et_proc = node,
          et_config = patch_config (merge_task_config (pe_config env) metadata (pn_tags proc))
            (child_callbacks env) name (task_configurable env task_id task_ns pad rt reader),
          et_retry_policy = or_list (pn_retry_policy proc) (pe_retry_policy env),
          et_cache_key = make_cache_key env (or_policy (pn_cache_policy proc) (pe_cache_policy env))
            (pn_identifier proc) [name] arg,
          et_writers = pn_writers proc, et_subgraphs = pn_subgraphs proc,
          et_timeout = (if timeout \<noteq> VNone then timeout else pn_timeout proc)\<rparr>)"

text \<open>The packet with the given index among the pending sends, if it can run.\<close>

definition find_send :: "prep_env \<Rightarrow> int \<Rightarrow> (string \<times> val \<times> val \<times> pregel_node \<times> runnable) option res" where
  "find_send env idx =
     (case dict_get (pe_channels env) TASKS of
        None \<Rightarrow> Inl KeyError
      | Some c \<Rightarrow>
          if \<not> ch_is_available c then Inr None
          else rbind (rbind (ch_get c) py_iter)
            (\<lambda>sends.
               if idx < 0 \<or> idx \<ge> int (length sends) then Inr None
               else (case sends ! nat idx of
                   VSend node arg timeout \<Rightarrow>
                     (case dict_get (pe_processes env) node of
                        None \<Rightarrow> Inr None
                      | Some proc \<Rightarrow>
                          Inr (map_option (\<lambda>r. (node, arg, timeout, proc, r)) (pn_node proc)))
                 | _ \<Rightarrow> Inr None)))"

definition prepare_push_send ::
  "prep_env \<Rightarrow> string \<Rightarrow> path list \<Rightarrow> string option \<Rightarrow> pending_write list
     \<Rightarrow> (prepared option \<times> pending_write list) res" where
  "prepare_push_send env idb task_path checksum pws =
     (case task_path of
        [p, PInt idx] \<Rightarrow>
          rbind (find_send env idx)
          (\<lambda>found. case found of
             None \<Rightarrow> Inr (None, pws)
           | Some (name, arg, timeout, proc, node) \<Rightarrow>
               (let ns = checkpoint_ns_of env name;
                    task_id = task_id_func env idb [ns, int_str (pe_step env), name, PUSH, int_str idx];
                    task_ns = ns @ '':'' @ task_id;
                    path = [p, PInt idx, PBool False]
                in rbind (check_id task_id checksum ())
                   (\<lambda>_. if pe_for_execution env
                        then let (pad, pws) = env_scratchpad env task_id task_ns pws
                             in Inr (Some (XTask (build_send_task env proc name arg timeout path task_id task_ns pad node)), pws)
                        else Inr (Some (PTask task_id name path), pws))))
      | _ \<Rightarrow> Inr (None, pws))"

subsection \<open>PUSH tasks from a call (functional API)\<close>

definition build_call_task ::
  "prep_env \<Rightarrow> call \<Rightarrow> string \<Rightarrow> path list \<Rightarrow> string \<Rightarrow> string \<Rightarrow> scratchpad \<Rightarrow> exec_task" where
  "build_call_task env call name path task_id task_ns pad =
     (let metadata = task_metadata (pe_step env) name [PUSH] path task_ns;
          rt = (conf_runtime (pe_config env))\<lparr>rt_store := pe_store env,
                 rt_execution_info := Some (task_execution_info env task_ns task_id)\<rparr>;
          reader = \<lparr>tw_path = path, tw_name = name, tw_writes = [], tw_triggers = [PUSH]\<rparr>
      in \<lparr>tw_path = path, tw_name = name, tw_writes = [], tw_triggers = [PUSH],
          et_id = task_id, et_input = ca_input call, et_proc = ca_proc call,
          et_config = patch_config (merge_task_config (pe_config env) metadata [])
            (case ca_callbacks call of Some c \<Rightarrow> Some c | None \<Rightarrow> child_callbacks env) name
            (task_configurable env task_id task_ns pad rt reader),
          et_retry_policy = or_list (ca_retry_policy call) (pe_retry_policy env),
          et_cache_key = make_cache_key env (or_policy (ca_cache_policy call) (pe_cache_policy env))
            (ca_identifier call) [] (ca_input call),
          et_writers = [], et_subgraphs = [], et_timeout = ca_timeout call\<rparr>)"

definition prepare_push_call ::
  "prep_env \<Rightarrow> string \<Rightarrow> path list \<Rightarrow> int \<Rightarrow> call \<Rightarrow> string option \<Rightarrow> pending_write list
     \<Rightarrow> (prepared option \<times> pending_write list) res" where
  "prepare_push_call env idb parent_path idx call checksum pws =
     (case ca_name call of
        None \<Rightarrow> Inl ValueError
      | Some name \<Rightarrow>
          (let ns = checkpoint_ns_of env name;
               task_id = task_id_func env idb
                 [ns, int_str (pe_step env), name, PUSH, task_path_str (PTup parent_path), int_str idx];
               task_ns = ns @ '':'' @ task_id;
               path = [PStr PUSH, PTup parent_path, PInt idx, PBool True]
           in rbind (check_id task_id checksum ())
              (\<lambda>_. if pe_for_execution env
                   then let (pad, pws) = env_scratchpad env task_id task_ns pws
                        in Inr (Some (XTask (build_call_task env call name path task_id task_ns pad)), pws)
                   else Inr (Some (PTask task_id name path), pws))))"

subsection \<open>\<open>prepare_single_task\<close>\<close>

text \<open>A path whose last element is a \<open>Call\<close> is a constructor of its own; the id of the parent
  task, its fourth element, is not used.\<close>

datatype task_path = CallPath "path list" int string call | TaskPath "path list"

definition prepare_single_task ::
  "prep_env \<Rightarrow> string \<Rightarrow> version option \<Rightarrow> task_path \<Rightarrow> string option \<Rightarrow> pending_write list \<times> input_cache
     \<Rightarrow> (prepared option \<times> pending_write list \<times> input_cache) res" where
  "prepare_single_task env idb null task_path checksum = (\<lambda>(pws, cache).
     case task_path of
       CallPath parent idx parent_id call \<Rightarrow>
         rbind (prepare_push_call env idb parent idx call checksum pws) (\<lambda>(t, pws). Inr (t, pws, cache))
     | TaskPath (PStr kind # rest) \<Rightarrow>
         if kind = PUSH
         then rbind (prepare_push_send env idb (PStr kind # rest) checksum pws) (\<lambda>(t, pws). Inr (t, pws, cache))
         else if kind = PULL
         then (case rest of PStr name # _ \<Rightarrow> prepare_pull env idb null name checksum (pws, cache)
                          | _ \<Rightarrow> Inr (None, pws, cache))
         else Inr (None, pws, cache)
     | _ \<Rightarrow> Inr (None, pws, cache))"

subsection \<open>\<open>prepare_next_tasks\<close>\<close>

type_synonym prep_state = "prepared list \<times> pending_write list \<times> input_cache"

definition prepare_step ::
  "prep_env \<Rightarrow> string \<Rightarrow> version option \<Rightarrow> path list \<Rightarrow> prep_state \<Rightarrow> prep_state res" where
  "prepare_step env idb null path = (\<lambda>(tasks, pws, cache).
     rbind (prepare_single_task env idb null (TaskPath path) None (pws, cache))
       (\<lambda>(t, pws, cache). Inr (case t of None \<Rightarrow> tasks | Some t \<Rightarrow> tasks @ [t], pws, cache)))"

definition pending_send_paths :: "channels \<Rightarrow> path list list res" where
  "pending_send_paths chs =
     (case dict_get chs TASKS of
        None \<Rightarrow> Inr []
      | Some c \<Rightarrow>
          if ch_is_available c
          then rbind (rbind (ch_get c) py_iter) (\<lambda>sends. Inr (map (\<lambda>i. [PStr PUSH, PInt (int i)]) [0..<length sends]))
          else Inr [])"

definition triggered_nodes :: "string list \<Rightarrow> (string, string list) dict \<Rightarrow> string list" where
  "triggered_nodes updated ttn = remdups (concat (map (\<lambda>chan. dict_get_or ttn chan []) updated))"

text \<open>\<open>updated_channels\<close> and \<open>trigger_to_nodes\<close> are optional, and ignored when empty.\<close>

definition candidate_nodes ::
  "prep_env \<Rightarrow> string list option \<Rightarrow> (string, string list) dict option \<Rightarrow> string list" where
  "candidate_nodes env updated ttn =
     (case (updated, ttn) of
        (Some (u # us), Some (t # ts)) \<Rightarrow> sort (triggered_nodes (u # us) (t # ts))
      | _ \<Rightarrow> if cp_channel_versions (pe_checkpoint env) = [] then [] else dict_keys (pe_processes env))"

definition collect_tasks ::
  "prep_env \<Rightarrow> string list option \<Rightarrow> (string, string list) dict option \<Rightarrow> pending_write list \<Rightarrow> prep_state res" where
  "collect_tasks env updated ttn pws =
     rbind (checkpoint_id_bytes (pe_checkpoint env)) (\<lambda>idb.
     rbind (pending_send_paths (pe_channels env)) (\<lambda>sends.
     let null = checkpoint_null_version (pe_checkpoint env);
         pulls = map (\<lambda>name. [PStr PULL, PStr name]) (candidate_nodes env updated ttn)
     in rfold (prepare_step env idb null) (sends @ pulls) ([], pws, [])))"

definition prepare_next_tasks ::
  "prep_env \<Rightarrow> string list option \<Rightarrow> (string, string list) dict option \<Rightarrow> pending_write list
     \<Rightarrow> ((string, prepared) dict \<times> pending_write list) res" where
  "prepare_next_tasks env updated ttn pws =
     rbind (collect_tasks env updated ttn pws)
       (\<lambda>(tasks, pws, _). Inr (dict_of (map (\<lambda>t. (prepared_id t, t)) tasks), pws))"

subsection \<open>Error handler tasks\<close>

definition read_errors :: "(val \<Rightarrow> val) \<Rightarrow> pending_write list \<Rightarrow> val list" where
  "read_errors coerce pws = map (\<lambda>(_, _, v). coerce v) (filter (\<lambda>(_, c, _). c = ERROR) pws)"

definition read_error_for_task_id :: "(val \<Rightarrow> val) \<Rightarrow> pending_write list \<Rightarrow> string \<Rightarrow> val option" where
  "read_error_for_task_id coerce pws task_id =
     map_option (\<lambda>(_, _, v). coerce v) (find (\<lambda>(t, c, _). t = task_id \<and> c = ERROR) (rev pws))"

text \<open>\<open>to_str\<close> is \<open>str\<close> of an object that is no string.\<close>

definition read_error_source_node :: "(val \<Rightarrow> string) \<Rightarrow> pending_write list \<Rightarrow> string \<Rightarrow> string option" where
  "read_error_source_node to_str pws task_id =
     map_option (\<lambda>(_, _, v). case v of VStr s \<Rightarrow> s | _ \<Rightarrow> to_str v)
       (find (\<lambda>(t, c, _). t = task_id \<and> c = ERROR_SOURCE_NODE) (rev pws))"

definition prepare_error_handler ::
  "prep_env \<Rightarrow> exec_task \<Rightarrow> string \<Rightarrow> val \<Rightarrow> pending_write list \<Rightarrow> (exec_task option \<times> pending_write list) res" where
  "prepare_error_handler env failed handler failed_error pws =
     (case dict_get (pe_processes env) handler of
        None \<Rightarrow> Inr (None, pws)
      | Some proc \<Rightarrow> (case pn_node proc of
          None \<Rightarrow> Inr (None, pws)
        | Some node \<Rightarrow>
            rbind (checkpoint_id_bytes (pe_checkpoint env))
            (\<lambda>idb.
               let ns = checkpoint_ns_of env handler;
                   task_id = task_id_func env idb
                     [ns, int_str (pe_step env), handler, PUSH, ''node_error_handler'', et_id failed];
                   task_ns = ns @ '':'' @ task_id;
                   path = take 3 (tw_path failed) @ [PStr ''node_error_handler'', PBool False];
                   metadata = dict_update (task_metadata (pe_step env) handler [PUSH] path task_ns) (pn_metadata proc);
                   (pad, pws) = env_scratchpad env task_id task_ns pws;
                   rt = (conf_runtime (pe_config env))\<lparr>rt_store := pe_store env, rt_previous := env_previous env\<rparr>;
                   reader = \<lparr>tw_path = path, tw_name = handler, tw_writes = [], tw_triggers = [PUSH]\<rparr>
               in Inr (Some
                 \<lparr>tw_path = path, tw_name = handler, tw_writes = [], tw_triggers = [PUSH],
                  et_id = task_id, et_input = et_input failed, et_proc = node,
                  et_config = patch_config (merge_task_config (pe_config env) metadata (pn_tags proc))
                    (child_callbacks env) handler
                    (task_configurable env task_id task_ns pad rt reader
                       @ [(''__pregel_node_error'', CNodeError (tw_name failed) failed_error)]),
                  et_retry_policy = or_list (pn_retry_policy proc) (pe_retry_policy env),
                  et_cache_key = make_cache_key env (or_policy (pn_cache_policy proc) (pe_cache_policy env))
                    (pn_identifier proc) [handler] (et_input failed),
                  et_writers = pn_writers proc, et_subgraphs = pn_subgraphs proc, et_timeout = VNone\<rparr>, pws))))"

subsection \<open>Sends without untracked values\<close>

fun sanitize_send :: "channels \<Rightarrow> val \<Rightarrow> val" where
  "sanitize_send chs (VSend node (VDict d) timeout) =
     VSend node (VDict (filter (\<lambda>(k, v). \<not> (case dict_get chs k of Some c \<Rightarrow> is_untracked c | None \<Rightarrow> False)) d)) timeout"
| "sanitize_send chs packet = packet"

section \<open>Properties\<close>

subsection \<open>The input cache changes nothing\<close>

text \<open>Nodes that share a cache key read the same channels with the same mapper. The key does not
  tell a channel from a list of one channel, so this is a condition on the graph.\<close>

definition keys_ok :: "(string, pregel_node) dict \<Rightarrow> bool" where
  "keys_ok procs \<longleftrightarrow> (\<forall>m p n q. dict_get procs m = Some p \<longrightarrow> dict_get procs n = Some q \<longrightarrow>
     input_cache_key p = input_cache_key q \<longrightarrow> pn_channels p = pn_channels q \<and> pn_mapper p = pn_mapper q)"

definition env_bounds :: "prep_env \<Rightarrow> step_bounds" where
  "env_bounds env = \<lparr>sp_step = pe_step env, sp_stop = pe_stop env\<rparr>"

definition env_input :: "prep_env \<Rightarrow> pregel_node \<Rightarrow> val option res" where
  "env_input env proc = input_value (pe_channels env) (pe_managed env) (env_bounds env) (pe_for_execution env) proc"

definition cache_valid :: "prep_env \<Rightarrow> input_cache \<Rightarrow> bool" where
  "cache_valid env cache \<longleftrightarrow> (\<forall>key v n proc. dict_get cache key = Some v \<longrightarrow>
     dict_get (pe_processes env) n = Some proc \<longrightarrow> input_cache_key proc = key \<longrightarrow> env_input env proc = Inr (Some v))"

lemma managed_get_cong:
  "sp_step s = sp_step s' \<Longrightarrow> sp_stop s = sp_stop s' \<Longrightarrow> managed_get m s = managed_get m s'"
  by (cases m) simp_all

lemma input_value_bounds:
  assumes "sp_step pad = pe_step env" "sp_stop pad = pe_stop env"
  shows "input_value (pe_channels env) (pe_managed env) pad (pe_for_execution env) proc = env_input env proc"
proof -
  have "managed_get m pad = managed_get m (env_bounds env)" for m
    using assms by (cases m) (simp_all add: env_bounds_def)
  then have "input_step (pe_channels env) (pe_managed env) pad = input_step (pe_channels env) (pe_managed env) (env_bounds env)"
    by (intro ext) (simp add: input_step_def split: option.split)
  then show ?thesis by (simp only: env_input_def input_value_def)
qed

lemma env_input_cong:
  "pn_channels p = pn_channels q \<Longrightarrow> pn_mapper p = pn_mapper q \<Longrightarrow> env_input env p = env_input env q"
  by (simp only: env_input_def input_value_def)

lemma proc_input_uncached:
  assumes pad: "sp_step pad = pe_step env" "sp_stop pad = pe_stop env"
    and valid: "cache_valid env cache" and proc: "dict_get (pe_processes env) n = Some proc"
  shows "rbind (proc_input (pe_channels env) (pe_managed env) pad (pe_for_execution env) proc cache) (\<lambda>(v, _). Inr v)
    = env_input env proc"
proof (cases "dict_get cache (input_cache_key proc)")
  case None
  then show ?thesis
    by (cases "env_input env proc") (auto simp: proc_input_def input_value_bounds [OF pad] split: option.splits)
next
  case (Some v)
  then have "env_input env proc = Inr (Some v)" using valid proc unfolding cache_valid_def by blast
  then show ?thesis using Some by (simp add: proc_input_def)
qed

lemma proc_input_valid:
  assumes pad: "sp_step pad = pe_step env" "sp_stop pad = pe_stop env"
    and valid: "cache_valid env cache" and proc: "dict_get (pe_processes env) n = Some proc"
    and ok: "keys_ok (pe_processes env)"
    and res: "proc_input (pe_channels env) (pe_managed env) pad (pe_for_execution env) proc cache = Inr (v, cache')"
  shows "cache_valid env cache'" "env_input env proc = Inr v"
proof -
  show "env_input env proc = Inr v"
    using proc_input_uncached [OF pad valid proc] res by simp
  note input = this
  show "cache_valid env cache'"
  proof (cases "dict_get cache (input_cache_key proc)")
    case None
    from res None input have c': "cache' = (case v of None \<Rightarrow> cache | Some w \<Rightarrow> dict_set (input_cache_key proc) w cache)"
      by (auto simp: proc_input_def input_value_bounds [OF pad] split: option.splits)
    show ?thesis
    proof (cases v)
      case (Some w)
      have "env_input env q = Inr (Some w)"
        if "dict_get (pe_processes env) m = Some q" "input_cache_key q = input_cache_key proc" for m q
        using ok proc that input Some env_input_cong [of q proc env] unfolding keys_ok_def by metis
      then show ?thesis using valid c' Some by (auto simp: cache_valid_def)
    qed (use valid c' in simp)
  next
    case (Some w)
    then show ?thesis using res valid by (simp add: proc_input_def)
  qed
qed

text \<open>Without \<open>keys_ok\<close> the cache is not transparent: a node that reads one channel and a node that
  reads the list of that one channel share a key, and the second gets the first one's input.\<close>

lemma input_key_collision:
  assumes "pn_channels p = One c" "pn_channels q = Many [c]" "pn_mapper p = None" "pn_mapper q = None"
    and "dict_get chs c = Some ch" "ch_get ch = Inr v"
  shows "proc_input chs mg pad ex p [] = Inr (Some v, [(input_cache_key p, v)])"
    and "proc_input chs mg pad ex q [(input_cache_key p, v)] = Inr (Some v, [(input_cache_key p, v)])"
    and "input_value chs mg pad ex q = Inr (Some (VDict [(c, v)]))"
proof -
  have "ch_is_available ch" using assms(6) ch.is_available_iff_get by blast
  then show "proc_input chs mg pad ex p [] = Inr (Some v, [(input_cache_key p, v)])"
    and "proc_input chs mg pad ex q [(input_cache_key p, v)] = Inr (Some v, [(input_cache_key p, v)])"
    and "input_value chs mg pad ex q = Inr (Some (VDict [(c, v)]))"
    using assms by (simp_all add: proc_input_def input_value_def input_cache_key_def input_step_def)
qed

lemma env_scratchpad_bounds:
  "env_scratchpad env i ns pws = (pad, pws') \<Longrightarrow> sp_step pad = pe_step env \<and> sp_stop pad = pe_stop env"
  by (auto simp: env_scratchpad_def make_scratchpad_def Let_def)

subsection \<open>Which tasks are prepared\<close>

text \<open>The condition for a node to get a PULL task.\<close>

definition runs :: "prep_env \<Rightarrow> string \<Rightarrow> bool" where
  "runs env n \<longleftrightarrow> (\<exists>proc null v. dict_get (pe_processes env) n = Some proc
     \<and> checkpoint_null_version (pe_checkpoint env) = Some null
     \<and> due (pe_channels env) (cp_channel_versions (pe_checkpoint env)) (cp_versions_seen (pe_checkpoint env)) null n (pn_triggers proc)
     \<and> env_input env proc = Inr (Some v) \<and> (pe_for_execution env \<longrightarrow> pn_node proc \<noteq> None))"

lemma build_pull_task_simps [simp]:
  "tw_name (build_pull_task env proc name trigs i ns pad v node) = name"
  "tw_path (build_pull_task env proc name trigs i ns pad v node) = [PStr PULL, PStr name]"
  "tw_triggers (build_pull_task env proc name trigs i ns pad v node) = trigs"
  "et_input (build_pull_task env proc name trigs i ns pad v node) = v"
  "et_id (build_pull_task env proc name trigs i ns pad v node) = i"
  by (simp_all add: build_pull_task_def Let_def)

text \<open>The input of a task is what its node reads from the channels.\<close>

definition uncached_input :: "prep_env \<Rightarrow> prepared \<Rightarrow> bool" where
  "uncached_input env x \<longleftrightarrow> (\<forall>t. x = XTask t \<longrightarrow> (case dict_get (pe_processes env) (tw_name t) of
     Some proc \<Rightarrow> env_input env proc = Inr (Some (et_input t)) | None \<Rightarrow> False))"

lemma prepare_pull_runs:
  assumes "prepare_pull env idb (checkpoint_null_version (pe_checkpoint env)) name None (pws, cache) = Inr (t, pws', cache')"
    and valid: "cache_valid env cache" and ok: "keys_ok (pe_processes env)"
  shows "cache_valid env cache' \<and> (case t of
      None \<Rightarrow> \<not> runs env name
    | Some x \<Rightarrow> runs env name \<and> prepared_name x = name \<and> prepared_path x = [PStr PULL, PStr name] \<and> uncached_input env x)"
proof (cases "dict_get (pe_processes env) name")
  case None
  then show ?thesis using assms by (auto simp: prepare_pull_def runs_def)
next
  case proc: (Some proc)
  show ?thesis
  proof (cases "checkpoint_null_version (pe_checkpoint env)")
    case None
    then show ?thesis using assms proc by (auto simp: prepare_pull_def runs_def)
  next
    case null: (Some null)
    let ?due = "triggers (pe_channels env) (cp_channel_versions (pe_checkpoint env))
                    (dict_get (cp_versions_seen (pe_checkpoint env)) name) null (pn_triggers proc)"
    let ?ns = "checkpoint_ns_of env name"
    let ?id = "task_id_func env idb ([?ns, int_str (pe_step env), name, PULL] @ sort (pn_triggers proc))"
    obtain pad pws1 where pad: "env_scratchpad env ?id (?ns @ NS_END @ ?id) pws = (pad, pws1)"
      by (cases "env_scratchpad env ?id (?ns @ NS_END @ ?id) pws")
    from assms(1) obtain due where d: "?due = Inr due"
      by (cases ?due) (auto simp: prepare_pull_def proc null)
    show ?thesis
    proof (cases due)
      case False
      then show ?thesis using assms d by (auto simp: prepare_pull_def proc null runs_def due_def)
    next
      case True
      with assms(1) d proc null pad obtain v where
        pi: "proc_input (pe_channels env) (pe_managed env) pad (pe_for_execution env) proc cache = Inr (v, cache')"
        and t: "t = (case v of None \<Rightarrow> None | Some v \<Rightarrow>
            if pe_for_execution env
            then map_option (\<lambda>node. XTask (build_pull_task env proc name (sort (pn_triggers proc)) ?id (?ns @ NS_END @ ?id) pad v node)) (pn_node proc)
            else Some (PTask ?id name [PStr PULL, PStr name]))"
        by (auto simp: prepare_pull_def Let_def rbind_Inr_iff check_id_def split: option.splits if_splits prod.splits)
      have b: "sp_step pad = pe_step env" "sp_stop pad = pe_stop env"
        using env_scratchpad_bounds [OF pad] by auto
      note v = proc_input_valid [OF b valid proc ok pi]
      have r: "runs env name \<longleftrightarrow> v \<noteq> None \<and> (pe_for_execution env \<longrightarrow> pn_node proc \<noteq> None)"
        using proc null d True v(2) by (auto simp: runs_def due_def)
      show ?thesis using v r t proc by (auto simp: uncached_input_def split: option.splits)
    qed
  qed
qed

lemma push_pull: "PUSH \<noteq> PULL"
  by (simp add: name_defs)

lemma prepare_step_pull:
  "prepare_step env idb null [PStr PULL, PStr n] (ts, pws, cache) =
     rbind (prepare_pull env idb null n None (pws, cache))
       (\<lambda>(t, pws, cache). Inr (case t of None \<Rightarrow> ts | Some t \<Rightarrow> ts @ [t], pws, cache))"
  using push_pull by (simp add: prepare_step_def prepare_single_task_def)

lemma prepare_step_push:
  "prepare_step env idb null [PStr PUSH, PInt i] (ts, pws, cache) =
     rbind (prepare_push_send env idb [PStr PUSH, PInt i] None pws)
       (\<lambda>(t, pws). Inr (case t of None \<Rightarrow> ts | Some t \<Rightarrow> ts @ [t], pws, cache))"
  by (cases "prepare_push_send env idb [PStr PUSH, PInt i] None pws")
    (auto simp: prepare_step_def prepare_single_task_def)

lemma prepare_pull_path:
  "prepare_pull env idb null name None (pws, cache) = Inr (Some x, r) \<Longrightarrow> prepared_path x = [PStr PULL, PStr (prepared_name x)]"
  by (auto simp: prepare_pull_def Let_def rbind_Inr_iff check_id_def split: option.splits if_splits prod.splits)

lemma pulls_fold_paths:
  assumes "rfold (prepare_step env idb null) (map (\<lambda>name. [PStr PULL, PStr name]) names) (ts, pws, cache) = Inr (ts', pws', cache')"
  shows "\<exists>new. ts' = ts @ new \<and> (\<forall>x \<in> set new. prepared_path x = [PStr PULL, PStr (prepared_name x)])"
  using assms
proof (induction names arbitrary: ts pws cache)
  case (Cons n names)
  from Cons.prems obtain t pws1 cache1 where
    p: "prepare_pull env idb null n None (pws, cache) = Inr (t, pws1, cache1)"
    and f: "rfold (prepare_step env idb null) (map (\<lambda>name. [PStr PULL, PStr name]) names)
      ((case t of None \<Rightarrow> ts | Some t \<Rightarrow> ts @ [t]), pws1, cache1) = Inr (ts', pws', cache')"
    by (auto simp: prepare_step_pull rbind_Inr_iff)
  from Cons.IH [OF f] prepare_pull_path p show ?case by (cases t) force+
qed simp

lemma pulls_fold:
  assumes "rfold (prepare_step env idb (checkpoint_null_version (pe_checkpoint env)))
      (map (\<lambda>name. [PStr PULL, PStr name]) names) (ts, pws, cache) = Inr (ts', pws', cache')"
    and "cache_valid env cache" "keys_ok (pe_processes env)"
  shows "\<exists>new. ts' = ts @ new \<and> map prepared_name new = filter (runs env) names
    \<and> (\<forall>x \<in> set new. prepared_path x = [PStr PULL, PStr (prepared_name x)] \<and> uncached_input env x)"
  using assms(1,2)
proof (induction names arbitrary: ts pws cache)
  case Nil
  then show ?case by simp
next
  case (Cons n names)
  from Cons.prems(1) obtain t pws1 cache1 where
    p: "prepare_pull env idb (checkpoint_null_version (pe_checkpoint env)) n None (pws, cache) = Inr (t, pws1, cache1)"
    and f: "rfold (prepare_step env idb (checkpoint_null_version (pe_checkpoint env)))
      (map (\<lambda>name. [PStr PULL, PStr name]) names) ((case t of None \<Rightarrow> ts | Some t \<Rightarrow> ts @ [t]), pws1, cache1) = Inr (ts', pws', cache')"
    by (auto simp: prepare_step_pull rbind_Inr_iff)
  note r = prepare_pull_runs [OF p Cons.prems(2) assms(3)]
  from Cons.IH [OF f] r obtain new where "ts' = (case t of None \<Rightarrow> ts | Some t \<Rightarrow> ts @ [t]) @ new"
    "map prepared_name new = filter (runs env) names"
    "\<forall>x \<in> set new. prepared_path x = [PStr PULL, PStr (prepared_name x)] \<and> uncached_input env x" by blast
  then show ?case using r by (cases t) (auto intro!: exI [of _ "case t of None \<Rightarrow> new | Some x \<Rightarrow> x # new"])
qed

text \<open>The task that the send with index \<open>i\<close> gives.\<close>

definition send_task :: "prep_env \<Rightarrow> nat \<Rightarrow> (string \<times> val \<times> nat) option" where
  "send_task env i = (case find_send env (int i) of
     Inr (Some (node, arg, _)) \<Rightarrow> Some (node, arg, i) | _ \<Rightarrow> None)"

definition is_send_task :: "prep_env \<Rightarrow> prepared \<Rightarrow> string \<times> val \<times> nat \<Rightarrow> bool" where
  "is_send_task env x = (\<lambda>(node, arg, i). prepared_name x = node
     \<and> prepared_path x = [PStr PUSH, PInt (int i), PBool False]
     \<and> (case x of XTask t \<Rightarrow> pe_for_execution env \<and> et_input t = arg | PTask _ _ _ \<Rightarrow> \<not> pe_for_execution env))"

lemma prepare_send_spec:
  assumes "prepare_push_send env idb [PStr PUSH, PInt (int i)] None pws = Inr (t, pws')"
  shows "rel_option (is_send_task env) t (send_task env i)"
proof -
  from assms obtain found where f: "find_send env (int i) = Inr found"
    by (auto simp: prepare_push_send_def rbind_Inr_iff)
  show ?thesis
  proof (cases found)
    case None
    then show ?thesis using assms f by (simp add: prepare_push_send_def send_task_def)
  next
    case (Some r)
    obtain name arg timeout proc node where r: "r = (name, arg, timeout, proc, node)" by (cases r)
    let ?ns = "checkpoint_ns_of env name"
    let ?id = "task_id_func env idb [?ns, int_str (pe_step env), name, PUSH, int_str (int i)]"
    obtain pad pws1 where pad: "env_scratchpad env ?id (?ns @ '':'' @ ?id) pws = (pad, pws1)"
      by (cases "env_scratchpad env ?id (?ns @ '':'' @ ?id) pws")
    show ?thesis
      using assms f Some r pad
      by (cases "pe_for_execution env")
        (auto simp: prepare_push_send_def send_task_def is_send_task_def Let_def check_id_def build_send_task_def)
  qed
qed

lemma send_task_path: "is_send_task env x s \<Longrightarrow> prepared_path x \<noteq> [PStr PULL, PStr n]"
  by (cases s) (simp add: is_send_task_def)

lemma sends_fold:
  assumes "rfold (prepare_step env idb null) (map (\<lambda>i. [PStr PUSH, PInt (int i)]) idxs) (ts, pws, cache) = Inr (ts', pws', cache')"
  shows "cache' = cache \<and> (\<exists>new. ts' = ts @ new \<and> list_all2 (is_send_task env) new (List.map_filter (send_task env) idxs))"
  using assms
proof (induction idxs arbitrary: ts pws)
  case Nil
  then show ?case by (simp add: List.map_filter_def)
next
  case (Cons i idxs)
  from Cons.prems obtain t pws1 where
    p: "prepare_push_send env idb [PStr PUSH, PInt (int i)] None pws = Inr (t, pws1)"
    and f: "rfold (prepare_step env idb null) (map (\<lambda>i. [PStr PUSH, PInt (int i)]) idxs)
      ((case t of None \<Rightarrow> ts | Some t \<Rightarrow> ts @ [t]), pws1, cache) = Inr (ts', pws', cache')"
    by (auto simp: prepare_step_push rbind_Inr_iff)
  from Cons.IH [OF f] obtain new where n: "cache' = cache" "ts' = (case t of None \<Rightarrow> ts | Some t \<Rightarrow> ts @ [t]) @ new"
    "list_all2 (is_send_task env) new (List.map_filter (send_task env) idxs)" by blast
  from prepare_send_spec [OF p] show ?case
    using n by (cases t; cases "send_task env i") (auto simp: List.map_filter_simps)
qed

lemma collect_tasks_split:
  assumes "collect_tasks env updated ttn pws = Inr (ts, pws', cache)" and "keys_ok (pe_processes env)"
    and "pending_send_paths (pe_channels env) = Inr (map (\<lambda>i. [PStr PUSH, PInt (int i)]) idxs)"
  shows "\<exists>pushed pulled. ts = pushed @ pulled
    \<and> list_all2 (is_send_task env) pushed (List.map_filter (send_task env) idxs)
    \<and> map prepared_name pulled = filter (runs env) (candidate_nodes env updated ttn)
    \<and> (\<forall>x \<in> set pulled. prepared_path x = [PStr PULL, PStr (prepared_name x)] \<and> uncached_input env x)"
proof -
  from assms(1,3) obtain idb ts1 pws1 cache1 where
    a: "rfold (prepare_step env idb (checkpoint_null_version (pe_checkpoint env)))
       (map (\<lambda>i. [PStr PUSH, PInt (int i)]) idxs) ([], pws, []) = Inr (ts1, pws1, cache1)"
    and b: "rfold (prepare_step env idb (checkpoint_null_version (pe_checkpoint env)))
       (map (\<lambda>name. [PStr PULL, PStr name]) (candidate_nodes env updated ttn)) (ts1, pws1, cache1) = Inr (ts, pws', cache)"
    by (auto simp: collect_tasks_def Let_def rbind_Inr_iff rfold_append)
  from sends_fold [OF a] have "cache_valid env cache1" by (simp add: cache_valid_def)
  from pulls_fold [OF b this assms(2)] sends_fold [OF a] show ?thesis by auto
qed

lemma pending_send_paths_Inr:
  "pending_send_paths chs = Inr paths \<Longrightarrow> \<exists>n. paths = map (\<lambda>i. [PStr PUSH, PInt (int i)]) [0..<n]"
  by (auto simp: pending_send_paths_def rbind_Inr_iff split: option.splits if_splits intro: exI [of _ 0])

lemma collect_tasks_sends: "collect_tasks env updated ttn pws = Inr r \<Longrightarrow>
  \<exists>n. pending_send_paths (pe_channels env) = Inr (map (\<lambda>i. [PStr PUSH, PInt (int i)]) [0..<n])"
  using pending_send_paths_Inr by (fastforce simp: collect_tasks_def rbind_Inr_iff)

definition pull_names :: "prepared list \<Rightarrow> string list" where
  "pull_names ts = map prepared_name (filter (\<lambda>x. prepared_path x = [PStr PULL, PStr (prepared_name x)]) ts)"

lemma collect_tasks_pull_names:
  assumes "collect_tasks env updated ttn pws = Inr (ts, pws', cache)" and "keys_ok (pe_processes env)"
  shows "pull_names ts = filter (runs env) (candidate_nodes env updated ttn)"
proof -
  from collect_tasks_sends [OF assms(1)] obtain n where
    n: "pending_send_paths (pe_channels env) = Inr (map (\<lambda>i. [PStr PUSH, PInt (int i)]) [0..<n])" by blast
  from collect_tasks_split [OF assms n] obtain pushed pulled where
    s: "ts = pushed @ pulled" "list_all2 (is_send_task env) pushed (List.map_filter (send_task env) [0..<n])"
      "map prepared_name pulled = filter (runs env) (candidate_nodes env updated ttn)"
      "\<forall>x \<in> set pulled. prepared_path x = [PStr PULL, PStr (prepared_name x)] \<and> uncached_input env x" by blast
  have "\<forall>x \<in> set pushed. prepared_path x \<noteq> [PStr PULL, PStr (prepared_name x)]"
    using s(2) by (induction rule: list_all2_induct) (auto dest: send_task_path)
  then show ?thesis using s by (simp add: pull_names_def)
qed

subsection \<open>The optimised choice of candidates\<close>

text \<open>Every node is listed under each of its triggers.\<close>

definition covers :: "(string, string list) dict \<Rightarrow> (string, pregel_node) dict \<Rightarrow> bool" where
  "covers ttn procs \<longleftrightarrow> (\<forall>n proc c. dict_get procs n = Some proc \<longrightarrow> c \<in> set (pn_triggers proc) \<longrightarrow>
     n \<in> set (dict_get_or ttn c []))"

definition triggers_exist :: "(string, pregel_node) dict \<Rightarrow> channels \<Rightarrow> bool" where
  "triggers_exist procs chs \<longleftrightarrow> (\<forall>n proc. dict_get procs n = Some proc \<longrightarrow> (\<forall>c \<in> set (pn_triggers proc). in_dict c chs))"

lemma candidate_nodes_updated:
  "u \<noteq> [] \<Longrightarrow> ttn \<noteq> [] \<Longrightarrow> candidate_nodes env (Some u) (Some ttn) = sort (triggered_nodes u ttn)"
  by (cases u; cases ttn) (simp_all add: candidate_nodes_def)

lemma candidate_nodes_full:
  "candidate_nodes env None None = (if cp_channel_versions (pe_checkpoint env) = [] then [] else dict_keys (pe_processes env))"
  by (simp add: candidate_nodes_def)

lemma candidate_nodes_no_updates:
  "u = [] \<or> ttn = [] \<Longrightarrow> candidate_nodes env (Some u) (Some ttn) = candidate_nodes env None None"
  by (cases u; cases ttn) (auto simp: candidate_nodes_def)

lemma runs_full: "runs env n \<Longrightarrow> n \<in> set (candidate_nodes env None None)"
  by (auto simp: runs_def candidate_nodes_full checkpoint_null_version_def dest: dict_get_in_keys split: list.splits)

lemma triggered_nodes_member:
  "c \<in> set u \<Longrightarrow> n \<in> set (dict_get_or ttn c []) \<Longrightarrow> n \<in> set (triggered_nodes u ttn)"
  by (auto simp: triggered_nodes_def)

text \<open>If every node that is due has a trigger among the updated channels, both choices prepare the
  same nodes.\<close>

lemma candidates_equivalent:
  assumes "covers ttn (pe_processes env)"
    and "\<And>n proc null. dict_get (pe_processes env) n = Some proc \<Longrightarrow>
      due (pe_channels env) (cp_channel_versions (pe_checkpoint env)) (cp_versions_seen (pe_checkpoint env)) null n (pn_triggers proc) \<Longrightarrow>
      \<exists>c \<in> set (pn_triggers proc). c \<in> set u"
  shows "set (filter (runs env) (candidate_nodes env (Some u) (Some ttn))) = set (filter (runs env) (candidate_nodes env None None))"
proof (cases "u = [] \<or> ttn = []")
  case True
  then show ?thesis by (simp add: candidate_nodes_no_updates)
next
  case False
  have "n \<in> set (triggered_nodes u ttn)" if "runs env n" for n
    using that assms triggered_nodes_member unfolding runs_def covers_def by metis
  then show ?thesis using False runs_full by (auto simp: candidate_nodes_updated)
qed

section \<open>Examples\<close>

text \<open>The graph of the examples of Apply Writes, before its second step.\<close>

definition ex_node :: "string \<Rightarrow> pregel_node" where
  "ex_node chan = \<lparr>pn_channels = Many [chan], pn_triggers = [chan], pn_mapper = None, pn_node = Some 7,
     pn_writers = [], pn_identifier = None, pn_retry_policy = [], pn_cache_policy = None,
     pn_timeout = VNone, pn_tags = [], pn_metadata = [], pn_subgraphs = [], pn_error_handler = None\<rparr>"

definition ex_env :: prep_env where
  "ex_env = \<lparr>pe_sha1 = (\<lambda>s. replicate 32 (CHR ''0'')), pe_xxh3 = (\<lambda>s. replicate 32 (CHR ''1'')),
     pe_checkpoint = fst ex_applied,
     pe_processes = [(''n1'', ex_node ''a''), (''n2'', ex_node ''a''), (''n3'', ex_node ''b'')],
     pe_channels = fst (snd ex_applied), pe_managed = [], pe_config = empty_config, pe_step = 1, pe_stop = 25,
     pe_for_execution = True, pe_store = None, pe_checkpointer = None, pe_manager = None,
     pe_cache_policy = None, pe_retry_policy = []\<rparr>"

definition ex_fast :: prep_state where
  "ex_fast = projr (collect_tasks ex_env (Some (snd (snd ex_applied))) (Some (ex_trigger_to_nodes)) [])"
definition ex_full :: prep_state where
  "ex_full = projr (collect_tasks ex_env None None [])"

lemma ex_fast: "collect_tasks ex_env (Some (snd (snd ex_applied))) (Some ex_trigger_to_nodes) []
    = Inr (fst ex_fast, fst (snd ex_fast), snd (snd ex_fast))"
proof -
  have "\<not> isl (collect_tasks ex_env (Some (snd (snd ex_applied))) (Some ex_trigger_to_nodes) [])" by code_simp
  then show ?thesis by (simp add: ex_fast_def)
qed

lemma ex_full: "collect_tasks ex_env None None [] = Inr (fst ex_full, fst (snd ex_full), snd (snd ex_full))"
proof -
  have "\<not> isl (collect_tasks ex_env None None [])" by code_simp
  then show ?thesis by (simp add: ex_full_def)
qed

lemma ex_procs: "dict_get (pe_processes ex_env) n = Some proc \<Longrightarrow>
  (n = ''n1'' \<or> n = ''n2'') \<and> proc = ex_node ''a'' \<or> n = ''n3'' \<and> proc = ex_node ''b''"
  by (auto simp: ex_env_def split: if_splits)

lemma ex_keys_ok: "keys_ok (pe_processes ex_env)"
  unfolding keys_ok_def
  by (intro allI impI, drule ex_procs, drule ex_procs) (auto simp: ex_node_def input_cache_key_def)

lemma ex_covers: "covers ex_trigger_to_nodes (pe_processes ex_env)"
  unfolding covers_def
  by (intro allI impI, drule ex_procs) (auto simp: ex_node_def ex_trigger_to_nodes_def dict_get_or_def)

lemma ex_triggers_exist: "triggers_exist (pe_processes ex_env) ex_channels"
  unfolding triggers_exist_def
  by (intro allI impI, drule ex_procs) (auto simp: ex_node_def ex_channels_def)

lemma ex_ran:
  assumes "dict_get (pe_processes ex_env) n = Some proc"
    "due ex_channels (cp_channel_versions ex_checkpoint) (cp_versions_seen ex_checkpoint) null n (pn_triggers proc)"
  shows "\<exists>t \<in> set ex_tasks. tw_name t = n \<and> set (pn_triggers proc) \<subseteq> set (tw_triggers t)"
proof -
  have "\<not> due ex_channels (cp_channel_versions ex_checkpoint) (cp_versions_seen ex_checkpoint) null ''n3'' [''b'']"
    by (simp add: due_def triggers_def ex_checkpoint_def chan_available_def ex_channels_def tp_is_available_def)
  then show ?thesis using ex_procs [OF assms(1)] assms(2) by (auto simp: ex_node_def ex_tasks_def)
qed

section \<open>Correctness of the preparation\<close>

text \<open>
  C15: The choice of candidates by the updated channels is an optimisation only: after a step in
  which every due node ran, the nodes that get a PULL task are the same as with a scan of all
  nodes.
\<close>

theorem optimised_candidates_same_tasks:
  assumes step: "apply_writes cp chs tasks (Some f) ttn = Inr (pe_checkpoint env, pe_channels env, upd)"
    and version: "f (max_version (cp_channel_versions cp)) = Inr v" "\<forall>k. dict_get (cp_channel_versions cp) k \<noteq> Some v"
    and inv: "channels_inv chs" "triggers_exist (pe_processes env) chs"
    and ran: "\<And>n proc null. dict_get (pe_processes env) n = Some proc \<Longrightarrow>
      due chs (cp_channel_versions cp) (cp_versions_seen cp) null n (pn_triggers proc) \<Longrightarrow>
      \<exists>t \<in> set tasks. tw_name t = n \<and> set (pn_triggers proc) \<subseteq> set (tw_triggers t)"
    and seen: "\<And>n c. seen_version (cp_versions_seen cp) n c \<noteq> None \<Longrightarrow> in_dict c (cp_channel_versions cp)"
    and nodes: "covers ttn (pe_processes env)" "keys_ok (pe_processes env)"
    and fast: "collect_tasks env (Some upd) (Some ttn) pws = Inr (ts, pws1, cache1)"
    and full: "collect_tasks env None None pws = Inr (ts', pws2, cache2)"
  shows "set (pull_names ts) = set (pull_names ts')"
proof -
  have "\<exists>c \<in> set (pn_triggers proc). c \<in> set upd"
    if "dict_get (pe_processes env) n = Some proc"
      "due (pe_channels env) (cp_channel_versions (pe_checkpoint env)) (cp_versions_seen (pe_checkpoint env)) null n (pn_triggers proc)"
    for n proc null
  proof (rule due_reported [OF step version(1) inv(1) version(2)])
    show "\<forall>c \<in> set (pn_triggers proc). in_dict c chs" using inv(2) that(1) unfolding triggers_exist_def by blast
  qed (use that ran seen in auto)
  then show ?thesis
    using collect_tasks_pull_names [OF fast nodes(2)] collect_tasks_pull_names [OF full nodes(2)]
      candidates_equivalent [OF nodes(1), of upd] by simp
qed

theorem optimised_candidates_same_tasks_witness: "set (pull_names (fst ex_fast)) = set (pull_names (fst ex_full))"
proof -
  have step: "apply_writes ex_checkpoint ex_channels ex_tasks (Some base_get_next_version) ex_trigger_to_nodes
    = Inr (pe_checkpoint ex_env, pe_channels ex_env, snd (snd ex_applied))"
    using ex_applied by (simp add: ex_env_def)
  have seen: "in_dict c (cp_channel_versions ex_checkpoint)"
    if "seen_version (cp_versions_seen ex_checkpoint) n c \<noteq> None" for n c
    using that by (simp add: seen_version_def ex_checkpoint_def)
  show ?thesis
    by (rule optimised_candidates_same_tasks [OF step ex_next ex_fresh ex_channels_inv ex_triggers_exist _ _
          ex_covers ex_keys_ok ex_fast ex_full]) (fact ex_ran seen)+
qed

text \<open>
  C16: The PULL tasks of a step are those of the candidates, in their order, whose triggers
  changed since they last ran and whose input is not missing; none runs twice.
\<close>

theorem pull_tasks_exact:
  assumes "collect_tasks env updated ttn pws = Inr (ts, pws', cache)" and "keys_ok (pe_processes env)"
    and "wf_dict (pe_processes env)"
  shows "pull_names ts = filter (runs env) (candidate_nodes env updated ttn) \<and> distinct (pull_names ts)"
proof -
  have "distinct (candidate_nodes env updated ttn)"
    using assms(3) by (auto simp: candidate_nodes_def triggered_nodes_def split: option.splits list.splits)
  then show ?thesis using collect_tasks_pull_names [OF assms(1,2)] by simp
qed

theorem pull_tasks_exact_witness: "distinct (pull_names (fst ex_fast)) \<and> pull_names (fst ex_fast) = [''n3'']"
proof -
  have "wf_dict (pe_processes ex_env)" by (simp add: ex_env_def)
  with pull_tasks_exact [OF ex_fast ex_keys_ok] have "distinct (pull_names (fst ex_fast))" by blast
  moreover have "pull_names (fst ex_fast) = [''n3'']" by code_simp
  ultimately show ?thesis by blast
qed

text \<open>The packets of a list of sends whose node exists and has something to run, with their positions.\<close>

definition sent_packets :: "(string, pregel_node) dict \<Rightarrow> val list \<Rightarrow> (string \<times> val \<times> nat) list" where
  "sent_packets procs sends = List.map_filter (\<lambda>(i, s). case s of
       VSend node arg _ \<Rightarrow> (case dict_get procs node of
           Some proc \<Rightarrow> if pn_node proc \<noteq> None then Some (node, arg, i) else None | None \<Rightarrow> None)
     | _ \<Rightarrow> None) (enumerate 0 sends)"

lemma send_tasks_packets:
  assumes "dict_get (pe_channels env) TASKS = Some c" "ch_get c = Inr (VList sends)"
  shows "List.map_filter (send_task env) [0..<length sends] = sent_packets (pe_processes env) sends"
proof -
  have avail: "ch_is_available c" using assms(2) ch.is_available_iff_get by blast
  have "send_task env i = (case sends ! i of
       VSend node arg _ \<Rightarrow> (case dict_get (pe_processes env) node of
           Some proc \<Rightarrow> if pn_node proc \<noteq> None then Some (node, arg, i) else None | None \<Rightarrow> None)
     | _ \<Rightarrow> None)" if "i < length sends" for i
    using that assms avail by (auto simp: send_task_def find_send_def split: val.split option.split)
  moreover have "enumerate 0 sends = map (\<lambda>i. (i, sends ! i)) [0..<length sends]"
    by (rule nth_equalityI) (simp_all add: nth_enumerate_eq)
  ultimately show ?thesis
    by (auto simp: sent_packets_def List.map_filter_def filter_map comp_def intro!: map_cong filter_cong)
qed

text \<open>
  C17: Every pending \<open>Send\<close> to a node that exists and has something to run gives exactly one task, with the packet's argument
  as its input when the tasks are to be executed, in the order of the sends and before the tasks of triggered nodes.
\<close>

theorem sends_become_tasks:
  assumes "collect_tasks env updated ttn pws = Inr (ts, pws', cache)"
    and "dict_get (pe_channels env) TASKS = Some c" "ch_get c = Inr (VList sends)"
  shows "\<exists>pushed pulled. ts = pushed @ pulled \<and> (\<forall>x \<in> set pulled. prepared_path x = [PStr PULL, PStr (prepared_name x)])
    \<and> list_all2 (is_send_task env) pushed (sent_packets (pe_processes env) sends)"
proof -
  have "ch_is_available c" using assms(3) ch.is_available_iff_get by blast
  then have paths: "pending_send_paths (pe_channels env) = Inr (map (\<lambda>i. [PStr PUSH, PInt (int i)]) [0..<length sends])"
    using assms(2,3) by (simp add: pending_send_paths_def)
  with assms(1) obtain idb ts1 pws1 cache1 where
    a: "rfold (prepare_step env idb (checkpoint_null_version (pe_checkpoint env)))
       (map (\<lambda>i. [PStr PUSH, PInt (int i)]) [0..<length sends]) ([], pws, []) = Inr (ts1, pws1, cache1)"
    and b: "rfold (prepare_step env idb (checkpoint_null_version (pe_checkpoint env)))
       (map (\<lambda>name. [PStr PULL, PStr name]) (candidate_nodes env updated ttn)) (ts1, pws1, cache1) = Inr (ts, pws', cache)"
    by (auto simp: collect_tasks_def Let_def rbind_Inr_iff rfold_append)
  from sends_fold [OF a] have "list_all2 (is_send_task env) ts1 (sent_packets (pe_processes env) sends)"
    by (simp add: send_tasks_packets [OF assms(2,3)])
  with pulls_fold_paths [OF b] show ?thesis by blast
qed

definition ex_sends :: "val list" where
  "ex_sends = [VSend ''n1'' (VInt 5) VNone, VSend ''no'' VNone VNone, VSend ''n2'' (VInt 6) VNone]"

definition ex_send_env :: prep_env where
  "ex_send_env = ex_env\<lparr>pe_channels := [(''a'', LastValue \<lparr>lv_key = ''a'', lv_value = None\<rparr>),
     (''b'', LastValue \<lparr>lv_key = ''b'', lv_value = None\<rparr>),
     (TASKS, Topic \<lparr>tp_key = TASKS, tp_accumulate = False, tp_values = ex_sends\<rparr>)]\<rparr>"

theorem sends_become_tasks_witness:
  "\<exists>ts pushed pulled. ts = pushed @ pulled \<and> (\<forall>x \<in> set pulled. prepared_path x = [PStr PULL, PStr (prepared_name x)])
    \<and> list_all2 (is_send_task ex_send_env) pushed [(''n1'', VInt 5, 0), (''n2'', VInt 6, 2)]"
proof -
  let ?r = "projr (collect_tasks ex_send_env None None [])"
  have "\<not> isl (collect_tasks ex_send_env None None [])" by code_simp
  then have r: "collect_tasks ex_send_env None None [] = Inr (fst ?r, fst (snd ?r), snd (snd ?r))" by simp
  have g: "dict_get (pe_channels ex_send_env) TASKS = Some (Topic \<lparr>tp_key = TASKS, tp_accumulate = False, tp_values = ex_sends\<rparr>)"
    by (simp add: ex_send_env_def TASKS_def)
  have v: "ch_get (Topic \<lparr>tp_key = TASKS, tp_accumulate = False, tp_values = ex_sends\<rparr>) = Inr (VList ex_sends)"
    by (simp add: tp_get_def ex_sends_def)
  have "sent_packets (pe_processes ex_send_env) ex_sends = [(''n1'', VInt 5, 0), (''n2'', VInt 6, 2)]" by code_simp
  then show ?thesis using sends_become_tasks [OF r g v] by metis
qed

text \<open>
  C18: The cache of inputs is transparent: the input of every task that a triggered node gets in a step is what the node reads from the
  channels, whatever nodes were prepared before it, if nodes with the same cache key read the same channels with the
  same mapper.
\<close>

theorem input_cache_transparent:
  assumes "collect_tasks env updated ttn pws = Inr (ts, pws', cache)" and "keys_ok (pe_processes env)"
    and "XTask t \<in> set ts" "tw_path t = [PStr PULL, PStr (tw_name t)]"
  shows "\<exists>proc. dict_get (pe_processes env) (tw_name t) = Some proc
    \<and> input_value (pe_channels env) (pe_managed env) (env_bounds env) (pe_for_execution env) proc = Inr (Some (et_input t))"
proof -
  from collect_tasks_sends [OF assms(1)] obtain n where
    n: "pending_send_paths (pe_channels env) = Inr (map (\<lambda>i. [PStr PUSH, PInt (int i)]) [0..<n])" by blast
  from collect_tasks_split [OF assms(1,2) n] obtain pushed pulled where
    s: "ts = pushed @ pulled" "list_all2 (is_send_task env) pushed (List.map_filter (send_task env) [0..<n])"
      "\<forall>x \<in> set pulled. uncached_input env x" by blast
  have "\<forall>x \<in> set pushed. prepared_path x \<noteq> [PStr PULL, PStr (prepared_name x)]"
    using s(2) by (induction rule: list_all2_induct) (auto dest: send_task_path)
  then have "XTask t \<in> set pulled" using assms(3,4) s(1) by auto
  then have "uncached_input env (XTask t)" using s(3) by blast
  then show ?thesis by (simp add: uncached_input_def env_input_def split: option.splits)
qed

text \<open>\<open>n1\<close> and \<open>n2\<close> read the same channel; the input of \<open>n2\<close> comes from the cache.\<close>

definition ex_due_env :: prep_env where
  "ex_due_env = ex_env\<lparr>pe_checkpoint := (fst ex_applied)\<lparr>cp_versions_seen := []\<rparr>\<rparr>"

theorem input_cache_transparent_witness:
  "\<exists>(t :: exec_task) proc. tw_name t = ''n2'' \<and> dict_get (pe_processes ex_due_env) ''n2'' = Some proc
    \<and> input_value (pe_channels ex_due_env) (pe_managed ex_due_env) (env_bounds ex_due_env) True proc = Inr (Some (et_input t))"
proof -
  let ?r = "projr (collect_tasks ex_due_env None None [])"
  have "\<not> isl (collect_tasks ex_due_env None None [])" by code_simp
  then have r: "collect_tasks ex_due_env None None [] = Inr (fst ?r, fst (snd ?r), snd (snd ?r))" by simp
  have "list_ex (\<lambda>x. case x of XTask t \<Rightarrow> tw_name t = ''n2'' \<and> tw_path t = [PStr PULL, PStr ''n2''] | _ \<Rightarrow> False) (fst ?r)"
    by code_simp
  then obtain x where x: "x \<in> set (fst ?r)" "case x of XTask t \<Rightarrow> tw_name t = ''n2'' \<and> tw_path t = [PStr PULL, PStr ''n2''] | _ \<Rightarrow> False"
    unfolding list_ex_iff by blast
  obtain t where "x = XTask t" using x(2) by (cases x) auto
  with x have t: "XTask t \<in> set (fst ?r)" "tw_name t = ''n2''" "tw_path t = [PStr PULL, PStr (tw_name t)]" by auto
  have "keys_ok (pe_processes ex_due_env)" "pe_for_execution ex_due_env" using ex_keys_ok by (simp_all add: ex_due_env_def ex_env_def)
  with input_cache_transparent [OF r _ t(1,3)] t(2) obtain proc where
    "dict_get (pe_processes ex_due_env) ''n2'' = Some proc"
    "input_value (pe_channels ex_due_env) (pe_managed ex_due_env) (env_bounds ex_due_env) True proc = Inr (Some (et_input t))" by auto
  then show ?thesis using t(2) by blast
qed
end
