(* ===== verification/Checkpointing.thy ===== *)
theory Checkpointing
  imports Apply_Writes
begin

section \<open>Making and restoring checkpoints (pregel/_checkpoint.py)\<close>

text \<open>
  A checkpoint is made from the live channels, and the channels are restored from it. A
  \<open>DeltaChannel\<close> is stored as a snapshot when its counters ask for one; otherwise it is left out
  and restored by replaying the writes that the saver finds in the ancestors. The time stamp and
  the fresh id are arguments; sets are lists without duplicates.
\<close>

subsection \<open>Empty checkpoints and ids of exit writes\<close>

definition LATEST_VERSION :: int where "LATEST_VERSION = 4"

definition empty_checkpoint :: "string \<Rightarrow> string \<Rightarrow> checkpoint" where
  "empty_checkpoint new_id ts = \<lparr>cp_v = LATEST_VERSION, cp_id = new_id, cp_ts = ts, cp_channel_values = [],
     cp_channel_versions = [], cp_versions_seen = [], cp_updated_channels = None\<rparr>"

text \<open>\<open>str(uuid.UUID(s))\<close>: hyphens are dropped, 32 digits must remain, and they are written in
  lower case. (The prefix \<open>urn:uuid:\<close> and braces, also accepted, do not occur.)\<close>

definition is_hex :: "char \<Rightarrow> bool" where
  "is_hex c \<longleftrightarrow> (let n = of_char c :: nat in
     48 \<le> n \<and> n \<le> 57 \<or> 97 \<le> n \<and> n \<le> 102 \<or> 65 \<le> n \<and> n \<le> 70)"

definition lower_hex :: "char \<Rightarrow> char" where
  "lower_hex c = (let n = of_char c :: nat in if 65 \<le> n \<and> n \<le> 70 then char_of (n + 32) else c)"

definition uuid_str :: "string \<Rightarrow> string res" where
  "uuid_str s = (let hex = filter (\<lambda>c. c \<noteq> CHR ''-'') s in
     if length hex = 32 \<and> list_all is_hex hex then Inr (uuid_groups (map lower_hex hex)) else Inl ValueError)"

definition exit_delta_task_id :: "int \<Rightarrow> string \<Rightarrow> string res" where
  "exit_delta_task_id step task_id = rbind (uuid_str task_id) (\<lambda>s. Inr (int_fmt 8 step @ drop 8 s))"

subsection \<open>When a delta channel is stored as a snapshot\<close>

type_synonym metadata = "(string, val) dict"
type_synonym counters = "(string, int \<times> int) dict"

fun counter_of :: "val \<Rightarrow> int \<times> int" where
  "counter_of (VTuple [VInt u, VInt s]) = (u, s)"
| "counter_of (VList [VInt u, VInt s]) = (u, s)"
| "counter_of _ = (0, 0)"

definition metadata_counters :: "metadata \<Rightarrow> counters" where
  "metadata_counters md = (case dict_get md ''counters_since_delta_snapshot'' of
     Some (VDict d) \<Rightarrow> map (\<lambda>(k, v). (k, counter_of v)) d | _ \<Rightarrow> [])"

definition counters_val :: "counters \<Rightarrow> val" where
  "counters_val cs = VDict (map (\<lambda>(k, (u, s)). (k, VTuple [VInt u, VInt s])) cs)"

fun delta_due :: "int \<Rightarrow> channel \<Rightarrow> int \<times> int \<Rightarrow> bool" where
  "delta_due bound (DeltaChannel c) (updates, supersteps) \<longleftrightarrow>
     dc_is_available c \<and> (updates \<ge> dc_frequency c \<or> supersteps \<ge> bound)"
| "delta_due bound _ _ \<longleftrightarrow> False"

text \<open>\<open>bound\<close> is \<open>DELTA_MAX_SUPERSTEPS_SINCE_SNAPSHOT\<close>, which the environment sets.\<close>

definition delta_channels_to_snapshot :: "int \<Rightarrow> channels \<Rightarrow> counters \<Rightarrow> string list" where
  "delta_channels_to_snapshot bound chs counters =
     map fst (filter (\<lambda>(name, c). delta_due bound c (dict_get_or counters name (0, 0))) chs)"

definition get_updated_channels_from_tasks :: "'a task_writes_scheme list \<Rightarrow> string list" where
  "get_updated_channels_from_tasks tasks =
     remdups (map fst (filter (\<lambda>(c, _). c \<noteq> PUSH) (concat (map tw_writes tasks))))"

definition get_delta_channels_from_all_channels :: "channels \<Rightarrow> string list" where
  "get_delta_channels_from_all_channels chs =
     map fst (filter (\<lambda>(_, c). is_delta c \<and> ch_is_available c) chs)"

definition bump_counter :: "string list \<Rightarrow> string \<Rightarrow> int \<times> int \<Rightarrow> int \<times> int" where
  "bump_counter updated name = (\<lambda>(u, s). (if name \<in> set updated then u + 1 else u, s + 1))"

definition create_metadata_for_update_state_api :: "channels \<Rightarrow> string list \<Rightarrow> metadata \<Rightarrow> counters" where
  "create_metadata_for_update_state_api chs updated prev =
     map (\<lambda>(name, _). (name, bump_counter updated name (dict_get_or (metadata_counters prev) name (0, 0))))
       (filter (\<lambda>(_, c). is_delta c) chs)"

definition reset_counters :: "string list \<Rightarrow> counters \<Rightarrow> counters" where
  "reset_counters names counters = fold (\<lambda>k. dict_set k (0, 0)) names counters"

definition nonzero_counters :: "counters \<Rightarrow> counters" where
  "nonzero_counters counters = filter (\<lambda>(_, v). v \<noteq> (0, 0)) counters"

definition create_checkpoint_plan_for_update_state_api ::
  "int \<Rightarrow> channels \<Rightarrow> string list \<Rightarrow> int \<Rightarrow> (string, val) dict \<Rightarrow> metadata \<Rightarrow> bool \<Rightarrow> string list \<times> metadata" where
  "create_checkpoint_plan_for_update_state_api bound chs updated step parents saved is_fresh =
     (let metadata = [(''source'', VStr ''update''), (''step'', VInt step), (''parents'', VDict parents)]
      in if is_fresh then (get_delta_channels_from_all_channels chs, metadata)
         else
           let counters = create_metadata_for_update_state_api chs updated saved;
               snaps = delta_channels_to_snapshot bound chs counters;
               non_zero = nonzero_counters (reset_counters snaps counters)
           in (snaps, if non_zero = [] then metadata
                      else dict_set ''counters_since_delta_snapshot'' (counters_val non_zero) metadata))"

subsection \<open>\<open>create_checkpoint\<close>\<close>

record snapshot_state =
  ss_values :: "(string, val) dict"
  ss_versions :: versions

definition store_channel ::
  "string list option \<Rightarrow> (version option \<Rightarrow> version res) option \<Rightarrow> string list
     \<Rightarrow> string \<times> channel \<Rightarrow> snapshot_state \<Rightarrow> snapshot_state res" where
  "store_channel updated gnv snaps = (\<lambda>(k, ch) st.
     case dict_get (ss_versions st) k of
       None \<Rightarrow> Inr st
     | Some ver \<Rightarrow>
         if k \<in> set snaps then
           rbind (case gnv of
                    Some f \<Rightarrow> if updated = None \<or> k \<notin> set (the updated)
                              then rbind (f (Some ver)) (\<lambda>v. Inr (dict_set k v (ss_versions st)))
                              else Inr (ss_versions st)
                  | None \<Rightarrow> Inr (ss_versions st))
           (\<lambda>vers. rbind (ch_get ch)
           (\<lambda>v. Inr \<lparr>ss_values = dict_set k (VSnapshot v) (ss_values st), ss_versions = vers\<rparr>))
         else
           (case ch_checkpoint ch of
              None \<Rightarrow> Inr st
            | Some v \<Rightarrow> Inr (st\<lparr>ss_values := dict_set k v (ss_values st)\<rparr>)))"

definition create_checkpoint ::
  "checkpoint \<Rightarrow> channels option \<Rightarrow> string option \<Rightarrow> string list option
     \<Rightarrow> (version option \<Rightarrow> version res) option \<Rightarrow> string list \<Rightarrow> string \<Rightarrow> string \<Rightarrow> checkpoint res" where
  "create_checkpoint cp channels given_id updated gnv snaps new_id ts =
     rbind (case channels of
              None \<Rightarrow> Inr \<lparr>ss_values = cp_channel_values cp, ss_versions = cp_channel_versions cp\<rparr>
            | Some chs \<Rightarrow> rfold (store_channel updated gnv snaps) chs
                \<lparr>ss_values = [], ss_versions = cp_channel_versions cp\<rparr>)
     (\<lambda>st. Inr \<lparr>cp_v = LATEST_VERSION,
                cp_id = (case given_id of Some i \<Rightarrow> if i = [] then new_id else i | None \<Rightarrow> new_id),
                cp_ts = ts, cp_channel_values = ss_values st, cp_channel_versions = ss_versions st,
                cp_versions_seen = cp_versions_seen cp, cp_updated_channels = map_option sort updated\<rparr>)"

definition copy_checkpoint :: "checkpoint \<Rightarrow> checkpoint" where
  "copy_checkpoint cp = \<lparr>cp_v = cp_v cp, cp_id = cp_id cp, cp_ts = cp_ts cp,
     cp_channel_values = cp_channel_values cp, cp_channel_versions = cp_channel_versions cp,
     cp_versions_seen = map (\<lambda>(k, v). (k, v)) (cp_versions_seen cp),
     cp_updated_channels = cp_updated_channels cp\<rparr>"

subsection \<open>\<open>channels_from_checkpoint\<close>\<close>

datatype spec = ChannelSpec channel | ManagedSpec managed

record history =
  h_seed :: "val option"
  h_writes :: "pending_write list"

fun needs_replay :: "channel \<Rightarrow> val option \<Rightarrow> bool" where
  "needs_replay c stored \<longleftrightarrow> is_delta c \<and> stored = None"

definition channel_specs :: "(string, spec) dict \<Rightarrow> channels" where
  "channel_specs specs = List.map_filter (\<lambda>(k, s). case s of ChannelSpec c \<Rightarrow> Some (k, c) | ManagedSpec m \<Rightarrow> None) specs"

definition managed_specs :: "(string, spec) dict \<Rightarrow> managed_map" where
  "managed_specs specs = List.map_filter (\<lambda>(k, s). case s of ChannelSpec c \<Rightarrow> None | ManagedSpec m \<Rightarrow> Some (k, m)) specs"

fun replay_channel :: "channel \<Rightarrow> history \<Rightarrow> channel res" where
  "replay_channel (DeltaChannel c) h =
     rbind (dc_from_checkpoint c (h_seed h))
       (\<lambda>c. rbind (dc_replay_writes c (map (\<lambda>(_, _, v). v) (h_writes h))) (\<lambda>c. Inr (DeltaChannel c)))"
| "replay_channel c h = rbind (ch_from_checkpoint c (h_seed h)) (\<lambda>_. Inl AttributeError)"

definition restore_step ::
  "(string, history) dict \<Rightarrow> (string, val) dict \<Rightarrow> string \<times> channel \<Rightarrow> channels \<Rightarrow> channels res" where
  "restore_step histories values = (\<lambda>(k, spec) chs.
     rbind (case dict_get histories k of
              Some h \<Rightarrow> replay_channel spec h
            | None \<Rightarrow> ch_from_checkpoint spec (dict_get values k))
     (\<lambda>c. Inr (dict_set k c chs)))"

text \<open>\<open>saver\<close> is \<open>get_delta_channel_history\<close> at the given config, if there is a saver.\<close>

definition channels_from_checkpoint ::
  "(string, spec) dict \<Rightarrow> checkpoint \<Rightarrow> (string list \<Rightarrow> (string, history) dict res) option
     \<Rightarrow> (channels \<times> managed_map) res" where
  "channels_from_checkpoint specs cp saver =
     (let chans = channel_specs specs;
          delta = map fst (filter (\<lambda>(k, c). needs_replay c (dict_get (cp_channel_values cp) k)) chans)
      in rbind (case saver of Some f \<Rightarrow> if delta = [] then Inr [] else f delta | None \<Rightarrow> Inr [])
         (\<lambda>histories. rbind (rfold (restore_step histories (cp_channel_values cp)) chans [])
         (\<lambda>chs. Inr (chs, managed_specs specs))))"

section \<open>Properties\<close>

subsection \<open>Channels of one class\<close>

text \<open>Two channels with the same configuration are restored to the same channel.\<close>

definition same_spec :: "channel \<Rightarrow> channel \<Rightarrow> bool" where
  "same_spec a b \<longleftrightarrow> (\<forall>v. ch_from_checkpoint a v = ch_from_checkpoint b v) \<and> is_delta a = is_delta b"

lemma same_spec_refl [simp]: "same_spec c c"
  by (simp add: same_spec_def)

lemma same_spec_trans: "same_spec a b \<Longrightarrow> same_spec b c \<Longrightarrow> same_spec a c"
  by (simp add: same_spec_def)

lemma value_updates_spec:
  "lv_update a vs = Inr (a', b) \<Longrightarrow> lv_from_checkpoint a' v = lv_from_checkpoint a v"
  "lvf_update l vs = Inr (l', b) \<Longrightarrow> lvf_from_checkpoint l' v = lvf_from_checkpoint l v"
  "av_update y vs = Inr (y', b) \<Longrightarrow> av_from_checkpoint y' v = av_from_checkpoint y v"
  "ev_update e vs = Inr (e', b) \<Longrightarrow> ev_from_checkpoint e' v = ev_from_checkpoint e v"
  "uv_update u vs = Inr (u', b) \<Longrightarrow> uv_from_checkpoint u' v = uv_from_checkpoint u v"
  by (cases v; auto simp: lv_defs lvf_defs av_defs ev_defs uv_defs split: if_splits)+

lemma reduce_updates_spec:
  "tp_update t vs = Inr (t', b) \<Longrightarrow> tp_from_checkpoint t' v = tp_from_checkpoint t v"
  "bo_update o1 vs = Inr (o2, b) \<Longrightarrow> bo_from_checkpoint o2 v = bo_from_checkpoint o1 v"
  "dc_update d vs = Inr (d', b) \<Longrightarrow> dc_from_checkpoint d' v = dc_from_checkpoint d v"
  "nb_update n vs = Inr (n', b) \<Longrightarrow> nb_from_checkpoint n' v = nb_from_checkpoint n v"
  "nbf_update m vs = Inr (m', b) \<Longrightarrow> nbf_from_checkpoint m' v = nbf_from_checkpoint m v"
proof -
  show "tp_update t vs = Inr (t', b) \<Longrightarrow> tp_from_checkpoint t' v = tp_from_checkpoint t v"
    by (cases v; auto simp: tp_update_def tp_from_checkpoint_def Let_def split: if_splits)
  show "bo_update o1 vs = Inr (o2, b) \<Longrightarrow> bo_from_checkpoint o2 v = bo_from_checkpoint o1 v"
    by (cases v; auto simp: bo_update_def bo_from_checkpoint_def rbind_Inr_iff Let_def split: list.splits prod.splits)
  show "dc_update d vs = Inr (d', b) \<Longrightarrow> dc_from_checkpoint d' v = dc_from_checkpoint d v"
    by (cases v; auto dest!: dc_update_Inr simp: dc_from_checkpoint_def)
  show "nb_update n vs = Inr (n', b) \<Longrightarrow> nb_from_checkpoint n' v = nb_from_checkpoint n v"
    by (cases v; auto elim!: nb_update_Inr simp: nb_from_checkpoint_def)
  show "nbf_update m vs = Inr (m', b) \<Longrightarrow> nbf_from_checkpoint m' v = nbf_from_checkpoint m v"
    by (cases v; auto elim!: nbf_update_Inr simp: nbf_from_checkpoint_def)
qed

lemma update_same_spec: "ch_update c vs = Inr (c', b) \<Longrightarrow> same_spec c c'"
  by (cases c) (auto simp: same_spec_def as_update_Inr value_updates_spec reduce_updates_spec)

lemma consume_same_spec: "same_spec c (fst (ch_consume c))"
  by (cases c) (auto simp: same_spec_def base_consume_def lvf_consume_def nb_consume_def nbf_consume_def
      lvf_from_checkpoint_def nb_from_checkpoint_def nbf_from_checkpoint_def split: prod.splits if_splits)

lemma finish_same_spec: "same_spec c (fst (ch_finish c))"
  by (cases c) (auto simp: same_spec_def base_finish_def lvf_finish_def nbf_finish_def
      lvf_from_checkpoint_def nbf_from_checkpoint_def split: prod.splits if_splits)

text \<open>A step keeps the configuration of every channel.\<close>

definition specs_match :: "channels \<Rightarrow> channels \<Rightarrow> bool" where
  "specs_match chans chs \<longleftrightarrow> (\<forall>k. rel_option same_spec (dict_get chans k) (dict_get chs k))"

lemma specs_match_set:
  assumes "specs_match chans chs" "dict_get chs k = Some c" "same_spec c c'"
  shows "specs_match chans (dict_set k c' chs)"
  unfolding specs_match_def
proof
  fix j
  have "rel_option same_spec (dict_get chans k) (dict_get chs k)" using assms(1) by (simp add: specs_match_def)
  then obtain d where d: "dict_get chans k = Some d" "same_spec d c"
    using assms(2) by (auto simp: option_rel_Some2)
  show "rel_option same_spec (dict_get chans j) (dict_get (dict_set k c' chs) j)"
    using assms(1) d same_spec_trans [OF d(2) assms(3)] by (cases "j = k") (simp_all add: specs_match_def)
qed

lemma step_specs: "chan_step nv st st' \<Longrightarrow> specs_match chans (ap_channels st) \<Longrightarrow> specs_match chans (ap_channels st')"
proof (erule chan_step.cases, goal_cases)
  case (1 s k c c' b)
  then show ?case using consume_same_spec [of c] by (auto intro: specs_match_set)
next
  case (2 s k c vs r)
  then show ?case using update_same_spec [of c vs "fst r" "snd r"] by (auto intro: specs_match_set)
next
  case (3 s k c)
  then show ?case using finish_same_spec [of c] by (auto intro: specs_match_set)
qed

lemma apply_writes_specs:
  assumes "apply_writes cp chs tasks gnv ttn = Inr (cp', chs', upd)" "specs_match chans chs"
  shows "specs_match chans chs'"
  using assms(1)
proof (rule apply_writes_steps)
  fix nv st
  assume "(chan_step nv)\<^sup>*\<^sup>* (start_state cp chs) st" and "chs' = ap_channels st"
  with steps_invariant [of nv "start_state cp chs" st "\<lambda>s. specs_match chans (ap_channels s)"] assms(2)
  show ?thesis by (simp add: step_specs)
qed

subsection \<open>What is stored, and what is restored\<close>

definition snap_view :: "string \<Rightarrow> snapshot_state \<Rightarrow> val option \<times> version option" where
  "snap_view k st = (dict_get (ss_values st) k, dict_get (ss_versions st) k)"

lemma store_other: "fst kc \<noteq> k \<Longrightarrow> store_channel updated gnv snaps kc st = Inr st' \<Longrightarrow> snap_view k st' = snap_view k st"
  by (auto simp: store_channel_def snap_view_def rbind_Inr_iff split: prod.splits option.splits if_splits)

text \<open>The version a channel gets, and the value that is stored for it.\<close>

definition stored_version ::
  "string list option \<Rightarrow> (version option \<Rightarrow> version res) option \<Rightarrow> string list \<Rightarrow> string \<Rightarrow> version \<Rightarrow> version res" where
  "stored_version updated gnv snaps k ver =
     (case gnv of
        Some f \<Rightarrow> if k \<in> set snaps \<and> (updated = None \<or> k \<notin> set (the updated)) then f (Some ver) else Inr ver
      | None \<Rightarrow> Inr ver)"

definition stored_value :: "string list \<Rightarrow> string \<Rightarrow> channel \<Rightarrow> val option res" where
  "stored_value snaps k c =
     (if k \<in> set snaps then rbind (ch_get c) (\<lambda>v. Inr (Some (VSnapshot v))) else Inr (ch_checkpoint c))"

lemma store_here:
  assumes "store_channel updated gnv snaps (k, c) st = Inr st'" "snap_view k st = (None, ver)"
  shows "case ver of
      None \<Rightarrow> snap_view k st' = (None, None)
    | Some v \<Rightarrow> (\<exists>w x. stored_version updated gnv snaps k v = Inr w \<and> stored_value snaps k c = Inr x
        \<and> snap_view k st' = (x, Some w))"
  using assms
  by (cases "k \<in> set snaps")
    (auto simp: store_channel_def snap_view_def stored_version_def stored_value_def rbind_Inr_iff
      split: option.splits if_splits)

lemma store_all:
  assumes "rfold (store_channel updated gnv snaps) chs \<lparr>ss_values = [], ss_versions = vers\<rparr> = Inr st"
    "wf_dict chs" "dict_get chs k = Some c"
  shows "case dict_get vers k of
      None \<Rightarrow> snap_view k st = (None, None)
    | Some v \<Rightarrow> (\<exists>w x. stored_version updated gnv snaps k v = Inr w \<and> stored_value snaps k c = Inr x
        \<and> snap_view k st = (x, Some w))"
proof (rule rfold_view [OF store_other [of _ k] assms(1)])
  fix x t t'
  assume x: "x \<in> set chs" "fst x = k" "snap_view k t = snap_view k \<lparr>ss_values = [], ss_versions = vers\<rparr>"
    "store_channel updated gnv snaps x t = Inr t'" "snap_view k st = snap_view k t'"
  then have "x = (k, c)" using assms(2,3) by (metis map_of_eq_Some_iff option.inject prod.collapse)
  then show ?thesis using store_here [of updated gnv snaps k c t t'] x by (auto simp: snap_view_def split: option.splits)
qed (use assms(2) dict_get_in_keys [OF assms(3)] in auto)

lemma create_checkpoint_Inr:
  assumes "create_checkpoint cp (Some chs) given_id updated gnv snaps new_id ts = Inr cp'"
    "wf_dict chs" "dict_get chs k = Some c"
  shows "case dict_get (cp_channel_versions cp) k of
      None \<Rightarrow> dict_get (cp_channel_values cp') k = None \<and> dict_get (cp_channel_versions cp') k = None
    | Some v \<Rightarrow> (\<exists>w x. stored_version updated gnv snaps k v = Inr w \<and> stored_value snaps k c = Inr x
        \<and> dict_get (cp_channel_values cp') k = x \<and> dict_get (cp_channel_versions cp') k = Some w)"
proof -
  from assms(1) obtain st where "rfold (store_channel updated gnv snaps) chs
      \<lparr>ss_values = [], ss_versions = cp_channel_versions cp\<rparr> = Inr st"
    "cp_channel_values cp' = ss_values st" "cp_channel_versions cp' = ss_versions st"
    by (auto simp: create_checkpoint_def rbind_Inr_iff)
  then show ?thesis using store_all [of updated gnv snaps chs "cp_channel_versions cp" st k c] assms(2,3)
    by (auto simp: snap_view_def split: option.splits)
qed

lemma restore_other: "fst kc \<noteq> k \<Longrightarrow> restore_step hs vals kc chs = Inr chs' \<Longrightarrow> dict_get chs' k = dict_get chs k"
  by (auto simp: restore_step_def rbind_Inr_iff split: prod.splits)

lemma restore_all:
  assumes "rfold (restore_step hs vals) chans [] = Inr chs" "wf_dict chans" "dict_get chans k = Some spec"
  shows "\<exists>c. (case dict_get hs k of Some h \<Rightarrow> replay_channel spec h | None \<Rightarrow> ch_from_checkpoint spec (dict_get vals k)) = Inr c
    \<and> dict_get chs k = Some c"
proof (rule rfold_view [where view = "\<lambda>s. dict_get s k", OF restore_other [of _ k] assms(1)])
  fix x t t'
  assume x: "x \<in> set chans" "fst x = k" "dict_get t k = dict_get [] k" "restore_step hs vals x t = Inr t'"
    "dict_get chs k = dict_get t' k"
  then have "x = (k, spec)" using assms(2,3) by (metis map_of_eq_Some_iff option.inject prod.collapse)
  then show ?thesis using x by (auto simp: restore_step_def rbind_Inr_iff)
qed (use assms(2) dict_get_in_keys [OF assms(3)] in auto)

subsection \<open>Round trip\<close>

text \<open>
  What a checkpoint keeps: a channel without a version has never been written and restarts from
  its specification, an \<open>UntrackedValue\<close> is never stored.
\<close>

definition checkpointed :: "checkpoint \<Rightarrow> string list \<Rightarrow> string \<Rightarrow> channel \<Rightarrow> bool" where
  "checkpointed cp snaps k c \<longleftrightarrow>
     (if dict_get (cp_channel_versions cp) k = None then ch_from_checkpoint c None = Inr c
      else ch_persists c \<and> k \<notin> set snaps \<or> is_delta c \<and> k \<in> set snaps)"

lemma delta_snapshot_roundtrip:
  assumes "ch_inv c" "is_delta c" "ch_get c = Inr v"
  shows "ch_from_checkpoint c (Some (VSnapshot v)) = Inr c"
  using assms by (cases c) (auto simp: dc_from_checkpoint_def dc_init_def dc_inv_def dc_get_def Let_def split: option.splits)

lemma wf_channel_specs: "wf_dict specs \<Longrightarrow> wf_dict (channel_specs specs)"
proof (induction specs)
  case (Cons p specs)
  have "k \<in> fst ` set (channel_specs specs) \<Longrightarrow> k \<in> fst ` set specs" for k specs
    by (induction specs) (auto simp: channel_specs_def List.map_filter_simps split: prod.splits spec.splits)
  then show ?case using Cons
    by (cases p; cases "snd p") (auto simp: channel_specs_def List.map_filter_simps)
qed (simp add: channel_specs_def List.map_filter_simps)

lemma restore_created:
  assumes create: "create_checkpoint cp (Some chs) given_id updated gnv snaps new_id ts = Inr cp'"
    and chs: "wf_dict chs" "channels_inv chs" "specs_match (channel_specs specs) chs"
    and specs: "wf_dict specs"
    and restore: "channels_from_checkpoint specs cp' None = Inr (chs', mg)"
    and c: "dict_get chs k = Some c" "checkpointed cp snaps k c"
  shows "dict_get chs' k = Some c"
proof -
  have "rel_option same_spec (dict_get (channel_specs specs) k) (Some c)"
    using chs(3) c(1) unfolding specs_match_def by metis
  then obtain spec where spec: "dict_get (channel_specs specs) k = Some spec" "same_spec spec c"
    by (auto simp: option_rel_Some2)
  have restored: "rfold (restore_step [] (cp_channel_values cp')) (channel_specs specs) [] = Inr chs'"
    using restore by (auto simp: channels_from_checkpoint_def Let_def rbind_Inr_iff)
  obtain d where d: "ch_from_checkpoint spec (dict_get (cp_channel_values cp') k) = Inr d" "dict_get chs' k = Some d"
    using restore_all [OF restored wf_channel_specs [OF specs] spec(1)] by auto
  have inv: "ch_inv c" using chs(2) c(1) channels_inv_get by blast
  have "ch_from_checkpoint c (dict_get (cp_channel_values cp') k) = Inr c"
    using create_checkpoint_Inr [OF create chs(1) c(1)] c(2) ch_roundtrip [OF inv]
      delta_snapshot_roundtrip [OF inv]
    by (auto simp: checkpointed_def stored_value_def rbind_Inr_iff split: option.splits if_splits)
  then show ?thesis using d spec(2) by (simp add: same_spec_def)
qed

section \<open>Correctness of checkpoints\<close>

text \<open>
  C14: The round trip of a checkpoint, for each channel of its own, whatever the other channels are: a
  channel that has been written, and either checkpoints its value and is not listed for a snapshot or is a delta
  channel that is listed for one, is restored from the checkpoint made of the live channels
  exactly as it was live. (The live channels satisfy their invariant and are those of the
  specification.)
\<close>

theorem checkpoint_roundtrip:
  assumes "create_checkpoint cp (Some chs) given_id updated gnv snaps new_id ts = Inr cp'"
    and "channels_inv chs" "specs_match (channel_specs specs) chs" "wf_dict specs"
    and "channels_from_checkpoint specs cp' None = Inr (chs', mg)"
    and "dict_get chs k = Some c" and "in_dict k (cp_channel_versions cp)"
    and "ch_persists c \<and> k \<notin> set snaps \<or> is_delta c \<and> k \<in> set snaps"
  shows "dict_get chs' k = Some c"
proof -
  have "wf_dict chs" using assms(2) by (simp add: channels_inv_def)
  moreover have "checkpointed cp snaps k c" using assms(7,8) by (auto simp: checkpointed_def)
  ultimately show ?thesis using restore_created [OF assms(1) _ assms(2-6)] by blast
qed

text \<open>An example with an untracked value beside the channel that is restored.\<close>

definition ex_specs :: "(string, spec) dict" where
  "ex_specs = [(''a'', ChannelSpec (LastValue \<lparr>lv_key = ''a'', lv_value = None\<rparr>)),
     (''steps'', ManagedSpec RemainingStepsManager),
     (''u'', ChannelSpec (UntrackedValue \<lparr>uv_key = ''u'', uv_value = None, uv_guard = True\<rparr>))]"

definition ex_live :: channels where
  "ex_live = [(''a'', LastValue \<lparr>lv_key = ''a'', lv_value = Some (VInt 1)\<rparr>),
     (''u'', UntrackedValue \<lparr>uv_key = ''u'', uv_value = Some (VInt 7), uv_guard = True\<rparr>)]"

lemma ex_specs_match: "specs_match (channel_specs ex_specs) ex_live"
proof -
  have "channel_specs ex_specs = [(''a'', LastValue \<lparr>lv_key = ''a'', lv_value = None\<rparr>),
     (''u'', UntrackedValue \<lparr>uv_key = ''u'', uv_value = None, uv_guard = True\<rparr>)]"
    by (simp add: channel_specs_def ex_specs_def List.map_filter_simps)
  then show ?thesis
    by (simp add: specs_match_def ex_live_def same_spec_def lv_from_checkpoint_def uv_from_checkpoint_def)
qed

theorem checkpoint_roundtrip_witness:
  "\<exists>cp' chs' mg. create_checkpoint ex_checkpoint (Some ex_live) None None None [] ''id'' [] = Inr cp'
    \<and> channels_from_checkpoint ex_specs cp' None = Inr (chs', mg)
    \<and> dict_get chs' ''a'' = dict_get ex_live ''a'' \<and> dict_get chs' ''u'' \<noteq> dict_get ex_live ''u''"
proof -
  let ?r = "create_checkpoint ex_checkpoint (Some ex_live) None None None [] ''id'' []"
  let ?s = "channels_from_checkpoint ex_specs (projr ?r) None"
  let ?a = "LastValue \<lparr>lv_key = ''a'', lv_value = Some (VInt 1)\<rparr>"
  have "\<not> isl ?r" "\<not> isl ?s" by code_simp+
  then have r: "?r = Inr (projr ?r)" and s: "?s = Inr (fst (projr ?s), snd (projr ?s))" by simp_all
  have "channels_inv ex_live" by (auto simp: channels_inv_def ex_live_def split: if_splits)
  moreover have "wf_dict ex_specs" by (simp add: ex_specs_def)
  moreover have "dict_get ex_live ''a'' = Some ?a" "in_dict ''a'' (cp_channel_versions ex_checkpoint)"
    "ch_persists ?a \<and> ''a'' \<notin> set [] \<or> is_delta ?a \<and> ''a'' \<in> set []"
    by (simp_all add: ex_live_def ex_checkpoint_def ch_persists_def)
  ultimately have a: "dict_get (fst (projr ?s)) ''a'' = dict_get ex_live ''a''"
    using checkpoint_roundtrip [OF r _ ex_specs_match _ s] by metis
  have "case dict_get (fst (projr ?s)) ''u'' of Some (UntrackedValue u) \<Rightarrow> uv_value u = None | _ \<Rightarrow> False" by code_simp
  then have "dict_get (fst (projr ?s)) ''u'' \<noteq> dict_get ex_live ''u''" by (auto simp: ex_live_def)
  moreover note a
  ultimately show ?thesis using r s by metis
qed

lemma reset_counters_get:
  "dict_get (reset_counters names cs) k = (if k \<in> set names then Some (0, 0) else dict_get cs k)"
  by (induction names arbitrary: cs) (auto simp: reset_counters_def)

lemma wf_reset_counters: "wf_dict cs \<Longrightarrow> wf_dict (reset_counters names cs)"
  by (induction names arbitrary: cs) (auto simp: reset_counters_def intro: distinct_update)

lemma dict_get_filter_values:
  "wf_dict d \<Longrightarrow> dict_get (filter (\<lambda>(_, v). P v) d) k =
     (case dict_get d k of Some v \<Rightarrow> if P v then Some v else None | None \<Rightarrow> None)"
  using dict_get_filter_pairs [of d "\<lambda>_. P"] .

lemma metadata_counters_val:
  "metadata_counters (dict_set ''counters_since_delta_snapshot'' (counters_val cs) md) = cs"
proof -
  have "map (\<lambda>(k, v). (k, counter_of v)) (map (\<lambda>(k, (u, s)). (k, VTuple [VInt u, VInt s])) cs) = cs"
    by (induction cs) auto
  then show ?thesis by (simp add: metadata_counters_def counters_val_def)
qed

lemma created_counters_get:
  assumes "dict_get chs k = Some c" "is_delta c"
  shows "dict_get (create_metadata_for_update_state_api chs updated prev) k =
    Some (bump_counter updated k (dict_get_or (metadata_counters prev) k (0, 0)))"
proof -
  have "dict_get (map (\<lambda>(name, _). (name, f name)) (filter (\<lambda>(_, c). is_delta c) chs)) k = Some (f k)"
    for f :: "string \<Rightarrow> int \<times> int"
  proof -
    have "k \<in> fst ` set (filter (\<lambda>(_, c). is_delta c) chs)"
      using assms map_of_SomeD [OF assms(1)] by force
    moreover have "dict_get (map (\<lambda>(name, _). (name, f name)) xs) k = (if k \<in> fst ` set xs then Some (f k) else None)"
      for xs :: "(string \<times> channel) list" by (induction xs) auto
    ultimately show ?thesis by simp
  qed
  then show ?thesis by (simp add: create_metadata_for_update_state_api_def)
qed

lemma wf_created_counters: "wf_dict chs \<Longrightarrow> wf_dict (create_metadata_for_update_state_api chs updated prev)"
proof -
  assume "wf_dict chs"
  then have "wf_dict (filter (\<lambda>(_, c). is_delta c) chs)" by (simp add: distinct_map_filter)
  then show ?thesis by (simp add: create_metadata_for_update_state_api_def comp_def split_def)
qed

lemma snapshot_iff:
  assumes "wf_dict chs" "dict_get chs k = Some c"
  shows "k \<in> set (delta_channels_to_snapshot bound chs cs) \<longleftrightarrow> delta_due bound c (dict_get_or cs k (0, 0))"
proof -
  have "(k, c') \<in> set chs \<longleftrightarrow> c' = c" for c'
    using assms by (metis map_of_eq_Some_iff option.inject)
  then show ?thesis by (auto simp: delta_channels_to_snapshot_def image_iff)
qed

text \<open>
  An \<open>update_state\<close> checkpoint bounds the replay: a delta channel with a value is either stored
  as a snapshot and its counters start again, or it was updated fewer times than its snapshot
  frequency, in fewer supersteps than the bound, since its last snapshot.
\<close>

theorem update_state_bounds_replay:
  assumes "create_checkpoint_plan_for_update_state_api bound chs updated step parents saved False = (snaps, md)"
    and "wf_dict chs" "dict_get chs k = Some (DeltaChannel c)" "dc_is_available c"
  shows "if k \<in> set snaps then dict_get (metadata_counters md) k = None
    else (let (u, s) = dict_get_or (metadata_counters md) k (0, 0) in u < dc_frequency c \<and> s < bound)"
proof -
  let ?cs = "create_metadata_for_update_state_api chs updated saved"
  let ?v = "bump_counter updated k (dict_get_or (metadata_counters saved) k (0, 0))"
  let ?nz = "nonzero_counters (reset_counters snaps ?cs)"
  have snaps: "snaps = delta_channels_to_snapshot bound chs ?cs" and md: "metadata_counters md = ?nz"
    using assms(1) metadata_counters_val
    by (auto simp: create_checkpoint_plan_for_update_state_api_def Let_def metadata_counters_def split: if_splits)
  have v: "dict_get ?cs k = Some ?v" using created_counters_get [OF assms(3)] by simp
  have nz: "dict_get ?nz k = (if k \<in> set snaps \<or> ?v = (0, 0) then None else Some ?v)"
    using v wf_reset_counters [OF wf_created_counters [OF assms(2)]]
    by (simp add: nonzero_counters_def dict_get_filter_values reset_counters_get)
  have due: "k \<in> set snaps \<longleftrightarrow> delta_due bound (DeltaChannel c) ?v"
    using snapshot_iff [OF assms(2,3), of bound ?cs] snaps v by (simp add: dict_get_or_def)
  obtain u s where us: "?v = (u, s)" by (cases ?v)
  show ?thesis using nz due assms(4) us by (auto simp: md dict_get_or_def)
qed

definition ex_append :: "val \<Rightarrow> val list \<Rightarrow> val res" where
  "ex_append st ws = (case st of VList xs \<Rightarrow> Inr (VList (xs @ ws)) | _ \<Rightarrow> Inl TypeError)"

definition ex_delta :: "val list \<Rightarrow> delta" where
  "ex_delta xs = \<lparr>dc_key = ''d'', dc_value = Some (VList xs), dc_reducer = ex_append,
     dc_typ = Inr (VList []), dc_frequency = 2\<rparr>"

theorem update_state_bounds_replay_witness:
  "\<exists>snaps md. create_checkpoint_plan_for_update_state_api 5000 [(''d'', DeltaChannel (ex_delta [VInt 1]))]
      [''d''] 3 [] [(''counters_since_delta_snapshot'', VDict [(''d'', VTuple [VInt 0, VInt 1])])] False = (snaps, md)
    \<and> (if ''d'' \<in> set snaps then dict_get (metadata_counters md) ''d'' = None
        else (let (u, s) = dict_get_or (metadata_counters md) ''d'' (0, 0)
              in u < dc_frequency (ex_delta [VInt 1]) \<and> s < 5000))"
proof -
  let ?p = "create_checkpoint_plan_for_update_state_api 5000 [(''d'', DeltaChannel (ex_delta [VInt 1]))]
        [''d''] 3 [] [(''counters_since_delta_snapshot'', VDict [(''d'', VTuple [VInt 0, VInt 1])])] False"
  have "?p = (fst ?p, snd ?p)" by simp
  moreover have "dc_is_available (ex_delta [VInt 1])" by (simp add: ex_delta_def dc_is_available_def)
  ultimately show ?thesis
    using update_state_bounds_replay [of 5000 "[(''d'', DeltaChannel (ex_delta [VInt 1]))]" "[''d'']" 3 "[]"
        "[(''counters_since_delta_snapshot'', VDict [(''d'', VTuple [VInt 0, VInt 1])])]" "fst ?p" "snd ?p" "''d''" "ex_delta [VInt 1]"]
    by (intro exI [of _ "fst ?p"] exI [of _ "snd ?p"]) simp
qed

subsection \<open>Ids of exit writes\<close>

lemma groups_no_hyphen:
  assumes "length h = 32" "CHR ''-'' \<notin> set h"
  shows "filter (\<lambda>c. c \<noteq> CHR ''-'') (uuid_groups h) = h"
proof -
  have sub: "set (take n xs) \<subseteq> set xs" "set (drop n xs) \<subseteq> set xs" for n and xs :: string
    by (rule set_take_subset, rule set_drop_subset)
  have keep: "filter (\<lambda>c. c \<noteq> CHR ''-'') (take n (drop m h)) = take n (drop m h)" for n m
    using assms(2) sub by (intro filter_True) blast
  have keep0: "filter (\<lambda>c. c \<noteq> CHR ''-'') (take n h) = take n h" for n
    using assms(2) sub by (intro filter_True) blast
  have "filter (\<lambda>c. c \<noteq> CHR ''-'') (uuid_groups h)
    = take 8 h @ take 4 (drop 8 h) @ take 4 (drop 12 h) @ take 4 (drop 16 h) @ take 12 (drop 20 h)"
    by (simp add: uuid_groups_def keep keep0)
  also have "\<dots> = ungroup (uuid_groups h)" using assms(1) by (simp add: ungroup_def uuid_groups_def)
  finally show ?thesis using ungroup_groups [OF assms(1)] by simp
qed

lemma lower_hex_ok: "is_hex c \<Longrightarrow> is_hex (lower_hex c) \<and> lower_hex (lower_hex c) = lower_hex c \<and> lower_hex c \<noteq> CHR ''-''"
proof -
  assume h: "is_hex c"
  let ?n = "of_char c :: nat"
  show ?thesis
  proof (cases "65 \<le> ?n \<and> ?n \<le> 70")
    case True
    then have n: "(of_char (lower_hex c) :: nat) = ?n + 32" by (simp add: lower_hex_def Let_def)
    then have "lower_hex c \<noteq> CHR ''-''" using True by auto
    then show ?thesis using n True by (simp add: is_hex_def lower_hex_def [of "lower_hex c"] Let_def)
  next
    case False
    then have "lower_hex c = c" unfolding lower_hex_def Let_def by (rule if_not_P)
    moreover have "c \<noteq> CHR ''-''" using h by (auto simp: is_hex_def)
    ultimately show ?thesis using h by simp
  qed
qed

lemma digit_hex: "d < 10 \<Longrightarrow> is_hex (digit_char d) \<and> lower_hex (digit_char d) = digit_char d \<and> digit_char d \<noteq> CHR ''-''"
  using of_digit_char [of d] is_digit_char [of d] digit_not_sign [of "digit_char d"]
  by (simp add: is_hex_def lower_hex_def Let_def)

definition canonical :: "char \<Rightarrow> bool" where
  "canonical c \<longleftrightarrow> is_hex c \<and> lower_hex c = c \<and> c \<noteq> CHR ''-''"

lemma uuid_str_canonical:
  assumes "length g = 32" "\<forall>c \<in> set g. canonical c"
  shows "uuid_str (uuid_groups g) = Inr (uuid_groups g)"
proof -
  have "filter (\<lambda>c. c \<noteq> CHR ''-'') (uuid_groups g) = g"
    using assms by (intro groups_no_hyphen) (auto simp: canonical_def)
  moreover have "list_all is_hex g" "map lower_hex g = g"
    using assms(2) by (auto simp: list_all_iff canonical_def map_idI)
  ultimately show ?thesis using assms(1) by (simp only: uuid_str_def Let_def simp_thms if_True)
qed

lemma uuid_groups_prefix:
  assumes "length h = 32" "length z = 8"
  shows "uuid_groups (z @ drop 8 h) = z @ drop 8 (uuid_groups h)"
  using assms by (simp add: uuid_groups_def)

lemma exit_delta_task_id_form:
  assumes "uuid_str t = Inr s" "0 \<le> step" "step < 10 ^ 8"
  shows "\<exists>r. exit_delta_task_id step t = Inr (zpad 8 (nat_str (nat step)) @ r)
    \<and> uuid_str (zpad 8 (nat_str (nat step)) @ r) = Inr (zpad 8 (nat_str (nat step)) @ r)"
proof -
  let ?hex = "filter (\<lambda>c. c \<noteq> CHR ''-'') t"
  let ?h = "map lower_hex ?hex"
  let ?z = "zpad 8 (nat_str (nat step))"
  let ?g = "?z @ drop 8 ?h"
  have t: "length ?hex = 32" "list_all is_hex ?hex" "s = uuid_groups ?h"
    using assms(1) by (auto simp: uuid_str_def Let_def split: if_splits)
  have n: "nat step < 10 ^ 8" using assms(2,3) by (simp add: nat_less_iff)
  have z: "length ?z = 8" "\<forall>c \<in> set ?z. canonical c"
    using length_zpad [OF n] fixed_digits_bound [of _ 8 "nat step"] digit_hex
    by (auto simp: zpad_fixed [OF n] canonical_def)
  have "\<forall>c \<in> set ?h. canonical c" using t(2) lower_hex_ok by (auto simp: list_all_iff canonical_def)
  then have "\<forall>c \<in> set ?g. canonical c" using z(2) in_set_dropD [of _ 8 ?h] unfolding set_append by blast
  moreover have "length ?g = 32" using z(1) t(1) by simp
  ultimately have g: "uuid_str (uuid_groups ?g) = Inr (uuid_groups ?g)" by (intro uuid_str_canonical)
  have "?z @ drop 8 s = uuid_groups ?g"
    unfolding t(3) by (rule uuid_groups_prefix [symmetric]) (use t(1) z(1) in simp_all)
  moreover have "exit_delta_task_id step t = Inr (?z @ drop 8 s)"
    using assms(1,2) by (simp add: exit_delta_task_id_def int_fmt_def)
  ultimately show ?thesis using g by metis
qed

text \<open>
  The ids of the delta writes of an exit are valid UUIDs for steps of up to eight digits, and
  their order is the order of the steps, whatever the ids of the tasks.
\<close>

theorem exit_delta_ids_ordered:
  assumes "uuid_str t = Inr u" "uuid_str t' = Inr u'" "0 \<le> step" "step < step'" "step' < 10 ^ 8"
  shows "\<exists>a b. exit_delta_task_id step t = Inr a \<and> exit_delta_task_id step' t' = Inr b
    \<and> a < b \<and> uuid_str a = Inr a \<and> uuid_str b = Inr b"
proof -
  have n: "nat step < nat step'" "nat step' < 10 ^ 8" using assms(3-5) by (simp_all add: nat_less_iff)
  obtain r where r: "exit_delta_task_id step t = Inr (zpad 8 (nat_str (nat step)) @ r)"
    "uuid_str (zpad 8 (nat_str (nat step)) @ r) = Inr (zpad 8 (nat_str (nat step)) @ r)"
    using exit_delta_task_id_form [OF assms(1,3)] assms(4,5) by auto
  obtain r' where r': "exit_delta_task_id step' t' = Inr (zpad 8 (nat_str (nat step')) @ r')"
    "uuid_str (zpad 8 (nat_str (nat step')) @ r') = Inr (zpad 8 (nat_str (nat step')) @ r')"
    using exit_delta_task_id_form [OF assms(2) _ assms(5)] assms(3,4) by auto
  show ?thesis using r r' zpad_append_less [OF n, of r r'] by auto
qed

theorem exit_delta_ids_ordered_witness:
  "\<exists>a b. exit_delta_task_id 9 (replicate 32 (CHR ''f'')) = Inr a
    \<and> exit_delta_task_id 10 (replicate 32 (CHR ''0'')) = Inr b \<and> a < b \<and> uuid_str a = Inr a \<and> uuid_str b = Inr b"
proof (rule exit_delta_ids_ordered)
  show "uuid_str (replicate 32 (CHR ''f'')) = Inr ''ffffffff-ffff-ffff-ffff-ffffffffffff''" by code_simp
  show "uuid_str (replicate 32 (CHR ''0'')) = Inr ''00000000-0000-0000-0000-000000000000''" by code_simp
qed simp_all

end
