(* ===== verification/Saver_Base.thy ===== *)
theory Saver_Base
  imports Tasks Checkpointing
begin

section \<open>The base class of the savers (checkpoint/base/__init__.py)\<close>

text \<open>
  The tuple a saver returns, the metadata it stores, and the default
  \<open>get_delta_channel_history\<close>, which walks from a checkpoint to its ancestors. The walk is a
  \<open>while\<close> loop over stored data, so it is a partial function: \<open>None\<close> means that it does not
  return. The locale \<open>checkpoint_saver\<close> is the contract of \<open>get_tuple\<close> that the walk relies on;
  under it the walk returns.
\<close>

record checkpoint_tuple =
  ct_config :: config
  ct_checkpoint :: checkpoint
  ct_metadata :: metadata
  ct_parent_config :: "config option"
  ct_pending_writes :: "pending_write list"

subsection \<open>Configurations of savers\<close>

definition conf_index :: "config \<Rightarrow> string \<Rightarrow> string res" where
  "conf_index cfg k = (case dict_get (cfg_configurable cfg) k of
       Some (CStr s) \<Rightarrow> Inr s | Some _ \<Rightarrow> Inl TypeError | None \<Rightarrow> Inl KeyError)"

definition conf_ns :: "config \<Rightarrow> string" where
  "conf_ns cfg = (case conf_str cfg ''checkpoint_ns'' of Some s \<Rightarrow> s | None \<Rightarrow> [])"

definition get_checkpoint_id :: "config \<Rightarrow> string option" where
  "get_checkpoint_id cfg = conf_str cfg ''checkpoint_id''"

definition saver_config :: "string \<Rightarrow> string \<Rightarrow> string \<Rightarrow> config" where
  "saver_config t ns i = empty_config\<lparr>cfg_configurable :=
     [(''thread_id'', CStr t), (''checkpoint_ns'', CStr ns), (''checkpoint_id'', CStr i)]\<rparr>"

lemma saver_config_simps [simp]:
  "conf_index (saver_config t ns i) ''thread_id'' = Inr t"
  "conf_index (saver_config t ns i) ''checkpoint_ns'' = Inr ns"
  "conf_index (saver_config t ns i) ''checkpoint_id'' = Inr i"
  "conf_str (saver_config t ns i) ''thread_id'' = Some t"
  "conf_ns (saver_config t ns i) = ns"
  "get_checkpoint_id (saver_config t ns i) = Some i"
  by (simp_all add: conf_index_def conf_str_def conf_ns_def get_checkpoint_id_def saver_config_def)

subsection \<open>Metadata\<close>

definition EXCLUDED_METADATA_KEYS :: "string list" where
  "EXCLUDED_METADATA_KEYS = [''thread_id'', ''checkpoint_id'', ''checkpoint_ns'', ''checkpoint_map'',
     ''langgraph_step'', ''langgraph_node'', ''langgraph_triggers'', ''langgraph_path'',
     ''langgraph_checkpoint_ns'']"

fun clean_nul :: "val \<Rightarrow> val" where
  "clean_nul (VStr s) = VStr (filter (\<lambda>c. c \<noteq> CHR 0x00) s)"
| "clean_nul v = v"

text \<open>Entries of \<open>configurable\<close> that are no strings, integers or booleans are passed over.\<close>

fun conf_val :: "cval \<Rightarrow> val" where
  "conf_val (CStr s) = VStr s"
| "conf_val (CInt i) = VInt i"
| "conf_val (CBool b) = VBool b"
| "conf_val _ = VNone"

definition add_metadata :: "string \<times> val \<Rightarrow> metadata \<Rightarrow> metadata" where
  "add_metadata = (\<lambda>(k, v) md.
     if in_dict k md \<or> k \<in> set EXCLUDED_METADATA_KEYS \<or> take 2 k = ''__'' then md
     else (case v of
         VStr s \<Rightarrow> dict_set k (clean_nul (VStr s)) md
       | VInt i \<Rightarrow> dict_set k v md
       | VBool b \<Rightarrow> dict_set k v md
       | _ \<Rightarrow> md))"

definition get_checkpoint_metadata :: "config \<Rightarrow> metadata \<Rightarrow> metadata" where
  "get_checkpoint_metadata cfg md =
     fold add_metadata (cfg_metadata cfg @ map (\<lambda>(k, v). (k, conf_val v)) (cfg_configurable cfg))
       (map (\<lambda>(k, v). (k, clean_nul v)) md)"

definition get_serializable_checkpoint_metadata :: "config \<Rightarrow> metadata \<Rightarrow> metadata" where
  "get_serializable_checkpoint_metadata cfg md = AList.delete ''writes'' (get_checkpoint_metadata cfg md)"

text \<open>\<open>WRITES_IDX_MAP.get(c, idx)\<close>\<close>

definition WRITES_IDX_MAP :: "(string, int) dict" where
  "WRITES_IDX_MAP = [(ERROR, -1), (''__scheduled__'', -2), (INTERRUPT, -3), (RESUME, -4)]"

subsection \<open>The walk to the ancestors\<close>

record hist_state =
  hs_writes :: "(string, pending_write list) dict"
  hs_seeds :: "(string, val) dict"
  hs_remaining :: "string list"

definition hist_init :: "string list \<Rightarrow> hist_state" where
  "hist_init chans = \<lparr>hs_writes = dict_of (map (\<lambda>c. (c, [])) chans), hs_seeds = [],
     hs_remaining = remdups chans\<rparr>"

definition hist_result :: "string list \<Rightarrow> hist_state \<Rightarrow> (string, history) dict" where
  "hist_result chans st = dict_of (map (\<lambda>c. (c,
     \<lparr>h_seed = dict_get (hs_seeds st) c, h_writes = rev (dict_get_or (hs_writes st) c [])\<rparr>)) chans)"

text \<open>Both loops of a visit, over the writes from last to first and over the open channels.\<close>

definition collect_writes ::
  "(string \<Rightarrow> bool) \<Rightarrow> pending_write list \<Rightarrow> hist_state \<Rightarrow> hist_state" where
  "collect_writes wanted pws st = st\<lparr>hs_writes := fold (\<lambda>w d.
     if fst (snd w) \<in> set (hs_remaining st) \<and> wanted (fst (snd w)) then dict_append (fst (snd w)) w d else d)
     (rev pws) (hs_writes st)\<rparr>"

definition seed_step :: "(string, val) dict \<Rightarrow> string \<Rightarrow> hist_state \<Rightarrow> hist_state" where
  "seed_step values ch st = (case dict_get values ch of
       None \<Rightarrow> st
     | Some v \<Rightarrow> st\<lparr>hs_seeds := dict_set ch v (hs_seeds st), hs_remaining := removeAll ch (hs_remaining st)\<rparr>)"

definition take_seeds :: "(string, val) dict \<Rightarrow> hist_state \<Rightarrow> hist_state" where
  "take_seeds values st = fold (seed_step values) (hs_remaining st) st"

definition base_visit :: "checkpoint_tuple \<Rightarrow> hist_state \<Rightarrow> hist_state" where
  "base_visit tup st = take_seeds (cp_channel_values (ct_checkpoint tup))
     (collect_writes (\<lambda>_. True) (ct_pending_writes tup) st)"

partial_function (option) base_walk ::
  "(config \<Rightarrow> checkpoint_tuple option) \<Rightarrow> config option \<Rightarrow> hist_state \<Rightarrow> hist_state option" where
  "base_walk get_tuple cursor st =
     (case cursor of
        None \<Rightarrow> Some st
      | Some cfg \<Rightarrow>
          if hs_remaining st = [] then Some st
          else (case get_tuple cfg of
              None \<Rightarrow> Some st
            | Some tup \<Rightarrow> base_walk get_tuple (ct_parent_config tup) (base_visit tup st)))"

definition base_delta_channel_history ::
  "(config \<Rightarrow> checkpoint_tuple option) \<Rightarrow> config \<Rightarrow> string list \<Rightarrow> (string, history) dict option" where
  "base_delta_channel_history get_tuple cfg chans =
     (if chans = [] then Some []
      else map_option (hist_result chans)
        (base_walk get_tuple (case get_tuple cfg of Some t \<Rightarrow> ct_parent_config t | None \<Rightarrow> None)
          (hist_init chans)))"

subsection \<open>One channel through the walk\<close>

lemma take_seeds_fold:
  "hs_writes (fold (seed_step values) chs st) = hs_writes st"
  "hs_remaining (fold (seed_step values) chs st) =
     filter (\<lambda>c. \<not> (c \<in> set chs \<and> in_dict c values)) (hs_remaining st)"
  "dict_get (hs_seeds (fold (seed_step values) chs st)) c =
     (if c \<in> set chs \<and> in_dict c values then dict_get values c else dict_get (hs_seeds st) c)"
  by (induction chs arbitrary: st)
    (auto simp: seed_step_def removeAll_filter_not_eq split: option.splits intro!: filter_cong)

lemma take_seeds_simps:
  "hs_writes (take_seeds values st) = hs_writes st"
  "hs_remaining (take_seeds values st) = filter (\<lambda>c. \<not> in_dict c values) (hs_remaining st)"
  "dict_get (hs_seeds (take_seeds values st)) c =
     (if c \<in> set (hs_remaining st) \<and> in_dict c values then dict_get values c else dict_get (hs_seeds st) c)"
  by (auto simp: take_seeds_def take_seeds_fold intro!: filter_cong)

lemma collect_writes_simps [simp]:
  "hs_seeds (collect_writes wanted pws st) = hs_seeds st"
  "hs_remaining (collect_writes wanted pws st) = hs_remaining st"
  by (simp_all add: collect_writes_def)

lemma collect_writes_get:
  "dict_get_or (hs_writes (collect_writes wanted pws st)) c [] = dict_get_or (hs_writes st) c []
     @ (if c \<in> set (hs_remaining st) \<and> wanted c then rev (filter (\<lambda>w. fst (snd w) = c) pws) else [])"
proof -
  have "dict_get_or (fold (\<lambda>w d. if fst (snd w) \<in> set rem \<and> wanted (fst (snd w)) then dict_append (fst (snd w)) w d else d) ws d) c []
      = dict_get_or d c [] @ (if c \<in> set rem \<and> wanted c then filter (\<lambda>w. fst (snd w) = c) ws else [])" for ws d rem
    by (induction ws arbitrary: d) (auto simp: dict_get_or_append)
  note fold_get = this
  show ?thesis by (simp add: collect_writes_def fold_get rev_filter del: dict_get_or_set)
qed

subsection \<open>The contract of a saver\<close>

text \<open>
  \<open>ok\<close> holds of the states a saver reaches, \<open>get_tuple\<close> reads a state. An ancestor belongs to the
  same thread and namespace and has a smaller id (\<open>Checkpoint.id\<close> is documented as monotonically
  increasing), and a state holds finitely many checkpoints.
\<close>

locale checkpoint_saver =
  fixes ok :: "'s \<Rightarrow> bool"
    and get_tuple :: "'s \<Rightarrow> config \<Rightarrow> checkpoint_tuple option"
    and stored :: "'s \<Rightarrow> string \<Rightarrow> string \<Rightarrow> string set"
  assumes parent_older: "ok s \<Longrightarrow> get_tuple s cfg = Some tup \<Longrightarrow> ct_parent_config tup = Some p \<Longrightarrow>
      \<exists>t j. p = saver_config t (conf_ns cfg) j \<and> conf_str cfg ''thread_id'' = Some t
        \<and> j \<noteq> [] \<and> j < cp_id (ct_checkpoint tup)"
    and tuple_id: "ok s \<Longrightarrow> get_tuple s cfg = Some tup \<Longrightarrow> get_checkpoint_id cfg = Some i \<Longrightarrow> i \<noteq> [] \<Longrightarrow>
      cp_id (ct_checkpoint tup) = i"
    and tuple_stored: "ok s \<Longrightarrow> get_tuple s (saver_config t ns i) = Some tup \<Longrightarrow> i \<noteq> [] \<Longrightarrow> i \<in> stored s t ns"
    and stored_finite: "ok s \<Longrightarrow> finite (stored s t ns)"
begin

lemma walk_returns:
  assumes "ok s" "i \<noteq> []"
  shows "\<exists>st'. base_walk (get_tuple s) (Some (saver_config t ns i)) st = Some st'"
  using assms(2)
proof (induction "card {j \<in> stored s t ns. j < i}" arbitrary: i st rule: less_induct)
  case less
  show ?case
  proof (cases "hs_remaining st = [] \<or> get_tuple s (saver_config t ns i) = None")
    case True
    then show ?thesis by (subst base_walk.simps) (auto split: option.splits)
  next
    case False
    then obtain tup where tup: "get_tuple s (saver_config t ns i) = Some tup" by auto
    show ?thesis
    proof (cases "ct_parent_config tup")
      case None
      then show ?thesis using False tup by (subst base_walk.simps, subst base_walk.simps) simp
    next
      case (Some p)
      obtain j where j: "p = saver_config t ns j" "j < cp_id (ct_checkpoint tup)" "j \<noteq> []"
        using parent_older [OF assms(1) tup Some] by auto
      have ji: "j < i" using tuple_id [OF assms(1) tup] j(2) less.prems by simp
      show ?thesis
      proof (cases "j \<in> stored s t ns")
        case True
        then have "{k \<in> stored s t ns. k < j} \<subset> {k \<in> stored s t ns. k < i}" using ji by auto
        then have "card {k \<in> stored s t ns. k < j} < card {k \<in> stored s t ns. k < i}"
          by (intro psubset_card_mono) (use stored_finite [OF assms(1)] in auto)
        then have "\<exists>st'. base_walk (get_tuple s) (Some p) (base_visit tup st) = Some st'"
          using less.hyps j by blast
        then show ?thesis using False tup Some by (subst base_walk.simps) simp
      next
        case False': False
        then have "get_tuple s p = None" using tuple_stored [OF assms(1)] j by (metis option.exhaust)
        then have "\<exists>st'. base_walk (get_tuple s) (Some p) (base_visit tup st) = Some st'"
          by (subst base_walk.simps) auto
        then show ?thesis using False tup Some by (subst base_walk.simps) simp
      qed
    qed
  qed
qed

text \<open>The default history is defined for every checkpoint.\<close>

lemma history_returns:
  assumes "ok s"
  shows "\<exists>h. base_delta_channel_history (get_tuple s) cfg chans = Some h"
proof (cases "get_tuple s cfg")
  case None
  then show ?thesis by (subst base_delta_channel_history_def, subst base_walk.simps) simp
next
  case (Some tup)
  show ?thesis
  proof (cases "ct_parent_config tup")
    case None
    then show ?thesis using Some by (subst base_delta_channel_history_def, subst base_walk.simps) simp
  next
    case (Some p)
    then show ?thesis using parent_older [OF assms \<open>get_tuple s cfg = Some tup\<close> Some] walk_returns [OF assms]
      \<open>get_tuple s cfg = Some tup\<close> by (auto simp: base_delta_channel_history_def)
  qed
qed

end

end
