(* ===== verification/Memory_Saver.thy ===== *)
theory Memory_Saver
  imports Saver_Base "HOL-Library.Product_Lexorder"
begin

section \<open>The in-memory saver (checkpoint/memory/__init__.py)\<close>

text \<open>
  The three dictionaries of \<open>InMemorySaver\<close> and all its operations. The serializer is a
  parameter: \<open>serde\<close> holds \<open>dumps_typed\<close> and \<open>loads_typed\<close> at the three types they are used at,
  over an unspecified type of bytes. The dictionaries are \<open>defaultdict\<close>s: reading a missing entry
  with an index inserts an empty one (\<open>touch_ns\<close>, \<open>touch_writes\<close>), so the reads return the state too.
  Thread ids, namespaces and checkpoint ids are strings. The asynchronous methods call these.
\<close>

type_synonym 'b typed = "string \<times> 'b"

record 'b serde =
  sd_dumps :: "val \<Rightarrow> 'b typed"
  sd_loads :: "'b typed \<Rightarrow> val"
  sd_dumps_checkpoint :: "checkpoint \<Rightarrow> 'b typed"
  sd_loads_checkpoint :: "'b typed \<Rightarrow> checkpoint"
  sd_dumps_metadata :: "metadata \<Rightarrow> 'b typed"
  sd_loads_metadata :: "'b typed \<Rightarrow> metadata"
  sd_no_bytes :: 'b

text \<open>What the saver relies on: loading inverts dumping, and no dumped value has the tag the
  saver uses for an empty channel.\<close>

definition serde_ok :: "'b serde \<Rightarrow> bool" where
  "serde_ok sd \<longleftrightarrow> (\<forall>v. sd_loads sd (sd_dumps sd v) = v \<and> fst (sd_dumps sd v) \<noteq> ''empty'')
     \<and> (\<forall>c. sd_loads_checkpoint sd (sd_dumps_checkpoint sd c) = c)
     \<and> (\<forall>m. sd_loads_metadata sd (sd_dumps_metadata sd m) = m)"

subsection \<open>State\<close>

type_synonym 'b saved = "'b typed \<times> 'b typed \<times> string option"
type_synonym write_key = "string \<times> int"
type_synonym 'b stored_write = "string \<times> string \<times> 'b typed \<times> string"

record 'b saver =
  sv_storage :: "(string, (string, (string, 'b saved) dict) dict) dict"
  sv_writes :: "(string \<times> string \<times> string, (write_key, 'b stored_write) dict) dict"
  sv_blobs :: "(string \<times> string \<times> string \<times> version, 'b typed) dict"

definition saver_init :: "'b saver" where
  "saver_init = \<lparr>sv_storage = [], sv_writes = [], sv_blobs = []\<rparr>"

definition ns_storage :: "'b saver \<Rightarrow> string \<Rightarrow> string \<Rightarrow> (string, 'b saved) dict" where
  "ns_storage sv t ns = dict_get_or (dict_get_or (sv_storage sv) t []) ns []"

definition set_ns_storage :: "string \<Rightarrow> string \<Rightarrow> (string, 'b saved) dict \<Rightarrow> 'b saver \<Rightarrow> 'b saver" where
  "set_ns_storage t ns cps sv =
     sv\<lparr>sv_storage := dict_set t (dict_set ns cps (dict_get_or (sv_storage sv) t [])) (sv_storage sv)\<rparr>"

definition touch_thread :: "string \<Rightarrow> 'b saver \<Rightarrow> 'b saver" where
  "touch_thread t sv = sv\<lparr>sv_storage := dict_set t (dict_get_or (sv_storage sv) t []) (sv_storage sv)\<rparr>"

definition touch_ns :: "string \<Rightarrow> string \<Rightarrow> 'b saver \<Rightarrow> 'b saver" where
  "touch_ns t ns sv = set_ns_storage t ns (ns_storage sv t ns) sv"

definition writes_of :: "'b saver \<Rightarrow> string \<times> string \<times> string \<Rightarrow> (write_key, 'b stored_write) dict" where
  "writes_of sv key = dict_get_or (sv_writes sv) key []"

definition touch_writes :: "string \<times> string \<times> string \<Rightarrow> 'b saver \<Rightarrow> 'b saver" where
  "touch_writes key sv = sv\<lparr>sv_writes := dict_set key (writes_of sv key) (sv_writes sv)\<rparr>"

subsection \<open>Reading\<close>

definition load_blob :: "'b serde \<Rightarrow> 'b saver \<Rightarrow> string \<Rightarrow> string \<Rightarrow> string \<Rightarrow> version \<Rightarrow> val option" where
  "load_blob sd sv t ns k ver = (case dict_get (sv_blobs sv) (t, ns, k, ver) of
       None \<Rightarrow> None
     | Some vv \<Rightarrow> if fst vv = ''empty'' then None else Some (sd_loads sd vv))"

definition load_blobs :: "'b serde \<Rightarrow> 'b saver \<Rightarrow> string \<Rightarrow> string \<Rightarrow> versions \<Rightarrow> (string, val) dict" where
  "load_blobs sd sv t ns versions = fold (\<lambda>(k, ver) result.
     case load_blob sd sv t ns k ver of None \<Rightarrow> result | Some v \<Rightarrow> dict_set k v result) versions []"

definition load_writes :: "'b serde \<Rightarrow> (write_key, 'b stored_write) dict \<Rightarrow> pending_write list" where
  "load_writes sd ws = map (\<lambda>(_, i, c, v, _). (i, c, sd_loads sd v)) ws"

text \<open>The tuple that \<open>get_tuple\<close> and \<open>list\<close> build from a saved entry.\<close>

definition mem_tuple ::
  "'b serde \<Rightarrow> 'b saver \<Rightarrow> config \<Rightarrow> string \<Rightarrow> string \<Rightarrow> string \<Rightarrow> 'b saved \<Rightarrow> checkpoint_tuple" where
  "mem_tuple sd sv cfg t ns i = (\<lambda>(cp, md, parent).
     let cp = sd_loads_checkpoint sd cp
     in \<lparr>ct_config = cfg,
         ct_checkpoint = cp\<lparr>cp_channel_values := load_blobs sd sv t ns (cp_channel_versions cp)\<rparr>,
         ct_metadata = sd_loads_metadata sd md,
         ct_parent_config = (case parent of None \<Rightarrow> None
                             | Some p \<Rightarrow> if p = [] then None else Some (saver_config t ns p)),
         ct_pending_writes = load_writes sd (writes_of sv (t, ns, i))\<rparr>)"

definition max_key :: "string list \<Rightarrow> string" where
  "max_key ks = fold max (tl ks) (hd ks)"

definition mem_get_tuple ::
  "'b serde \<Rightarrow> config \<Rightarrow> 'b saver \<Rightarrow> (checkpoint_tuple option \<times> 'b saver) res" where
  "mem_get_tuple sd cfg sv =
     rbind (conf_index cfg ''thread_id'')
     (\<lambda>t. let ns = conf_ns cfg; sv = touch_ns t ns sv; cps = ns_storage sv t ns
          in case get_checkpoint_id cfg of
            Some (a # i) \<Rightarrow> (case dict_get cps (a # i) of
                None \<Rightarrow> Inr (None, sv)
              | Some saved \<Rightarrow> Inr (Some (mem_tuple sd sv cfg t ns (a # i) saved), touch_writes (t, ns, a # i) sv))
          | _ \<Rightarrow>
              if cps = [] then Inr (None, sv)
              else let i = max_key (dict_keys cps)
                   in rbind (dict_index cps i)
                      (\<lambda>saved. Inr (Some (mem_tuple sd sv (saver_config t ns i) t ns i saved), touch_writes (t, ns, i) sv)))"

text \<open>\<open>list\<close>: the limit is shared by all threads and namespaces; reaching it leaves only the
  innermost loop.\<close>

record list_state =
  ls_limit :: "int option"
  ls_out :: "checkpoint_tuple list"

definition list_keeps :: "config option \<Rightarrow> config option \<Rightarrow> metadata \<Rightarrow> string \<Rightarrow> metadata \<Rightarrow> bool" where
  "list_keeps cfg before query i md \<longleftrightarrow>
     (case Option.bind cfg get_checkpoint_id of Some (a # j) \<Rightarrow> i = a # j | _ \<Rightarrow> True)
     \<and> (case Option.bind before get_checkpoint_id of Some (a # j) \<Rightarrow> i < a # j | _ \<Rightarrow> True)
     \<and> list_all (\<lambda>(k, v). v = dict_get_or md k VNone) query"

fun list_entries ::
  "'b serde \<Rightarrow> (string \<Rightarrow> metadata \<Rightarrow> bool) \<Rightarrow> string \<Rightarrow> string \<Rightarrow> (string \<times> 'b saved) list
     \<Rightarrow> list_state \<times> 'b saver \<Rightarrow> list_state \<times> 'b saver" where
  "list_entries sd keeps t ns [] (st, sv) = (st, sv)"
| "list_entries sd keeps t ns ((i, cp, md, parent) # es) (st, sv) =
     (if \<not> keeps i (sd_loads_metadata sd md) then list_entries sd keeps t ns es (st, sv)
      else (case ls_limit st of
          Some n \<Rightarrow> if n \<le> 0 then (st, sv)
                    else list_entries sd keeps t ns es
                      (\<lparr>ls_limit = Some (n - 1),
                        ls_out = ls_out st @ [mem_tuple sd sv (saver_config t ns i) t ns i (cp, md, parent)]\<rparr>,
                       touch_writes (t, ns, i) sv)
        | None \<Rightarrow> list_entries sd keeps t ns es
                      (\<lparr>ls_limit = None,
                        ls_out = ls_out st @ [mem_tuple sd sv (saver_config t ns i) t ns i (cp, md, parent)]\<rparr>,
                       touch_writes (t, ns, i) sv)))"

definition list_thread ::
  "'b serde \<Rightarrow> config option \<Rightarrow> metadata \<Rightarrow> config option \<Rightarrow> string \<Rightarrow> list_state \<times> 'b saver
     \<Rightarrow> list_state \<times> 'b saver" where
  "list_thread sd cfg query before t = (\<lambda>(st, sv).
     let sv = touch_thread t sv;
         wanted_ns = Option.bind cfg (\<lambda>c. conf_str c ''checkpoint_ns'')
     in fold (\<lambda>ns (st, sv).
          if wanted_ns \<noteq> None \<and> wanted_ns \<noteq> Some ns then (st, sv)
          else list_entries sd (list_keeps cfg before query) t ns
            (rev (sort_key fst (ns_storage sv t ns))) (st, sv))
        (dict_keys (dict_get_or (sv_storage sv) t [])) (st, sv))"

definition mem_list ::
  "'b serde \<Rightarrow> config option \<Rightarrow> metadata \<Rightarrow> config option \<Rightarrow> int option \<Rightarrow> 'b saver
     \<Rightarrow> (checkpoint_tuple list \<times> 'b saver) res" where
  "mem_list sd cfg query before limit sv =
     rbind (case cfg of Some c \<Rightarrow> rbind (conf_index c ''thread_id'') (\<lambda>t. Inr [t])
                      | None \<Rightarrow> Inr (dict_keys (sv_storage sv)))
     (\<lambda>ts. case fold (list_thread sd cfg query before) ts (\<lparr>ls_limit = limit, ls_out = []\<rparr>, sv) of
             (st, sv) \<Rightarrow> Inr (ls_out st, sv))"

subsection \<open>Writing\<close>

definition put_blob :: "'b serde \<Rightarrow> string \<Rightarrow> string \<Rightarrow> (string, val) dict \<Rightarrow> string \<times> version
    \<Rightarrow> 'b saver \<Rightarrow> 'b saver" where
  "put_blob sd t ns values = (\<lambda>(k, ver) sv. sv\<lparr>sv_blobs := dict_set (t, ns, k, ver)
     (case dict_get values k of Some v \<Rightarrow> sd_dumps sd v | None \<Rightarrow> (''empty'', sd_no_bytes sd)) (sv_blobs sv)\<rparr>)"

definition mem_put ::
  "'b serde \<Rightarrow> config \<Rightarrow> checkpoint \<Rightarrow> metadata \<Rightarrow> versions \<Rightarrow> 'b saver \<Rightarrow> (config \<times> 'b saver) res" where
  "mem_put sd cfg cp md new_versions sv =
     rbind (conf_index cfg ''thread_id'') (\<lambda>t.
     rbind (conf_index cfg ''checkpoint_ns'') (\<lambda>ns.
       let sv = fold (put_blob sd t ns (cp_channel_values cp)) new_versions sv;
           entry = (sd_dumps_checkpoint sd (cp\<lparr>cp_channel_values := []\<rparr>),
                    sd_dumps_metadata sd (get_checkpoint_metadata cfg md), get_checkpoint_id cfg)
       in Inr (saver_config t ns (cp_id cp),
               set_ns_storage t ns (dict_set (cp_id cp) entry (ns_storage sv t ns)) sv)))"

text \<open>\<open>existed\<close> is whether the dictionary of the checkpoint's writes was there before the loop.\<close>

definition put_write ::
  "'b serde \<Rightarrow> bool \<Rightarrow> string \<times> string \<times> string \<Rightarrow> string \<Rightarrow> string \<Rightarrow> int \<times> chan_write
     \<Rightarrow> 'b saver \<Rightarrow> 'b saver" where
  "put_write sd existed key task_id task_path = (\<lambda>(idx, c, v) sv.
     let inner = (task_id, dict_get_or WRITES_IDX_MAP c idx)
     in if snd inner \<ge> 0 \<and> existed \<and> in_dict inner (writes_of sv key) then sv
        else sv\<lparr>sv_writes := dict_set key (dict_set inner (task_id, c, sd_dumps sd v, task_path) (writes_of sv key))
                               (sv_writes sv)\<rparr>)"

definition mem_put_writes ::
  "'b serde \<Rightarrow> config \<Rightarrow> chan_write list \<Rightarrow> string \<Rightarrow> string \<Rightarrow> 'b saver \<Rightarrow> 'b saver res" where
  "mem_put_writes sd cfg writes task_id task_path sv =
     rbind (conf_index cfg ''thread_id'') (\<lambda>t.
     rbind (conf_index cfg ''checkpoint_id'') (\<lambda>i.
       let key = (t, conf_ns cfg, i)
       in Inr (fold (put_write sd (in_dict key (sv_writes sv)) key task_id task_path)
                 (zip (map int [0..<length writes]) writes) sv)))"

definition mem_delete_thread :: "string \<Rightarrow> 'b saver \<Rightarrow> 'b saver" where
  "mem_delete_thread t sv =
     \<lparr>sv_storage = AList.delete t (sv_storage sv),
      sv_writes = filter (\<lambda>(k, _). fst k \<noteq> t) (sv_writes sv),
      sv_blobs = filter (\<lambda>(k, _). fst k \<noteq> t) (sv_blobs sv)\<rparr>"

subsection \<open>\<open>get_delta_channel_history\<close>\<close>

partial_function (option) parent_chain ::
  "(string, 'b saved) dict \<Rightarrow> string option \<Rightarrow> string list option" where
  "parent_chain cps current =
     (case current of
        None \<Rightarrow> Some []
      | Some i \<Rightarrow> (case dict_get cps i of
            None \<Rightarrow> Some []
          | Some entry \<Rightarrow> Option.bind (parent_chain cps (snd (snd entry))) (\<lambda>is. Some (i # is))))"

definition blob_values ::
  "'b serde \<Rightarrow> 'b saver \<Rightarrow> string \<Rightarrow> string \<Rightarrow> versions \<Rightarrow> string list \<Rightarrow> (string, val) dict" where
  "blob_values sd sv t ns versions chs = fold (\<lambda>ch d.
     case Option.bind (dict_get versions ch) (load_blob sd sv t ns ch) of None \<Rightarrow> d | Some v \<Rightarrow> dict_set ch v d) chs []"

text \<open>Whether the value stored with a checkpoint stands for its pending writes too.\<close>

fun subsumes_writes :: "val option \<Rightarrow> bool" where
  "subsumes_writes None = False"
| "subsumes_writes (Some VNone) = False"
| "subsumes_writes (Some (VSnapshot v)) = False"
| "subsumes_writes (Some v) = True"

definition mem_visit ::
  "'b serde \<Rightarrow> 'b saver \<Rightarrow> string \<Rightarrow> string \<Rightarrow> string \<Rightarrow> hist_state \<Rightarrow> hist_state" where
  "mem_visit sd sv t ns i st =
     (let values = (case dict_get (ns_storage sv t ns) i of
            None \<Rightarrow> []
          | Some entry \<Rightarrow> blob_values sd sv t ns (cp_channel_versions (sd_loads_checkpoint sd (fst entry))) (hs_remaining st));
          writes = load_writes sd (sort_key fst (writes_of sv (t, ns, i)))
      in take_seeds values
           (collect_writes (\<lambda>ch. \<not> subsumes_writes (dict_get values ch)) writes st))"

fun mem_walk :: "'b serde \<Rightarrow> 'b saver \<Rightarrow> string \<Rightarrow> string \<Rightarrow> string list \<Rightarrow> hist_state \<Rightarrow> hist_state" where
  "mem_walk sd sv t ns [] st = st"
| "mem_walk sd sv t ns (i # is) st =
     (if hs_remaining st = [] then st else mem_walk sd sv t ns is (mem_visit sd sv t ns i st))"

text \<open>The target is looked up under \<open>checkpoint_id\<close>, the empty string by default; an id that is
  \<open>None\<close> is under no key. The outer option is for the loop that may not return.\<close>

definition mem_target :: "config \<Rightarrow> (string, 'b saved) dict \<Rightarrow> 'b saved option" where
  "mem_target cfg cps = (case dict_get (cfg_configurable cfg) ''checkpoint_id'' of
       None \<Rightarrow> dict_get cps []
     | Some (CStr i) \<Rightarrow> dict_get cps i
     | Some _ \<Rightarrow> None)"

definition mem_delta_channel_history ::
  "'b serde \<Rightarrow> config \<Rightarrow> string list \<Rightarrow> 'b saver \<Rightarrow> (string, history) dict res option" where
  "mem_delta_channel_history sd cfg chans sv =
     (if chans = [] then Some (Inr [])
      else case conf_index cfg ''thread_id'' of
        Inl e \<Rightarrow> Some (Inl e)
      | Inr t \<Rightarrow>
          let ns = conf_ns cfg; cps = ns_storage sv t ns
          in map_option (\<lambda>chain. Inr (hist_result chans (mem_walk sd sv t ns chain (hist_init chans))))
               (parent_chain cps (case mem_target cfg cps of Some (_, _, parent) \<Rightarrow> parent | None \<Rightarrow> None)))"

section \<open>Properties\<close>

subsection \<open>Reading changes nothing that can be read\<close>

lemma ns_storage_set:
  "ns_storage (set_ns_storage t ns cps sv) t' ns' = (if t' = t \<and> ns' = ns then cps else ns_storage sv t' ns')"
  by (simp add: ns_storage_def set_ns_storage_def)

lemma ns_storage_simps [simp]:
  "ns_storage (touch_ns t ns sv) t' ns' = ns_storage sv t' ns'"
  "ns_storage (touch_thread t sv) t' ns' = ns_storage sv t' ns'"
  "ns_storage (touch_writes key sv) t' ns' = ns_storage sv t' ns'"
  "ns_storage (sv\<lparr>sv_blobs := b\<rparr>) t' ns' = ns_storage sv t' ns'"
  "ns_storage (sv\<lparr>sv_writes := w\<rparr>) t' ns' = ns_storage sv t' ns'"
  by (auto simp: touch_ns_def ns_storage_set)
    (simp_all add: ns_storage_def touch_thread_def touch_writes_def)

lemma writes_of_simps [simp]:
  "writes_of (set_ns_storage t ns cps sv) key = writes_of sv key"
  "writes_of (touch_ns t ns sv) key = writes_of sv key"
  "writes_of (touch_thread t sv) key = writes_of sv key"
  "writes_of (touch_writes key' sv) key = writes_of sv key"
  "writes_of (sv\<lparr>sv_blobs := b\<rparr>) key = writes_of sv key"
  by (simp_all add: writes_of_def set_ns_storage_def touch_ns_def touch_thread_def touch_writes_def)

lemma sv_blobs_simps [simp]:
  "sv_blobs (set_ns_storage t ns cps sv) = sv_blobs sv"
  "sv_blobs (touch_ns t ns sv) = sv_blobs sv"
  "sv_blobs (touch_thread t sv) = sv_blobs sv"
  "sv_blobs (touch_writes key sv) = sv_blobs sv"
  by (simp_all add: set_ns_storage_def touch_ns_def touch_thread_def touch_writes_def)

text \<open>Two states that answer every read alike.\<close>

definition same_data :: "'b saver \<Rightarrow> 'b saver \<Rightarrow> bool" where
  "same_data a b \<longleftrightarrow> ns_storage a = ns_storage b \<and> writes_of a = writes_of b \<and> sv_blobs a = sv_blobs b"

lemma load_blob_cong: "sv_blobs a = sv_blobs b \<Longrightarrow> load_blob sd a t ns k ver = load_blob sd b t ns k ver"
  by (simp add: load_blob_def)

lemma load_blobs_cong: "sv_blobs a = sv_blobs b \<Longrightarrow> load_blobs sd a t ns vers = load_blobs sd b t ns vers"
  by (simp add: load_blobs_def load_blob_def)

lemma mem_tuple_cong: "same_data a b \<Longrightarrow> mem_tuple sd a cfg t ns i e = mem_tuple sd b cfg t ns i e"
  by (cases e) (simp add: mem_tuple_def same_data_def Let_def load_blobs_cong [of a b])

text \<open>The tuple at a configuration with an id, as a function of the state.\<close>

definition lookup_tuple :: "'b serde \<Rightarrow> 'b saver \<Rightarrow> config \<Rightarrow> checkpoint_tuple option" where
  "lookup_tuple sd sv cfg = (case mem_get_tuple sd cfg sv of Inr (tup, _) \<Rightarrow> tup | Inl _ \<Rightarrow> None)"

lemma mem_get_tuple_id:
  assumes "conf_index cfg ''thread_id'' = Inr t" "get_checkpoint_id cfg = Some i" "i \<noteq> []"
  shows "\<exists>sv'. same_data sv' sv \<and> mem_get_tuple sd cfg sv =
    Inr (map_option (mem_tuple sd sv cfg t (conf_ns cfg) i) (dict_get (ns_storage sv t (conf_ns cfg)) i), sv')"
proof -
  have t: "same_data (touch_ns t ns sv) sv" "same_data (touch_writes key (touch_ns t ns sv)) sv" for ns key
    by (auto simp: same_data_def fun_eq_iff)
  show ?thesis
    using assms t mem_tuple_cong [OF t(1)]
    by (cases i; cases "dict_get (ns_storage sv t (conf_ns cfg)) i") (auto simp: mem_get_tuple_def Let_def)
qed

lemma lookup_tuple_id:
  assumes "conf_index cfg ''thread_id'' = Inr t" "get_checkpoint_id cfg = Some i" "i \<noteq> []"
  shows "lookup_tuple sd sv cfg =
    map_option (mem_tuple sd sv cfg t (conf_ns cfg) i) (dict_get (ns_storage sv t (conf_ns cfg)) i)"
  using mem_get_tuple_id [OF assms, of sv sd] by (auto simp: lookup_tuple_def)

subsection \<open>Blobs\<close>

lemma load_blobs_get:
  assumes "wf_dict vers"
  shows "dict_get (load_blobs sd sv t ns vers) k = Option.bind (dict_get vers k) (load_blob sd sv t ns k)"
proof -
  have "dict_get (fold (\<lambda>(k, ver) result. case load_blob sd sv t ns k ver of None \<Rightarrow> result
      | Some v \<Rightarrow> dict_set k v result) vers d) k =
    (case Option.bind (dict_get vers k) (load_blob sd sv t ns k) of None \<Rightarrow> dict_get d k | Some v \<Rightarrow> Some v)" for d
    using assms
  proof (induction vers arbitrary: d)
    case (Cons p vers)
    obtain a ver where p: "p = (a, ver)" by (cases p)
    have a: "a = k \<Longrightarrow> dict_get vers k = None" using Cons.prems p by (auto simp: map_of_eq_None_iff)
    show ?case
      using Cons.IH [of "case load_blob sd sv t ns a ver of None \<Rightarrow> d | Some v \<Rightarrow> dict_set a v d"] Cons.prems a
      by (auto simp: p split: option.splits)
  qed simp
  from this [of "[]"] show ?thesis by (simp add: load_blobs_def split: option.splits)
qed

lemma put_blobs_get:
  assumes "wf_dict nv"
  shows "dict_get (sv_blobs (fold (put_blob sd t ns values) nv sv)) (t', ns', k, ver) =
    (if t' = t \<and> ns' = ns \<and> dict_get nv k = Some ver
     then Some (case dict_get values k of Some v \<Rightarrow> sd_dumps sd v | None \<Rightarrow> (''empty'', sd_no_bytes sd))
     else dict_get (sv_blobs sv) (t', ns', k, ver))"
  using assms
proof (induction nv arbitrary: sv)
  case (Cons p nv)
  obtain a w where p: "p = (a, w)" by (cases p)
  have a: "a = k \<Longrightarrow> dict_get nv k = None" using Cons.prems p by (auto simp: map_of_eq_None_iff)
  show ?case
    using Cons.IH [of "put_blob sd t ns values p sv"] Cons.prems a by (auto simp: p put_blob_def)
qed simp

lemma put_blobs_keep [simp]:
  "ns_storage (fold (put_blob sd t ns values) nv sv) = ns_storage sv"
  "writes_of (fold (put_blob sd t ns values) nv sv) = writes_of sv"
proof -
  have "ns_storage (fold (put_blob sd t ns values) nv sv) t' ns' = ns_storage sv t' ns'"
    "writes_of (fold (put_blob sd t ns values) nv sv) key = writes_of sv key" for t' ns' key
    by (induction nv arbitrary: sv) (auto simp: put_blob_def)
  then show "ns_storage (fold (put_blob sd t ns values) nv sv) = ns_storage sv"
    "writes_of (fold (put_blob sd t ns values) nv sv) = writes_of sv" by (auto intro!: ext)
qed

lemma load_put_blob:
  assumes "serde_ok sd" "wf_dict nv"
  shows "load_blob sd (fold (put_blob sd t ns values) nv sv) t' ns' k ver =
    (if t' = t \<and> ns' = ns \<and> dict_get nv k = Some ver then dict_get values k else load_blob sd sv t' ns' k ver)"
  using assms by (auto simp: load_blob_def put_blobs_get serde_ok_def split: option.splits)

subsection \<open>\<open>put\<close>\<close>

lemma mem_put_Inr:
  assumes "serde_ok sd" "mem_put sd cfg cp md nv sv = Inr (cfg', sv')" "wf_dict nv"
  obtains t ns where "conf_index cfg ''thread_id'' = Inr t" "conf_index cfg ''checkpoint_ns'' = Inr ns"
    "cfg' = saver_config t ns (cp_id cp)"
    "\<And>t' ns'. ns_storage sv' t' ns' = (if t' = t \<and> ns' = ns then dict_set (cp_id cp)
        (sd_dumps_checkpoint sd (cp\<lparr>cp_channel_values := []\<rparr>),
         sd_dumps_metadata sd (get_checkpoint_metadata cfg md), get_checkpoint_id cfg) (ns_storage sv t ns)
      else ns_storage sv t' ns')"
    "writes_of sv' = writes_of sv"
    "\<And>t' ns' k ver. load_blob sd sv' t' ns' k ver =
      (if t' = t \<and> ns' = ns \<and> dict_get nv k = Some ver then dict_get (cp_channel_values cp) k
       else load_blob sd sv t' ns' k ver)"
proof -
  from assms(2) obtain t ns where t: "conf_index cfg ''thread_id'' = Inr t" "conf_index cfg ''checkpoint_ns'' = Inr ns"
    "cfg' = saver_config t ns (cp_id cp)"
    and sv': "sv' = set_ns_storage t ns (dict_set (cp_id cp) (sd_dumps_checkpoint sd (cp\<lparr>cp_channel_values := []\<rparr>),
         sd_dumps_metadata sd (get_checkpoint_metadata cfg md), get_checkpoint_id cfg)
           (ns_storage (fold (put_blob sd t ns (cp_channel_values cp)) nv sv) t ns))
         (fold (put_blob sd t ns (cp_channel_values cp)) nv sv)"
    by (auto simp: mem_put_def rbind_Inr_iff Let_def)
  show thesis
  proof (rule that [OF t])
    show "writes_of sv' = writes_of sv" by (rule ext) (simp add: sv')
    show "load_blob sd sv' t' ns' k ver =
      (if t' = t \<and> ns' = ns \<and> dict_get nv k = Some ver then dict_get (cp_channel_values cp) k
       else load_blob sd sv t' ns' k ver)" for t' ns' k ver
      using load_put_blob [OF assms(1,3), of t ns "cp_channel_values cp" sv t' ns' k ver]
      by (subst load_blob_cong [of sv' "fold (put_blob sd t ns (cp_channel_values cp)) nv sv"]) (simp_all add: sv')
  qed (simp add: sv' ns_storage_set)
qed

lemma put_then_get:
  assumes "serde_ok sd" and "mem_put sd cfg cp md nv sv = Inr (cfg', sv')"
    and "wf_dict nv" "wf_dict (cp_channel_versions cp)" "cp_id cp \<noteq> []"
    and "conf_index cfg ''thread_id'' = Inr t" "conf_index cfg ''checkpoint_ns'' = Inr ns"
    and "\<And>k ver. dict_get nv k = Some ver \<Longrightarrow> dict_get (cp_channel_versions cp) k = Some ver"
    and "\<And>k ver. dict_get (cp_channel_versions cp) k = Some ver \<Longrightarrow> dict_get nv k = None \<Longrightarrow>
      load_blob sd sv t ns k ver = dict_get (cp_channel_values cp) k"
  shows "\<exists>values sv''. mem_get_tuple sd cfg' sv' = Inr (Some
      \<lparr>ct_config = saver_config t ns (cp_id cp), ct_checkpoint = cp\<lparr>cp_channel_values := values\<rparr>,
       ct_metadata = get_checkpoint_metadata cfg md,
       ct_parent_config = (case get_checkpoint_id cfg of Some (c # p) \<Rightarrow> Some (saver_config t ns (c # p)) | _ \<Rightarrow> None),
       ct_pending_writes = load_writes sd (writes_of sv (t, ns, cp_id cp))\<rparr>, sv'')
    \<and> (\<forall>k. dict_get values k =
          (if in_dict k (cp_channel_versions cp) then dict_get (cp_channel_values cp) k else None))"
proof (rule mem_put_Inr [OF assms(1-3)])
  fix t' ns'
  assume put: "conf_index cfg ''thread_id'' = Inr t'" "conf_index cfg ''checkpoint_ns'' = Inr ns'"
    "cfg' = saver_config t' ns' (cp_id cp)"
    "\<And>t'' ns''. ns_storage sv' t'' ns'' = (if t'' = t' \<and> ns'' = ns' then dict_set (cp_id cp)
        (sd_dumps_checkpoint sd (cp\<lparr>cp_channel_values := []\<rparr>),
         sd_dumps_metadata sd (get_checkpoint_metadata cfg md), get_checkpoint_id cfg) (ns_storage sv t' ns')
      else ns_storage sv t'' ns'')"
    "writes_of sv' = writes_of sv"
    "\<And>t'' ns'' k ver. load_blob sd sv' t'' ns'' k ver =
      (if t'' = t' \<and> ns'' = ns' \<and> dict_get nv k = Some ver then dict_get (cp_channel_values cp) k
       else load_blob sd sv t'' ns'' k ver)"
  have t: "t' = t" "ns' = ns" using put(1,2) assms(6,7) by auto
  let ?vals = "load_blobs sd sv' t ns (cp_channel_versions cp)"
  have "dict_get ?vals k =
      (if in_dict k (cp_channel_versions cp) then dict_get (cp_channel_values cp) k else None)" for k
    using assms(8,9) [of k] by (cases "dict_get nv k") (auto simp: load_blobs_get [OF assms(4)] put(6) t)
  moreover obtain sv'' where "mem_get_tuple sd cfg' sv' =
      Inr (map_option (mem_tuple sd sv' cfg' t ns (cp_id cp)) (dict_get (ns_storage sv' t ns) (cp_id cp)), sv'')"
    using mem_get_tuple_id [of cfg' t "cp_id cp" sv' sd] put(3) assms(5) t by auto
  ultimately show ?thesis
    using assms(1) by (intro exI [of _ ?vals] exI [of _ sv''])
      (auto simp: put(3-5) t mem_tuple_def serde_ok_def Let_def split: option.splits list.splits)
qed

text \<open>
  C20: A checkpoint that was put is read back: the same checkpoint with the same value for every
  channel that has a version, the metadata as completed by the configuration, the checkpoint id of
  the configuration as its parent, and the writes that were stored for it. The versions not in
  \<open>new_versions\<close> must have been stored with their values before, which is what the loop arranges.
\<close>

theorem put_get_tuple:
  assumes "serde_ok sd" and "mem_put sd cfg cp md nv sv = Inr (cfg', sv')"
    and "wf_dict nv" "wf_dict (cp_channel_versions cp)" "cp_id cp \<noteq> []"
    and "conf_index cfg ''thread_id'' = Inr t" "conf_index cfg ''checkpoint_ns'' = Inr ns"
    and "\<And>k ver. dict_get nv k = Some ver \<Longrightarrow> dict_get (cp_channel_versions cp) k = Some ver"
    and "\<And>k ver. dict_get (cp_channel_versions cp) k = Some ver \<Longrightarrow> dict_get nv k = None \<Longrightarrow>
      load_blob sd sv t ns k ver = dict_get (cp_channel_values cp) k"
  shows "\<exists>values sv''. mem_get_tuple sd cfg' sv' = Inr (Some
      \<lparr>ct_config = saver_config t ns (cp_id cp), ct_checkpoint = cp\<lparr>cp_channel_values := values\<rparr>,
       ct_metadata = get_checkpoint_metadata cfg md,
       ct_parent_config = (case get_checkpoint_id cfg of Some (c # p) \<Rightarrow> Some (saver_config t ns (c # p)) | _ \<Rightarrow> None),
       ct_pending_writes = load_writes sd (writes_of sv (t, ns, cp_id cp))\<rparr>, sv'')
    \<and> (\<forall>k. dict_get values k =
          (if in_dict k (cp_channel_versions cp) then dict_get (cp_channel_values cp) k else None))"
  by (rule put_then_get [OF assms])

text \<open>A serializer over an unspecified type of bytes, for the examples.\<close>

datatype ex_bytes = BVal val | BCheckpoint checkpoint | BMetadata metadata | BNone

definition ex_serde :: "ex_bytes serde" where
  "ex_serde = \<lparr>sd_dumps = (\<lambda>v. (''msgpack'', BVal v)),
     sd_loads = (\<lambda>(_, b). case b of BVal v \<Rightarrow> v | _ \<Rightarrow> VNone),
     sd_dumps_checkpoint = (\<lambda>c. (''msgpack'', BCheckpoint c)),
     sd_loads_checkpoint = (\<lambda>(_, b). case b of BCheckpoint c \<Rightarrow> c | _ \<Rightarrow> empty_checkpoint [] []),
     sd_dumps_metadata = (\<lambda>m. (''msgpack'', BMetadata m)),
     sd_loads_metadata = (\<lambda>(_, b). case b of BMetadata m \<Rightarrow> m | _ \<Rightarrow> []),
     sd_no_bytes = BNone\<rparr>"

lemma ex_serde_ok: "serde_ok ex_serde"
  by (simp add: serde_ok_def ex_serde_def)

definition ex_saved_checkpoint :: "string \<Rightarrow> (string, val) dict \<Rightarrow> versions \<Rightarrow> checkpoint" where
  "ex_saved_checkpoint i values versions = (empty_checkpoint i ''t'')\<lparr>cp_channel_values := values, cp_channel_versions := versions\<rparr>"

definition ex_first :: "ex_bytes saver" where
  "ex_first = snd (projr (mem_put ex_serde (saver_config ''1'' [] [])
     (ex_saved_checkpoint ''a'' [(''x'', VInt 1), (''y'', VInt 2)] [(''x'', IVer 1), (''y'', IVer 1), (''z'', IVer 1)])
     [] [(''x'', IVer 1), (''y'', IVer 1), (''z'', IVer 1)] saver_init))"

text \<open>The second checkpoint stores the new value of \<open>x\<close>, and reads the old one of \<open>y\<close>.\<close>

theorem put_get_tuple_witness:
  "\<exists>cfg' sv' values sv''. mem_put ex_serde (saver_config ''1'' [] ''a'')
      (ex_saved_checkpoint ''b'' [(''x'', VInt 5), (''y'', VInt 2)] [(''x'', IVer 2), (''y'', IVer 1), (''z'', IVer 1)])
      [] [(''x'', IVer 2)] ex_first = Inr (cfg', sv')
    \<and> mem_get_tuple ex_serde cfg' sv' = Inr (Some
      \<lparr>ct_config = saver_config ''1'' [] ''b'',
       ct_checkpoint = ex_saved_checkpoint ''b'' values [(''x'', IVer 2), (''y'', IVer 1), (''z'', IVer 1)],
       ct_metadata = [], ct_parent_config = Some (saver_config ''1'' [] ''a''), ct_pending_writes = []\<rparr>, sv'')
    \<and> dict_get values ''x'' = Some (VInt 5) \<and> dict_get values ''y'' = Some (VInt 2) \<and> dict_get values ''z'' = None"
proof -
  let ?vers = "[(''x'', IVer 2), (''y'', IVer 1), (''z'', IVer 1)]"
  let ?cp = "ex_saved_checkpoint ''b'' [(''x'', VInt 5), (''y'', VInt 2)] ?vers"
  let ?cfg = "saver_config ''1'' [] ''a''"
  have "\<exists>r. mem_put ex_serde ?cfg ?cp [] [(''x'', IVer 2)] ex_first = Inr r"
    by (simp add: mem_put_def Let_def)
  then obtain cfg' sv' where put: "mem_put ex_serde ?cfg ?cp [] [(''x'', IVer 2)] ex_first = Inr (cfg', sv')"
    by auto
  have versions: "cp_channel_versions ?cp = ?vers" "cp_channel_values ?cp = [(''x'', VInt 5), (''y'', VInt 2)]"
    "cp_id ?cp = ''b''" by (simp_all add: ex_saved_checkpoint_def empty_checkpoint_def)
  have old: "load_blob ex_serde ex_first ''1'' [] ''y'' (IVer 1) = Some (VInt 2)"
    "load_blob ex_serde ex_first ''1'' [] ''z'' (IVer 1) = None"
    by code_simp+
  have writes: "load_writes ex_serde (writes_of ex_first (''1'', [], ''b'')) = []" by code_simp
  have md: "get_checkpoint_metadata ?cfg [] = []" by code_simp
  have "\<exists>values sv''. mem_get_tuple ex_serde cfg' sv' = Inr (Some
      \<lparr>ct_config = saver_config ''1'' [] (cp_id ?cp), ct_checkpoint = ?cp\<lparr>cp_channel_values := values\<rparr>,
       ct_metadata = get_checkpoint_metadata ?cfg [],
       ct_parent_config = (case get_checkpoint_id ?cfg of Some (c # p) \<Rightarrow> Some (saver_config ''1'' [] (c # p)) | _ \<Rightarrow> None),
       ct_pending_writes = load_writes ex_serde (writes_of ex_first (''1'', [], cp_id ?cp))\<rparr>, sv'')
    \<and> (\<forall>k. dict_get values k =
          (if in_dict k (cp_channel_versions ?cp) then dict_get (cp_channel_values ?cp) k else None))"
    by (rule put_get_tuple [OF ex_serde_ok put]) (use old in \<open>auto simp: versions split: if_splits\<close>)
  then obtain vals sv'' where get: "mem_get_tuple ex_serde cfg' sv' = Inr (Some
      \<lparr>ct_config = saver_config ''1'' [] ''b'', ct_checkpoint = ?cp\<lparr>cp_channel_values := vals\<rparr>,
       ct_metadata = [], ct_parent_config = Some ?cfg, ct_pending_writes = []\<rparr>, sv'')"
    "\<forall>k. dict_get vals k =
          (if in_dict k (cp_channel_versions ?cp) then dict_get (cp_channel_values ?cp) k else None)"
    by (auto simp: versions writes md)
  have "?cp\<lparr>cp_channel_values := vals\<rparr> = ex_saved_checkpoint ''b'' vals ?vers"
    by (simp add: ex_saved_checkpoint_def)
  then show ?thesis using put get by (auto simp: versions)
qed

subsection \<open>Other checkpoints\<close>

lemma load_blobs_agree:
  assumes "\<And>k ver. (k, ver) \<in> set vers \<Longrightarrow> load_blob sd a t ns k ver = load_blob sd b t ns k ver"
  shows "load_blobs sd a t ns vers = load_blobs sd b t ns vers"
  unfolding load_blobs_def by (rule fold_cong) (use assms in auto)

text \<open>
  Putting a checkpoint leaves every other checkpoint as it was, in its own and in every other
  thread and namespace, as long as each new version of a channel is either one the other
  checkpoint does not have, or was stored with the same value before. Versions are drawn anew, so
  histories that fork from one checkpoint do not overwrite each other's values.
\<close>

theorem put_keeps_checkpoints:
  assumes "serde_ok sd" and "mem_put sd cfg cp md nv sv = Inr (cfg', sv')" and "wf_dict nv"
    and "conf_index cfg ''thread_id'' = Inr t" "conf_index cfg ''checkpoint_ns'' = Inr ns"
    and "(t', ns', i) \<noteq> (t, ns, cp_id cp)" "i \<noteq> []"
    and "\<And>entry k ver. (t', ns') = (t, ns) \<Longrightarrow> dict_get (ns_storage sv t ns) i = Some entry \<Longrightarrow>
      (k, ver) \<in> set (cp_channel_versions (sd_loads_checkpoint sd (fst entry))) \<Longrightarrow>
      dict_get nv k = Some ver \<Longrightarrow> load_blob sd sv t ns k ver = dict_get (cp_channel_values cp) k"
  shows "lookup_tuple sd sv' (saver_config t' ns' i) = lookup_tuple sd sv (saver_config t' ns' i)"
proof (rule mem_put_Inr [OF assms(1-3)])
  fix u ms
  assume put: "conf_index cfg ''thread_id'' = Inr u" "conf_index cfg ''checkpoint_ns'' = Inr ms"
    "\<And>t'' ns''. ns_storage sv' t'' ns'' = (if t'' = u \<and> ns'' = ms then dict_set (cp_id cp)
        (sd_dumps_checkpoint sd (cp\<lparr>cp_channel_values := []\<rparr>),
         sd_dumps_metadata sd (get_checkpoint_metadata cfg md), get_checkpoint_id cfg) (ns_storage sv u ms)
      else ns_storage sv t'' ns'')"
    "writes_of sv' = writes_of sv"
    "\<And>t'' ns'' k ver. load_blob sd sv' t'' ns'' k ver =
      (if t'' = u \<and> ns'' = ms \<and> dict_get nv k = Some ver then dict_get (cp_channel_values cp) k
       else load_blob sd sv t'' ns'' k ver)"
  have u: "u = t" "ms = ns" using put(1,2) assms(4,5) by auto
  have entry: "dict_get (ns_storage sv' t' ns') i = dict_get (ns_storage sv t' ns') i"
    using assms(6) by (auto simp: put(3) u)
  have "load_blobs sd sv' t' ns' vers = load_blobs sd sv t' ns' vers"
    if "dict_get (ns_storage sv t' ns') i = Some e"
      "vers = cp_channel_versions (sd_loads_checkpoint sd (fst e))" for e vers
    by (rule load_blobs_agree) (use assms(8) [of e] that in \<open>auto simp: put(5) u simp del: split_paired_All\<close>)
  then show ?thesis
    using entry assms(7)
    by (cases "dict_get (ns_storage sv t' ns') i")
      (auto simp: lookup_tuple_id [of _ t' i] mem_tuple_def Let_def put(4) split: prod.splits)
qed

text \<open>A new value of \<open>x\<close> under its new version leaves the first checkpoint alone.\<close>

theorem put_keeps_checkpoints_witness:
  "\<exists>cfg' sv'. mem_put ex_serde (saver_config ''1'' [] ''a'')
      (ex_saved_checkpoint ''b'' [(''x'', VInt 5)] [(''x'', IVer 2)]) [] [(''x'', IVer 2)] ex_first = Inr (cfg', sv')
    \<and> lookup_tuple ex_serde sv' (saver_config ''1'' [] ''a'') = lookup_tuple ex_serde ex_first (saver_config ''1'' [] ''a'')"
proof -
  let ?cp = "ex_saved_checkpoint ''b'' [(''x'', VInt 5)] [(''x'', IVer 2)]"
  have "\<exists>r. mem_put ex_serde (saver_config ''1'' [] ''a'') ?cp [] [(''x'', IVer 2)] ex_first = Inr r"
    by (simp add: mem_put_def Let_def)
  then obtain cfg' sv' where put: "mem_put ex_serde (saver_config ''1'' [] ''a'') ?cp [] [(''x'', IVer 2)] ex_first = Inr (cfg', sv')"
    by auto
  have id: "cp_id ?cp = ''b''" by (simp add: ex_saved_checkpoint_def empty_checkpoint_def)
  have vers: "map_option (\<lambda>e. cp_channel_versions (sd_loads_checkpoint ex_serde (fst e))) (dict_get (ns_storage ex_first ''1'' []) ''a'')
      = Some [(''x'', IVer 1), (''y'', IVer 1), (''z'', IVer 1)]" by code_simp
  have "lookup_tuple ex_serde sv' (saver_config ''1'' [] ''a'') = lookup_tuple ex_serde ex_first (saver_config ''1'' [] ''a'')"
    by (rule put_keeps_checkpoints [OF ex_serde_ok put, of "''1''" "[]"])
      (use vers in \<open>auto simp: id split: if_splits\<close>)
  then show ?thesis using put by auto
qed

subsection \<open>\<open>put_writes\<close>\<close>

definition inner_key :: "string \<Rightarrow> int \<times> chan_write \<Rightarrow> write_key" where
  "inner_key task_id = (\<lambda>(idx, c, v). (task_id, dict_get_or WRITES_IDX_MAP c idx))"

definition inner_entry :: "'b serde \<Rightarrow> string \<Rightarrow> string \<Rightarrow> int \<times> chan_write \<Rightarrow> 'b stored_write" where
  "inner_entry sd task_id task_path = (\<lambda>(idx, c, v). (task_id, c, sd_dumps sd v, task_path))"

definition inner_put :: "'b serde \<Rightarrow> bool \<Rightarrow> string \<Rightarrow> string \<Rightarrow> int \<times> chan_write
    \<Rightarrow> (write_key, 'b stored_write) dict \<Rightarrow> (write_key, 'b stored_write) dict" where
  "inner_put sd existed task_id task_path x ws =
     (if snd (inner_key task_id x) \<ge> 0 \<and> existed \<and> in_dict (inner_key task_id x) ws then ws
      else dict_set (inner_key task_id x) (inner_entry sd task_id task_path x) ws)"

lemma put_write_inner:
  "put_write sd existed key task_id task_path x sv =
     (if snd (inner_key task_id x) \<ge> 0 \<and> existed \<and> in_dict (inner_key task_id x) (writes_of sv key) then sv
      else sv\<lparr>sv_writes := dict_set key (inner_put sd existed task_id task_path x (writes_of sv key)) (sv_writes sv)\<rparr>)"
  by (cases x) (auto simp: put_write_def inner_key_def inner_entry_def inner_put_def Let_def)

lemma writes_of_set [simp]:
  "writes_of (sv\<lparr>sv_writes := dict_set key ws d\<rparr>) key' = (if key' = key then ws else dict_get_or d key' [])"
  by (simp add: writes_of_def)

lemma put_writes_fold:
  assumes "existed = in_dict key (sv_writes sv0)" "existed \<longrightarrow> in_dict key (sv_writes sv)" "xs \<noteq> [] \<or> existed"
  shows "fold (put_write sd existed key task_id task_path) xs sv =
    sv\<lparr>sv_writes := dict_set key (fold (inner_put sd existed task_id task_path) xs (writes_of sv key)) (sv_writes sv)\<rparr>"
proof -
  have same: "in_dict key (sv_writes sv) \<Longrightarrow> sv\<lparr>sv_writes := dict_set key (writes_of sv key) (sv_writes sv)\<rparr> = sv" for sv
    by (auto simp: writes_of_def dict_get_or_def dict_set_same)
  have one: "put_write sd existed key task_id task_path x sv =
      sv\<lparr>sv_writes := dict_set key (inner_put sd existed task_id task_path x (writes_of sv key)) (sv_writes sv)\<rparr>"
    if "existed \<longrightarrow> in_dict key (sv_writes sv)" for x sv
    using that same [of sv, symmetric] unfolding put_write_inner inner_put_def by (cases existed) simp_all
  have many: "fold (put_write sd existed key task_id task_path) xs sv =
    sv\<lparr>sv_writes := dict_set key (fold (inner_put sd existed task_id task_path) xs (writes_of sv key)) (sv_writes sv)\<rparr>"
    if "in_dict key (sv_writes sv)" for xs sv
    using that
  proof (induction xs arbitrary: sv)
    case Nil
    then show ?case unfolding fold_simps by (rule same [symmetric])
  next
    case (Cons x xs)
    show ?case using Cons.prems
      by (simp add: one Cons.IH dict_set_twice)
  qed
  show ?thesis
  proof (cases xs)
    case Nil
    then show ?thesis using assms(2,3) unfolding Nil fold_simps by (intro same [symmetric]) simp
  next
    case (Cons x ys)
    then show ?thesis using assms(2) by (simp add: one many dict_set_twice)
  qed
qed

lemma inner_put_get:
  "dict_get (inner_put sd e task_id task_path x ws) j =
    (if j = inner_key task_id x \<and> \<not> (snd j \<ge> 0 \<and> e \<and> in_dict j ws) then Some (inner_entry sd task_id task_path x)
     else dict_get ws j)"
  by (auto simp: inner_put_def)

lemma in_dict_set: "in_dict j (dict_set k v d) \<longleftrightarrow> j = k \<or> in_dict j d"
  by simp

lemma in_dict_inner_put:
  "in_dict j (inner_put sd e task_id task_path x ws) \<longleftrightarrow> j = inner_key task_id x \<or> in_dict j ws"
proof -
  have "in_dict j (if b \<and> in_dict k d then d else dict_set k v d) \<longleftrightarrow> j = k \<or> in_dict j d"
    for b k and v :: 'c and d :: "(write_key, 'c) dict" by auto
  from this [of "0 \<le> snd (inner_key task_id x) \<and> e" ws "inner_key task_id x" "inner_entry sd task_id task_path x"]
  show ?thesis unfolding inner_put_def conj_assoc .
qed

lemma inner_puts_in: "x \<in> set xs \<Longrightarrow> in_dict (inner_key task_id x) (fold (inner_put sd e task_id task_path) xs ws)"
proof (induction xs arbitrary: ws)
  case (Cons y xs)
  have keep: "in_dict j ws \<Longrightarrow> in_dict j (fold (inner_put sd e task_id task_path) ys ws)" for j ws ys
    by (induction ys arbitrary: ws) (simp_all add: in_dict_inner_put del: not_None_eq)
  show ?case
  proof (cases "x = y")
    case True
    have "in_dict (inner_key task_id y) (inner_put sd e task_id task_path y ws)"
      by (simp add: in_dict_inner_put del: not_None_eq)
    then show ?thesis using True keep by simp
  qed (use Cons in simp)
qed simp

lemma inner_puts_special:
  assumes "snd j < 0"
  shows "dict_get (fold (inner_put sd e task_id task_path) xs ws) j =
    (case find (\<lambda>x. inner_key task_id x = j) (rev xs) of None \<Rightarrow> dict_get ws j
     | Some x \<Rightarrow> Some (inner_entry sd task_id task_path x))"
proof (induction xs rule: rev_induct)
  case (snoc x xs)
  then show ?case using assms by (auto simp: inner_put_get)
qed simp

lemma inner_puts_regular:
  assumes "snd j \<ge> 0" "in_dict j ws"
  shows "dict_get (fold (inner_put sd True task_id task_path) xs ws) j = dict_get ws j"
  using assms(2) by (induction xs arbitrary: ws) (use assms(1) in \<open>auto simp: inner_put_get\<close>)

lemma inner_puts_keys:
  assumes "\<And>x. x \<in> set xs \<Longrightarrow> in_dict (inner_key task_id x) ws"
  shows "dict_keys (fold (inner_put sd e task_id task_path) xs ws) = dict_keys ws"
  using assms
proof (induction xs arbitrary: ws)
  case (Cons x xs)
  have "dict_keys (inner_put sd e task_id task_path x ws) = dict_keys ws"
    using Cons.prems [of x] by (auto simp: inner_put_def dict_keys_replace)
  moreover have "in_dict (inner_key task_id y) (inner_put sd e task_id task_path x ws)" if "y \<in> set xs" for y
    using Cons.prems [of y] that by (simp add: in_dict_inner_put del: not_None_eq)
  ultimately show ?case using Cons.IH [of "inner_put sd e task_id task_path x ws"] by simp
qed simp

lemma wf_inner_puts: "wf_dict ws \<Longrightarrow> wf_dict (fold (inner_put sd e task_id task_path) xs ws)"
  by (induction xs arbitrary: ws) (auto simp: inner_put_def distinct_update)

lemma inner_puts_again:
  assumes "wf_dict ws"
  shows "fold (inner_put sd True task_id task_path) xs (fold (inner_put sd e task_id task_path) xs ws)
    = fold (inner_put sd e task_id task_path) xs ws"
proof (rule dict_eqI)
  let ?ws1 = "fold (inner_put sd e task_id task_path) xs ws"
  show "dict_keys (fold (inner_put sd True task_id task_path) xs ?ws1) = dict_keys ?ws1"
    by (rule inner_puts_keys) (rule inner_puts_in)
  show "wf_dict ?ws1" by (rule wf_inner_puts [OF assms])
  fix j :: write_key
  have absent: "dict_get (fold (inner_put sd f task_id task_path) xs ws') j = dict_get ws' j"
    if "j \<notin> inner_key task_id ` set xs" for f ws'
    using that by (induction xs arbitrary: ws') (auto simp: inner_put_get)
  show "dict_get (fold (inner_put sd True task_id task_path) xs ?ws1) j = dict_get ?ws1 j"
  proof (cases "j \<in> inner_key task_id ` set xs")
    case True
    show ?thesis
    proof (cases "snd j < 0")
      case True': True
      then show ?thesis by (simp add: inner_puts_special split: option.splits)
    next
      case False
      have "in_dict j ?ws1" using True inner_puts_in by blast
      then show ?thesis using inner_puts_regular [of j ?ws1] False by simp
    qed
  qed (simp add: absent)
qed

lemma mem_put_writes_Inr:
  assumes "mem_put_writes sd cfg ws task_id task_path sv = Inr sv'"
  obtains t i where "conf_index cfg ''thread_id'' = Inr t" "conf_index cfg ''checkpoint_id'' = Inr i"
    "sv' = fold (put_write sd (in_dict (t, conf_ns cfg, i) (sv_writes sv)) (t, conf_ns cfg, i) task_id task_path)
       (zip (map int [0..<length ws]) ws) sv"
  using assms by (auto simp: mem_put_writes_def rbind_Inr_iff Let_def)

text \<open>
  Storing the writes of a task is idempotent: a second call with the same arguments, as a retry
  makes it, changes nothing. Regular writes that are there stay, the special ones (errors,
  interrupts, resume values) are overwritten with what they were.
\<close>

theorem put_writes_idempotent:
  assumes "mem_put_writes sd cfg ws task_id task_path sv = Inr sv'"
    and "\<And>key. wf_dict (writes_of sv key)"
  shows "mem_put_writes sd cfg ws task_id task_path sv' = Inr sv'"
proof (rule mem_put_writes_Inr [OF assms(1)])
  fix t i :: string
  let ?key = "(t, conf_ns cfg, i)" and ?xs = "zip (map int [0..<length ws]) ws"
  let ?put = "\<lambda>e. put_write sd e ?key task_id task_path" and ?in = "\<lambda>e. inner_put sd e task_id task_path"
  assume t: "conf_index cfg ''thread_id'' = Inr t" "conf_index cfg ''checkpoint_id'' = Inr i"
    and sv': "sv' = fold (?put (in_dict ?key (sv_writes sv))) ?xs sv"
  have "fold (?put (in_dict ?key (sv_writes sv'))) ?xs sv' = sv'"
  proof (cases "ws = []")
    case False
    then have ne: "?xs \<noteq> []" by (cases ws) (simp_all add: upt_conv_Cons del: upt_Suc)
    let ?ws1 = "fold (?in (in_dict ?key (sv_writes sv))) ?xs (writes_of sv ?key)"
    have one: "sv' = sv\<lparr>sv_writes := dict_set ?key ?ws1 (sv_writes sv)\<rparr>"
      unfolding sv' by (rule put_writes_fold [of _ sv]) (use ne in simp_all)
    have "fold (?put True) ?xs sv' = sv'\<lparr>sv_writes := dict_set ?key (fold (?in True) ?xs (writes_of sv' ?key)) (sv_writes sv')\<rparr>"
      by (rule put_writes_fold [of _ sv']) (use ne one in simp_all)
    also have "\<dots> = sv'"
      using inner_puts_again [OF assms(2), of sd task_id task_path ?xs _ ?key]
      by (simp add: one dict_set_twice)
    finally show ?thesis using one by simp
  qed simp
  then show ?thesis using t by (simp add: mem_put_writes_def Let_def)
qed

text \<open>Two writes, the second an error, put twice.\<close>

theorem put_writes_idempotent_witness:
  "\<exists>sv'. mem_put_writes ex_serde (saver_config ''1'' [] ''a'') [(''x'', VInt 7), (ERROR, VStr ''e'')] ''task'' [] ex_first = Inr sv'
    \<and> mem_put_writes ex_serde (saver_config ''1'' [] ''a'') [(''x'', VInt 7), (ERROR, VStr ''e'')] ''task'' [] sv' = Inr sv'
    \<and> load_writes ex_serde (writes_of sv' (''1'', [], ''a'')) = [(''task'', ''x'', VInt 7), (''task'', ERROR, VStr ''e'')]"
proof -
  let ?ws = "[(''x'', VInt 7), (ERROR, VStr ''e'')]"
  let ?sv = "projr (mem_put_writes ex_serde (saver_config ''1'' [] ''a'') ?ws ''task'' [] ex_first)"
  have put: "mem_put_writes ex_serde (saver_config ''1'' [] ''a'') ?ws ''task'' [] ex_first = Inr ?sv"
    by (simp add: mem_put_writes_def Let_def)
  have "sv_writes ex_first = []" by code_simp
  then have wf: "wf_dict (writes_of ex_first key)" for key by (simp add: writes_of_def)
  have loaded: "load_writes ex_serde (writes_of ?sv (''1'', [], ''a'')) = [(''task'', ''x'', VInt 7), (''task'', ERROR, VStr ''e'')]"
    by code_simp
  show ?thesis
    by (intro exI [of _ ?sv] conjI) (rule put, rule put_writes_idempotent [OF put wf], rule loaded)
qed

text \<open>
  The first regular write of a task under its index stays: a later call, with other values,
  does not change it.
\<close>

theorem first_write_stays:
  assumes "mem_put_writes sd cfg ws task_id task_path sv = Inr sv'"
    and "conf_index cfg ''thread_id'' = Inr t" "conf_index cfg ''checkpoint_id'' = Inr i"
    and "dict_get (writes_of sv (t, conf_ns cfg, i)) (task, idx) = Some w" "0 \<le> idx"
  shows "dict_get (writes_of sv' (t, conf_ns cfg, i)) (task, idx) = Some w"
proof (rule mem_put_writes_Inr [OF assms(1)])
  fix t' i'
  let ?key = "(t, conf_ns cfg, i)" and ?xs = "zip (map int [0..<length ws]) ws"
  assume "conf_index cfg ''thread_id'' = Inr t'" "conf_index cfg ''checkpoint_id'' = Inr i'"
    and sv': "sv' = fold (put_write sd (in_dict (t', conf_ns cfg, i') (sv_writes sv)) (t', conf_ns cfg, i') task_id task_path) ?xs sv"
  then have same: "t' = t" "i' = i" using assms(2,3) by auto
  have there: "in_dict ?key (sv_writes sv)"
    using assms(4) by (auto simp: writes_of_def dict_get_or_def split: option.splits)
  have "sv' = sv\<lparr>sv_writes := dict_set ?key (fold (inner_put sd True task_id task_path) ?xs (writes_of sv ?key)) (sv_writes sv)\<rparr>"
    unfolding sv' same using there put_writes_fold [of True sv ?key sv ?xs] by simp
  then show ?thesis
    using inner_puts_regular [of "(task, idx)" "writes_of sv ?key" sd task_id task_path ?xs] assms(4,5) by simp
qed

theorem first_write_stays_witness:
  "\<exists>sv sv'. mem_put_writes ex_serde (saver_config ''1'' [] ''a'') [(''x'', VInt 7)] ''task'' [] ex_first = Inr sv
    \<and> mem_put_writes ex_serde (saver_config ''1'' [] ''a'') [(''x'', VInt 8)] ''task'' [] sv = Inr sv'
    \<and> dict_get (writes_of sv' (''1'', [], ''a'')) (''task'', 0) = Some (''task'', ''x'', (''msgpack'', BVal (VInt 7)), [])"
proof -
  let ?sv = "projr (mem_put_writes ex_serde (saver_config ''1'' [] ''a'') [(''x'', VInt 7)] ''task'' [] ex_first)"
  let ?sv' = "projr (mem_put_writes ex_serde (saver_config ''1'' [] ''a'') [(''x'', VInt 8)] ''task'' [] ?sv)"
  have put: "mem_put_writes ex_serde (saver_config ''1'' [] ''a'') [(''x'', VInt 7)] ''task'' [] ex_first = Inr ?sv"
    by (simp add: mem_put_writes_def Let_def)
  have put': "mem_put_writes ex_serde (saver_config ''1'' [] ''a'') [(''x'', VInt 8)] ''task'' [] ?sv = Inr ?sv'"
    by (simp add: mem_put_writes_def Let_def)
  have "dict_get (writes_of ?sv (''1'', [], ''a'')) (''task'', 0) = Some (''task'', ''x'', (''msgpack'', BVal (VInt 7)), [])"
    by code_simp
  then have "dict_get (writes_of ?sv' (''1'', conf_ns (saver_config ''1'' [] ''a''), ''a'')) (''task'', 0) =
      Some (''task'', ''x'', (''msgpack'', BVal (VInt 7)), [])"
    by (intro first_write_stays [OF put']) simp_all
  then show ?thesis using put put' by auto
qed

subsection \<open>\<open>delete_thread\<close>\<close>

lemma dict_get_filter: "dict_get (filter (\<lambda>(k, _). P k) d) k = (if P k then dict_get d k else None)"
  by (induction d) auto

lemma delete_reads:
  "ns_storage (mem_delete_thread t sv) t' ns = (if t' = t then [] else ns_storage sv t' ns)"
  "writes_of (mem_delete_thread t sv) (t', ns, i) = (if t' = t then [] else writes_of sv (t', ns, i))"
  "load_blob sd (mem_delete_thread t sv) t' ns k ver = (if t' = t then None else load_blob sd sv t' ns k ver)"
  by (auto simp: ns_storage_def writes_of_def load_blob_def mem_delete_thread_def dict_get_or_def delete_conv' dict_get_filter)

text \<open>
  Deleting a thread removes all that can be read of it, with and without a checkpoint id and in
  every namespace, and nothing of the other threads.
\<close>

theorem delete_thread_exact:
  "lookup_tuple sd (mem_delete_thread t sv) cfg =
     (if conf_index cfg ''thread_id'' = Inr t then None else lookup_tuple sd sv cfg)"
proof (cases "conf_index cfg ''thread_id''")
  case (Inl e)
  then show ?thesis by (simp add: lookup_tuple_def mem_get_tuple_def)
next
  case (Inr u)
  have "load_blobs sd (mem_delete_thread t sv) u ns vers = load_blobs sd sv u ns vers" if "u \<noteq> t" for ns vers
    by (rule load_blobs_agree) (simp add: delete_reads that)
  moreover have "load_blobs sd (touch_ns u ns sv') u ns vers = load_blobs sd sv' u ns vers" for ns vers and sv' :: "'a saver"
    by (rule load_blobs_cong) simp
  ultimately show ?thesis
    by (simp add: lookup_tuple_def mem_get_tuple_def Inr Let_def delete_reads mem_tuple_def dict_index_def
        split: option.splits list.splits)
qed

subsection \<open>\<open>list\<close>\<close>

definition take_limit :: "int option \<Rightarrow> 'a list \<Rightarrow> 'a list" where
  "take_limit limit xs = (case limit of None \<Rightarrow> xs | Some n \<Rightarrow> take (nat n) xs)"

lemma same_data_simps [simp]:
  "same_data sv sv" "same_data (touch_writes key sv) sv" "same_data (touch_thread t sv) sv" "same_data (touch_ns t ns sv) sv"
  by (simp_all add: same_data_def fun_eq_iff)

lemma same_data_trans: "same_data a b \<Longrightarrow> same_data b c \<Longrightarrow> same_data a c"
  by (simp add: same_data_def)

lemma list_entries_spec:
  fixes sv0 :: "'b saver"
  assumes "same_data sv sv0"
  shows "\<exists>st' sv'. list_entries sd keeps t ns es (st, sv) = (st', sv') \<and> same_data sv' sv0
    \<and> ls_out st' = ls_out st @ map (\<lambda>(i, e). mem_tuple sd sv0 (saver_config t ns i) t ns i e)
        (take_limit (ls_limit st) (filter (\<lambda>(i, cp, md, parent). keeps i (sd_loads_metadata sd md)) es))"
  using assms
proof (induction es arbitrary: st sv)
  case Nil
  then show ?case by (simp add: take_limit_def split: option.splits)
next
  case (Cons e es)
  obtain i cp md parent where e: "e = (i, cp, md, parent)" by (cases e) auto
  show ?case
  proof (cases "keeps i (sd_loads_metadata sd md)")
    case False
    then show ?thesis using Cons.IH [OF Cons.prems, of st] by (simp add: e)
  next
    case True
    have next_sv: "same_data (touch_writes (t, ns, i) sv) sv0"
      by (rule same_data_trans [OF same_data_simps(2) Cons.prems])
    have tup: "mem_tuple sd sv c t ns i (cp, md, parent) = mem_tuple sd sv0 c t ns i (cp, md, parent)" for c
      by (rule mem_tuple_cong [OF Cons.prems])
    show ?thesis
    proof (cases "ls_limit st")
      case None
      then show ?thesis
        using Cons.IH [OF next_sv, of "\<lparr>ls_limit = None, ls_out = ls_out st @ [mem_tuple sd sv0 (saver_config t ns i) t ns i (cp, md, parent)]\<rparr>"]
        by (simp add: e True tup take_limit_def)
    next
      case (Some n)
      show ?thesis
      proof (cases "n \<le> 0")
        case True
        then show ?thesis using Some Cons.prems \<open>keeps i _\<close> by (simp add: e take_limit_def)
      next
        case False
        then have "nat n = Suc (nat (n - 1))" by simp
        then show ?thesis
          using Some False Cons.IH [OF next_sv, of "\<lparr>ls_limit = Some (n - 1), ls_out = ls_out st @ [mem_tuple sd sv0 (saver_config t ns i) t ns i (cp, md, parent)]\<rparr>"]
          by (simp add: e True tup take_limit_def)
      qed
    qed
  qed
qed

lemma fold_one_key:
  assumes "distinct ks" "\<And>k s. k \<noteq> k0 \<Longrightarrow> f k s = s"
  shows "fold f ks s = (if k0 \<in> set ks then f k0 s else s)"
  using assms(1)
proof (induction ks arbitrary: s)
  case (Cons k ks)
  then show ?case using assms(2) by (cases "k = k0") auto
qed simp

text \<open>
  Listing a namespace of a thread yields its checkpoints from the newest to the oldest: those
  before the given one, with the id of the configuration if it has one, whose metadata has all the
  entries of the filter, as many as the limit allows.
\<close>

theorem mem_list_newest_first:
  assumes "conf_index cfg ''thread_id'' = Inr t" "conf_str cfg ''checkpoint_ns'' = Some ns"
    and "wf_dict (dict_get_or (sv_storage sv) t [])"
  shows "\<exists>sv'. mem_list sd (Some cfg) query before limit sv = Inr
    (map (\<lambda>(i, e). mem_tuple sd sv (saver_config t ns i) t ns i e)
      (take_limit limit (filter (\<lambda>(i, cp, md, parent). list_keeps (Some cfg) before query i (sd_loads_metadata sd md))
        (rev (sort_key fst (ns_storage sv t ns))))), sv')"
proof -
  let ?sv = "touch_thread t sv" and ?keeps = "list_keeps (Some cfg) before query"
  let ?es = "rev (sort_key fst (ns_storage sv t ns))"
  let ?step = "\<lambda>ns' (st, sv). if ns' \<noteq> ns then (st, sv)
     else list_entries sd ?keeps t ns' (rev (sort_key fst (ns_storage sv t ns'))) (st, sv)"
  have keys: "dict_get_or (sv_storage ?sv) t [] = dict_get_or (sv_storage sv) t []" by (simp add: touch_thread_def)
  have thread: "list_thread sd (Some cfg) query before t (st, sv) =
      fold ?step (dict_keys (dict_get_or (sv_storage sv) t [])) (st, ?sv)" for st
    unfolding list_thread_def Let_def prod.case keys
    by (rule arg_cong2 [where f = "\<lambda>f s. fold f _ s"]) (auto simp: assms(2) fun_eq_iff)
  have one: "fold ?step (dict_keys (dict_get_or (sv_storage sv) t [])) s =
      (if ns \<in> set (dict_keys (dict_get_or (sv_storage sv) t [])) then ?step ns s else s)" for s
    by (rule fold_one_key [OF assms(3)]) auto
  let ?st = "\<lparr>ls_limit = limit, ls_out = []\<rparr>"
  obtain st' sv' where entries: "list_entries sd ?keeps t ns ?es (?st, ?sv) = (st', sv')"
    "ls_out st' = map (\<lambda>(i, e). mem_tuple sd sv (saver_config t ns i) t ns i e)
      (take_limit limit (filter (\<lambda>(i, cp, md, parent). ?keeps i (sd_loads_metadata sd md)) ?es))"
    using list_entries_spec [of ?sv sv sd ?keeps t ns ?es ?st] by auto
  show ?thesis
  proof (cases "ns \<in> set (dict_keys (dict_get_or (sv_storage sv) t []))")
    case True
    then show ?thesis using entries by (simp add: mem_list_def assms(1) thread one)
  next
    case False
    then have "dict_get (dict_get_or (sv_storage sv) t []) ns = None" by (simp add: map_of_eq_None_iff)
    then have "ns_storage sv t ns = []" by (simp add: ns_storage_def dict_get_or_def)
    then show ?thesis using False by (simp add: mem_list_def assms(1) thread one take_limit_def split: option.splits)
  qed
qed

text \<open>Two checkpoints, the newest of them listed.\<close>

definition ex_second :: "ex_bytes saver" where
  "ex_second = snd (projr (mem_put ex_serde (saver_config ''1'' [] ''a'')
     (ex_saved_checkpoint ''b'' [(''x'', VInt 5), (''y'', VInt 2)] [(''x'', IVer 2), (''y'', IVer 1), (''z'', IVer 1)])
     [] [(''x'', IVer 2)] ex_first))"

theorem mem_list_newest_first_witness:
  "\<exists>sv'. mem_list ex_serde (Some (saver_config ''1'' [] [])) [] None (Some 1) ex_second = Inr
    ([mem_tuple ex_serde ex_second (saver_config ''1'' [] ''b'') ''1'' [] ''b''
        (the (dict_get (ns_storage ex_second ''1'' []) ''b''))], sv')"
proof -
  let ?cfg = "saver_config ''1'' [] []"
  have keys: "conf_str ?cfg ''checkpoint_ns'' = Some []" by code_simp
  have wf: "wf_dict (dict_get_or (sv_storage ex_second) ''1'' [])" by code_simp
  have entries: "take_limit (Some 1) (filter (\<lambda>(i, cp, md, parent). list_keeps (Some ?cfg) None [] i (sd_loads_metadata ex_serde md))
      (rev (sort_key fst (ns_storage ex_second ''1'' []))))
     = [(''b'', the (dict_get (ns_storage ex_second ''1'' []) ''b''))]"
    by code_simp
  show ?thesis
    using mem_list_newest_first [OF _ keys wf, of ex_serde "[]" None "Some 1"] unfolding entries by simp
qed

end
