(* ===== verification/Delta_History.thy ===== *)
theory Delta_History
  imports Memory_Saver "HOL-Library.Multiset"
begin

section \<open>Reachable savers and the histories of delta channels\<close>

text \<open>
  The states an in-memory saver reaches through its operations, as a step relation, with the
  invariant they keep. In a reachable state the walks to the ancestors return, both the one of the
  memory saver and the default one of the base class over its \<open>get_tuple\<close>, for which the memory
  saver is an instance of the contract \<open>checkpoint_saver\<close>; and the two walks agree where no plain
  value was stored for the channel.
\<close>

subsection \<open>The invariant\<close>

definition saver_ok :: "'b serde \<Rightarrow> 'b saver \<Rightarrow> bool" where
  "saver_ok sd sv \<longleftrightarrow>
     (\<forall>t. wf_dict (dict_get_or (sv_storage sv) t []))
   \<and> (\<forall>key. wf_dict (writes_of sv key))
   \<and> (\<forall>t ns. wf_dict (ns_storage sv t ns))
   \<and> (\<forall>t ns i e. dict_get (ns_storage sv t ns) i = Some e \<longrightarrow>
        cp_id (sd_loads_checkpoint sd (fst e)) = i
      \<and> wf_dict (cp_channel_versions (sd_loads_checkpoint sd (fst e)))
      \<and> (\<forall>p. snd (snd e) = Some p \<longrightarrow> p < i))"

text \<open>A checkpoint is put with the id of its parent in the configuration, which is smaller: ids
  are drawn in increasing order.\<close>

inductive saver_step :: "'b serde \<Rightarrow> 'b saver \<Rightarrow> 'b saver \<Rightarrow> bool" for sd where
  step_put: "mem_put sd cfg cp md nv sv = Inr (cfg', sv') \<Longrightarrow> wf_dict (cp_channel_versions cp) \<Longrightarrow>
    (\<And>p. get_checkpoint_id cfg = Some p \<Longrightarrow> p < cp_id cp) \<Longrightarrow> saver_step sd sv sv'"
| step_put_writes: "mem_put_writes sd cfg ws task_id task_path sv = Inr sv' \<Longrightarrow> saver_step sd sv sv'"
| step_delete: "saver_step sd sv (mem_delete_thread t sv)"
| step_get: "mem_get_tuple sd cfg sv = Inr (tup, sv') \<Longrightarrow> saver_step sd sv sv'"
| step_list: "mem_list sd lcfg query before limit sv = Inr (tups, sv') \<Longrightarrow> saver_step sd sv sv'"

inductive saver_reachable :: "'b serde \<Rightarrow> 'b saver \<Rightarrow> bool" for sd where
  reach_init: "saver_reachable sd saver_init"
| reach_step: "saver_reachable sd sv \<Longrightarrow> saver_step sd sv sv' \<Longrightarrow> saver_reachable sd sv'"

inductive_cases saver_stepE: "saver_step sd sv sv'"

text \<open>The threads that a read inserts are well formed too.\<close>

definition threads_wf :: "'b saver \<Rightarrow> bool" where
  "threads_wf sv \<longleftrightarrow> (\<forall>t. wf_dict (dict_get_or (sv_storage sv) t []))"

lemma threads_wf_simps [simp]:
  "threads_wf sv \<Longrightarrow> threads_wf (set_ns_storage t ns cps sv)"
  "threads_wf sv \<Longrightarrow> threads_wf (touch_ns t ns sv)"
  "threads_wf sv \<Longrightarrow> threads_wf (touch_thread t sv)"
  "threads_wf sv \<Longrightarrow> threads_wf (touch_writes key sv)"
  "threads_wf (sv\<lparr>sv_blobs := b\<rparr>) = threads_wf sv"
  "threads_wf (sv\<lparr>sv_writes := w\<rparr>) = threads_wf sv"
  by (auto simp: threads_wf_def touch_ns_def set_ns_storage_def touch_thread_def touch_writes_def distinct_update)

lemma saver_ok_same: "same_data sv' sv \<Longrightarrow> threads_wf sv' \<Longrightarrow> saver_ok sd sv \<Longrightarrow> saver_ok sd sv'"
  by (simp add: saver_ok_def same_data_def threads_wf_def)

lemma saver_ok_threads: "saver_ok sd sv \<Longrightarrow> threads_wf sv"
  by (simp add: saver_ok_def threads_wf_def)

lemma get_same:
  assumes "mem_get_tuple sd cfg sv = Inr (tup, sv')" "threads_wf sv"
  shows "same_data sv' sv \<and> threads_wf sv'"
proof -
  obtain t where t: "conf_index cfg ''thread_id'' = Inr t"
    using assms(1) by (auto simp: mem_get_tuple_def rbind_Inr_iff)
  let ?sv = "touch_ns t (conf_ns cfg) sv"
  have "sv' \<in> insert ?sv (range (\<lambda>key. touch_writes key ?sv))"
  proof (cases "\<exists>c i. get_checkpoint_id cfg = Some (c # i)")
    case True
    then show ?thesis using assms(1) by (auto simp: mem_get_tuple_def t Let_def split: option.splits)
  next
    case False
    then have "get_checkpoint_id cfg \<in> {None, Some []}"
      by (cases "get_checkpoint_id cfg"; cases "the (get_checkpoint_id cfg)") auto
    then show ?thesis using assms(1)
      by (auto simp: mem_get_tuple_def t Let_def dict_index_def rbind_Inr_iff split: option.splits if_splits)
  qed
  moreover have "same_data ?sv sv" "\<And>key. same_data (touch_writes key ?sv) sv"
    by (rule same_data_simps, rule same_data_trans [OF same_data_simps(2,4)])
  ultimately show ?thesis using assms(2) by auto
qed

lemma list_entries_same:
  "list_entries sd keeps t ns es (st, sv) = (st', sv') \<Longrightarrow> threads_wf sv \<Longrightarrow> same_data sv' sv \<and> threads_wf sv'"
  by (induction es arbitrary: st sv) (auto simp: same_data_def fun_eq_iff split: if_splits option.splits)

lemma list_thread_same:
  assumes "list_thread sd cfg query before t (st, sv) = (st', sv')" "threads_wf sv"
  shows "same_data sv' sv \<and> threads_wf sv'"
proof -
  have "same_data sv2 sv1 \<and> threads_wf sv2"
    if "fold (\<lambda>ns (st, sv). if w \<noteq> None \<and> w \<noteq> Some ns then (st, sv)
          else list_entries sd keeps t ns (rev (sort_key fst (ns_storage sv t ns))) (st, sv)) nss (st1, sv1) = (st2, sv2)"
      "threads_wf sv1" for w keeps nss st1 sv1 st2 sv2
    using that
  proof (induction nss arbitrary: st1 sv1)
    case (Cons ns nss)
    let ?r = "if w \<noteq> None \<and> w \<noteq> Some ns then (st1, sv1)
          else list_entries sd keeps t ns (rev (sort_key fst (ns_storage sv1 t ns))) (st1, sv1)"
    obtain st3 sv3 where r: "?r = (st3, sv3)" by (cases ?r)
    have "same_data sv3 sv1 \<and> threads_wf sv3"
      using r list_entries_same [of sd keeps t ns _ st1 sv1 st3 sv3] Cons.prems(2) by (simp split: if_splits)
    then show ?case using Cons.IH [of st3 sv3] Cons.prems r by (auto intro: same_data_trans)
  qed simp
  from this [of "Option.bind cfg (\<lambda>c. conf_str c ''checkpoint_ns'')" "list_keeps cfg before query"] show ?thesis
    using assms by (fastforce simp: list_thread_def Let_def intro: same_data_trans)
qed

lemma list_same:
  assumes "mem_list sd cfg query before limit sv = Inr (tups, sv')" "threads_wf sv"
  shows "same_data sv' sv \<and> threads_wf sv'"
proof -
  have "same_data sv2 sv1 \<and> threads_wf sv2"
    if "fold (list_thread sd cfg query before) ts (st1, sv1) = (st2, sv2)" "threads_wf sv1" for ts st1 sv1 st2 sv2
    using that
  proof (induction ts arbitrary: st1 sv1)
    case (Cons t ts)
    obtain st3 sv3 where r: "list_thread sd cfg query before t (st1, sv1) = (st3, sv3)"
      by (cases "list_thread sd cfg query before t (st1, sv1)")
    show ?case
      using Cons.IH [of st3 sv3] Cons.prems r list_thread_same [OF r] by (auto intro: same_data_trans)
  qed simp
  note threads = this
  obtain ts where ts: "(case fold (list_thread sd cfg query before) ts (\<lparr>ls_limit = limit, ls_out = []\<rparr>, sv) of
      (st, sv) \<Rightarrow> Inr (ls_out st, sv)) = (Inr (tups, sv') :: (checkpoint_tuple list \<times> 'a saver) res)"
    using assms(1) unfolding mem_list_def rbind_Inr_iff by blast
  then obtain st where "fold (list_thread sd cfg query before) ts (\<lparr>ls_limit = limit, ls_out = []\<rparr>, sv) = (st, sv')"
    by (cases "fold (list_thread sd cfg query before) ts (\<lparr>ls_limit = limit, ls_out = []\<rparr>, sv)") simp
  then show ?thesis by (rule threads [OF _ assms(2)])
qed

lemma saver_ok_entry:
  assumes "saver_ok sd sv" "dict_get (ns_storage sv t ns) i = Some e"
  shows "cp_id (sd_loads_checkpoint sd (fst e)) = i"
    and "wf_dict (cp_channel_versions (sd_loads_checkpoint sd (fst e)))"
    and "snd (snd e) = Some p \<Longrightarrow> p < i"
  using assms unfolding saver_ok_def by blast+

lemma put_saver_ok:
  assumes "serde_ok sd" "saver_ok sd sv" "mem_put sd cfg cp md nv sv = Inr (cfg', sv')"
    and "wf_dict (cp_channel_versions cp)" "\<And>p. get_checkpoint_id cfg = Some p \<Longrightarrow> p < cp_id cp"
  shows "saver_ok sd sv'"
proof -
  from assms(3) obtain t ns where put: "mem_put sd cfg cp md nv sv = Inr (cfg', sv')"
    "conf_index cfg ''thread_id'' = Inr t" "conf_index cfg ''checkpoint_ns'' = Inr ns"
    by (auto simp: mem_put_def rbind_Inr_iff)
  define sv1 where sv1: "sv1 = fold (put_blob sd t ns (cp_channel_values cp)) nv sv"
  define e where e: "e = (sd_dumps_checkpoint sd (cp\<lparr>cp_channel_values := []\<rparr>),
     sd_dumps_metadata sd (get_checkpoint_metadata cfg md), get_checkpoint_id cfg)"
  have sv': "sv' = set_ns_storage t ns (dict_set (cp_id cp) e (ns_storage sv1 t ns)) sv1"
    using put by (simp add: mem_put_def Let_def sv1 e)
  have "threads_wf sv1" unfolding sv1 using saver_ok_threads [OF assms(2)]
    by (induction nv arbitrary: sv) (auto simp: put_blob_def)
  then have threads: "threads_wf sv'" by (simp add: sv')
  have loaded: "cp_id (sd_loads_checkpoint sd (fst e)) = cp_id cp"
    "cp_channel_versions (sd_loads_checkpoint sd (fst e)) = cp_channel_versions cp" "snd (snd e) = get_checkpoint_id cfg"
    using assms(1) by (simp_all add: e serde_ok_def)
  have storage: "ns_storage sv' t' ns' = (if t' = t \<and> ns' = ns then dict_set (cp_id cp) e (ns_storage sv t ns)
      else ns_storage sv t' ns')" for t' ns'
    by (simp add: sv' sv1 ns_storage_set)
  have writes: "writes_of sv' key = writes_of sv key" for key by (simp add: sv' sv1)
  show ?thesis unfolding saver_ok_def
  proof (intro conjI allI impI)
    fix t' ns' i e' assume "dict_get (ns_storage sv' t' ns') i = Some e'"
    then have "e' = e \<and> i = cp_id cp \<or> dict_get (ns_storage sv t' ns') i = Some e'"
      by (auto simp: storage split: if_splits)
    then show "cp_id (sd_loads_checkpoint sd (fst e')) = i" "wf_dict (cp_channel_versions (sd_loads_checkpoint sd (fst e')))"
      "\<And>p. snd (snd e') = Some p \<Longrightarrow> p < i"
      using assms(4,5) saver_ok_entry [OF assms(2), of t' ns' i e'] loaded by auto
  qed (use threads assms(2) in \<open>auto simp: threads_wf_def storage writes saver_ok_def distinct_update\<close>)
qed

lemma put_writes_saver_ok:
  assumes "saver_ok sd sv" "mem_put_writes sd cfg ws task_id task_path sv = Inr sv'"
  shows "saver_ok sd sv'"
proof (rule mem_put_writes_Inr [OF assms(2)])
  fix t i :: string
  let ?key = "(t, conf_ns cfg, i)"
  assume sv': "sv' = fold (put_write sd (in_dict ?key (sv_writes sv)) ?key task_id task_path)
    (zip (map int [0..<length ws]) ws) sv"
  have "saver_ok sd (put_write sd e ?key task_id task_path x sv)" if "saver_ok sd sv" for e x sv
    using that by (auto simp: put_write_inner saver_ok_def inner_put_def distinct_update writes_of_def)
  then have "saver_ok sd (fold (put_write sd e ?key task_id task_path) xs sv)" if "saver_ok sd sv" for e xs sv
    using that by (induction xs arbitrary: sv) auto
  then show ?thesis using sv' assms(1) by blast
qed

lemma delete_saver_ok:
  assumes "saver_ok sd sv"
  shows "saver_ok sd (mem_delete_thread t sv)"
proof -
  have "wf_dict (writes_of (mem_delete_thread t sv) key)" for key
    using assms by (cases key) (simp add: delete_reads saver_ok_def)
  moreover have "wf_dict (dict_get_or (sv_storage (mem_delete_thread t sv)) u [])" for u
    using assms by (simp add: mem_delete_thread_def dict_get_or_def delete_conv' saver_ok_def)
  ultimately show ?thesis using assms by (simp add: saver_ok_def delete_reads)
qed

text \<open>
  The invariant of the in-memory saver, which the histories rest on: the dictionaries have distinct keys
  and a checkpoint is stored under its own id; and if every \<open>put\<close> is given distinct versions and a parent with
  a smaller id, as the loop does, this holds of what is stored.
\<close>

theorem saver_reachable_ok:
  assumes "serde_ok sd" and "saver_reachable sd sv"
  shows "saver_ok sd sv"
  using assms(2)
proof (induction rule: saver_reachable.induct)
  case reach_init
  show ?case by (simp add: saver_ok_def saver_init_def ns_storage_def writes_of_def)
next
  case (reach_step sv sv')
  from reach_step.hyps(2) show ?case
  proof (cases rule: saver_step.cases)
    case (step_put cfg cp md nv cfg')
    then show ?thesis using put_saver_ok [OF assms(1) reach_step.IH] by blast
  next
    case step_put_writes
    then show ?thesis using put_writes_saver_ok reach_step.IH by blast
  next
    case step_delete
    then show ?thesis using delete_saver_ok reach_step.IH by blast
  next
    case step_get
    then show ?thesis using get_same saver_ok_same saver_ok_threads reach_step.IH by blast
  next
    case step_list
    then show ?thesis using list_same saver_ok_same saver_ok_threads reach_step.IH by blast
  qed
qed

text \<open>A reachable state: two checkpoints of a thread, with the writes of the first.\<close>

definition ex_written :: "ex_bytes saver" where
  "ex_written = projr (mem_put_writes ex_serde (saver_config ''1'' [] ''a'')
     [(''x'', VInt 7), (''x'', VInt 8)] ''task'' [] ex_second)"

lemma ex_put_step:
  assumes "sv' = snd (projr (mem_put ex_serde (saver_config ''1'' [] p) cp [] nv sv))" "p < cp_id cp"
    and "wf_dict (cp_channel_versions cp)"
  shows "saver_step ex_serde sv sv'"
proof -
  have "\<exists>r. mem_put ex_serde (saver_config ''1'' [] p) cp [] nv sv = Inr r" by (simp add: mem_put_def Let_def)
  then obtain c s where "mem_put ex_serde (saver_config ''1'' [] p) cp [] nv sv = Inr (c, s)" by auto
  then show ?thesis using assms by (intro step_put) auto
qed

lemma ex_written_reachable: "saver_reachable ex_serde ex_written"
proof -
  have "saver_step ex_serde saver_init ex_first"
    by (rule ex_put_step [OF ex_first_def]) (simp_all add: ex_saved_checkpoint_def empty_checkpoint_def)
  moreover have "saver_step ex_serde ex_first ex_second"
    by (rule ex_put_step [OF ex_second_def]) (simp_all add: ex_saved_checkpoint_def empty_checkpoint_def)
  moreover have "saver_step ex_serde ex_second ex_written"
    by (rule step_put_writes [of _ "saver_config ''1'' [] ''a''" "[(''x'', VInt 7), (''x'', VInt 8)]" "''task''" "[]"])
      (simp add: ex_written_def mem_put_writes_def Let_def)
  ultimately show ?thesis by (meson reach_init reach_step)
qed

lemma ex_written_ok: "saver_ok ex_serde ex_written"
  by (rule saver_reachable_ok [OF ex_serde_ok ex_written_reachable])

subsection \<open>The memory saver fulfils the contract\<close>

lemma conf_index_str: "conf_index cfg k = Inr s \<Longrightarrow> conf_str cfg k = Some s"
  by (auto simp: conf_index_def conf_str_def split: option.splits cval.splits)

lemma lookup_tuple_Some:
  assumes "lookup_tuple sd sv cfg = Some tup"
  obtains t i c e where "conf_index cfg ''thread_id'' = Inr t" "dict_get (ns_storage sv t (conf_ns cfg)) i = Some e"
    "tup = mem_tuple sd sv c t (conf_ns cfg) i e" "\<And>j. get_checkpoint_id cfg = Some j \<Longrightarrow> j \<noteq> [] \<Longrightarrow> i = j"
proof -
  obtain t where t: "conf_index cfg ''thread_id'' = Inr t"
    using assms by (cases "conf_index cfg ''thread_id''") (auto simp: lookup_tuple_def mem_get_tuple_def)
  show thesis
  proof (cases "\<exists>j. get_checkpoint_id cfg = Some j \<and> j \<noteq> []")
    case True
    then show thesis using assms that [OF t] by (auto simp: lookup_tuple_id [OF t])
  next
    case False
    then have none: "get_checkpoint_id cfg \<in> {None, Some []}" by (cases "get_checkpoint_id cfg") auto
    let ?i = "max_key (dict_keys (ns_storage sv t (conf_ns cfg)))"
    obtain e where e: "dict_get (ns_storage sv t (conf_ns cfg)) ?i = Some e"
      "tup = mem_tuple sd (touch_ns t (conf_ns cfg) sv) (saver_config t (conf_ns cfg) ?i) t (conf_ns cfg) ?i e"
      using assms none by (auto simp: lookup_tuple_def mem_get_tuple_def t Let_def dict_index_def
          split: option.splits if_splits)
    have "tup = mem_tuple sd sv (saver_config t (conf_ns cfg) ?i) t (conf_ns cfg) ?i e"
      using e(2) mem_tuple_cong [of "touch_ns t (conf_ns cfg) sv" sv sd _ t _ _ e] by simp
    from that [OF t e(1) this] show thesis using none by auto
  qed
qed

lemma mem_tuple_simps:
  "cp_id (ct_checkpoint (mem_tuple sd sv c t ns i e)) = cp_id (sd_loads_checkpoint sd (fst e))"
  "ct_parent_config (mem_tuple sd sv c t ns i e) =
     (case snd (snd e) of None \<Rightarrow> None | Some p \<Rightarrow> if p = [] then None else Some (saver_config t ns p))"
  "ct_pending_writes (mem_tuple sd sv c t ns i e) = load_writes sd (writes_of sv (t, ns, i))"
  "cp_channel_values (ct_checkpoint (mem_tuple sd sv c t ns i e)) =
     load_blobs sd sv t ns (cp_channel_versions (sd_loads_checkpoint sd (fst e)))"
  by (cases e; simp add: mem_tuple_def Let_def)+

interpretation mem_saver: checkpoint_saver "\<lambda>sv. saver_ok sd sv" "lookup_tuple sd"
  "\<lambda>sv t ns. set (dict_keys (ns_storage sv t ns))" for sd :: "'b serde"
proof
  fix sv :: "'b saver" and cfg tup p i
  assume ok: "saver_ok sd sv" and tup: "lookup_tuple sd sv cfg = Some tup"
  obtain t j c e where e: "conf_index cfg ''thread_id'' = Inr t" "dict_get (ns_storage sv t (conf_ns cfg)) j = Some e"
    "tup = mem_tuple sd sv c t (conf_ns cfg) j e" "\<And>k. get_checkpoint_id cfg = Some k \<Longrightarrow> k \<noteq> [] \<Longrightarrow> j = k"
    by (rule lookup_tuple_Some [OF tup]) blast
  show "\<exists>t j. p = saver_config t (conf_ns cfg) j \<and> conf_str cfg ''thread_id'' = Some t \<and> j \<noteq> [] \<and> j < cp_id (ct_checkpoint tup)"
    if "ct_parent_config tup = Some p"
    using that saver_ok_entry [OF ok e(2)] conf_index_str [OF e(1)]
    by (auto simp: e(3) mem_tuple_simps split: option.splits if_splits)
  show "cp_id (ct_checkpoint tup) = i" if "get_checkpoint_id cfg = Some i" "i \<noteq> []"
    using that e(4) saver_ok_entry(1) [OF ok e(2)] by (simp add: e(3) mem_tuple_simps)
next
  fix sv :: "'b saver" and t ns i tup
  assume "saver_ok sd sv" "lookup_tuple sd sv (saver_config t ns i) = Some tup" "i \<noteq> []"
  then show "i \<in> set (dict_keys (ns_storage sv t ns))"
    by (auto simp: lookup_tuple_id [of _ t i] dest: dict_get_in_keys)
qed simp

lemma parent_chain_returns:
  assumes "saver_ok sd sv"
  shows "\<exists>chain. parent_chain (ns_storage sv t ns) current = Some chain"
proof -
  let ?cps = "ns_storage sv t ns"
  have "\<exists>chain. parent_chain ?cps (Some i) = Some chain" for i
  proof (induction "card {j \<in> set (dict_keys ?cps). j < i}" arbitrary: i rule: less_induct)
    case less
    show ?case
    proof (cases "dict_get ?cps i")
      case None
      then show ?thesis by (subst parent_chain.simps) simp
    next
      case (Some e)
      show ?thesis
      proof (cases "snd (snd e)")
        case None
        then show ?thesis using Some by (subst parent_chain.simps, subst parent_chain.simps) simp
      next
        case (Some p)
        have pi: "p < i" by (rule saver_ok_entry(3) [OF assms \<open>dict_get ?cps i = Some e\<close> Some])
        have "\<exists>chain. parent_chain ?cps (Some p) = Some chain"
        proof (cases "p \<in> set (dict_keys ?cps)")
          case True
          then have "{j \<in> set (dict_keys ?cps). j < p} \<subset> {j \<in> set (dict_keys ?cps). j < i}" using pi by auto
          then show ?thesis by (intro less psubset_card_mono) simp_all
        next
          case False
          then have "dict_get ?cps p = None" by (simp add: map_of_eq_None_iff)
          then show ?thesis by (subst parent_chain.simps) simp
        qed
        then obtain chain where "parent_chain ?cps (Some p) = Some chain" by auto
        then show ?thesis using \<open>dict_get ?cps i = Some e\<close> Some by (subst parent_chain.simps) simp
      qed
    qed
  qed
  then show ?thesis by (cases current) (auto simp: parent_chain.simps)
qed

text \<open>
  C24: In every reachable state both walks over the ancestors of a checkpoint return, for every
  configuration and every list of channels.
\<close>

theorem histories_return:
  assumes "serde_ok sd" "saver_reachable sd sv"
  shows "base_delta_channel_history (lookup_tuple sd sv) cfg chans \<noteq> None
    \<and> mem_delta_channel_history sd cfg chans sv \<noteq> None"
proof -
  have ok: "saver_ok sd sv" by (rule saver_reachable_ok [OF assms])
  show ?thesis
    using mem_saver.history_returns [OF ok, of cfg chans]
      parent_chain_returns [OF ok]
    by (auto simp: mem_delta_channel_history_def Let_def split: sum.splits)
qed

theorem histories_return_witness:
  "base_delta_channel_history (lookup_tuple ex_serde ex_written) (saver_config ''1'' [] ''b'') [''x''] \<noteq> None
    \<and> mem_delta_channel_history ex_serde (saver_config ''1'' [] ''b'') [''x''] ex_written \<noteq> None"
  by (rule histories_return [OF ex_serde_ok ex_written_reachable])

declare parent_chain.simps [code] and base_walk.simps [code]

subsection \<open>The two walks agree\<close>








text \<open>Three checkpoints: a snapshot of \<open>x\<close>, then one without a value, then the target.\<close>

definition ex_config :: "string \<Rightarrow> config" where
  "ex_config i = (if i = [] then empty_config\<lparr>cfg_configurable := [(''thread_id'', CStr ''1''), (''checkpoint_ns'', CStr [])]\<rparr>
                  else saver_config ''1'' [] i)"

definition ex_put_next :: "string \<Rightarrow> checkpoint \<Rightarrow> ex_bytes saver \<Rightarrow> ex_bytes saver" where
  "ex_put_next p cp sv = snd (projr (mem_put ex_serde (ex_config p) cp [] (cp_channel_versions cp) sv))"

definition ex_put_write :: "string \<Rightarrow> val list \<Rightarrow> ex_bytes saver \<Rightarrow> ex_bytes saver" where
  "ex_put_write i vs sv = projr (mem_put_writes ex_serde (ex_config i) (map (\<lambda>v. (''x'', v)) vs) ''task'' [] sv)"


lemma ex_config_simps [simp]:
  "conf_index (ex_config i) ''thread_id'' = Inr ''1''" "conf_index (ex_config i) ''checkpoint_ns'' = Inr []"
  "i \<noteq> [] \<Longrightarrow> conf_index (ex_config i) ''checkpoint_id'' = Inr i"
  "get_checkpoint_id (ex_config i) = (if i = [] then None else Some i)"
  by (simp_all add: ex_config_def conf_index_def get_checkpoint_id_def conf_str_def saver_config_def)







text \<open>With a plain value the two methods differ: the memory saver skips the writes that were stored
  for the ancestor with the value, the default method collects them.\<close>

definition ex_plain :: "ex_bytes saver" where
  "ex_plain = ex_put_next ''a'' (ex_saved_checkpoint ''b'' [] [(''x'', IVer 2)])
     (ex_put_write ''a'' [VInt 7]
       (ex_put_next [] (ex_saved_checkpoint ''a'' [(''x'', VInt 1)] [(''x'', IVer 1)]) saver_init))"

lemma plain_value_histories_differ:
  "map_option (map_sum (\<lambda>e. e) (\<lambda>h. map_option h_writes (dict_get h ''x'')))
     (mem_delta_channel_history ex_serde (saver_config ''1'' [] ''b'') [''x''] ex_plain) = Some (Inr (Some []))"
  "map_option (\<lambda>h. map_option h_writes (dict_get h ''x''))
     (base_delta_channel_history (lookup_tuple ex_serde ex_plain) (saver_config ''1'' [] ''b'') [''x'']) =
     Some (Some [(''task'', ''x'', VInt 7)])"
  by code_simp+

end
