(* ===== verification/Loop_State.thy ===== *)
theory Loop_State
  imports Messages Resume Delta_History
begin

section \<open>The state of the loop and what it saves (pregel/_loop.py)\<close>

text \<open>
  \<open>PregelLoop\<close>: its fields, the writes it records (\<open>put_writes\<close>), and the checkpoints and exit
  writes it hands to the saver. What does not change during a run is in \<open>loop_env\<close>, the rest in
  \<open>loop\<close>. The calls of the saver that the loop submits to its executor are the list \<open>lo_saves\<close>, in
  the order of submission; \<open>run_save\<close> executes one on an in-memory saver. Ids and timestamps that
  are drawn anew come from functions of the number of draws. Streaming of events to clients
  (\<open>_emit\<close>, \<open>output_writes\<close>) is left out: it reads the state only.
\<close>

subsection \<open>Fields\<close>

datatype durability = DSync | DAsync | DExit

datatype status = StInput | StPending | StDone | StDraining | StInterruptBefore | StInterruptAfter | StOutOfSteps

datatype save = SaveWrites config "chan_write list" string string | SaveCheckpoint config checkpoint metadata versions

datatype lifecycle_event = ResumeEvent status string "string list" | InterruptEvent status string "string list" "val list"

text \<open>A list of node names or \<open>"*"\<close>, which is \<open>None\<close>.\<close>

type_synonym node_filter = "string list option"

record loop_env =
  le_nodes :: "(string, pregel_node) dict"
  le_specs :: "(string, spec) dict"
  le_input_keys :: select
  le_output_keys :: select
  le_trigger_to_nodes :: "(string, string list) dict"
  le_durability :: durability
  le_interrupt_before :: node_filter
  le_interrupt_after :: node_filter
  le_retry_policy :: "nat list"
  le_cache_policy :: "cache_policy option"
  le_store :: "nat option"
  le_checkpointer :: "nat option"
  le_manager :: "(string \<Rightarrow> nat) option"
  le_is_nested :: bool
  le_accepts_task_path :: bool
  le_get_next_version :: "version option \<Rightarrow> version res"
  le_sha1 :: "string \<Rightarrow> string"
  le_xxh3 :: "string \<Rightarrow> string"
  le_recursion_limit :: int
  le_snapshot_bound :: int
  le_uuid :: "nat \<Rightarrow> string"
  le_now :: "nat \<Rightarrow> string"
  le_convert :: "val \<Rightarrow> val res"
  le_annotated :: "val \<Rightarrow> chan_write list option"

record loop =
  lo_config :: config
  lo_step :: int
  lo_stop :: int
  lo_is_replaying :: bool
  lo_channels :: channels
  lo_managed :: managed_map
  lo_checkpoint :: checkpoint
  lo_checkpoint_id_saved :: string
  lo_checkpoint_ns :: "string list"
  lo_checkpoint_config :: config
  lo_metadata :: metadata
  lo_pending_writes :: "pending_write list"
  lo_previous_versions :: versions
  lo_prev_config :: "config option"
  lo_initial_config :: config
  lo_has_persisted_parent :: bool
  lo_exit_delta_writes :: "(int \<times> string \<times> string \<times> val) list option"
  lo_overwritten :: "string list"
  lo_status :: status
  lo_tasks :: "(string, exec_task) dict option"
  lo_updated :: "string list option"
  lo_events :: "lifecycle_event list"
  lo_saves :: "save list"
  lo_drawn :: nat

subsection \<open>Configurations\<close>

definition patch_configurable :: "config \<Rightarrow> (string, cval) dict \<Rightarrow> config" where
  "patch_configurable cfg patch = cfg\<lparr>cfg_configurable := dict_update (cfg_configurable cfg) patch\<rparr>"

definition writes_config :: "loop \<Rightarrow> config" where
  "writes_config lo = patch_configurable (lo_checkpoint_config lo)
     [(''checkpoint_ns'', CStr (conf_ns (lo_config lo))), (''checkpoint_id'', CStr (cp_id (lo_checkpoint lo)))]"

definition is_delta_spec :: "loop_env \<Rightarrow> string \<Rightarrow> bool" where
  "is_delta_spec env c \<longleftrightarrow> (case dict_get (le_specs env) c of Some (ChannelSpec ch) \<Rightarrow> is_delta ch | _ \<Rightarrow> False)"

definition is_untracked_spec :: "loop_env \<Rightarrow> string \<Rightarrow> bool" where
  "is_untracked_spec env c \<longleftrightarrow> (case dict_get (le_specs env) c of Some (ChannelSpec ch) \<Rightarrow> is_untracked ch | _ \<Rightarrow> False)"

definition has_untracked :: "channels \<Rightarrow> bool" where
  "has_untracked chs \<longleftrightarrow> (\<exists>(_, c) \<in> set chs. is_untracked c)"

subsection \<open>Stable ids of messages (pregel/_messages.py)\<close>

definition MESSAGE_ROLES :: "string list" where
  "MESSAGE_ROLES = [''user'', ''human'', ''assistant'', ''ai'', ''tool'', ''system'', ''function'']"

definition MESSAGE_TYPES :: "string list" where
  "MESSAGE_TYPES = [''human'', ''ai'', ''tool'', ''system'', ''function'', ''remove'']"

definition is_message_dict :: "(string, val) dict \<Rightarrow> bool" where
  "is_message_dict d \<longleftrightarrow> (\<exists>r \<in> set MESSAGE_ROLES. dict_get d ''role'' = Some (VStr r))
     \<or> (\<exists>r \<in> set MESSAGE_TYPES. dict_get d ''type'' = Some (VStr r))"

text \<open>A message without an id gets a new one; \<open>convert\<close> is \<open>convert_to_messages\<close> on one item.\<close>

fun stamp_message :: "(nat \<Rightarrow> string) \<Rightarrow> val \<Rightarrow> nat \<Rightarrow> val \<times> nat" where
  "stamp_message uuid (VMsg None r x) n = (VMsg (Some (uuid n)) r x, n + 1)"
| "stamp_message uuid v n = (v, n)"

fun stamp_items :: "(nat \<Rightarrow> string) \<Rightarrow> (val \<Rightarrow> val res) \<Rightarrow> val list \<Rightarrow> nat \<Rightarrow> (val list \<times> nat) res" where
  "stamp_items uuid convert [] n = Inr ([], n)"
| "stamp_items uuid convert (v # vs) n =
     rbind (case v of VDict d \<Rightarrow> if is_message_dict d then convert v else Inr v | _ \<Rightarrow> Inr v)
     (\<lambda>v. let (v, n) = stamp_message uuid v n
          in rbind (stamp_items uuid convert vs n) (\<lambda>(vs, n). Inr (v # vs, n)))"

fun ensure_message_ids :: "(nat \<Rightarrow> string) \<Rightarrow> (val \<Rightarrow> val res) \<Rightarrow> val \<Rightarrow> nat \<Rightarrow> (val \<times> nat) res" where
  "ensure_message_ids uuid convert (VList vs) n = rbind (stamp_items uuid convert vs n) (\<lambda>(vs, n). Inr (VList vs, n))"
| "ensure_message_ids uuid convert (VDict d) n =
     Inr (if is_message_dict d \<and> \<not> truthy (dict_get_or d ''id'' VNone)
          then (VDict (dict_set ''id'' (VStr (uuid n)) d), n + 1) else (VDict d, n))"
| "ensure_message_ids uuid convert v n = Inr (stamp_message uuid v n)"

text \<open>The ids are set in the objects, so the pending writes and the writes that are saved share them.\<close>

fun stamp_writes :: "loop_env \<Rightarrow> chan_write list \<Rightarrow> nat \<Rightarrow> (chan_write list \<times> nat) res" where
  "stamp_writes env [] n = Inr ([], n)"
| "stamp_writes env ((c, v) # ws) n =
     rbind (if is_delta_spec env c then ensure_message_ids (le_uuid env) (le_convert env) v n else Inr (v, n))
     (\<lambda>(v, n). rbind (stamp_writes env ws n) (\<lambda>(ws, n). Inr ((c, v) # ws, n)))"

subsection \<open>\<open>put_writes\<close>\<close>

definition dedupe_special :: "chan_write list \<Rightarrow> chan_write list" where
  "dedupe_special ws = (if list_all (\<lambda>(c, _). in_dict c WRITES_IDX_MAP) ws then dict_of ws else ws)"

text \<open>The pending writes that stay, and the ones that are saved again with the new ones: writes of
  the null task accumulate, any other task's are replaced.\<close>

definition kept_pending :: "string \<Rightarrow> pending_write list \<Rightarrow> pending_write list" where
  "kept_pending task_id pws =
     (if task_id = NULL_TASK_ID then filter (\<lambda>(t, c, _). t \<noteq> task_id \<or> \<not> in_dict c WRITES_IDX_MAP) pws
      else filter (\<lambda>(t, _). t \<noteq> task_id) pws)"

definition saved_again :: "string \<Rightarrow> pending_write list \<Rightarrow> chan_write list" where
  "saved_again task_id pws =
     (if task_id = NULL_TASK_ID then map snd (filter (\<lambda>(t, _). t = task_id) (kept_pending task_id pws)) else [])"

definition drop_untracked :: "loop_env \<Rightarrow> channels \<Rightarrow> chan_write list \<Rightarrow> chan_write list" where
  "drop_untracked env chs ws =
     (if has_untracked chs
      then map (\<lambda>(c, v). (c, if c = TASKS then sanitize_send chs v else v))
             (filter (\<lambda>(c, _). \<not> is_untracked_spec env c) ws)
      else ws)"

definition task_path_of :: "loop \<Rightarrow> string \<Rightarrow> string" where
  "task_path_of lo task_id = (case Option.bind (lo_tasks lo) (\<lambda>ts. dict_get ts task_id) of
       Some t \<Rightarrow> task_path_str (PTup (tw_path t)) | None \<Rightarrow> [])"

definition submit_writes :: "loop_env \<Rightarrow> config \<Rightarrow> chan_write list \<Rightarrow> string \<Rightarrow> string \<Rightarrow> loop \<Rightarrow> loop" where
  "submit_writes env cfg ws task_id path lo =
     lo\<lparr>lo_saves := lo_saves lo @ [SaveWrites cfg ws task_id (if le_accepts_task_path env then path else [])]\<rparr>"

definition put_stamped :: "loop_env \<Rightarrow> string \<Rightarrow> chan_write list \<Rightarrow> loop \<Rightarrow> loop" where
  "put_stamped env task_id ws lo =
     (let to_save = drop_untracked env (lo_channels lo) (saved_again task_id (lo_pending_writes lo) @ ws);
          lo = lo\<lparr>lo_pending_writes := kept_pending task_id (lo_pending_writes lo) @ map (\<lambda>(c, v). (task_id, c, v)) ws\<rparr>
      in if le_durability env \<noteq> DExit \<and> le_checkpointer env \<noteq> None
         then submit_writes env (writes_config lo) to_save task_id (task_path_of lo task_id) lo
         else lo)"

definition loop_put_writes :: "loop_env \<Rightarrow> string \<Rightarrow> chan_write list \<Rightarrow> loop \<Rightarrow> loop res" where
  "loop_put_writes env task_id writes lo =
     (if writes = [] then Inr lo
      else rbind (stamp_writes env (dedupe_special writes) (lo_drawn lo))
        (\<lambda>(ws, n). Inr (put_stamped env task_id ws (lo\<lparr>lo_drawn := n\<rparr>))))"

definition group_by_task :: "pending_write list \<Rightarrow> (string, chan_write list) dict" where
  "group_by_task pws = fold (\<lambda>(t, w). dict_append t w) pws []"

definition put_pending_writes :: "loop_env \<Rightarrow> loop \<Rightarrow> loop" where
  "put_pending_writes env lo =
     (if le_checkpointer env = None \<or> lo_pending_writes lo = [] then lo
      else fold (\<lambda>(t, ws). submit_writes env (writes_config lo) ws t (task_path_of lo t))
             (group_by_task (lo_pending_writes lo)) lo)"

subsection \<open>What a task's end records (pregel/_runner.py)\<close>

text \<open>The outcome of a task: it returned, was cancelled, was interrupted (with the interrupts of
  the exception), raised another bubbling exception, or failed.\<close>

datatype outcome = Returned | Cancelled val | Interrupted "val list" | BubbledUp | Failed val

definition set_task_writes :: "string \<Rightarrow> (chan_write list \<Rightarrow> chan_write list) \<Rightarrow> loop \<Rightarrow> loop" where
  "set_task_writes task_id f lo = lo\<lparr>lo_tasks := map_option (\<lambda>ts. case dict_get ts task_id of
       None \<Rightarrow> ts | Some t \<Rightarrow> dict_set task_id (t\<lparr>tw_writes := f (tw_writes t)\<rparr>) ts) (lo_tasks lo)\<rparr>"

text \<open>\<open>error_nodes\<close> are the nodes that are error handlers, \<open>handled\<close> those that have one.\<close>

definition routes_to_handler :: "string list \<Rightarrow> string list \<Rightarrow> exec_task \<Rightarrow> bool" where
  "routes_to_handler error_nodes handled t \<longleftrightarrow> tw_name t \<notin> set error_nodes \<and> tw_name t \<in> set handled"

text \<open>The task's writes and the pending writes are the same objects, so both get the ids.\<close>

definition store_task_writes :: "loop_env \<Rightarrow> string \<Rightarrow> chan_write list \<Rightarrow> loop \<Rightarrow> loop res" where
  "store_task_writes env task_id writes lo =
     rbind (stamp_writes env writes (lo_drawn lo))
       (\<lambda>(ws, n). Inr (put_stamped env task_id (dedupe_special ws) (set_task_writes task_id (\<lambda>_. ws) (lo\<lparr>lo_drawn := n\<rparr>))))"

definition commit_task ::
  "loop_env \<Rightarrow> string list \<Rightarrow> string list \<Rightarrow> exec_task \<Rightarrow> outcome \<Rightarrow> loop \<Rightarrow> loop res" where
  "commit_task env error_nodes handled t outcome lo =
     (let ws = tw_writes t
      in case outcome of
          Cancelled e \<Rightarrow> store_task_writes env (et_id t) (ws @ [(ERROR, e)]) lo
        | Interrupted is \<Rightarrow>
            if is = [] then Inr lo
            else loop_put_writes env (et_id t) ((INTERRUPT, VTuple is) # filter (\<lambda>(c, _). c = RESUME) ws) lo
        | BubbledUp \<Rightarrow> Inr lo
        | Failed e \<Rightarrow> store_task_writes env (et_id t) (ws @ [(ERROR, e)]
            @ (if routes_to_handler error_nodes handled t then [(ERROR_SOURCE_NODE, VStr (tw_name t))] else [])) lo
        | Returned \<Rightarrow> store_task_writes env (et_id t) (if ws = [] then [(NO_WRITES, VNone)] else ws) lo)"

subsection \<open>Checkpoints\<close>

definition get_new_channel_versions :: "versions \<Rightarrow> versions \<Rightarrow> versions" where
  "get_new_channel_versions previous current =
     (if previous = [] then current
      else case current of
          [] \<Rightarrow> []
        | (_, v) # _ \<Rightarrow> filter (\<lambda>(k, ver). ver > dict_get_or previous k (null_of v)) current)"

definition store_counters :: "counters \<Rightarrow> metadata \<Rightarrow> metadata" where
  "store_counters counters md =
     (if nonzero_counters counters = [] then AList.delete ''counters_since_delta_snapshot'' md
      else dict_set ''counters_since_delta_snapshot'' (counters_val (nonzero_counters counters)) md)"

text \<open>Untracked values do not get into the pending sends of a checkpoint.\<close>

definition sanitize_tasks :: "channels \<Rightarrow> checkpoint \<Rightarrow> checkpoint res" where
  "sanitize_tasks chs cp =
     (case dict_get (cp_channel_values cp) TASKS of
        Some v \<Rightarrow> if has_untracked chs
          then rbind (py_iter v) (\<lambda>xs. Inr (cp\<lparr>cp_channel_values :=
                 dict_set TASKS (VList (map (sanitize_send chs) xs)) (cp_channel_values cp)\<rparr>))
          else Inr cp
      | None \<Rightarrow> Inr cp)"

definition config_parents :: "config \<Rightarrow> val" where
  "config_parents cfg = VDict (map (\<lambda>(k, v). (k, VStr v)) (conf_checkpoint_map cfg))"

text \<open>The counters and the metadata of the new checkpoint; at the exit, \<open>None\<close>, both stay.\<close>

definition checkpoint_counters :: "metadata option \<Rightarrow> loop \<Rightarrow> counters" where
  "checkpoint_counters md lo = (case md of
       Some _ \<Rightarrow> create_metadata_for_update_state_api (lo_channels lo)
                   (case lo_updated lo of Some u \<Rightarrow> u | None \<Rightarrow> []) (lo_metadata lo)
     | None \<Rightarrow> metadata_counters (lo_metadata lo))"

definition checkpoint_metadata :: "metadata option \<Rightarrow> loop \<Rightarrow> metadata" where
  "checkpoint_metadata md lo = (case md of
       Some m \<Rightarrow> dict_set ''parents'' (config_parents (lo_config lo)) (dict_set ''step'' (VInt (lo_step lo)) m)
     | None \<Rightarrow> lo_metadata lo)"

definition save_checkpoint :: "loop_env \<Rightarrow> loop \<Rightarrow> loop" where
  "save_checkpoint env lo =
     (let cfg = patch_configurable (lo_checkpoint_config lo) [(''checkpoint_ns'', CStr (conf_ns (lo_config lo)))];
          versions = cp_channel_versions (lo_checkpoint lo)
      in lo\<lparr>lo_prev_config := (case conf_str (lo_checkpoint_config lo) ''checkpoint_id'' of
               Some (a # i) \<Rightarrow> Some (lo_checkpoint_config lo) | _ \<Rightarrow> None),
            lo_previous_versions := versions,
            lo_saves := lo_saves lo @ [SaveCheckpoint cfg (copy_checkpoint (lo_checkpoint lo)) (lo_metadata lo)
               (get_new_channel_versions (lo_previous_versions lo) versions)],
            lo_checkpoint_config := patch_configurable cfg [(''checkpoint_id'', CStr (cp_id (lo_checkpoint lo)))]\<rparr>)"

definition put_checkpoint :: "loop_env \<Rightarrow> metadata option \<Rightarrow> loop \<Rightarrow> loop res" where
  "put_checkpoint env md lo =
     (let exiting = (md = None)
      in if exiting \<and> cp_id (lo_checkpoint lo) = lo_checkpoint_id_saved lo then Inr lo
      else
        let counters = checkpoint_counters md lo;
            do_checkpoint = (le_checkpointer env \<noteq> None \<and> (exiting \<or> le_durability env \<noteq> DExit));
            snaps = (if do_checkpoint
                     then remdups (delta_channels_to_snapshot (le_snapshot_bound env) (lo_channels lo) counters @ lo_overwritten lo)
                     else [])
        in rbind (create_checkpoint (lo_checkpoint lo) (if do_checkpoint then Some (lo_channels lo) else None)
             (if exiting then Some (cp_id (lo_checkpoint lo)) else None) (lo_updated lo)
             (if do_checkpoint then Some (le_get_next_version env) else None) snaps
             (le_uuid env (lo_drawn lo)) (le_now env (lo_drawn lo)))
        (\<lambda>cp. rbind (sanitize_tasks (lo_channels lo) cp)
        (\<lambda>cp.
          let lo = lo\<lparr>lo_checkpoint := cp, lo_drawn := lo_drawn lo + 1,
                      lo_metadata := store_counters (reset_counters snaps counters) (checkpoint_metadata md lo),
                      lo_overwritten := (if do_checkpoint then filter (\<lambda>c. c \<notin> set snaps) (lo_overwritten lo)
                                         else lo_overwritten lo)\<rparr>;
              lo = (if do_checkpoint then save_checkpoint env lo else lo)
          in Inr (if exiting then lo else lo\<lparr>lo_step := lo_step lo + 1\<rparr>))))"

subsection \<open>Exit writes of delta channels\<close>

definition exit_groups :: "(int \<times> string \<times> string \<times> val) list \<Rightarrow> (int \<times> string, chan_write list) dict" where
  "exit_groups pending = fold (\<lambda>(step, t, w). dict_append (step, t) w) pending []"

definition put_exit_delta_writes :: "loop_env \<Rightarrow> loop \<Rightarrow> loop res" where
  "put_exit_delta_writes env lo =
     (case lo_exit_delta_writes lo of
        Some (e # es) \<Rightarrow>
          if le_checkpointer env = None then Inr lo
          else
            let snaps = delta_channels_to_snapshot (le_snapshot_bound env) (lo_channels lo) (metadata_counters (lo_metadata lo))
                          @ lo_overwritten lo;
                pending = filter (\<lambda>(step, t, c, v). c \<notin> set snaps) (e # es)
            in if pending = [] then Inr lo
               else
                 let (anchor, lo) =
                   (if lo_has_persisted_parent lo then (lo_initial_config lo, lo)
                    else
                      let stub = (empty_checkpoint (lo_checkpoint_id_saved lo) (le_now env (lo_drawn lo)));
                          put_config = patch_configurable (lo_initial_config lo) [(''checkpoint_id'', CNone)];
                          anchor = patch_configurable (lo_initial_config lo) [(''checkpoint_id'', CStr (cp_id stub))]
                      in (anchor, lo\<lparr>lo_saves := lo_saves lo @ [SaveCheckpoint put_config stub [(''step'', VInt (- 2))] []],
                                    lo_checkpoint_config := anchor, lo_drawn := lo_drawn lo + 1\<rparr>))
                 in rbind (conf_index anchor ''checkpoint_id'')
                    (\<lambda>aid. let cfg = patch_configurable anchor
                               [(''checkpoint_ns'', CStr (conf_ns (lo_config lo))), (''checkpoint_id'', CStr aid)]
                      in rfold (\<lambda>((step, t), ws) lo. rbind (exit_delta_task_id step t)
                           (\<lambda>synth. Inr (submit_writes env cfg ws synth [] lo))) (exit_groups pending) lo)
      | _ \<Rightarrow> Inr lo)"

subsection \<open>Executing the saves\<close>

definition run_save :: "'b serde \<Rightarrow> save \<Rightarrow> 'b saver \<Rightarrow> 'b saver res" where
  "run_save sd s sv = (case s of
       SaveWrites cfg ws task_id path \<Rightarrow> mem_put_writes sd cfg ws task_id path sv
     | SaveCheckpoint cfg cp md nv \<Rightarrow> rbind (mem_put sd cfg cp md nv sv) (\<lambda>(_, sv). Inr sv))"

definition run_saves :: "'b serde \<Rightarrow> save list \<Rightarrow> 'b saver \<Rightarrow> 'b saver res" where
  "run_saves sd saves sv = rfold (run_save sd) saves sv"

end
