(* ===== verification/Loop.thy ===== *)
theory Loop
  imports Loop_State
begin

section \<open>The loop (pregel/_loop.py)\<close>

text \<open>
  Entering a run (\<open>__init__\<close>, \<open>__enter__\<close>, \<open>_first\<close>), the supersteps (\<open>tick\<close>, \<open>after_tick\<close>), what the
  runner asks for in between (\<open>accept_push\<close>, \<open>schedule_error_handler\<close>, cached writes), and leaving
  (\<open>_suppress_interrupt\<close>). A method that can raise after it has changed the state returns the
  outcome together with the state. The loop is the synchronous one; the asynchronous one does the
  same in a coroutine.
\<close>

subsection \<open>Construction\<close>

definition cval_truthy :: "cval \<Rightarrow> bool" where
  "cval_truthy v = (case v of CNone \<Rightarrow> False | CBool b \<Rightarrow> b | CStr s \<Rightarrow> s \<noteq> [] | CInt i \<Rightarrow> i \<noteq> 0
     | CMap m \<Rightarrow> m \<noteq> [] | CResumeMap m \<Rightarrow> m \<noteq> [] | _ \<Rightarrow> True)"

definition conf_truthy :: "config \<Rightarrow> string \<Rightarrow> bool" where
  "conf_truthy cfg k \<longleftrightarrow> (case dict_get (cfg_configurable cfg) k of Some v \<Rightarrow> cval_truthy v | None \<Rightarrow> False)"

definition init_config :: "loop_env \<Rightarrow> config \<Rightarrow> config res" where
  "init_config env cfg =
     rbind (case conf_scratchpad cfg of
         Some pad \<Rightarrow> if sp_subgraph_counter pad > 0
           then rbind (conf_index cfg ''checkpoint_ns'') (\<lambda>ns. Inr (patch_configurable cfg
                  [(''checkpoint_ns'', CStr (join NS_SEP [ns, int_str (int (sp_subgraph_counter pad))]))]))
           else Inr cfg
       | None \<Rightarrow> Inr cfg)
     (\<lambda>c. Inr (if \<not> le_is_nested env \<and> conf_truthy cfg ''checkpoint_ns''
               then patch_configurable c [(''checkpoint_ns'', CStr []), (''checkpoint_id'', CNone)] else c))"

definition init_checkpoint_config :: "config \<Rightarrow> config" where
  "init_checkpoint_config cfg =
     (let c = (case Option.bind (conf_str cfg ''checkpoint_ns'') (dict_get (conf_checkpoint_map cfg)) of
            Some i \<Rightarrow> patch_configurable cfg [(''checkpoint_id'', CStr i)] | None \<Rightarrow> cfg)
      in case dict_get (cfg_configurable c) ''thread_id'' of
           Some (CInt i) \<Rightarrow> if i \<noteq> 0 then patch_configurable c [(''thread_id'', CStr (int_str i))] else c
         | _ \<Rightarrow> c)"

definition ns_parts :: "config \<Rightarrow> string list" where
  "ns_parts cfg = (if conf_truthy cfg ''checkpoint_ns'' then split_on (CHR ''|'') (conf_ns cfg) else [])"

subsection \<open>Preparing tasks\<close>

definition prep_env_of :: "loop_env \<Rightarrow> loop \<Rightarrow> config \<Rightarrow> prep_env" where
  "prep_env_of env lo cfg =
     \<lparr>pe_sha1 = le_sha1 env, pe_xxh3 = le_xxh3 env, pe_checkpoint = lo_checkpoint lo, pe_processes = le_nodes env,
      pe_channels = lo_channels lo, pe_managed = lo_managed lo, pe_config = cfg, pe_step = lo_step lo,
      pe_stop = lo_stop lo, pe_for_execution = True, pe_store = le_store env, pe_checkpointer = le_checkpointer env,
      pe_manager = le_manager env, pe_cache_policy = le_cache_policy env, pe_retry_policy = le_retry_policy env\<rparr>"

text \<open>The environment without store, checkpointer, manager and policies, for tasks to discard.\<close>

definition discard_env_of :: "loop_env \<Rightarrow> loop \<Rightarrow> prep_env" where
  "discard_env_of env lo = (prep_env_of env lo (lo_config lo))\<lparr>pe_store := None, pe_checkpointer := None,
     pe_manager := None, pe_cache_policy := None, pe_retry_policy := []\<rparr>"

definition exec_tasks :: "(string, prepared) dict \<Rightarrow> (string, exec_task) dict" where
  "exec_tasks ts = List.map_filter (\<lambda>(i, t). case t of XTask x \<Rightarrow> Some (i, x) | PTask _ _ _ \<Rightarrow> None) ts"

abbreviation loop_tasks :: "loop \<Rightarrow> exec_task list" where
  "loop_tasks lo \<equiv> map snd (case lo_tasks lo of Some ts \<Rightarrow> ts | None \<Rightarrow> [])"

subsection \<open>Writes of an earlier run\<close>

definition CONTROL_WRITES :: "string list" where
  "CONTROL_WRITES = [ERROR, ERROR_SOURCE_NODE, INTERRUPT, RESUME]"

definition reapply_writes :: "(string \<Rightarrow> bool) \<Rightarrow> loop \<Rightarrow> loop" where
  "reapply_writes among lo = fold (\<lambda>(t, c, v) lo.
     if c \<notin> set CONTROL_WRITES \<and> among t then set_task_writes t (\<lambda>ws. ws @ [(c, v)]) lo else lo)
     (lo_pending_writes lo) lo"

text \<open>Tasks that failed and were routed to an error handler, with the error.\<close>

definition failed_tasks :: "pending_write list \<Rightarrow> (string, val) dict" where
  "failed_tasks pws = fold (\<lambda>(t, c, _) d.
     if c = ERROR_SOURCE_NODE then
       (case find (\<lambda>(t', c', _). t' = t \<and> c' = ERROR) pws of
          Some (_, _, e) \<Rightarrow> if e \<noteq> VNone then dict_set t e d else d | None \<Rightarrow> d)
     else d) pws []"

definition add_task :: "exec_task \<Rightarrow> loop \<Rightarrow> loop" where
  "add_task t lo = lo\<lparr>lo_tasks := Some (dict_set (et_id t) t (case lo_tasks lo of Some ts \<Rightarrow> ts | None \<Rightarrow> []))\<rparr>"

definition handler_of :: "loop_env \<Rightarrow> exec_task \<Rightarrow> string option res" where
  "handler_of env t = rbind (dict_index (le_nodes env) (tw_name t)) (\<lambda>n. Inr (case pn_error_handler n of
     Some (c # h) \<Rightarrow> Some (c # h) | _ \<Rightarrow> None))"

definition resume_error_handler :: "loop_env \<Rightarrow> string \<times> val \<Rightarrow> loop \<Rightarrow> loop res" where
  "resume_error_handler env = (\<lambda>(task_id, error) lo.
     case Option.bind (lo_tasks lo) (\<lambda>ts. dict_get ts task_id) of
       None \<Rightarrow> Inr lo
     | Some task \<Rightarrow> rbind (handler_of env task) (\<lambda>h. case h of
         None \<Rightarrow> Inr lo
       | Some handler \<Rightarrow>
           (let lo = set_task_writes task_id (\<lambda>ws. ws @ [(ERROR, error)]) lo
            in rbind (prepare_error_handler (prep_env_of env lo (et_config task)) task handler error (lo_pending_writes lo))
               (\<lambda>(t, pws). let lo = lo\<lparr>lo_pending_writes := pws\<rparr>
                 in Inr (case t of Some t \<Rightarrow> add_task t lo | None \<Rightarrow> lo)))))"

definition resume_error_handlers :: "loop_env \<Rightarrow> loop \<Rightarrow> loop res" where
  "resume_error_handlers env lo = rfold (resume_error_handler env) (failed_tasks (lo_pending_writes lo)) lo"

text \<open>Cached writes of tasks that have not run; \<open>cached\<close> is what the cache holds under a key.\<close>

definition match_cached_writes :: "(string list \<times> string \<Rightarrow> chan_write list option) option \<Rightarrow> loop \<Rightarrow> loop" where
  "match_cached_writes cache lo = (case cache of
       None \<Rightarrow> lo
     | Some cached \<Rightarrow>
         fold (\<lambda>(key, t) lo. case cached key of Some ws \<Rightarrow> set_task_writes t (\<lambda>old. old @ ws) lo | None \<Rightarrow> lo)
           (dict_of (List.map_filter (\<lambda>t. case et_cache_key t of
              Some ck \<Rightarrow> if tw_writes t = [] then Some ((ck_ns ck, ck_key ck), et_id t) else None
            | None \<Rightarrow> None) (loop_tasks lo))) lo)"

subsection \<open>Tasks that start tasks\<close>

text \<open>A task that is added in the middle of a superstep gets the writes of an earlier run and cached
  writes.\<close>

definition start_task ::
  "(string list \<times> string \<Rightarrow> chan_write list option) option \<Rightarrow> exec_task \<Rightarrow> loop \<Rightarrow> exec_task option \<times> loop" where
  "start_task cache t lo =
     (let lo = add_task t lo;
          lo = (if lo_is_replaying lo then lo else reapply_writes (\<lambda>i. i = et_id t) lo);
          lo = match_cached_writes cache lo
      in (Option.bind (lo_tasks lo) (\<lambda>ts. dict_get ts (et_id t)), lo))"

text \<open>Without a call the path has a length that names no task (the call's place holds \<open>None\<close>).\<close>

definition accept_push ::
  "loop_env \<Rightarrow> (string list \<times> string \<Rightarrow> chan_write list option) option \<Rightarrow> exec_task \<Rightarrow> int \<Rightarrow> call option \<Rightarrow> loop
     \<Rightarrow> (exec_task option \<times> loop) res" where
  "accept_push env cache task idx call lo =
     rbind (checkpoint_id_bytes (lo_checkpoint lo))
     (\<lambda>idb. rbind (prepare_single_task (prep_env_of env lo (et_config task)) idb
         (checkpoint_null_version (lo_checkpoint lo))
         (case call of Some c \<Rightarrow> CallPath (tw_path task) idx (et_id task) c
          | None \<Rightarrow> TaskPath [PStr PUSH, PTup (tw_path task), PInt idx, PStr (et_id task)])
         None (lo_pending_writes lo, []))
       (\<lambda>(t, pws, _). let lo = lo\<lparr>lo_pending_writes := pws\<rparr> in case t of
           Some (XTask t) \<Rightarrow>
             Inr (start_task cache t lo)
         | _ \<Rightarrow> Inr (None, lo)))"

definition schedule_error_handler ::
  "loop_env \<Rightarrow> (string list \<times> string \<Rightarrow> chan_write list option) option \<Rightarrow> exec_task \<Rightarrow> val \<Rightarrow> loop
     \<Rightarrow> (exec_task option \<times> loop) res" where
  "schedule_error_handler env cache failed error lo =
     rbind (handler_of env failed) (\<lambda>h. case h of
         None \<Rightarrow> Inr (None, lo)
       | Some handler \<Rightarrow>
           rbind (prepare_error_handler (prep_env_of env lo (et_config failed)) failed handler error (lo_pending_writes lo))
           (\<lambda>(t, pws). let lo = lo\<lparr>lo_pending_writes := pws\<rparr> in case t of
               None \<Rightarrow> Inr (None, lo)
             | Some t \<Rightarrow>
                 Inr (start_task cache t lo)))"

subsection \<open>Supersteps\<close>

text \<open>\<open>drain\<close> is whether a drain was requested.\<close>

definition interrupted_by :: "node_filter \<Rightarrow> loop \<Rightarrow> bool" where
  "interrupted_by nodes lo \<longleftrightarrow> nodes \<noteq> Some [] \<and> should_interrupt (lo_checkpoint lo) nodes (loop_tasks lo) \<noteq> []"

definition resume_pending :: "loop_env \<Rightarrow> loop \<Rightarrow> loop res" where
  "resume_pending env lo =
     (if \<not> lo_is_replaying lo \<and> lo_pending_writes lo \<noteq> []
      then resume_error_handlers env
        (reapply_writes (\<lambda>t. in_dict t (case lo_tasks lo of Some ts \<Rightarrow> ts | None \<Rightarrow> [])) lo)
      else Inr lo)"

definition tick :: "loop_env \<Rightarrow> bool \<Rightarrow> loop \<Rightarrow> bool res \<times> loop" where
  "tick env drain lo =
     (if lo_step lo > lo_stop lo then (Inr False, lo\<lparr>lo_status := StOutOfSteps\<rparr>)
      else case prepare_next_tasks (prep_env_of env lo (lo_config lo)) (lo_updated lo)
                  (Some (le_trigger_to_nodes env)) (lo_pending_writes lo) of
        Inl e \<Rightarrow> (Inl e, lo)
      | Inr (ts, pws) \<Rightarrow>
          (let lo = lo\<lparr>lo_tasks := Some (exec_tasks ts), lo_pending_writes := pws\<rparr>
           in if exec_tasks ts = [] then (Inr False, lo\<lparr>lo_status := StDone\<rparr>)
              else if drain then (Inr False, lo\<lparr>lo_status := StDraining\<rparr>)
              else case resume_pending env lo of
                Inl e \<Rightarrow> (Inl e, lo)
              | Inr lo \<Rightarrow>
                  if interrupted_by (le_interrupt_before env) lo
                  then (Inl GraphInterrupt, lo\<lparr>lo_status := StInterruptBefore\<rparr>)
                  else (Inr True, lo)))"

definition overwritten_deltas :: "loop_env \<Rightarrow> chan_write list \<Rightarrow> string list" where
  "overwritten_deltas env ws = map fst (filter (\<lambda>(c, v). is_delta_spec env c \<and> get_overwrite v \<noteq> None) ws)"

definition delta_writes :: "loop_env \<Rightarrow> int \<Rightarrow> pending_write list \<Rightarrow> (int \<times> string \<times> string \<times> val) list" where
  "delta_writes env step pws = map (Pair step) (filter (\<lambda>(_, c, _). is_delta_spec env c) pws)"

text \<open>The superstep's writes are in the channels, nothing is pending.\<close>

definition applied_state :: "loop_env \<Rightarrow> loop \<Rightarrow> checkpoint \<times> channels \<times> string list \<Rightarrow> loop" where
  "applied_state env lo = (\<lambda>(cp, chs, updated).
     lo\<lparr>lo_checkpoint := cp, lo_channels := chs, lo_updated := Some updated,
        lo_exit_delta_writes := map_option (\<lambda>es. es @ delta_writes env (lo_step lo) (lo_pending_writes lo)) (lo_exit_delta_writes lo),
        lo_pending_writes := [], lo_is_replaying := False\<rparr>)"

definition after_tick :: "loop_env \<Rightarrow> loop \<Rightarrow> bool res \<times> loop" where
  "after_tick env lo =
     (let writes = concat (map tw_writes (loop_tasks lo));
          lo = lo\<lparr>lo_overwritten := remdups (lo_overwritten lo @ overwritten_deltas env writes)\<rparr>
      in case apply_writes (lo_checkpoint lo) (lo_channels lo) (loop_tasks lo) (Some (le_get_next_version env))
                (le_trigger_to_nodes env) of
        Inl e \<Rightarrow> (Inl e, lo)
      | Inr applied \<Rightarrow>
          (case put_checkpoint env (Some [(''source'', VStr ''loop'')]) (applied_state env lo applied) of
             Inl e \<Rightarrow> (Inl e, applied_state env lo applied)
           | Inr lo \<Rightarrow>
               if interrupted_by (le_interrupt_after env) lo
               then (Inl GraphInterrupt, lo\<lparr>lo_status := StInterruptAfter\<rparr>)
               else (Inr True, lo\<lparr>lo_config := (lo_config lo)\<lparr>cfg_configurable :=
                       AList.delete ''__pregel_resuming'' (cfg_configurable (lo_config lo))\<rparr>\<rparr>)))"

subsection \<open>Pending interrupts\<close>

fun interrupt_id_of :: "val \<Rightarrow> string res" where
  "interrupt_id_of (VList (VInterrupt _ i # _)) = Inr i"
| "interrupt_id_of (VTuple (VInterrupt _ i # _)) = Inr i"
| "interrupt_id_of (VList []) = Inl IndexError"
| "interrupt_id_of (VTuple []) = Inl IndexError"
| "interrupt_id_of _ = Inl AttributeError"

definition note_interrupt :: "pending_write \<Rightarrow> (string, string) dict \<times> string list \<Rightarrow> ((string, string) dict \<times> string list) res" where
  "note_interrupt = (\<lambda>(t, c, v) (interrupts, resumes).
     if c = INTERRUPT then rbind (interrupt_id_of v) (\<lambda>i. Inr (dict_set t i interrupts, resumes))
     else if c = RESUME then Inr (interrupts, List.insert t resumes)
     else Inr (interrupts, resumes))"

definition pending_interrupts :: "pending_write list \<Rightarrow> string list res" where
  "pending_interrupts pws =
     rbind (rfold note_interrupt pws ([], []))
       (\<lambda>(interrupts, resumes).
         let resumed = List.map_filter (dict_get interrupts) resumes
         in Inr (remdups (filter (\<lambda>i. i \<notin> set resumed) (map snd interrupts))))"

subsection \<open>The first step of a run\<close>

text \<open>The input: \<open>None\<close>, a \<open>Command\<close> (with the object as a value), or anything else.\<close>

datatype loop_input = NoInput | CommandInput command val | ValueInput val

fun input_val :: "loop_input \<Rightarrow> val" where
  "input_val NoInput = VNone"
| "input_val (CommandInput _ v) = v"
| "input_val (ValueInput v) = v"

definition same_run :: "loop \<Rightarrow> bool" where
  "same_run lo \<longleftrightarrow> dict_get (lo_metadata lo) ''run_id'' = Some (dict_get_or (cfg_metadata (lo_config lo)) ''run_id'' VNone)"

definition is_resuming :: "loop_env \<Rightarrow> loop_input \<Rightarrow> loop \<Rightarrow> bool" where
  "is_resuming env inp lo \<longleftrightarrow> cp_channel_versions (lo_checkpoint lo) \<noteq> []
     \<and> (case dict_get (cfg_configurable (lo_config lo)) ''__pregel_resuming'' of
          Some v \<Rightarrow> cval_truthy v
        | None \<Rightarrow> (case inp of ValueInput _ \<Rightarrow> \<not> le_is_nested env \<and> same_run lo | _ \<Rightarrow> True))"

definition is_time_traveling :: "loop_env \<Rightarrow> loop_input \<Rightarrow> loop \<Rightarrow> bool" where
  "is_time_traveling env inp lo \<longleftrightarrow> lo_is_replaying lo
     \<and> (le_is_nested env \<and> in_dict (conf_ns (lo_config lo)) (conf_checkpoint_map (lo_config lo))
        \<or> \<not> ((case inp of CommandInput cmd _ \<Rightarrow> cmd_resume cmd \<noteq> VNone | _ \<Rightarrow> False)
             \<or> conf_truthy (lo_config lo) ''__pregel_resuming''))"

definition is_xxh3_128_hexdigest :: "string \<Rightarrow> bool" where
  "is_xxh3_128_hexdigest s \<longleftrightarrow> length s = 32 \<and> list_all (\<lambda>c. is_hex c \<and> lower_hex c = c) s"

fun is_resume_map :: "val \<Rightarrow> bool" where
  "is_resume_map (VDict d) = list_all (is_xxh3_128_hexdigest \<circ> fst) d"
| "is_resume_map _ = False"

text \<open>The variable \<open>resume_is_map\<close> is bound only when the command has a resume value; reading it
  unbound is an \<open>UnboundLocalError\<close>.\<close>

definition read_local :: "'a option \<Rightarrow> 'a res" where
  "read_local x = (case x of Some v \<Rightarrow> Inr v | None \<Rightarrow> Inl UnboundLocalError)"

definition take_resume :: "loop_env \<Rightarrow> command \<Rightarrow> loop \<Rightarrow> (bool option \<times> loop) res" where
  "take_resume env cmd lo =
     (if cmd_resume cmd = VNone then Inr (None, lo)
      else if le_checkpointer env = None then Inl RuntimeError
      else if is_resume_map (cmd_resume cmd)
      then Inr (Some True, lo\<lparr>lo_config := patch_configurable (lo_config lo)
             [(''__pregel_resume_map'', CResumeMap (case cmd_resume cmd of VDict d \<Rightarrow> d | _ \<Rightarrow> []))]\<rparr>)
      else rbind (pending_interrupts (lo_pending_writes lo))
             (\<lambda>is. if length is > 1 then Inl RuntimeError else Inr (Some False, lo)))"

definition group_command_write :: "bool option \<Rightarrow> pending_write \<Rightarrow> (string, chan_write list) dict \<Rightarrow> (string, chan_write list) dict res" where
  "group_command_write resume_is_map = (\<lambda>(t, c, v) d.
     rbind (if c = RESUME then read_local resume_is_map else Inr False)
       (\<lambda>skip. Inr (if skip then d else dict_append t (c, v) d)))"

definition first_command :: "loop_env \<Rightarrow> command \<Rightarrow> loop \<Rightarrow> loop res" where
  "first_command env cmd lo =
     rbind (take_resume env cmd lo) (\<lambda>(resume_is_map, lo).
     rbind (map_command (le_annotated env) cmd) (\<lambda>cws.
     rbind (rfold (group_command_write resume_is_map) cws []) (\<lambda>writes.
     rbind (if writes = [] then rbind (read_local resume_is_map) (\<lambda>m. if m then Inr () else Inl EmptyInputError) else Inr ())
       (\<lambda>_. rfold (\<lambda>(t, ws). loop_put_writes env t ws) writes lo))))"

definition input_task :: "chan_write list \<Rightarrow> task_writes" where
  "input_task ws = \<lparr>tw_path = [], tw_name = INPUT, tw_writes = ws, tw_triggers = []\<rparr>"

definition apply_null_writes :: "loop_env \<Rightarrow> string list option \<times> loop \<Rightarrow> (string list option \<times> loop) res" where
  "apply_null_writes env = (\<lambda>(updated, lo).
     let null_writes = map snd (filter (\<lambda>(t, _). t = NULL_TASK_ID) (lo_pending_writes lo))
     in if null_writes = [] then Inr (updated, lo)
        else rbind (apply_writes (lo_checkpoint lo) (lo_channels lo) [input_task null_writes]
               (Some (le_get_next_version env)) (le_trigger_to_nodes env))
          (\<lambda>(cp, chs, upd). Inr (map_option (\<lambda>u. remdups (u @ upd)) updated,
             lo\<lparr>lo_checkpoint := cp, lo_channels := chs\<rparr>)))"

definition mark_interrupt_seen :: "channels \<Rightarrow> checkpoint \<Rightarrow> checkpoint" where
  "mark_interrupt_seen chs cp = cp\<lparr>cp_versions_seen := dict_set INTERRUPT
     (dict_update (dict_get_or (cp_versions_seen cp) INTERRUPT [])
        (List.map_filter (\<lambda>(k, _). map_option (Pair k) (dict_get (cp_channel_versions cp) k)) chs))
     (cp_versions_seen cp)\<rparr>"

text \<open>Whether the checkpoint the run starts from was made by an update or is a fork already.\<close>

definition from_update :: "loop \<Rightarrow> bool" where
  "from_update lo \<longleftrightarrow> dict_get (lo_metadata lo) ''source'' \<in> {Some (VStr ''update''), Some (VStr ''fork'')}"

definition first_resume :: "loop_env \<Rightarrow> bool \<Rightarrow> loop \<Rightarrow> loop res" where
  "first_resume env time_traveling lo =
     (let lo = lo\<lparr>lo_checkpoint := mark_interrupt_seen (lo_channels lo) (lo_checkpoint lo)\<rparr>
      in if time_traveling \<and> \<not> from_update lo
         then put_checkpoint env (Some [(''source'', VStr ''fork'')])
                (lo\<lparr>lo_pending_writes := filter (\<lambda>(_, c, _). c \<noteq> INTERRUPT) (lo_pending_writes lo)\<rparr>)
         else Inr lo)"

text \<open>The state after the input is applied, with what an exit run saves of it; and the input to delta
  channels as writes, for a run that saves as it goes.\<close>

definition input_state :: "loop_env \<Rightarrow> chan_write list \<Rightarrow> loop \<Rightarrow> checkpoint \<Rightarrow> channels \<Rightarrow> loop" where
  "input_state env ws lo cp chs = lo\<lparr>lo_checkpoint := cp, lo_channels := chs,
     lo_exit_delta_writes := map_option (\<lambda>es. es @ delta_writes env (lo_step lo) (map (Pair NULL_TASK_ID) ws))
       (lo_exit_delta_writes lo)\<rparr>"

definition save_delta_input :: "loop_env \<Rightarrow> chan_write list \<Rightarrow> loop \<Rightarrow> loop res" where
  "save_delta_input env ws lo =
     (let delta_input = filter (\<lambda>(c, _). is_delta_spec env c) ws
      in if le_durability env \<noteq> DExit \<and> delta_input \<noteq> [] then loop_put_writes env NULL_TASK_ID delta_input lo else Inr lo)"

definition first_input :: "loop_env \<Rightarrow> chan_write list \<Rightarrow> string list option \<times> loop \<Rightarrow> (string list option \<times> loop) res" where
  "first_input env ws = (\<lambda>(updated, lo).
     rbind (prepare_next_tasks (discard_env_of env lo) updated None (lo_pending_writes lo))
     (\<lambda>(discard, pws).
       let lo = lo\<lparr>lo_pending_writes := pws, lo_overwritten := remdups (lo_overwritten lo @ overwritten_deltas env ws)\<rparr>
       in rbind (apply_writes (lo_checkpoint lo) (lo_channels lo)
            (map (task_writes.truncate \<circ> snd) (exec_tasks discard) @ [input_task ws])
            (Some (le_get_next_version env)) (le_trigger_to_nodes env))
       (\<lambda>(cp, chs, upd). rbind (save_delta_input env ws (input_state env ws lo cp chs))
       (\<lambda>lo. rbind (put_checkpoint env (Some [(''source'', VStr ''input'')]) (lo\<lparr>lo_updated := Some upd\<rparr>))
       (\<lambda>lo. Inr (Some upd, lo))))))"

definition first_proceed ::
  "loop_env \<Rightarrow> loop_input \<Rightarrow> bool \<Rightarrow> bool \<Rightarrow> string list option \<times> loop \<Rightarrow> (string list option \<times> loop) res" where
  "first_proceed env inp resuming time_traveling = (\<lambda>(updated, lo).
     if resuming then rbind (first_resume env time_traveling lo) (\<lambda>lo. Inr (updated, lo))
     else rbind (map_input (le_input_keys env) (input_val inp))
       (\<lambda>ws. if ws \<noteq> [] then first_input env ws (updated, lo)
             else if in_dict ''__pregel_resuming'' (cfg_configurable (lo_config lo)) then Inr (updated, lo)
             else Inl EmptyInputError))"

text \<open>The flags that subgraphs read, the status and the event.\<close>

definition replay_id :: "loop \<Rightarrow> string" where
  "replay_id lo = (case (from_update lo, lo_prev_config lo) of
       (True, Some c) \<Rightarrow> (case conf_str c ''checkpoint_id'' of Some i \<Rightarrow> i | None \<Rightarrow> cp_id (lo_checkpoint lo))
     | _ \<Rightarrow> cp_id (lo_checkpoint lo))"

definition push_event :: "(status \<Rightarrow> string \<Rightarrow> string list \<Rightarrow> lifecycle_event) \<Rightarrow> loop \<Rightarrow> loop res" where
  "push_event mk lo = (if lo_status lo = StDraining then Inl RuntimeError
     else Inr (lo\<lparr>lo_events := lo_events lo @ [mk (lo_status lo) (cp_id (lo_checkpoint lo)) (lo_checkpoint_ns lo)]\<rparr>))"

definition first_finish :: "loop_env \<Rightarrow> bool \<Rightarrow> bool \<Rightarrow> loop \<Rightarrow> loop res" where
  "first_finish env resuming time_traveling lo =
     (let lo = (if le_is_nested env then lo
                else lo\<lparr>lo_config := patch_configurable (lo_config lo)
                  [(''__pregel_resuming'', CBool resuming),
                   (''__pregel_replay_state'', if time_traveling then CReplay (replay_id lo) else CNone)]\<rparr>);
          lo = lo\<lparr>lo_status := StPending\<rparr>
      in if resuming then push_event ResumeEvent lo else Inr lo)"

definition first :: "loop_env \<Rightarrow> loop_input \<Rightarrow> string list option \<Rightarrow> loop \<Rightarrow> (string list option \<times> loop) res" where
  "first env inp updated lo =
     (let resuming = is_resuming env inp lo;
          time_traveling = is_time_traveling env inp lo;
          lo = (if time_traveling
                then lo\<lparr>lo_pending_writes := filter (\<lambda>(_, c, _). c \<noteq> RESUME) (lo_pending_writes lo)\<rparr> else lo)
      in rbind (case inp of CommandInput cmd _ \<Rightarrow> first_command env cmd lo | _ \<Rightarrow> Inr lo)
      (\<lambda>lo. rbind (apply_null_writes env (updated, lo))
      (\<lambda>(updated, lo). rbind
         (first_proceed env inp resuming time_traveling (updated, lo))
       (\<lambda>(updated, lo). rbind (first_finish env resuming time_traveling lo) (\<lambda>lo. Inr (updated, lo))))))"

subsection \<open>Entering and leaving a run\<close>

definition meta_step :: "metadata \<Rightarrow> int res" where
  "meta_step md = (case dict_get md ''step'' of Some (VInt i) \<Rightarrow> Inr i | Some _ \<Rightarrow> Inl TypeError | None \<Rightarrow> Inl KeyError)"

text \<open>A subgraph that is replayed applies its input again.\<close>

definition enter_config :: "loop_env \<Rightarrow> config \<Rightarrow> config \<Rightarrow> config" where
  "enter_config env ccfg cfg =
     (if le_checkpointer env \<noteq> None \<and> \<not> conf_truthy ccfg ''checkpoint_id'' \<and> conf_truthy cfg ''__pregel_replay_state''
      then cfg\<lparr>cfg_configurable := AList.delete ''__pregel_resuming'' (cfg_configurable cfg)\<rparr> else cfg)"

text \<open>What the saver returned, or an empty checkpoint; the configuration with what is in the tuple's.\<close>

definition loaded_tuple :: "loop_env \<Rightarrow> config \<Rightarrow> checkpoint_tuple option \<Rightarrow> checkpoint_tuple" where
  "loaded_tuple env ccfg saved = (case (if le_checkpointer env = None then None else saved) of
       Some t \<Rightarrow> t
     | None \<Rightarrow> \<lparr>ct_config = ccfg, ct_checkpoint = empty_checkpoint (le_uuid env 0) (le_now env 0),
         ct_metadata = [(''step'', VInt (- 2))], ct_parent_config = None, ct_pending_writes = []\<rparr>)"

definition loaded_config :: "config \<Rightarrow> checkpoint_tuple \<Rightarrow> config" where
  "loaded_config ccfg tup = ccfg\<lparr>cfg_configurable :=
     dict_update (dict_update [(''checkpoint_ns'', CStr [])] (cfg_configurable ccfg)) (cfg_configurable (ct_config tup))\<rparr>"

definition entered_state ::
  "loop_env \<Rightarrow> config \<Rightarrow> config \<Rightarrow> config \<Rightarrow> bool \<Rightarrow> checkpoint_tuple \<Rightarrow> channels \<Rightarrow> managed_map \<Rightarrow> int \<Rightarrow> loop" where
  "entered_state env cfg0 cfg ccfg persisted tup chs managed step =
     \<lparr>lo_config = cfg, lo_step = step + 1, lo_stop = step + 1 + le_recursion_limit env + 1,
      lo_is_replaying = in_dict ''checkpoint_id'' (cfg_configurable cfg0),
      lo_channels = chs, lo_managed = managed, lo_checkpoint = ct_checkpoint tup, lo_checkpoint_id_saved = cp_id (ct_checkpoint tup),
      lo_checkpoint_ns = ns_parts cfg, lo_checkpoint_config = ccfg, lo_metadata = ct_metadata tup,
      lo_pending_writes = ct_pending_writes tup, lo_previous_versions = cp_channel_versions (ct_checkpoint tup),
      lo_prev_config = ct_parent_config tup, lo_initial_config = ccfg, lo_has_persisted_parent = persisted,
      lo_exit_delta_writes = (if le_durability env = DExit \<and> le_checkpointer env \<noteq> None then Some [] else None),
      lo_overwritten = [], lo_status = StInput, lo_tasks = None, lo_updated = None, lo_events = [],
      lo_saves = [], lo_drawn = 1\<rparr>"

text \<open>\<open>saved\<close> is what the saver returned for the configuration, \<open>history\<close> its delta histories.\<close>

definition enter ::
  "loop_env \<Rightarrow> config \<Rightarrow> checkpoint_tuple option \<Rightarrow> (config \<Rightarrow> string list \<Rightarrow> (string, history) dict res) \<Rightarrow> loop_input
     \<Rightarrow> loop res" where
  "enter env cfg0 saved history inp =
     rbind (init_config env cfg0) (\<lambda>cfg.
       let ccfg = init_checkpoint_config cfg;
           cfg = enter_config env ccfg cfg;
           tup = loaded_tuple env ccfg saved;
           ccfg = loaded_config ccfg tup;
           cp = ct_checkpoint tup
       in rbind (channels_from_checkpoint (le_specs env) cp
            (if le_checkpointer env = None then None else Some (history ccfg)))
       (\<lambda>(chs, managed). rbind (meta_step (ct_metadata tup))
       (\<lambda>step. rbind (first env inp (case cp_updated_channels cp of Some (u # us) \<Rightarrow> Some (u # us) | _ \<Rightarrow> None)
          (entered_state env cfg0 cfg ccfg (le_checkpointer env \<noteq> None \<and> saved \<noteq> None) tup chs managed step))
       (\<lambda>(updated, lo). Inr (lo\<lparr>lo_updated := updated\<rparr>)))))"

text \<open>The exception that ends the run: none, \<open>GraphInterrupt\<close> with its interrupts, or another. The
  result is the output, if the run has one, whether the exception is suppressed, and the state.\<close>

datatype run_exit = NoError | Interrupts "val list" | OtherError

definition exit_saves :: "loop_env \<Rightarrow> run_exit \<Rightarrow> loop \<Rightarrow> loop res" where
  "exit_saves env ex lo =
     (if le_durability env = DExit \<and> (\<not> le_is_nested env \<or> ex \<noteq> NoError
         \<or> list_all (\<lambda>part. CHR '':'' \<notin> set part) (lo_checkpoint_ns lo))
      then rbind (put_exit_delta_writes env lo) (\<lambda>lo. rbind (put_checkpoint env None lo)
             (\<lambda>lo. Inr (put_pending_writes env lo)))
      else Inr lo)"

definition leave :: "loop_env \<Rightarrow> run_exit \<Rightarrow> loop \<Rightarrow> (val option \<times> bool \<times> loop) res" where
  "leave env ex lo =
     rbind (exit_saves env ex lo) (\<lambda>lo.
       case ex of
         Interrupts is \<Rightarrow>
           if le_is_nested env then Inr (None, False, lo)
           else rbind (push_event (\<lambda>s i ns. InterruptEvent s i ns is) lo) (\<lambda>lo.
             rbind (if lo_pending_writes lo \<noteq> [] \<and> (\<exists>t \<in> set (loop_tasks lo). tw_writes t \<noteq> [])
                    then rbind (apply_writes (lo_checkpoint lo) (lo_channels lo) (loop_tasks lo)
                           (Some (le_get_next_version env)) (le_trigger_to_nodes env))
                         (\<lambda>(cp, chs, _). Inr (lo\<lparr>lo_checkpoint := cp, lo_channels := chs\<rparr>))
                    else Inr lo)
             (\<lambda>lo. rbind (read_channels (lo_channels lo) (le_output_keys env) True) (\<lambda>out. Inr (Some out, True, lo))))
       | NoError \<Rightarrow> rbind (read_channels (lo_channels lo) (le_output_keys env) True) (\<lambda>out. Inr (Some out, False, lo))
       | OtherError \<Rightarrow> Inr (None, False, lo))"

end
