(* ===== verification/Run.thy ===== *)
theory Run
  imports Loop
begin

section \<open>A run of the graph (pregel/main.py, pregel/_runner.py)\<close>

text \<open>
  The body of \<open>Pregel.stream\<close>: supersteps until \<open>tick\<close> has no more work or something raises, then
  the exit of the loop's context and the exceptions for a run that ran out of steps or was drained.
  While the tasks of a superstep run, the runner changes the loop by the operations of
  \<open>runner_step\<close> only; the tasks themselves are the user's code, so a whole round of the runner is an
  argument that may do any number of these. The bound of the supersteps is proved from the
  recursion limit.
\<close>

subsection \<open>What the runner does to the loop\<close>

type_synonym write_cache = "(string list \<times> string \<Rightarrow> chan_write list option) option"

text \<open>An attempt at a task clears its writes; a task adds to its writes, ends, starts another task, has its error handler scheduled; cached
  writes are matched.\<close>

definition known_task :: "loop \<Rightarrow> exec_task \<Rightarrow> bool" where
  "known_task lo t \<longleftrightarrow> (case lo_tasks lo of Some ts \<Rightarrow> in_dict (et_id t) ts | None \<Rightarrow> False)"

inductive runner_step ::
  "loop_env \<Rightarrow> string list \<Rightarrow> string list \<Rightarrow> write_cache \<Rightarrow> loop \<Rightarrow> loop \<Rightarrow> bool"
  for env error_nodes handled cache where
  step_write: "runner_step env error_nodes handled cache lo (set_task_writes i (\<lambda>old. old @ ws) lo)"
| step_clear: "runner_step env error_nodes handled cache lo (set_task_writes i (\<lambda>_. []) lo)"
| step_commit: "known_task lo t \<Longrightarrow> commit_task env error_nodes handled t out lo = Inr lo' \<Longrightarrow>
    runner_step env error_nodes handled cache lo lo'"
| step_push: "known_task lo t \<Longrightarrow> accept_push env cache t idx c lo = Inr (new, lo') \<Longrightarrow>
    runner_step env error_nodes handled cache lo lo'"
| step_handler: "known_task lo t \<Longrightarrow> schedule_error_handler env cache t e lo = Inr (new, lo') \<Longrightarrow>
    runner_step env error_nodes handled cache lo lo'"
| step_cached: "runner_step env error_nodes handled cache lo (match_cached_writes cache lo)"

inductive superstep ::
  "loop_env \<Rightarrow> string list \<Rightarrow> string list \<Rightarrow> write_cache \<Rightarrow> loop \<Rightarrow> loop \<Rightarrow> bool"
  for env error_nodes handled cache where
  step: "tick env drain lo = (Inr True, lo1) \<Longrightarrow> (runner_step env error_nodes handled cache)\<^sup>*\<^sup>* lo1 lo2 \<Longrightarrow>
    after_tick env lo2 = (Inr True, lo') \<Longrightarrow> superstep env error_nodes handled cache lo lo'"

subsection \<open>The loop of \<open>stream\<close>\<close>

text \<open>An exception with its interrupts, which are empty unless it is a \<open>GraphInterrupt\<close>.\<close>

type_synonym raised = "(err \<times> val list) option"

type_synonym round = "loop \<Rightarrow> raised \<times> loop"

partial_function (option) run_loop :: "loop_env \<Rightarrow> (loop \<Rightarrow> bool) \<Rightarrow> round \<Rightarrow> loop \<Rightarrow> (raised \<times> loop) option" where
  "run_loop env drained runner lo =
     (case tick env (drained lo) lo of
        (Inl e, lo) \<Rightarrow> Some (Some (e, []), lo)
      | (Inr go, lo) \<Rightarrow>
          if \<not> go then Some (None, lo)
          else (case runner lo of
              (Some e, lo) \<Rightarrow> Some (Some e, lo)
            | (None, lo) \<Rightarrow>
                (case after_tick env lo of
                   (Inl e, lo) \<Rightarrow> Some (Some (e, []), lo)
                 | (Inr _, lo) \<Rightarrow> run_loop env drained runner lo)))"

declare run_loop.simps [code]

fun exit_of :: "raised \<Rightarrow> run_exit" where
  "exit_of None = NoError"
| "exit_of (Some (GraphInterrupt, is)) = Interrupts is"
| "exit_of (Some (e, _)) = OtherError"

definition finish_run :: "loop_env \<Rightarrow> raised \<Rightarrow> loop \<Rightarrow> (val option \<times> loop) res" where
  "finish_run env raised lo =
     rbind (leave env (exit_of raised) lo) (\<lambda>(out, suppressed, lo).
       if raised \<noteq> None \<and> \<not> suppressed then Inl (fst (the raised))
       else if lo_status lo = StOutOfSteps then Inl GraphRecursionError
       else if lo_status lo = StDraining then Inl GraphDrained
       else Inr (out, lo))"

definition stream_run ::
  "loop_env \<Rightarrow> config \<Rightarrow> checkpoint_tuple option \<Rightarrow> (config \<Rightarrow> string list \<Rightarrow> (string, history) dict res) \<Rightarrow> loop_input
     \<Rightarrow> (loop \<Rightarrow> bool) \<Rightarrow> round \<Rightarrow> (val option \<times> loop) res option" where
  "stream_run env cfg saved history inp drained runner =
     (case enter env cfg saved history inp of
        Inl e \<Rightarrow> Some (Inl e)
      | Inr lo \<Rightarrow> (case run_loop env drained runner lo of
            None \<Rightarrow> None
          | Some (raised, lo) \<Rightarrow> Some (finish_run env raised lo)))"

section \<open>What the steps change\<close>

text \<open>The runner touches the tasks, the pending writes, the saves and the number of draws only.\<close>

definition runner_frame :: "loop \<Rightarrow> loop \<Rightarrow> bool" where
  "runner_frame lo lo' \<longleftrightarrow> lo'\<lparr>lo_tasks := None, lo_pending_writes := [], lo_saves := [], lo_drawn := 0\<rparr>
     = lo\<lparr>lo_tasks := None, lo_pending_writes := [], lo_saves := [], lo_drawn := 0\<rparr>"

lemma runner_frame_refl [simp]: "runner_frame lo lo"
  by (simp add: runner_frame_def)

lemma runner_frame_trans: "runner_frame a b \<Longrightarrow> runner_frame b c \<Longrightarrow> runner_frame a c"
  by (simp add: runner_frame_def)

lemma runner_frameI [simp]:
  "runner_frame lo (lo'\<lparr>lo_tasks := ts\<rparr>) = runner_frame lo lo'"
  "runner_frame lo (lo'\<lparr>lo_pending_writes := pws\<rparr>) = runner_frame lo lo'"
  "runner_frame lo (lo'\<lparr>lo_saves := ss\<rparr>) = runner_frame lo lo'"
  "runner_frame lo (lo'\<lparr>lo_drawn := n\<rparr>) = runner_frame lo lo'"
  by (simp_all add: runner_frame_def)

lemma runner_frameD:
  assumes "runner_frame lo lo'"
  shows "lo_step lo' = lo_step lo" "lo_stop lo' = lo_stop lo" "lo_channels lo' = lo_channels lo"
    "lo_checkpoint lo' = lo_checkpoint lo" "lo_checkpoint_config lo' = lo_checkpoint_config lo"
    "lo_config lo' = lo_config lo" "lo_previous_versions lo' = lo_previous_versions lo"
    "lo_metadata lo' = lo_metadata lo" "lo_status lo' = lo_status lo" "lo_is_replaying lo' = lo_is_replaying lo"
    "lo_managed lo' = lo_managed lo" "lo_updated lo' = lo_updated lo" "lo_overwritten lo' = lo_overwritten lo"
  using assms unfolding runner_frame_def
  by (cases lo; cases lo'; simp)+

lemma set_task_writes_frame [simp]: "runner_frame lo (set_task_writes i f lo') = runner_frame lo lo'"
  by (simp add: set_task_writes_def)

lemma add_task_frame [simp]: "runner_frame lo (add_task t lo') = runner_frame lo lo'"
  by (simp add: add_task_def)

lemma submit_writes_frame [simp]: "runner_frame lo (submit_writes env cfg ws t path lo') = runner_frame lo lo'"
  by (simp add: submit_writes_def)

lemma put_stamped_frame [simp]: "runner_frame lo (put_stamped env t ws lo') = runner_frame lo lo'"
  by (simp add: put_stamped_def Let_def)

lemma put_writes_frame: "loop_put_writes env t ws lo = Inr lo' \<Longrightarrow> runner_frame lo lo'"
  by (auto simp: loop_put_writes_def rbind_Inr_iff split: if_splits)

lemma store_task_writes_frame: "store_task_writes env t ws lo = Inr lo' \<Longrightarrow> runner_frame lo lo'"
  by (auto simp: store_task_writes_def rbind_Inr_iff)

lemma commit_task_frame: "commit_task env ehs handled t out lo = Inr lo' \<Longrightarrow> runner_frame lo lo'"
  by (auto simp: commit_task_def Let_def split: outcome.splits if_splits dest: put_writes_frame store_task_writes_frame)

lemma fold_frame: "(\<And>x lo'. runner_frame lo lo' \<Longrightarrow> runner_frame lo (f x lo')) \<Longrightarrow> runner_frame lo lo' \<Longrightarrow> runner_frame lo (fold f xs lo')"
  by (induction xs arbitrary: lo') auto

lemma reapply_writes_frame: "runner_frame lo lo' \<Longrightarrow> runner_frame lo (reapply_writes among lo')"
  unfolding reapply_writes_def by (rule fold_frame) (auto split: prod.splits)

lemma match_cached_frame: "runner_frame lo lo' \<Longrightarrow> runner_frame lo (match_cached_writes cache lo')"
  unfolding match_cached_writes_def
  by (cases cache) (auto intro!: fold_frame split: prod.splits option.splits)

lemma start_task_frame: "start_task cache t lo = (new, lo') \<Longrightarrow> runner_frame lo lo'"
  by (auto simp: start_task_def Let_def intro!: match_cached_frame reapply_writes_frame)

lemma start_task_frame_pws: "start_task cache t (lo\<lparr>lo_pending_writes := pws\<rparr>) = (new, lo') \<Longrightarrow> runner_frame lo lo'"
  by (drule start_task_frame) (simp add: runner_frame_def)

lemma accept_push_frame:
  assumes "accept_push env cache t idx c lo = Inr (new, lo')"
  shows "runner_frame lo lo'"
proof -
  from assms obtain x pws where "(case x of Some (XTask t) \<Rightarrow> Inr (start_task cache t (lo\<lparr>lo_pending_writes := pws\<rparr>))
      | _ \<Rightarrow> Inr (None, lo\<lparr>lo_pending_writes := pws\<rparr>)) = (Inr (new, lo') :: _ res)"
    by (auto simp: accept_push_def rbind_Inr_iff Let_def)
  then show ?thesis by (cases x; cases "the x") (auto intro: start_task_frame_pws)
qed

lemma schedule_handler_frame: "schedule_error_handler env cache t e lo = Inr (new, lo') \<Longrightarrow> runner_frame lo lo'"
  by (auto simp: schedule_error_handler_def rbind_Inr_iff Let_def split: option.split_asm) (erule start_task_frame_pws)

lemma runner_step_frame: "runner_step env ehs handled cache lo lo' \<Longrightarrow> runner_frame lo lo'"
  by (erule runner_step.cases)
    (auto intro: match_cached_frame dest: commit_task_frame accept_push_frame schedule_handler_frame)

lemma runner_steps_frame: "(runner_step env ehs handled cache)\<^sup>*\<^sup>* lo lo' \<Longrightarrow> runner_frame lo lo'"
  by (induction rule: rtranclp_induct) (auto intro: runner_frame_trans runner_step_frame)

lemma resume_handler_frame: "resume_error_handler env x lo = Inr lo' \<Longrightarrow> runner_frame lo lo'"
  by (cases x) (auto simp: resume_error_handler_def rbind_Inr_iff Let_def split: option.splits)

lemma resume_pending_frame:
  assumes "resume_pending env lo = Inr lo'"
  shows "runner_frame lo lo'"
proof -
  have "rfold (resume_error_handler env) xs a = Inr b \<Longrightarrow> runner_frame lo a \<Longrightarrow> runner_frame lo b" for xs a b
    by (erule rfold_invariant) (auto intro: runner_frame_trans dest: resume_handler_frame)
  then show ?thesis using assms reapply_writes_frame [OF runner_frame_refl]
    by (simp add: resume_pending_def resume_error_handlers_def split: if_splits)
qed

section \<open>The supersteps are bounded\<close>

lemma tick_True:
  assumes "tick env drain lo = (Inr True, lo')"
  shows "runner_frame lo lo'" "lo_step lo \<le> lo_stop lo"
proof -
  from assms show "lo_step lo \<le> lo_stop lo"
    by (auto simp: tick_def split: if_splits)
  from assms obtain ts pws where "resume_pending env (lo\<lparr>lo_tasks := ts, lo_pending_writes := pws\<rparr>) = Inr lo'"
    by (auto simp: tick_def Let_def split: if_splits sum.splits)
  then show "runner_frame lo lo'"
    by (drule_tac resume_pending_frame) (simp add: runner_frame_def)
qed

lemma put_checkpoint_Some:
  assumes "put_checkpoint env (Some md) lo = Inr lo'"
  shows "lo_step lo' = lo_step lo + 1" "lo_stop lo' = lo_stop lo" "lo_channels lo' = lo_channels lo"
    "lo_config lo' = lo_config lo" "lo_updated lo' = lo_updated lo" "lo_pending_writes lo' = lo_pending_writes lo"
    "lo_tasks lo' = lo_tasks lo"
  using assms by (auto simp: put_checkpoint_def Let_def rbind_Inr_iff save_checkpoint_def split: if_splits)

lemma put_checkpoint_counts: "put_checkpoint env (Some md) lo = Inr lo' \<Longrightarrow> lo_step lo' = lo_step lo + 1 \<and> lo_stop lo' = lo_stop lo"
  by (simp add: put_checkpoint_Some(1,2))

lemma applied_state_simps [simp]:
  "lo_step (applied_state env lo r) = lo_step lo" "lo_stop (applied_state env lo r) = lo_stop lo"
  "lo_channels (applied_state env lo r) = fst (snd r)" "lo_checkpoint (applied_state env lo r) = fst r"
  "lo_updated (applied_state env lo r) = Some (snd (snd r))" "lo_pending_writes (applied_state env lo r) = []"
  "lo_config (applied_state env lo r) = lo_config lo" "lo_checkpoint_config (applied_state env lo r) = lo_checkpoint_config lo"
  "lo_previous_versions (applied_state env lo r) = lo_previous_versions lo" "lo_saves (applied_state env lo r) = lo_saves lo"
  "lo_tasks (applied_state env lo r) = lo_tasks lo" "lo_metadata (applied_state env lo r) = lo_metadata lo"
  by (simp_all add: applied_state_def split: prod.splits)

text \<open>When \<open>after_tick\<close> gets past \<open>apply_writes\<close> and the checkpoint, whether it then interrupts or not.\<close>

lemma after_tick_cases:
  assumes "after_tick env lo = (r, lo')" "r = Inr b \<or> lo_status lo' = StInterruptAfter \<and> lo_status lo \<noteq> StInterruptAfter"
  obtains applied lo1 where
    "apply_writes (lo_checkpoint lo) (lo_channels lo) (loop_tasks lo) (Some (le_get_next_version env)) (le_trigger_to_nodes env) = Inr applied"
    "put_checkpoint env (Some [(''source'', VStr ''loop'')])
       (applied_state env (lo\<lparr>lo_overwritten := remdups (lo_overwritten lo @ overwritten_deltas env (concat (map tw_writes (loop_tasks lo))))\<rparr>) applied)
     = Inr lo1"
    "lo' = (if isl r then lo1\<lparr>lo_status := StInterruptAfter\<rparr>
            else lo1\<lparr>lo_config := (lo_config lo1)\<lparr>cfg_configurable := AList.delete ''__pregel_resuming'' (cfg_configurable (lo_config lo1))\<rparr>\<rparr>)"
  using assms by (auto simp: after_tick_def Let_def applied_state_def split: sum.splits if_splits prod.splits)

lemma after_tick_True:
  assumes "after_tick env lo = (Inr b, lo')"
  shows "lo_step lo' = lo_step lo + 1 \<and> lo_stop lo' = lo_stop lo"
  by (rule after_tick_cases [OF assms, of b]) (auto dest!: put_checkpoint_counts)

lemma superstep_counts:
  assumes "superstep env ehs handled cache lo lo'"
  shows "lo_step lo' = lo_step lo + 1 \<and> lo_stop lo' = lo_stop lo \<and> lo_step lo \<le> lo_stop lo"
  using assms
proof cases
  case (step drain lo1 lo2)
  then show ?thesis
    using tick_True [OF step(1)] runner_frameD(1,2) [OF runner_steps_frame [OF step(2)]]
      runner_frameD(1,2) [of lo lo1] after_tick_True [OF step(3)] by simp
qed

lemma supersteps_count:
  assumes "(superstep env ehs handled cache ^^ n) lo lo'"
  shows "lo_step lo' = lo_step lo + int n \<and> lo_stop lo' = lo_stop lo \<and> (n > 0 \<longrightarrow> lo_step lo' \<le> lo_stop lo + 1)"
  using assms
proof (induction n arbitrary: lo')
  case (Suc n)
  then obtain b where "(superstep env ehs handled cache ^^ n) lo b" "superstep env ehs handled cache b lo'" by auto
  with Suc.IH [of b] superstep_counts [of env ehs handled cache b lo'] show ?case by auto
qed simp

subsection \<open>Entering a run\<close>

definition steps_kept :: "loop \<Rightarrow> loop \<Rightarrow> bool" where
  "steps_kept lo lo' \<longleftrightarrow> lo_stop lo' = lo_stop lo \<and> lo_step lo \<le> lo_step lo'"

lemma steps_kept_trans: "steps_kept a b \<Longrightarrow> steps_kept b c \<Longrightarrow> steps_kept a c"
  by (simp add: steps_kept_def)

lemma put_writes_steps: "loop_put_writes env t ws lo = Inr lo' \<Longrightarrow> steps_kept lo lo'"
  by (drule put_writes_frame) (simp add: steps_kept_def runner_frameD)

lemma put_checkpoint_steps: "put_checkpoint env (Some md) lo = Inr lo' \<Longrightarrow> steps_kept lo lo'"
  by (drule put_checkpoint_counts) (simp add: steps_kept_def)

lemma first_command_steps:
  assumes "first_command env cmd lo = Inr lo'"
  shows "steps_kept lo lo'"
proof -
  obtain m lo1 ws where lo1: "take_resume env cmd lo = Inr (m, lo1)" "rfold (\<lambda>(t, ws). loop_put_writes env t ws) ws lo1 = Inr lo'"
    using assms by (auto simp: first_command_def rbind_Inr_iff)
  have "steps_kept lo lo1" using lo1(1)
    by (auto simp: take_resume_def rbind_Inr_iff steps_kept_def split: if_splits)
  with lo1(2) show ?thesis by (rule rfold_invariant) (auto intro: steps_kept_trans dest: put_writes_steps)
qed

lemma apply_null_steps: "apply_null_writes env (u, lo) = Inr (u', lo') \<Longrightarrow> steps_kept lo lo'"
  by (auto simp: apply_null_writes_def Let_def rbind_Inr_iff steps_kept_def split: if_splits)

lemma first_resume_steps: "first_resume env tt lo = Inr lo' \<Longrightarrow> steps_kept lo lo'"
  by (auto simp: first_resume_def Let_def steps_kept_def split: if_splits dest!: put_checkpoint_counts)

lemma first_input_steps: "first_input env ws (u, lo) = Inr (u', lo') \<Longrightarrow> steps_kept lo lo'"
  by (auto simp: first_input_def save_delta_input_def Let_def rbind_Inr_iff split: if_splits
      dest!: put_checkpoint_steps put_writes_steps) (simp_all add: steps_kept_def input_state_def)

lemma first_proceed_steps: "first_proceed env inp r tt (u, lo) = Inr (u', lo') \<Longrightarrow> steps_kept lo lo'"
  by (auto simp: first_proceed_def rbind_Inr_iff split: if_splits dest!: first_resume_steps first_input_steps)
    (simp add: steps_kept_def)

lemma first_finish_steps: "first_finish env r tt lo = Inr lo' \<Longrightarrow> steps_kept lo lo'"
  by (auto simp: first_finish_def push_event_def Let_def steps_kept_def split: if_splits)

lemma first_steps:
  assumes "first env inp u lo = Inr (u', lo')"
  shows "steps_kept lo lo'"
proof -
  let ?lo = "if is_time_traveling env inp lo then lo\<lparr>lo_pending_writes := filter (\<lambda>(_, c, _). c \<noteq> RESUME) (lo_pending_writes lo)\<rparr> else lo"
  from assms obtain lo1 u2 lo2 u3 lo3 where
    1: "(case inp of CommandInput cmd _ \<Rightarrow> first_command env cmd ?lo | _ \<Rightarrow> Inr ?lo) = Inr lo1" and
    2: "apply_null_writes env (u, lo1) = Inr (u2, lo2)" and
    3: "first_proceed env inp (is_resuming env inp lo) (is_time_traveling env inp lo) (u2, lo2) = Inr (u3, lo3)" and
    4: "first_finish env (is_resuming env inp lo) (is_time_traveling env inp lo) lo3 = Inr lo'"
    by (auto simp: first_def Let_def rbind_Inr_iff)
  have "steps_kept lo ?lo" by (simp add: steps_kept_def)
  moreover have "steps_kept ?lo lo1"
    using 1 first_command_steps [of env _ ?lo lo1] by (cases inp) (simp_all add: steps_kept_def)
  ultimately show ?thesis
    using apply_null_steps [OF 2] first_proceed_steps [OF 3] first_finish_steps [OF 4] by (blast intro: steps_kept_trans)
qed

lemma enter_steps:
  assumes "enter env cfg saved history inp = Inr lo"
  shows "lo_stop lo \<le> lo_step lo + le_recursion_limit env + 1"
  using assms by (auto simp: enter_def Let_def rbind_Inr_iff dest!: first_steps) (simp_all add: steps_kept_def entered_state_def)

text \<open>A run of \<open>stream\<close> with a runner that does any number of the runner's steps.\<close>

definition proper_round :: "loop_env \<Rightarrow> string list \<Rightarrow> string list \<Rightarrow> write_cache \<Rightarrow> round \<Rightarrow> bool" where
  "proper_round env error_nodes handled cache runner \<longleftrightarrow>
     (\<forall>lo. (runner_step env error_nodes handled cache)\<^sup>*\<^sup>* lo (snd (runner lo)))"

section \<open>An example\<close>

text \<open>A graph of two nodes: \<open>n1\<close> reads \<open>a\<close> and writes \<open>b\<close>, \<open>n2\<close> reads \<open>b\<close>.\<close>

definition ex_loop_env :: loop_env where
  "ex_loop_env = \<lparr>le_nodes = [(''n1'', ex_node ''a''), (''n2'', ex_node ''b'')],
     le_specs = [(''a'', ChannelSpec (LastValue \<lparr>lv_key = ''a'', lv_value = None\<rparr>)),
                 (''b'', ChannelSpec (LastValue \<lparr>lv_key = ''b'', lv_value = None\<rparr>))],
     le_input_keys = One ''a'', le_output_keys = One ''b'', le_trigger_to_nodes = [(''a'', [''n1'']), (''b'', [''n2''])],
     le_durability = DSync, le_interrupt_before = Some [], le_interrupt_after = Some [], le_retry_policy = [],
     le_cache_policy = None, le_store = None, le_checkpointer = Some 0, le_manager = None, le_is_nested = False,
     le_accepts_task_path = True, le_get_next_version = base_get_next_version,
     le_sha1 = (\<lambda>s. replicate 32 (CHR ''0'')), le_xxh3 = (\<lambda>s. replicate 32 (CHR ''1'')), le_recursion_limit = 25,
     le_snapshot_bound = 5000, le_uuid = (\<lambda>n. uuid_groups (replicate 31 (CHR ''0'') @ [char_of (48 + n)])), le_now = (\<lambda>n. ''t''),
     le_convert = Inr, le_annotated = (\<lambda>v. None)\<rparr>"

definition ex_thread :: config where
  "ex_thread = empty_config\<lparr>cfg_configurable := [(''thread_id'', CStr ''1''), (''checkpoint_ns'', CStr [])]\<rparr>"

definition ex_entered :: loop where
  "ex_entered = projr (enter ex_loop_env ex_thread None (\<lambda>c ks. Inr []) (ValueInput (VInt 1)))"

text \<open>A round in which every task runs: a task of \<open>n1\<close> writes \<open>b\<close>, the others nothing.\<close>

definition ex_run_task :: "exec_task \<Rightarrow> loop \<Rightarrow> loop" where
  "ex_run_task t lo =
     (let ws = (if tw_name t = ''n1'' then [(''b'', VInt 2)] else []);
          lo1 = set_task_writes (et_id t) (\<lambda>old. old @ ws) lo
      in if known_task lo1 t
         then (case commit_task ex_loop_env [] [] (t\<lparr>tw_writes := tw_writes t @ ws\<rparr>) Returned lo1 of Inr lo' \<Rightarrow> lo' | Inl _ \<Rightarrow> lo1)
         else lo1)"

definition ex_round :: round where
  "ex_round lo = (None, fold ex_run_task (loop_tasks lo) lo)"

definition ex_step :: "loop \<Rightarrow> loop" where
  "ex_step lo = snd (after_tick ex_loop_env (snd (ex_round (snd (tick ex_loop_env False lo)))))"

lemma ex_round_proper: "proper_round ex_loop_env [] [] None ex_round"
proof -
  let ?R = "runner_step ex_loop_env [] [] None"
  have "?R\<^sup>*\<^sup>* lo (ex_run_task t lo)" for t lo
  proof -
    define ws :: "chan_write list" where "ws = (if tw_name t = ''n1'' then [(''b'', VInt 2)] else [])"
    let ?lo1 = "set_task_writes (et_id t) (\<lambda>old. old @ ws) lo"
    have 1: "?R lo ?lo1" by (rule step_write)
    have "?R ?lo1 lo'" if "known_task ?lo1 t" "commit_task ex_loop_env [] [] (t\<lparr>tw_writes := tw_writes t @ ws\<rparr>) Returned ?lo1 = Inr lo'" for lo'
      by (rule step_commit [OF _ that(2)]) (use that(1) in \<open>simp add: known_task_def split: option.splits\<close>)
    then have "ex_run_task t lo = ?lo1 \<or> ?R ?lo1 (ex_run_task t lo)"
      by (auto simp: ex_run_task_def ws_def Let_def split: sum.splits)
    with 1 show ?thesis by (auto intro: rtranclp.rtrancl_into_rtrancl)
  qed
  then have "?R\<^sup>*\<^sup>* lo (fold ex_run_task ts lo)" for ts lo
    by (induction ts arbitrary: lo) (auto intro: rtranclp_trans)
  then show ?thesis by (simp add: proper_round_def ex_round_def)
qed

lemma ex_stepI:
  assumes "fst (tick ex_loop_env False lo) = Inr True"
    and "fst (after_tick ex_loop_env (snd (ex_round (snd (tick ex_loop_env False lo))))) = Inr True"
  shows "superstep ex_loop_env [] [] None lo (ex_step lo)"
proof (rule step)
  show "tick ex_loop_env False lo = (Inr True, snd (tick ex_loop_env False lo))"
    using assms(1) by (simp add: prod_eq_iff)
  show "(runner_step ex_loop_env [] [] None)\<^sup>*\<^sup>* (snd (tick ex_loop_env False lo)) (snd (ex_round (snd (tick ex_loop_env False lo))))"
    using ex_round_proper by (simp add: proper_round_def)
  show "after_tick ex_loop_env (snd (ex_round (snd (tick ex_loop_env False lo)))) = (Inr True, ex_step lo)"
    using assms(2) by (simp add: ex_step_def prod_eq_iff)
qed

lemma ex_entered: "enter ex_loop_env ex_thread None (\<lambda>c ks. Inr []) (ValueInput (VInt 1)) = Inr ex_entered"
proof -
  have "\<not> isl (enter ex_loop_env ex_thread None (\<lambda>c ks. Inr []) (ValueInput (VInt 1)))" by code_simp
  then show ?thesis by (simp add: ex_entered_def)
qed

lemma ex_superstep1: "superstep ex_loop_env [] [] None ex_entered (ex_step ex_entered)"
  by (rule ex_stepI) code_simp+

lemma ex_superstep2: "superstep ex_loop_env [] [] None (ex_step ex_entered) (ex_step (ex_step ex_entered))"
  by (rule ex_stepI) code_simp+

section \<open>Termination\<close>

text \<open>
  C6: The recursion limit bounds a run: from the state a run enters with, whatever the tasks do,
  there are at most \<open>recursion_limit + 2\<close> supersteps, and each of them increases the step by one.
\<close>

theorem supersteps_bounded:
  assumes "enter env cfg saved history inp = Inr lo"
    and "(superstep env error_nodes handled cache ^^ n) lo lo'"
  shows "lo_step lo' = lo_step lo + int n \<and> int n \<le> max 0 (le_recursion_limit env + 2)"
  using enter_steps [OF assms(1)] supersteps_count [OF assms(2)] by auto

theorem supersteps_bounded_witness: "lo_step (ex_step (ex_step ex_entered)) = lo_step ex_entered + 2"
proof -
  have "(superstep ex_loop_env [] [] None ^^ 2) ex_entered (ex_step (ex_step ex_entered))"
    using ex_superstep1 ex_superstep2 by (auto simp: numeral_2_eq_2)
  from supersteps_bounded [OF ex_entered this] show ?thesis by simp
qed

lemma run_loop_returns:
  assumes "proper_round env ehs handled cache runner"
  shows "\<exists>r. run_loop env drained runner lo = Some r"
proof (induction "nat (lo_stop lo + 1 - lo_step lo)" arbitrary: lo rule: less_induct)
  case less
  obtain r lo1 where tick: "tick env (drained lo) lo = (r, lo1)" by (cases "tick env (drained lo) lo")
  obtain raised lo2 where round: "runner lo1 = (raised, lo2)" by (cases "runner lo1")
  obtain r' lo3 where after: "after_tick env lo2 = (r', lo3)" by (cases "after_tick env lo2")
  show ?case
  proof (cases "r = Inr True \<and> raised = None \<and> \<not> isl r'")
    case True
    then have t: "tick env (drained lo) lo = (Inr True, lo1)" using tick by simp
    obtain b where a: "after_tick env lo2 = (Inr b, lo3)" using True after by (cases r') auto
    have "runner_frame lo1 lo2"
      using assms round unfolding proper_round_def by (metis runner_steps_frame snd_conv)
    then have "lo_step lo3 = lo_step lo + 1" "lo_stop lo3 = lo_stop lo" "lo_step lo \<le> lo_stop lo"
      using tick_True [OF t] runner_frameD(1,2) after_tick_True [OF a] by (metis, metis, blast)
    then obtain x where "run_loop env drained runner lo3 = Some x" using less [of lo3] by auto
    then show ?thesis using True t round a by (subst run_loop.simps) simp
  next
    case False
    then show ?thesis using tick round after
      by (subst run_loop.simps) (auto split: sum.splits option.splits)
  qed
qed

text \<open>
  C5: A run returns, with a result or an exception, for every graph, input and recursion limit,
  if each round of the runner does: the loop cannot go on forever.
\<close>

theorem run_returns:
  assumes "proper_round env error_nodes handled cache runner"
  shows "\<exists>r. stream_run env cfg saved history inp drained runner = Some r"
proof (cases "enter env cfg saved history inp")
  case (Inr lo)
  obtain raised lo' where "run_loop env drained runner lo = Some (raised, lo')"
    using run_loop_returns [OF assms, of drained lo] by (metis surj_pair)
  with Inr show ?thesis by (simp add: stream_run_def)
qed (simp add: stream_run_def)

theorem run_returns_witness:
  "\<exists>r. stream_run ex_loop_env ex_thread None (\<lambda>c ks. Inr []) (ValueInput (VInt 1)) (\<lambda>_. False) ex_round = Some r"
  using run_returns [OF ex_round_proper] .

end
