(* ===== verification/Persistence.thy ===== *)
theory Persistence
  imports Run
begin

section \<open>A run and what the saver holds\<close>

text \<open>
  The loop never reads back what it saves; a later run does. Here the saves that the loop submits
  are executed on the in-memory saver, and the state that is read back is compared with the live
  one: after every superstep of a run that checkpoints as it goes, the newest checkpoint restores
  exactly the live channels. The invariant ties each version of a channel to the value stored
  under it.
\<close>

subsection \<open>What the runner saves\<close>

text \<open>While tasks run, only writes are saved, under the current checkpoint.\<close>

definition saves_writes :: "loop \<Rightarrow> loop \<Rightarrow> bool" where
  "saves_writes lo lo' \<longleftrightarrow> runner_frame lo lo'
     \<and> (\<exists>ws. lo_saves lo' = lo_saves lo @ ws \<and> (\<forall>s \<in> set ws. \<exists>w t p. s = SaveWrites (writes_config lo) w t p))"

lemma writes_config_frame: "runner_frame lo lo' \<Longrightarrow> writes_config lo' = writes_config lo"
  by (simp add: writes_config_def runner_frameD)

lemma saves_writes_refl [simp]: "saves_writes lo lo"
  by (simp add: saves_writes_def)

lemma saves_writes_trans:
  assumes "saves_writes a b" "saves_writes b c"
  shows "saves_writes a c"
proof -
  have f: "runner_frame a b" "runner_frame b c" using assms by (auto simp: saves_writes_def)
  from assms obtain ws ws' where "lo_saves b = lo_saves a @ ws" "\<forall>s \<in> set ws. \<exists>w t p. s = SaveWrites (writes_config a) w t p"
    "lo_saves c = lo_saves b @ ws'" "\<forall>s \<in> set ws'. \<exists>w t p. s = SaveWrites (writes_config b) w t p"
    unfolding saves_writes_def by blast
  then show ?thesis unfolding saves_writes_def
    using runner_frame_trans [OF f] writes_config_frame [OF f(1)] by (intro conjI exI [of _ "ws @ ws'"]) auto
qed

lemma saves_writes_same: "runner_frame lo lo' \<Longrightarrow> lo_saves lo' = lo_saves lo \<Longrightarrow> saves_writes lo lo'"
  by (simp add: saves_writes_def)

lemma set_task_writes_saves [simp]: "lo_saves (set_task_writes i f lo) = lo_saves lo"
  by (simp add: set_task_writes_def)

lemma put_stamped_saves: "saves_writes lo (put_stamped env t ws lo)"
proof -
  let ?lo = "lo\<lparr>lo_pending_writes := kept_pending t (lo_pending_writes lo) @ map (\<lambda>(c, v). (t, c, v)) ws\<rparr>"
  have "writes_config ?lo = writes_config lo" by (rule writes_config_frame) simp
  then show ?thesis
    by (simp add: saves_writes_def put_stamped_def submit_writes_def Let_def)
qed

lemma put_writes_saves: "loop_put_writes env t ws lo = Inr lo' \<Longrightarrow> saves_writes lo lo'"
  by (auto simp: loop_put_writes_def rbind_Inr_iff split: if_splits
      intro!: saves_writes_trans [OF _ put_stamped_saves] saves_writes_same)

lemma store_task_writes_saves: "store_task_writes env t ws lo = Inr lo' \<Longrightarrow> saves_writes lo lo'"
  by (auto simp: store_task_writes_def rbind_Inr_iff
      intro!: saves_writes_trans [OF _ put_stamped_saves] saves_writes_same)

lemma commit_task_saves: "commit_task env ehs handled t out lo = Inr lo' \<Longrightarrow> saves_writes lo lo'"
  by (auto simp: commit_task_def Let_def split: outcome.splits if_splits dest: put_writes_saves store_task_writes_saves)

lemma fold_saves: "(\<And>x lo. lo_saves (f x lo) = lo_saves lo) \<Longrightarrow> lo_saves (fold f xs lo) = lo_saves lo"
  by (induction xs arbitrary: lo) auto

lemma reapply_writes_saves [simp]: "lo_saves (reapply_writes among lo) = lo_saves lo"
  unfolding reapply_writes_def by (rule fold_saves) (auto split: prod.splits)

lemma match_cached_saves [simp]: "lo_saves (match_cached_writes cache lo) = lo_saves lo"
  unfolding match_cached_writes_def
  by (cases cache) (auto intro!: fold_saves split: prod.splits option.splits)

lemma start_task_saves: "start_task cache t lo = (new, lo') \<Longrightarrow> lo_saves lo' = lo_saves lo"
  by (auto simp: start_task_def Let_def add_task_def)

lemma accept_push_saves:
  assumes "accept_push env cache t idx c lo = Inr (new, lo')"
  shows "lo_saves lo' = lo_saves lo"
proof -
  from assms obtain x pws where "(case x of Some (XTask t) \<Rightarrow> Inr (start_task cache t (lo\<lparr>lo_pending_writes := pws\<rparr>))
      | _ \<Rightarrow> Inr (None, lo\<lparr>lo_pending_writes := pws\<rparr>)) = (Inr (new, lo') :: _ res)"
    by (auto simp: accept_push_def rbind_Inr_iff Let_def)
  then show ?thesis by (cases x; cases "the x") (auto dest!: start_task_saves)
qed

lemma schedule_handler_saves: "schedule_error_handler env cache t e lo = Inr (new, lo') \<Longrightarrow> lo_saves lo' = lo_saves lo"
  by (auto simp: schedule_error_handler_def rbind_Inr_iff Let_def split: option.split_asm dest!: start_task_saves)

lemma runner_step_saves: "runner_step env ehs handled cache lo lo' \<Longrightarrow> saves_writes lo lo'"
proof (frule runner_step_frame, erule runner_step.cases, goal_cases)
  case (3 lo1 t out lo2)
  then show ?case by (simp add: commit_task_saves)
qed (auto intro: saves_writes_same dest: accept_push_saves schedule_handler_saves)

lemma runner_steps_saves: "(runner_step env ehs handled cache)\<^sup>*\<^sup>* lo lo' \<Longrightarrow> saves_writes lo lo'"
  by (induction rule: rtranclp_induct) (auto intro: saves_writes_trans runner_step_saves)

lemma resume_handler_saves: "resume_error_handler env x lo = Inr lo' \<Longrightarrow> lo_saves lo' = lo_saves lo"
  by (cases x) (auto simp: resume_error_handler_def rbind_Inr_iff Let_def add_task_def split: option.splits)

lemma resume_pending_saves: "resume_pending env lo = Inr lo' \<Longrightarrow> lo_saves lo' = lo_saves lo"
proof -
  have "rfold (resume_error_handler env) xs a = Inr b \<Longrightarrow> lo_saves a = lo_saves lo \<Longrightarrow> lo_saves b = lo_saves lo" for xs a b
    by (erule rfold_invariant) (auto dest: resume_handler_saves)
  then show "resume_pending env lo = Inr lo' \<Longrightarrow> lo_saves lo' = lo_saves lo"
    by (auto simp: resume_pending_def resume_error_handlers_def split: if_splits)
qed

lemma tick_saves:
  assumes "tick env drain lo = (Inr True, lo')"
  shows "lo_saves lo' = lo_saves lo"
  using assms by (auto simp: tick_def Let_def split: if_splits sum.splits dest!: resume_pending_saves)

subsection \<open>Versions\<close>

text \<open>What the algorithm asks of a version source where it draws: the new version is larger than all
  versions of the checkpoint and than the null version.\<close>

definition fresh_draw :: "loop_env \<Rightarrow> versions \<Rightarrow> bool" where
  "fresh_draw env vers \<longleftrightarrow> (\<forall>v. le_get_next_version env (max_version vers) = Inr v \<longrightarrow>
     null_of v < v \<and> (\<forall>k u. dict_get vers k = Some u \<longrightarrow> u < v))"

lemma null_of_less: "u < v \<Longrightarrow> null_of v < v \<Longrightarrow> null_of u < v"
  by (cases u; cases v) auto

lemma step_wf_versions: "chan_step nv st st' \<Longrightarrow> wf_dict (ap_versions st) \<Longrightarrow> wf_dict (ap_versions st')"
  by (erule chan_step.cases) (auto simp: bump_def distinct_update split: option.splits)

lemma apply_writes_wf_versions:
  assumes "apply_writes cp chs tasks gnv ttn = Inr (cp', chs', upd)" "wf_dict (cp_channel_versions cp)"
  shows "wf_dict (cp_channel_versions cp')"
  using assms(1)
proof (rule apply_writes_steps)
  fix nv st
  assume "(chan_step nv)\<^sup>*\<^sup>* (start_state cp chs) st" and "cp_channel_versions cp' = ap_versions st"
  with steps_invariant [of nv "start_state cp chs" st "\<lambda>s. wf_dict (ap_versions s)"] assms(2)
  show ?thesis by (simp add: step_wf_versions)
qed

lemma get_new_versions_filter: "\<exists>P. get_new_channel_versions prev cur = filter (\<lambda>(k, ver). P k ver) cur"
proof (cases cur)
  case (Cons x xs)
  then have "get_new_channel_versions prev cur
      = filter (\<lambda>(k, ver). prev = [] \<or> ver > dict_get_or prev k (null_of (snd x))) cur"
    by (cases x) (auto simp: get_new_channel_versions_def filter_id_conv)
  then show ?thesis by (rule exI [of _ "\<lambda>k ver. prev = [] \<or> ver > dict_get_or prev k (null_of (snd x))"])
qed (simp add: get_new_channel_versions_def)

lemma get_new_versions_subset:
  "wf_dict cur \<Longrightarrow> dict_get (get_new_channel_versions prev cur) k = Some v \<Longrightarrow> dict_get cur k = Some v"
  using get_new_versions_filter [of prev cur]
  by (auto simp: dict_get_filter_pairs split: if_splits option.split_asm)

lemma wf_new_versions: "wf_dict cur \<Longrightarrow> wf_dict (get_new_channel_versions prev cur)"
  using get_new_versions_filter [of prev cur] by (auto simp: wf_dict_filter)

text \<open>A version that is not among the new ones is the previous one of the channel.\<close>

lemma get_new_versions_missing:
  assumes cur: "wf_dict cur" "dict_get cur k = Some v" and new: "dict_get (get_new_channel_versions prev cur) k = None"
    and kept: "\<And>j u. dict_get cur j = Some u \<Longrightarrow> u = w \<or> dict_get prev j = Some u"
    and less: "\<And>j u. dict_get prev j = Some u \<Longrightarrow> u < w" "null_of w < w"
  shows "dict_get prev k = Some v"
proof (rule ccontr)
  assume "dict_get prev k \<noteq> Some v"
  then have v: "v = w" using cur(2) kept by blast
  obtain j u rest where c: "cur = (j, u) # rest" using cur(2) by (cases cur) auto
  then have "u = w \<or> u < w" using kept [of j u] less(1) by auto
  then have "null_of u < w" using null_of_less less(2) by blast
  then have "dict_get_or prev k (null_of u) < v" using less(1) v by (auto simp: dict_get_or_def split: option.split)
  moreover have "prev \<noteq> []" using new cur(2) by (auto simp: get_new_channel_versions_def)
  then have "get_new_channel_versions prev cur = filter (\<lambda>(k, ver). ver > dict_get_or prev k (null_of u)) cur"
    by (simp add: get_new_channel_versions_def c)
  ultimately show False
    using new cur dict_get_filter_pairs [OF cur(1), of "\<lambda>k ver. ver > dict_get_or prev k (null_of u)" k] by simp
qed

subsection \<open>Restoring\<close>

definition chan_value :: "channels \<Rightarrow> string \<Rightarrow> val option" where
  "chan_value chs k = Option.bind (dict_get chs k) ch_checkpoint"

definition all_persist :: "channels \<Rightarrow> bool" where
  "all_persist chs \<longleftrightarrow> (\<forall>k c. dict_get chs k = Some c \<longrightarrow> ch_persists c)"

lemma step_persists: "chan_step nv st st' \<Longrightarrow> all_persist (ap_channels st) \<Longrightarrow> all_persist (ap_channels st')"
proof (erule chan_step.cases, goal_cases)
  case (1 s k c c' b)
  then show ?case using ch_consume_class [of c c' b] by (simp add: all_persist_def)
next
  case (2 s k c vs r)
  then show ?case using ch_update_class [of c vs "fst r" "snd r"] by (simp add: all_persist_def)
next
  case (3 s k c)
  then show ?case using ch_finish_class [of c "fst (ch_finish c)" "snd (ch_finish c)"] by (simp add: all_persist_def)
qed

lemma apply_writes_persists:
  assumes "apply_writes cp chs tasks gnv ttn = Inr (cp', chs', upd)" "all_persist chs"
  shows "all_persist chs'"
  using assms(1)
proof (rule apply_writes_steps)
  fix nv st
  assume "(chan_step nv)\<^sup>*\<^sup>* (start_state cp chs) st" and "chs' = ap_channels st"
  with steps_invariant [of nv "start_state cp chs" st "\<lambda>s. all_persist (ap_channels s)"] assms(2)
  show ?thesis by (simp add: step_persists)
qed

lemma restore_total:
  assumes "\<And>k spec. (k, spec) \<in> set chans \<Longrightarrow> ch_from_checkpoint spec (dict_get vals k) = Inr (f k)"
  shows "rfold (restore_step [] vals) chans s = Inr (fold (\<lambda>(k, _). dict_set k (f k)) chans s)"
  using assms by (induction chans arbitrary: s) (auto simp: restore_step_def)

text \<open>The values of the channels are enough to restore them.\<close>

lemma channels_from_values:
  assumes inv: "channels_inv chs" "specs_match (channel_specs specs) chs" "all_persist chs"
    and specs: "wf_dict specs"
    and vals: "\<And>k c. dict_get chs k = Some c \<Longrightarrow> ch_from_checkpoint c (dict_get (cp_channel_values cp) k) = Inr c"
  shows "\<exists>chs'. channels_from_checkpoint specs cp saver = Inr (chs', managed_specs specs) \<and> (\<forall>k. dict_get chs' k = dict_get chs k)"
proof -
  let ?chans = "channel_specs specs"
  have wf: "wf_dict ?chans" by (rule wf_channel_specs [OF specs])
  have chan: "\<exists>c. dict_get chs k = Some c \<and> same_spec spec c \<and> ch_persists c" if "dict_get ?chans k = Some spec" for k spec
  proof -
    have "rel_option same_spec (dict_get ?chans k) (dict_get chs k)" using inv(2) by (simp add: specs_match_def)
    with that inv(3) show ?thesis by (auto simp: option_rel_Some1 all_persist_def)
  qed
  have no_delta: "filter (\<lambda>(k, c). needs_replay c (dict_get (cp_channel_values cp) k)) ?chans = []"
    using chan wf by (fastforce simp: filter_empty_conv same_spec_def ch_persists_def map_of_eq_Some_iff)
  have "ch_from_checkpoint spec (dict_get (cp_channel_values cp) k) = Inr (the (dict_get chs k))"
    if "(k, spec) \<in> set ?chans" for k spec
    using chan [of k spec] vals [of k] wf that by (auto simp: same_spec_def map_of_eq_Some_iff)
  then have r: "rfold (restore_step [] (cp_channel_values cp)) ?chans []
      = Inr (fold (\<lambda>(k, _). dict_set k (the (dict_get chs k))) ?chans [])"
    by (rule restore_total)
  have "channels_from_checkpoint specs cp saver
      = Inr (fold (\<lambda>(k, _). dict_set k (the (dict_get chs k))) ?chans [], managed_specs specs)"
    using no_delta r by (cases saver) (simp_all add: channels_from_checkpoint_def Let_def)
  moreover have "dict_get (fold (\<lambda>(k, _). dict_set k (the (dict_get chs k))) ps s) k =
      (if k \<in> fst ` set ps then Some (the (dict_get chs k)) else dict_get s k)" for ps :: channels and s k
    by (induction ps arbitrary: s) auto
  moreover have "dict_get chs k = None" if "k \<notin> fst ` set ?chans" for k
    using inv(2) that unfolding specs_match_def
    by (metis map_of_eq_None_iff option.rel_distinct(1) not_None_eq)
  moreover have "dict_get chs k \<noteq> None" if "k \<in> fst ` set ?chans" for k
    using chan [of k] that in_dict_iff [where k = k and d = ?chans] by force
  ultimately show ?thesis by (intro exI conjI) auto
qed

subsection \<open>The invariant\<close>

text \<open>The graphs considered here have only channels that checkpoint their value.\<close>

definition synced :: "'b serde \<Rightarrow> loop_env \<Rightarrow> string \<Rightarrow> 'b saver \<Rightarrow> loop \<Rightarrow> bool" where
  "synced sd env t sv lo \<longleftrightarrow>
     conf_index (lo_checkpoint_config lo) ''thread_id'' = Inr t \<and>
     channels_inv (lo_channels lo) \<and> specs_match (channel_specs (le_specs env)) (lo_channels lo) \<and>
     all_persist (lo_channels lo) \<and> lo_overwritten lo = [] \<and>
     wf_dict (cp_channel_versions (lo_checkpoint lo)) \<and>
     lo_previous_versions lo = cp_channel_versions (lo_checkpoint lo) \<and>
     (\<forall>k c. dict_get (lo_channels lo) k = Some c \<longrightarrow> dict_get (lo_previous_versions lo) k = None \<longrightarrow>
        ch_from_checkpoint c None = Inr c) \<and>
     (\<forall>k ver. dict_get (lo_previous_versions lo) k = Some ver \<longrightarrow>
        load_blob sd sv t (conf_ns (lo_config lo)) k ver = chan_value (lo_channels lo) k)"

text \<open>Reading the newest checkpoint back gives a tuple that restores the live channels.\<close>

definition reads_back :: "'b serde \<Rightarrow> loop_env \<Rightarrow> string \<Rightarrow> 'b saver \<Rightarrow> loop \<Rightarrow> bool" where
  "reads_back sd env t sv lo \<longleftrightarrow>
     (\<exists>tup sv' chs. mem_get_tuple sd (saver_config t (conf_ns (lo_config lo)) (cp_id (lo_checkpoint lo))) sv = Inr (Some tup, sv')
        \<and> cp_id (ct_checkpoint tup) = cp_id (lo_checkpoint lo)
        \<and> cp_channel_versions (ct_checkpoint tup) = cp_channel_versions (lo_checkpoint lo)
        \<and> cp_versions_seen (ct_checkpoint tup) = cp_versions_seen (lo_checkpoint lo)
        \<and> channels_from_checkpoint (le_specs env) (ct_checkpoint tup) None = Inr (chs, managed_specs (le_specs env))
        \<and> (\<forall>k. dict_get chs k = dict_get (lo_channels lo) k))"

lemma store_keeps_versions:
  "rfold (store_channel updated gnv []) chs st = Inr st' \<Longrightarrow> ss_versions st' = ss_versions st"
  by (erule rfold_invariant) (auto simp: store_channel_def split: prod.splits option.splits if_splits)

lemma store_missing:
  assumes "rfold (store_channel updated gnv []) chs \<lparr>ss_values = [], ss_versions = vers\<rparr> = Inr st" "dict_get chs k = None" "wf_dict chs"
  shows "dict_get (ss_values st) k = None"
proof -
  have k: "k \<notin> fst ` set chs" using assms(2) by (simp add: map_of_eq_None_iff)
  have "snap_view k st = snap_view k \<lparr>ss_values = [], ss_versions = vers\<rparr>"
  proof (rule rfold_view [OF store_other [of _ k] assms(1)])
    fix x t t'
    assume "x \<in> set chs" "fst x = k"
    then show ?thesis using k by blast
  qed (use assms(3) in simp_all)
  then show ?thesis by (simp add: snap_view_def)
qed

text \<open>The values of a checkpoint made of channels without delta channels.\<close>

lemma created_plain:
  assumes "create_checkpoint cp (Some chs) gid updated gnv [] new_id ts = Inr cp'" "wf_dict chs"
  shows "cp_channel_versions cp' = cp_channel_versions cp \<and> cp_versions_seen cp' = cp_versions_seen cp
    \<and> (\<forall>k. dict_get (cp_channel_values cp') k = (if in_dict k (cp_channel_versions cp) then chan_value chs k else None))"
proof -
  from assms(1) obtain st where st: "rfold (store_channel updated gnv []) chs
      \<lparr>ss_values = [], ss_versions = cp_channel_versions cp\<rparr> = Inr st"
    "cp_channel_values cp' = ss_values st" "cp_channel_versions cp' = ss_versions st" "cp_versions_seen cp' = cp_versions_seen cp"
    by (auto simp: create_checkpoint_def rbind_Inr_iff)
  have "dict_get (cp_channel_values cp') k = (if in_dict k (cp_channel_versions cp) then chan_value chs k else None)" for k
  proof (cases "dict_get chs k")
    case None
    then show ?thesis using store_missing [OF st(1) None assms(2)] st(2) by (simp add: chan_value_def)
  next
    case (Some c)
    then show ?thesis using store_all [OF st(1) assms(2) Some] st(2)
      by (auto simp: chan_value_def stored_value_def snap_view_def split: option.splits)
  qed
  then show ?thesis using st store_keeps_versions [OF st(1)] by simp
qed

subsection \<open>Saving a checkpoint\<close>

lemma patch_get:
  "dict_get (cfg_configurable (patch_configurable cfg patch)) k =
     (case dict_get (rev patch) k of None \<Rightarrow> dict_get (cfg_configurable cfg) k | Some v \<Rightarrow> Some v)"
  by (simp add: patch_configurable_def dict_get_update)

lemma patch_conf [simp]:
  "conf_index (patch_configurable cfg patch) k = (case dict_get (rev patch) k of None \<Rightarrow> conf_index cfg k
     | Some (CStr s) \<Rightarrow> Inr s | Some _ \<Rightarrow> Inl TypeError)"
  "conf_str (patch_configurable cfg patch) k = (case dict_get (rev patch) k of None \<Rightarrow> conf_str cfg k
     | Some (CStr s) \<Rightarrow> Some s | Some _ \<Rightarrow> None)"
  by (simp_all add: conf_index_def conf_str_def patch_get split: option.splits cval.splits)

lemma copy_checkpoint_id [simp]: "copy_checkpoint cp = cp"
  by (simp add: copy_checkpoint_def)

lemma no_snapshots: "all_persist chs \<Longrightarrow> wf_dict chs \<Longrightarrow> delta_channels_to_snapshot bound chs counters = []"
  by (force simp: delta_channels_to_snapshot_def filter_empty_conv all_persist_def ch_persists_def map_of_eq_Some_iff
      elim: delta_due.elims)

lemma no_untracked: "all_persist chs \<Longrightarrow> wf_dict chs \<Longrightarrow> \<not> has_untracked chs"
  by (force simp: has_untracked_def all_persist_def ch_persists_def map_of_eq_Some_iff)

text \<open>What \<open>_put_checkpoint\<close> hands to the saver, in a run that checkpoints as it goes.\<close>

lemma put_checkpoint_saves:
  assumes "put_checkpoint env (Some md) lo = Inr lo'"
    and "le_durability env \<noteq> DExit" "le_checkpointer env \<noteq> None"
    and "all_persist (lo_channels lo)" "wf_dict (lo_channels lo)" "lo_overwritten lo = []"
  obtains cp n md' where
    "create_checkpoint (lo_checkpoint lo) (Some (lo_channels lo)) None (lo_updated lo) (Some (le_get_next_version env)) []
       (le_uuid env n) (le_now env n) = Inr cp"
    "cp_id cp = le_uuid env n" "lo_checkpoint lo' = cp" "lo_overwritten lo' = []"
    "lo_previous_versions lo' = cp_channel_versions cp"
    "lo_saves lo' = lo_saves lo @ [SaveCheckpoint
       (patch_configurable (lo_checkpoint_config lo) [(''checkpoint_ns'', CStr (conf_ns (lo_config lo)))]) cp md'
       (get_new_channel_versions (lo_previous_versions lo) (cp_channel_versions cp))]"
    "lo_checkpoint_config lo' = patch_configurable
       (patch_configurable (lo_checkpoint_config lo) [(''checkpoint_ns'', CStr (conf_ns (lo_config lo)))]) [(''checkpoint_id'', CStr (cp_id cp))]"
  using assms that
  by (auto simp: put_checkpoint_def Let_def rbind_Inr_iff no_snapshots no_untracked sanitize_tasks_def save_checkpoint_def
      reset_counters_def create_checkpoint_def split: option.splits)

lemma put_checkpoint_synced:
  assumes put: "put_checkpoint env (Some md) lo = Inr lo'"
    and sync: "le_durability env \<noteq> DExit" "le_checkpointer env \<noteq> None"
    and env: "serde_ok sd" "wf_dict (le_specs env)" "\<And>n. le_uuid env n \<noteq> []"
    and t: "conf_index (lo_checkpoint_config lo) ''thread_id'' = Inr t"
    and chs: "channels_inv (lo_channels lo)" "specs_match (channel_specs (le_specs env)) (lo_channels lo)"
      "all_persist (lo_channels lo)" "lo_overwritten lo = []"
    and wf: "wf_dict (cp_channel_versions (lo_checkpoint lo))"
    and kept: "\<And>j u. dict_get (cp_channel_versions (lo_checkpoint lo)) j = Some u \<Longrightarrow> u = w \<or> dict_get (lo_previous_versions lo) j = Some u"
    and less: "\<And>j u. dict_get (lo_previous_versions lo) j = Some u \<Longrightarrow> u < w" "null_of w < w"
    and init: "\<And>k c. dict_get (lo_channels lo) k = Some c \<Longrightarrow> dict_get (cp_channel_versions (lo_checkpoint lo)) k = None \<Longrightarrow>
      ch_from_checkpoint c None = Inr c"
    and stored: "\<And>k ver. dict_get (cp_channel_versions (lo_checkpoint lo)) k = Some ver \<Longrightarrow>
      dict_get (lo_previous_versions lo) k = Some ver \<Longrightarrow>
      load_blob sd sv t (conf_ns (lo_config lo)) k ver = chan_value (lo_channels lo) k"
  shows "\<exists>s sv'. lo_saves lo' = lo_saves lo @ [s] \<and> run_save sd s sv = Inr sv' \<and> synced sd env t sv' lo' \<and> reads_back sd env t sv' lo'"
proof (rule put_checkpoint_saves [OF put sync chs(3) _ chs(4)])
  show "wf_dict (lo_channels lo)" using chs(1) by (simp add: channels_inv_def)
  fix cp :: checkpoint and n md'
  let ?vers = "cp_channel_versions (lo_checkpoint lo)" and ?ns = "conf_ns (lo_config lo)"
  let ?cfg = "patch_configurable (lo_checkpoint_config lo) [(''checkpoint_ns'', CStr ?ns)]"
  let ?nv = "get_new_channel_versions (lo_previous_versions lo) (cp_channel_versions cp)"
  assume create: "create_checkpoint (lo_checkpoint lo) (Some (lo_channels lo)) None (lo_updated lo) (Some (le_get_next_version env)) []
       (le_uuid env n) (le_now env n) = Inr cp"
    and new: "cp_id cp = le_uuid env n" "lo_checkpoint lo' = cp" "lo_overwritten lo' = []"
      "lo_previous_versions lo' = cp_channel_versions cp"
      "lo_saves lo' = lo_saves lo @ [SaveCheckpoint ?cfg cp md' ?nv]"
      "lo_checkpoint_config lo' = patch_configurable ?cfg [(''checkpoint_id'', CStr (cp_id cp))]"
  have same: "lo_channels lo' = lo_channels lo" "lo_config lo' = lo_config lo" using put_checkpoint_Some [OF put] by auto
  have cp: "cp_channel_versions cp = ?vers" "cp_versions_seen cp = cp_versions_seen (lo_checkpoint lo)"
    "\<And>k. dict_get (cp_channel_values cp) k = (if in_dict k ?vers then chan_value (lo_channels lo) k else None)"
    using created_plain [OF create] chs(1) by (auto simp: channels_inv_def)
  have cfg: "conf_index ?cfg ''thread_id'' = Inr t" "conf_index ?cfg ''checkpoint_ns'' = Inr ?ns" using t by simp_all
  obtain cfg' sv' where mput: "mem_put sd ?cfg cp md' ?nv sv = Inr (cfg', sv')"
    using cfg by (auto simp: mem_put_def Let_def)
  have nv: "wf_dict ?nv" "\<And>k ver. dict_get ?nv k = Some ver \<Longrightarrow> dict_get ?vers k = Some ver"
    using wf_new_versions wf get_new_versions_subset cp(1) by metis+
  have old: "load_blob sd sv t ?ns k ver = chan_value (lo_channels lo) k" if "dict_get ?vers k = Some ver" "dict_get ?nv k = None" for k ver
    using stored [OF that(1)] get_new_versions_missing [of ?vers k ver "lo_previous_versions lo" w] wf that kept less cp(1) by auto
  have read: "\<exists>vals sv''. mem_get_tuple sd cfg' sv' = Inr (Some
      \<lparr>ct_config = saver_config t ?ns (cp_id cp), ct_checkpoint = cp\<lparr>cp_channel_values := vals\<rparr>,
       ct_metadata = get_checkpoint_metadata ?cfg md',
       ct_parent_config = (case get_checkpoint_id ?cfg of Some (c # p) \<Rightarrow> Some (saver_config t ?ns (c # p)) | _ \<Rightarrow> None),
       ct_pending_writes = load_writes sd (writes_of sv (t, ?ns, cp_id cp))\<rparr>, sv'')
    \<and> (\<forall>k. dict_get vals k =
          (if in_dict k (cp_channel_versions cp) then dict_get (cp_channel_values cp) k else None))"
    by (rule put_then_get [OF env(1) mput nv(1) _ _ cfg]) (use wf cp nv(2) old env(3) new(1) in auto)
  have put_facts: "cfg' = saver_config t ?ns (cp_id cp)"
    "\<And>k ver. load_blob sd sv' t ?ns k ver = (if dict_get ?nv k = Some ver then dict_get (cp_channel_values cp) k else load_blob sd sv t ?ns k ver)"
    by (rule mem_put_Inr [OF env(1) mput nv(1)], use cfg in simp)+
  have "load_blob sd sv' t ?ns k ver = chan_value (lo_channels lo) k" if "dict_get ?vers k = Some ver" for k ver
    using put_facts(2) [of k ver] old [OF that] nv(2) [of k] cp(3) [of k] that by (cases "dict_get ?nv k") auto
  then have "synced sd env t sv' lo'"
    unfolding synced_def using chs wf init t by (auto simp: new same cp(1))
  moreover have "reads_back sd env t sv' lo'"
  proof -
    obtain vals sv'' tup where tup: "mem_get_tuple sd cfg' sv' = Inr (Some tup, sv'')" "ct_checkpoint tup = cp\<lparr>cp_channel_values := vals\<rparr>"
      "\<And>k. dict_get vals k = (if in_dict k ?vers then chan_value (lo_channels lo) k else None)"
      using read cp by auto
    have "ch_from_checkpoint c (dict_get vals k) = Inr c" if "dict_get (lo_channels lo) k = Some c" for k c
      using that init [OF that] ch_roundtrip [of c] channels_inv_get [OF chs(1) that] chs(3)
      by (auto simp: tup(3) chan_value_def all_persist_def)
    then obtain chs' where "channels_from_checkpoint (le_specs env) (ct_checkpoint tup) None = Inr (chs', managed_specs (le_specs env))"
      "\<forall>k. dict_get chs' k = dict_get (lo_channels lo) k"
      using channels_from_values [OF chs(1-3) env(2), of "ct_checkpoint tup" None] tup(2) by auto
    then show ?thesis unfolding reads_back_def using tup put_facts(1) by (auto simp: new same cp)
  qed
  ultimately show ?thesis using mput new(5) by (intro exI conjI) (auto simp: run_save_def)
qed

subsection \<open>Supersteps\<close>

lemma put_write_keeps [simp]:
  "sv_blobs (put_write sd e key t p x sv) = sv_blobs sv" "sv_storage (put_write sd e key t p x sv) = sv_storage sv"
  by (cases x; simp add: put_write_def Let_def)+

lemma put_writes_keep [simp]:
  "sv_blobs (fold (put_write sd e key t p) xs sv) = sv_blobs sv" "sv_storage (fold (put_write sd e key t p) xs sv) = sv_storage sv"
  by (induction xs arbitrary: sv) auto

text \<open>Saving writes under the current checkpoint succeeds and touches neither blobs nor checkpoints.\<close>

lemma run_writes:
  assumes "conf_index (lo_checkpoint_config lo) ''thread_id'' = Inr t"
    and "\<forall>s \<in> set ws. \<exists>w i p. s = SaveWrites (writes_config lo) w i p"
  shows "\<exists>sv'. run_saves sd ws sv = Inr sv' \<and> sv_blobs sv' = sv_blobs sv \<and> sv_storage sv' = sv_storage sv"
  using assms(2)
proof (induction ws arbitrary: sv)
  case (Cons s ws)
  then obtain w i p where s: "s = SaveWrites (writes_config lo) w i p" by auto
  have "\<exists>sv1. run_save sd s sv = Inr sv1 \<and> sv_blobs sv1 = sv_blobs sv \<and> sv_storage sv1 = sv_storage sv"
    using assms(1) by (simp add: s run_save_def mem_put_writes_def writes_config_def Let_def)
  then obtain sv1 where "run_save sd s sv = Inr sv1" "sv_blobs sv1 = sv_blobs sv" "sv_storage sv1 = sv_storage sv" by blast
  with Cons.IH [of sv1] Cons.prems show ?case by (simp add: run_saves_def)
qed (simp add: run_saves_def)

definition same_place :: "loop \<Rightarrow> loop \<Rightarrow> bool" where
  "same_place lo lo' \<longleftrightarrow> lo_channels lo' = lo_channels lo \<and> lo_checkpoint lo' = lo_checkpoint lo
     \<and> lo_previous_versions lo' = lo_previous_versions lo \<and> lo_checkpoint_config lo' = lo_checkpoint_config lo
     \<and> lo_overwritten lo' = lo_overwritten lo \<and> conf_ns (lo_config lo') = conf_ns (lo_config lo)"

lemma same_place_frame: "runner_frame lo lo' \<Longrightarrow> same_place lo lo'"
  by (simp add: same_place_def runner_frameD)

lemma synced_place:
  "synced sd env t sv lo \<Longrightarrow> same_place lo lo' \<Longrightarrow> sv_blobs sv' = sv_blobs sv \<Longrightarrow> synced sd env t sv' lo'"
  using load_blob_cong [of sv' sv] by (simp add: synced_def same_place_def)

lemma reads_back_place: "reads_back sd env t sv lo \<Longrightarrow> same_place lo lo' \<Longrightarrow> reads_back sd env t sv lo'"
  by (simp add: reads_back_def same_place_def)

lemma dict_get_channel_specs:
  "wf_dict specs \<Longrightarrow> dict_get (channel_specs specs) k = (case dict_get specs k of Some (ChannelSpec c) \<Rightarrow> Some c | _ \<Rightarrow> None)"
proof (induction specs)
  case (Cons p specs)
  have k: "k \<notin> fst ` set specs \<Longrightarrow> dict_get specs k = None" by (simp add: map_of_eq_None_iff)
  show ?case using Cons k
    by (cases p; cases "snd p") (auto simp: channel_specs_def List.map_filter_simps split: option.splits)
qed (simp add: channel_specs_def List.map_filter_simps)

lemma no_delta_specs:
  assumes "specs_match (channel_specs (le_specs env)) chs" "all_persist chs" "wf_dict (le_specs env)"
  shows "\<not> is_delta_spec env c"
proof
  assume "is_delta_spec env c"
  then obtain d where d: "dict_get (channel_specs (le_specs env)) c = Some d" "is_delta d"
    using assms(3) by (auto simp: is_delta_spec_def dict_get_channel_specs split: option.splits spec.splits)
  have "rel_option same_spec (Some d) (dict_get chs c)" using assms(1) d(1) unfolding specs_match_def by metis
  then show False using assms(2) d(2) by (auto simp: option_rel_Some1 same_spec_def all_persist_def ch_persists_def)
qed

lemma conf_ns_delete: "k \<noteq> ''checkpoint_ns'' \<Longrightarrow> conf_ns (cfg\<lparr>cfg_configurable := AList.delete k (cfg_configurable cfg)\<rparr>) = conf_ns cfg"
  by (simp add: conf_ns_def conf_str_def delete_conv')

lemma after_tick_synced:
  assumes tick: "after_tick env lo = (Inr b, lo')"
    and sync: "le_durability env \<noteq> DExit" "le_checkpointer env \<noteq> None"
    and env: "serde_ok sd" "wf_dict (le_specs env)" "\<And>n. le_uuid env n \<noteq> []"
    and fresh: "fresh_draw env (cp_channel_versions (lo_checkpoint lo))"
    and synced: "synced sd env t sv lo"
  shows "\<exists>s sv'. lo_saves lo' = lo_saves lo @ [s] \<and> run_save sd s sv = Inr sv' \<and> synced sd env t sv' lo' \<and> reads_back sd env t sv' lo'"
proof (rule after_tick_cases [OF tick, of b])
  fix applied :: "checkpoint \<times> channels \<times> string list" and lo1
  let ?ws = "concat (map tw_writes (loop_tasks lo))"
  let ?lo = "lo\<lparr>lo_overwritten := remdups (lo_overwritten lo @ overwritten_deltas env ?ws)\<rparr>"
  obtain cp chs upd where r: "applied = (cp, chs, upd)" by (cases applied)
  assume aw: "apply_writes (lo_checkpoint lo) (lo_channels lo) (loop_tasks lo) (Some (le_get_next_version env)) (le_trigger_to_nodes env) = Inr applied"
    and put: "put_checkpoint env (Some [(''source'', VStr ''loop'')]) (applied_state env ?lo applied) = Inr lo1"
    and lo': "lo' = (if isl (Inr b :: bool res) then lo1\<lparr>lo_status := StInterruptAfter\<rparr>
            else lo1\<lparr>lo_config := (lo_config lo1)\<lparr>cfg_configurable := AList.delete ''__pregel_resuming'' (cfg_configurable (lo_config lo1))\<rparr>\<rparr>)"
  note aw = aw [unfolded r]
  let ?lo2 = "applied_state env ?lo applied"
  from synced have s: "conf_index (lo_checkpoint_config lo) ''thread_id'' = Inr t" "channels_inv (lo_channels lo)"
    "specs_match (channel_specs (le_specs env)) (lo_channels lo)" "all_persist (lo_channels lo)" "lo_overwritten lo = []"
    "wf_dict (cp_channel_versions (lo_checkpoint lo))" "lo_previous_versions lo = cp_channel_versions (lo_checkpoint lo)"
    by (auto simp: synced_def)
  have "overwritten_deltas env ?ws = []"
    using no_delta_specs [OF s(3,4) env(2)] by (simp add: overwritten_deltas_def)
  then have over: "lo_overwritten ?lo2 = []" using s(5) by (simp add: applied_state_def r)
  obtain v where v: "le_get_next_version env (max_version (cp_channel_versions (lo_checkpoint lo))) = Inr v"
    by (rule apply_writes_steps [OF aw]) (auto simp: draw_version_Some)
  have unb: "dict_get (cp_channel_versions cp) k = Some v \<or>
      dict_get (cp_channel_versions cp) k = dict_get (cp_channel_versions (lo_checkpoint lo)) k \<and> dict_get chs k = dict_get (lo_channels lo) k" for k
    using apply_writes_unbumped [OF aw v] by blast
  have less: "null_of v < v" "\<And>j u. dict_get (cp_channel_versions (lo_checkpoint lo)) j = Some u \<Longrightarrow> u < v"
    using fresh v by (auto simp: fresh_draw_def)
  have ns: "conf_ns (lo_config ?lo2) = conf_ns (lo_config lo)" by simp
  have "\<exists>s sv'. lo_saves lo1 = lo_saves ?lo2 @ [s] \<and> run_save sd s sv = Inr sv' \<and> synced sd env t sv' lo1 \<and> reads_back sd env t sv' lo1"
  proof (rule put_checkpoint_synced [OF put sync env, where w = v])
    show "conf_index (lo_checkpoint_config ?lo2) ''thread_id'' = Inr t" using s(1) by simp
    show "channels_inv (lo_channels ?lo2)" using apply_writes_inv [OF aw s(2)] by (simp add: r)
    show "specs_match (channel_specs (le_specs env)) (lo_channels ?lo2)" using apply_writes_specs [OF aw s(3)] by (simp add: r)
    show "all_persist (lo_channels ?lo2)" using apply_writes_persists [OF aw s(4)] by (simp add: r)
    show "wf_dict (cp_channel_versions (lo_checkpoint ?lo2))" using apply_writes_wf_versions [OF aw s(6)] by (simp add: r)
    show "lo_overwritten ?lo2 = []" by (rule over)
    fix k
    show "u = v \<or> dict_get (lo_previous_versions ?lo2) k = Some u" if "dict_get (cp_channel_versions (lo_checkpoint ?lo2)) k = Some u" for u
      using unb [of k] that s(7) by (auto simp: r)
    show "u < v" if "dict_get (lo_previous_versions ?lo2) k = Some u" for u using less(2) that s(7) by simp
    show "ch_from_checkpoint c None = Inr c" if "dict_get (lo_channels ?lo2) k = Some c" "dict_get (cp_channel_versions (lo_checkpoint ?lo2)) k = None" for c
      using unb [of k] that s(7) synced by (auto simp: r synced_def)
    show "load_blob sd sv t (conf_ns (lo_config ?lo2)) k ver = chan_value (lo_channels ?lo2) k"
      if "dict_get (cp_channel_versions (lo_checkpoint ?lo2)) k = Some ver" "dict_get (lo_previous_versions ?lo2) k = Some ver" for ver
      using unb [of k] that s(7) synced less(2) [of k ver] by (auto simp: r synced_def chan_value_def)
  qed (use less(1) in simp_all)
  moreover have "same_place lo1 lo'" using lo' by (simp add: same_place_def conf_ns_delete)
  ultimately show ?thesis
    using lo' by (auto intro: synced_place reads_back_place)
qed simp

text \<open>Executing the saves of the run so far on the saver gives a state from which the live channels
  can be read back.\<close>

definition saved_run :: "'b serde \<Rightarrow> loop_env \<Rightarrow> string \<Rightarrow> 'b saver \<Rightarrow> loop \<Rightarrow> bool" where
  "saved_run sd env t sv0 lo \<longleftrightarrow>
     (\<exists>sv. run_saves sd (lo_saves lo) sv0 = Inr sv \<and> synced sd env t sv lo \<and> reads_back sd env t sv lo)"

lemma run_saves_append: "run_saves sd (xs @ ys) sv = rbind (run_saves sd xs sv) (run_saves sd ys)"
  unfolding run_saves_def rfold_append ..

lemma superstep_saved:
  assumes step: "superstep env ehs handled cache lo lo'"
    and sync: "le_durability env \<noteq> DExit" "le_checkpointer env \<noteq> None"
    and env: "serde_ok sd" "wf_dict (le_specs env)" "\<And>n. le_uuid env n \<noteq> []"
    and fresh: "fresh_draw env (cp_channel_versions (lo_checkpoint lo))"
    and saved: "saved_run sd env t sv0 lo"
  shows "saved_run sd env t sv0 lo'"
  using step
proof cases
  case (step drain lo1 lo2)
  obtain sv where sv: "run_saves sd (lo_saves lo) sv0 = Inr sv" "synced sd env t sv lo"
    using saved by (auto simp: saved_run_def)
  obtain ws where ws: "lo_saves lo2 = lo_saves lo1 @ ws" "\<forall>s \<in> set ws. \<exists>w i p. s = SaveWrites (writes_config lo1) w i p"
    using runner_steps_saves [OF step(2)] by (auto simp: saves_writes_def)
  have f: "runner_frame lo lo1" "runner_frame lo1 lo2" using tick_True [OF step(1)] runner_steps_frame [OF step(2)] by auto
  have "conf_index (lo_checkpoint_config lo1) ''thread_id'' = Inr t"
    using sv(2) runner_frameD(5) [OF f(1)] by (simp add: synced_def)
  then obtain sv1 where sv1: "run_saves sd ws sv = Inr sv1" "sv_blobs sv1 = sv_blobs sv"
    using run_writes [OF _ ws(2)] by blast
  have place: "same_place lo lo2" by (rule same_place_frame [OF runner_frame_trans [OF f]])
  have "fresh_draw env (cp_channel_versions (lo_checkpoint lo2))" using fresh place by (simp add: same_place_def)
  from after_tick_synced [OF step(3) sync env this synced_place [OF sv(2) place sv1(2)]]
  obtain s sv2 where "lo_saves lo' = lo_saves lo2 @ [s]" "run_save sd s sv1 = Inr sv2" "synced sd env t sv2 lo'" "reads_back sd env t sv2 lo'"
    by blast
  then show ?thesis unfolding saved_run_def
    using sv(1) sv1(1) ws(1) tick_saves [OF step(1)] by (auto simp: run_saves_append) (auto simp: run_saves_def)
qed

subsection \<open>Entering a fresh thread\<close>

lemma value_restores_at:
  "lv_from_checkpoint a v = Inr a' \<Longrightarrow> lv_from_checkpoint a' w = lv_from_checkpoint a w"
  "lvf_from_checkpoint l v = Inr l' \<Longrightarrow> lvf_from_checkpoint l' w = lvf_from_checkpoint l w"
  "av_from_checkpoint y v = Inr y' \<Longrightarrow> av_from_checkpoint y' w = av_from_checkpoint y w"
  "ev_from_checkpoint e v = Inr e' \<Longrightarrow> ev_from_checkpoint e' w = ev_from_checkpoint e w"
  "uv_from_checkpoint u v = Inr u' \<Longrightarrow> uv_from_checkpoint u' w = uv_from_checkpoint u w"
  "tp_from_checkpoint t v = Inr t' \<Longrightarrow> tp_from_checkpoint t' w = tp_from_checkpoint t w"
  "nb_from_checkpoint n v = Inr n' \<Longrightarrow> nb_from_checkpoint n' w = nb_from_checkpoint n w"
  "nbf_from_checkpoint m v = Inr m' \<Longrightarrow> nbf_from_checkpoint m' w = nbf_from_checkpoint m w"
  "bo_from_checkpoint b v = Inr b' \<Longrightarrow> bo_from_checkpoint b' w = bo_from_checkpoint b w"
  by (cases v; cases w; auto simp: lv_from_checkpoint_def lvf_from_checkpoint_def av_from_checkpoint_def ev_from_checkpoint_def
      uv_from_checkpoint_def lv_init_def lvf_init_def av_init_def ev_init_def uv_init_def tp_from_checkpoint_def tp_init_def
      nb_from_checkpoint_def nb_init_def nbf_from_checkpoint_def nbf_init_def bo_from_checkpoint_def bo_init_def
      rbind_Inr_iff Let_def)+

lemma restores_spec:
  "lv_from_checkpoint a v = Inr a' \<Longrightarrow> lv_from_checkpoint a' = lv_from_checkpoint a"
  "lvf_from_checkpoint l v = Inr l' \<Longrightarrow> lvf_from_checkpoint l' = lvf_from_checkpoint l"
  "av_from_checkpoint y v = Inr y' \<Longrightarrow> av_from_checkpoint y' = av_from_checkpoint y"
  "ev_from_checkpoint e v = Inr e' \<Longrightarrow> ev_from_checkpoint e' = ev_from_checkpoint e"
  "uv_from_checkpoint u v = Inr u' \<Longrightarrow> uv_from_checkpoint u' = uv_from_checkpoint u"
  "tp_from_checkpoint t v = Inr t' \<Longrightarrow> tp_from_checkpoint t' = tp_from_checkpoint t"
  "nb_from_checkpoint n v = Inr n' \<Longrightarrow> nb_from_checkpoint n' = nb_from_checkpoint n"
  "nbf_from_checkpoint m v = Inr m' \<Longrightarrow> nbf_from_checkpoint m' = nbf_from_checkpoint m"
  "bo_from_checkpoint b v = Inr b' \<Longrightarrow> bo_from_checkpoint b' = bo_from_checkpoint b"
  by (rule ext; erule value_restores_at)+

lemma restores_names:
  "nb_from_checkpoint n v = Inr n' \<Longrightarrow> nb_names n' = nb_names n"
  "nbf_from_checkpoint m v = Inr m' \<Longrightarrow> nbf_names m' = nbf_names m"
  by (cases v; auto simp: nb_from_checkpoint_def nb_init_def nbf_from_checkpoint_def nbf_init_def rbind_Inr_iff Let_def)+

lemma delta_restores_fields:
  assumes "dc_from_checkpoint d v = Inr d'"
  shows "dc_reducer d' = dc_reducer d" "dc_typ d' = dc_typ d" "dc_frequency d' = dc_frequency d" "dc_key d' = dc_key d"
  using assms by (cases v; cases "the v"; auto simp: dc_from_checkpoint_def dc_init_def rbind_Inr_iff Let_def split: if_split_asm)+

lemma delta_restores_spec:
  assumes "dc_from_checkpoint d v = Inr d'"
  shows "dc_from_checkpoint d' = dc_from_checkpoint d"
  unfolding fun_eq_iff dc_from_checkpoint_def delta_restores_fields [OF assms] by simp

lemma from_checkpoint_spec:
  assumes "ch_from_checkpoint s v = Inr c"
  shows "same_spec s c \<and> ch_persists c = ch_persists s \<and> has_names c = has_names s"
  using assms
  by (cases s) (auto simp: same_spec_def ch_persists_def as_channel_Inr restores_names dest: restores_spec delta_restores_spec)

lemma from_nothing_inv: "ch_from_checkpoint s None = Inr c \<Longrightarrow> ch_inv c"
  by (cases s) (auto simp: as_channel_Inr lvf_from_checkpoint_def lvf_defs lvf_init_def bo_from_checkpoint_def bo_defs
      dc_from_checkpoint_def dc_defs nb_inv_def nb_defs nbf_inv_def nbf_defs rbind_Inr_iff Let_def split: sum.split if_split_asm)

definition plain_specs :: "(string, spec) dict \<Rightarrow> bool" where
  "plain_specs specs \<longleftrightarrow> wf_dict specs \<and>
     (\<forall>k c. dict_get (channel_specs specs) k = Some c \<longrightarrow> ch_persists c \<and> has_names c)"

text \<open>The channels of a checkpoint.\<close>

lemma restore_plain:
  assumes "channels_from_checkpoint specs cp saver = Inr (chs, mg)" "plain_specs specs"
  shows "wf_dict chs \<and> specs_match (channel_specs specs) chs \<and> all_persist chs
    \<and> (\<forall>k c. dict_get chs k = Some c \<longrightarrow> has_names c \<and> ch_from_checkpoint c (dict_get (cp_channel_values cp) k) = Inr c)"
proof -
  let ?chans = "channel_specs specs" and ?vals = "cp_channel_values cp"
  have wf: "wf_dict ?chans" using assms(2) by (simp add: plain_specs_def wf_channel_specs)
  have "filter (\<lambda>(k, c). needs_replay c (dict_get ?vals k)) ?chans = []"
    using assms(2) wf by (fastforce simp: filter_empty_conv plain_specs_def ch_persists_def map_of_eq_Some_iff)
  then have r: "rfold (restore_step [] ?vals) ?chans [] = Inr chs"
    using assms(1) by (cases saver) (auto simp: channels_from_checkpoint_def Let_def rbind_Inr_iff)
  have some: "\<exists>c. ch_from_checkpoint spec (dict_get ?vals k) = Inr c \<and> dict_get chs k = Some c"
    if "dict_get ?chans k = Some spec" for k spec
    using restore_all [OF r wf that] by simp
  have none: "dict_get chs k = None" if "dict_get ?chans k = None" for k
  proof -
    have k: "k \<notin> fst ` set ?chans" using that by (simp add: map_of_eq_None_iff)
    have "dict_get chs k = dict_get [] k"
    proof (rule rfold_view [where view = "\<lambda>s. dict_get s k", OF restore_other [of _ k] r wf])
      fix x assume "x \<in> set ?chans" "fst x = k"
      then show ?thesis using k by blast
    qed simp_all
    then show ?thesis by simp
  qed
  have c: "\<exists>spec. dict_get ?chans k = Some spec \<and> ch_from_checkpoint spec (dict_get ?vals k) = Inr c" if "dict_get chs k = Some c" for k c
    using some [of k] none [of k] that by (cases "dict_get ?chans k") auto
  have keep: "ch_persists c \<and> has_names c \<and> ch_from_checkpoint c (dict_get ?vals k) = Inr c" if "dict_get chs k = Some c" for k c
  proof -
    from c [OF that] obtain spec where spec: "dict_get ?chans k = Some spec" "ch_from_checkpoint spec (dict_get ?vals k) = Inr c" by blast
    then have "ch_persists spec" "has_names spec" using assms(2) unfolding plain_specs_def by blast+
    then show ?thesis using from_checkpoint_spec [OF spec(2)] spec(2) unfolding same_spec_def by metis
  qed
  have "wf_dict chs"
    by (rule rfold_invariant [OF r]) (auto simp: restore_step_def rbind_Inr_iff distinct_update)
  moreover have "rel_option same_spec (dict_get ?chans k) (dict_get chs k)" for k
    using some [of k] none [of k] from_checkpoint_spec by (cases "dict_get ?chans k") fastforce+
  ultimately show ?thesis using keep by (auto simp: specs_match_def all_persist_def)
qed

lemma restore_empty:
  assumes "channels_from_checkpoint specs (empty_checkpoint i ts) saver = Inr (chs, mg)" "plain_specs specs"
  shows "channels_inv chs \<and> specs_match (channel_specs specs) chs \<and> all_persist chs
    \<and> (\<forall>k c. dict_get chs k = Some c \<longrightarrow> ch_from_checkpoint c None = Inr c)"
proof -
  have vals: "dict_get (cp_channel_values (empty_checkpoint i ts)) k = None" for k by (simp add: empty_checkpoint_def)
  have r: "wf_dict chs" "specs_match (channel_specs specs) chs" "all_persist chs"
    "\<forall>k c. dict_get chs k = Some c \<longrightarrow> has_names c \<and> ch_from_checkpoint c None = Inr c"
    using restore_plain [OF assms] unfolding vals by blast+
  then have "channels_inv chs" unfolding channels_inv_def using from_nothing_inv by metis
  with r show ?thesis by blast
qed

text \<open>An input to a fresh thread: the input checkpoint is saved.\<close>

lemma first_input_saved:
  assumes input: "first_input env ws (u, lo) = Inr (u', lo')"
    and sync: "le_durability env \<noteq> DExit" "le_checkpointer env \<noteq> None"
    and env: "serde_ok sd" "wf_dict (le_specs env)" "\<And>n. le_uuid env n \<noteq> []"
    and fresh: "fresh_draw env []" and t: "conf_index (lo_checkpoint_config lo) ''thread_id'' = Inr t"
    and chs: "channels_inv (lo_channels lo)" "specs_match (channel_specs (le_specs env)) (lo_channels lo)"
      "all_persist (lo_channels lo)" "\<And>k c. dict_get (lo_channels lo) k = Some c \<Longrightarrow> ch_from_checkpoint c None = Inr c"
    and empty: "cp_channel_versions (lo_checkpoint lo) = []" "lo_previous_versions lo = []" "lo_overwritten lo = []" "lo_saves lo = []"
  shows "saved_run sd env t sv0 lo'"
proof -
  have nd: "\<not> is_delta_spec env c" for c by (rule no_delta_specs [OF chs(2,3) env(2)])
  from input empty(3) nd obtain tasks pws cp chs' upd where
    aw: "apply_writes (lo_checkpoint lo) (lo_channels lo) (map (task_writes.truncate \<circ> snd) (exec_tasks tasks) @ [input_task ws])
      (Some (le_get_next_version env)) (le_trigger_to_nodes env) = Inr (cp, chs', upd)"
    and put: "put_checkpoint env (Some [(''source'', VStr ''input'')])
      (lo\<lparr>lo_pending_writes := pws, lo_overwritten := [], lo_checkpoint := cp, lo_channels := chs',
          lo_exit_delta_writes := map_option (\<lambda>es. es) (lo_exit_delta_writes lo), lo_updated := Some upd\<rparr>) = Inr lo'"
    by (auto simp: first_input_def save_delta_input_def input_state_def Let_def rbind_Inr_iff overwritten_deltas_def delta_writes_def)
  let ?lo = "lo\<lparr>lo_pending_writes := pws, lo_overwritten := [], lo_checkpoint := cp, lo_channels := chs',
          lo_exit_delta_writes := map_option (\<lambda>es. es) (lo_exit_delta_writes lo), lo_updated := Some upd\<rparr>"
  obtain v where v: "le_get_next_version env (max_version (cp_channel_versions (lo_checkpoint lo))) = Inr v"
    by (rule apply_writes_steps [OF aw]) (auto simp: draw_version_Some)
  have unb: "dict_get (cp_channel_versions cp) k = Some v \<or> dict_get (cp_channel_versions cp) k = None \<and> dict_get chs' k = dict_get (lo_channels lo) k" for k
    using apply_writes_unbumped [OF aw v, of k] empty(1) by simp
  have "\<exists>s sv'. lo_saves lo' = lo_saves ?lo @ [s] \<and> run_save sd s sv0 = Inr sv' \<and> synced sd env t sv' lo' \<and> reads_back sd env t sv' lo'"
  proof (rule put_checkpoint_synced [OF put sync env, where w = v])
    show "channels_inv (lo_channels ?lo)" using apply_writes_inv [OF aw chs(1)] by simp
    show "specs_match (channel_specs (le_specs env)) (lo_channels ?lo)" using apply_writes_specs [OF aw chs(2)] by simp
    show "all_persist (lo_channels ?lo)" using apply_writes_persists [OF aw chs(3)] by simp
    show "wf_dict (cp_channel_versions (lo_checkpoint ?lo))" using apply_writes_wf_versions [OF aw] empty(1) by simp
    show "null_of v < v" using fresh v by (simp add: fresh_draw_def empty(1))
    fix k
    show "u = v \<or> dict_get (lo_previous_versions ?lo) k = Some u" if "dict_get (cp_channel_versions (lo_checkpoint ?lo)) k = Some u" for u
      using unb [of k] that by auto
    show "ch_from_checkpoint c None = Inr c" if "dict_get (lo_channels ?lo) k = Some c" "dict_get (cp_channel_versions (lo_checkpoint ?lo)) k = None" for c
      using unb [of k] that chs(4) by auto
  qed (use t empty(2) in simp_all)
  then show ?thesis using empty(4) by (auto simp: saved_run_def run_saves_def)
qed

text \<open>An input of a fresh thread, when there is one: \<open>_first\<close> saves the input checkpoint.\<close>

lemma first_saved:
  assumes first: "first env (ValueInput v) u lo = Inr (u', lo')"
    and sync: "le_durability env \<noteq> DExit" "le_checkpointer env \<noteq> None"
    and env: "serde_ok sd" "wf_dict (le_specs env)" "\<And>n. le_uuid env n \<noteq> []"
    and fresh: "fresh_draw env []" and t: "conf_index (lo_checkpoint_config lo) ''thread_id'' = Inr t"
    and chs: "channels_inv (lo_channels lo)" "specs_match (channel_specs (le_specs env)) (lo_channels lo)"
      "all_persist (lo_channels lo)" "\<And>k c. dict_get (lo_channels lo) k = Some c \<Longrightarrow> ch_from_checkpoint c None = Inr c"
    and empty: "cp_channel_versions (lo_checkpoint lo) = []" "lo_previous_versions lo = []" "lo_overwritten lo = []" "lo_saves lo = []"
      "lo_pending_writes lo = []"
    and key: "\<not> in_dict ''__pregel_resuming'' (cfg_configurable (lo_config lo))"
  shows "saved_run sd env t sv0 lo'"
proof -
  have r: "\<not> is_resuming env (ValueInput v) lo" using empty(1) by (simp add: is_resuming_def)
  have p: "(if is_time_traveling env (ValueInput v) lo then lo\<lparr>lo_pending_writes := filter (\<lambda>(_, c, _). c \<noteq> RESUME) (lo_pending_writes lo)\<rparr> else lo) = lo"
    using empty(5) by simp
  have n: "apply_null_writes env (u, lo) = Inr (u, lo)" using empty(5) by (simp add: apply_null_writes_def)
  from first obtain ws u3 lo3 where ws: "first_input env ws (u, lo) = Inr (u3, lo3)"
    and fin: "first_finish env False (is_time_traveling env (ValueInput v) lo) lo3 = Inr lo'"
    unfolding first_def Let_def p using r n key
    by (auto simp: first_proceed_def rbind_Inr_iff split: if_split_asm)
  have "saved_run sd env t sv0 lo3"
    by (rule first_input_saved [OF ws sync env fresh t chs empty(1-4)])
  moreover have "same_place lo3 lo'" "lo_saves lo' = lo_saves lo3"
    using fin by (auto simp: first_finish_def same_place_def conf_ns_def split: if_split_asm)
  ultimately show ?thesis unfolding saved_run_def by (force intro: synced_place reads_back_place)
qed

lemma conf_index_iff: "conf_index cfg k = Inr s \<longleftrightarrow> dict_get (cfg_configurable cfg) k = Some (CStr s)"
  by (simp add: conf_index_def split: option.split cval.split)

lemma init_config_get:
  assumes "init_config env cfg = Inr cfg'" "k \<noteq> ''checkpoint_ns''" "k \<noteq> ''checkpoint_id''"
  shows "dict_get (cfg_configurable cfg') k = dict_get (cfg_configurable cfg) k"
  using assms by (auto simp: init_config_def rbind_Inr_iff patch_get split: option.split_asm if_split_asm)

lemma init_checkpoint_config_thread:
  "dict_get (cfg_configurable cfg) ''thread_id'' = Some (CStr t) \<Longrightarrow>
     dict_get (cfg_configurable (init_checkpoint_config cfg)) ''thread_id'' = Some (CStr t)"
  by (auto simp: init_checkpoint_config_def Let_def patch_get split: option.split)

lemma wf_patch: "wf_dict (cfg_configurable cfg) \<Longrightarrow> wf_dict (cfg_configurable (patch_configurable cfg patch))"
  by (simp add: patch_configurable_def wf_dict_update)

lemma init_config_wf:
  "init_config env cfg = Inr cfg' \<Longrightarrow> wf_dict (cfg_configurable cfg) \<Longrightarrow> wf_dict (cfg_configurable cfg')"
  by (auto simp: init_config_def rbind_Inr_iff wf_patch split: option.split_asm if_split_asm)

lemma init_checkpoint_config_wf: "wf_dict (cfg_configurable cfg) \<Longrightarrow> wf_dict (cfg_configurable (init_checkpoint_config cfg))"
  by (simp add: init_checkpoint_config_def Let_def wf_patch split: option.split cval.split)

lemma dict_get_rev: "wf_dict d \<Longrightarrow> dict_get (rev d) k = dict_get d k"
  by (rule fun_cong [of _ _ k], subst map_of_inject_set) (simp_all add: rev_map [symmetric])

lemma enter_saved:
  assumes enter: "enter env cfg None history (ValueInput v) = Inr lo"
    and sync: "le_durability env \<noteq> DExit" "le_checkpointer env \<noteq> None"
    and env: "serde_ok sd" "plain_specs (le_specs env)" "\<And>n. le_uuid env n \<noteq> []" "fresh_draw env []"
    and cfg: "conf_index cfg ''thread_id'' = Inr t" "\<not> in_dict ''__pregel_resuming'' (cfg_configurable cfg)"
      "wf_dict (cfg_configurable cfg)"
  shows "saved_run sd env t sv0 lo"
proof -
  obtain cfg1 where cfg1: "init_config env cfg = Inr cfg1" using enter by (auto simp: enter_def rbind_Inr_iff)
  let ?ccfg = "init_checkpoint_config cfg1"
  let ?cfg2 = "enter_config env ?ccfg cfg1"
  let ?tup = "loaded_tuple env ?ccfg None"
  let ?ccfg2 = "loaded_config ?ccfg ?tup"
  let ?cp = "empty_checkpoint (le_uuid env 0) (le_now env 0)"
  have tup: "ct_checkpoint ?tup = ?cp" "ct_config ?tup = ?ccfg" "ct_pending_writes ?tup = []"
    by (simp_all add: loaded_tuple_def)
  from enter obtain chs mg step u lo1 where
    chs: "channels_from_checkpoint (le_specs env) ?cp (Some (history ?ccfg2)) = Inr (chs, mg)"
    and first: "first env (ValueInput v) None (entered_state env cfg ?cfg2 ?ccfg2 False ?tup chs mg step) = Inr (u, lo1)"
    and lo: "lo = lo1\<lparr>lo_updated := u\<rparr>"
    using sync(2) by (auto simp: enter_def cfg1 Let_def rbind_Inr_iff tup empty_checkpoint_def)
  have "dict_get (cfg_configurable cfg1) ''thread_id'' = Some (CStr t)"
    using init_config_get [OF cfg1] cfg(1) by (simp add: conf_index_iff)
  then have t: "conf_index ?ccfg2 ''thread_id'' = Inr t"
    using init_checkpoint_config_thread [of cfg1 t] dict_get_rev [OF init_checkpoint_config_wf [OF init_config_wf [OF cfg1 cfg(3)]]]
    by (simp add: conf_index_iff dict_get_update loaded_config_def tup)
  have key: "\<not> in_dict ''__pregel_resuming'' (cfg_configurable ?cfg2)"
    using init_config_get [OF cfg1] cfg(2) by (simp add: enter_config_def delete_conv')
  have wf: "wf_dict (le_specs env)" using env(2) by (simp add: plain_specs_def)
  have "saved_run sd env t sv0 lo1"
    by (rule first_saved [OF first sync env(1) wf env(3,4)])
      (use t key restore_empty [OF chs env(2)] in \<open>simp_all add: entered_state_def tup empty_checkpoint_def\<close>)
  moreover have "same_place lo1 lo" "lo_saves lo = lo_saves lo1" using lo by (simp_all add: same_place_def)
  ultimately show ?thesis unfolding saved_run_def by (force intro: synced_place reads_back_place)
qed

subsection \<open>Version sources\<close>

lemma max_version_Some:
  assumes "max_version vers = Some m"
  shows "m \<in> snd ` set vers" "\<And>k u. dict_get vers k = Some u \<Longrightarrow> u \<le> m"
proof -
  have f: "fold max xs x \<in> insert x (set xs) \<and> (\<forall>y \<in> insert x (set xs). y \<le> fold max xs x)" for xs :: "version list" and x
  proof (induction xs arbitrary: x)
    case (Cons y xs)
    from Cons.IH [of "max y x"] show ?case by (auto simp: max_def split: if_splits)
  qed simp
  obtain x xs where "map snd vers = x # xs" "m = fold max xs x"
    using assms by (auto simp: max_version_def split: list.split_asm)
  with f [where xs = xs and x = x] have m: "m \<in> set (map snd vers)" "\<forall>y \<in> set (map snd vers). y \<le> m" by auto
  then show "m \<in> snd ` set vers" by simp
  show "u \<le> m" if "dict_get vers k = Some u" for k u
    using m(2) map_of_SomeD [OF that] by force
qed

lemma max_version_None: "max_version vers = None \<Longrightarrow> vers = []"
  by (auto simp: max_version_def split: list.split_asm)

text \<open>Both version sources of the repository are fresh where they are used: positive integers, and
  the counters of the in-memory saver below \<open>10 ^ 32\<close>.\<close>

lemma fresh_draw_base:
  assumes "le_get_next_version env = base_get_next_version" "\<forall>u \<in> snd ` set vers. \<exists>i > 0. u = IVer i"
  shows "fresh_draw env vers"
proof (cases "max_version vers")
  case None
  then show ?thesis using max_version_None [OF None] assms(1) by (simp add: fresh_draw_def)
next
  case (Some m)
  then obtain i where "m = IVer i" "i > 0" using max_version_Some(1) assms(2) by blast
  moreover from this have "u < IVer (i + 1)" if "dict_get vers k = Some u" for k u
    using max_version_Some(2) [OF Some that] by (cases u) auto
  ultimately show ?thesis using assms(1) Some by (auto simp: fresh_draw_def)
qed

lemma mem_version_null: "null_of (mem_version n r) < mem_version n r"
  by (cases "zpad 32 (nat_str n) @ ''.'' @ r") (auto simp: mem_version_def)

lemma fresh_draw_mem:
  assumes "le_get_next_version env = mem_get_next_version rand" "\<forall>u \<in> snd ` set vers. mem_room 1 u"
  shows "fresh_draw env vers"
proof (cases "max_version vers")
  case None
  then show ?thesis using max_version_None [OF None] assms(1) mem_version_null
    by (simp add: fresh_draw_def mem_next_version_none)
next
  case (Some m)
  then have room: "mem_room (Suc 0) m" using max_version_Some(1) assms(2) by auto
  then obtain n r where m: "m = mem_version n r" "n < 10 ^ 32" by (auto simp: mem_room_def)
  have "m < mem_version (n + 1) rand"
    using mem_versions.next_larger [OF room, of rand] mem_next_version [OF m(2)] m(1) by auto
  then have "u < mem_version (n + 1) rand" if "dict_get vers k = Some u" for k u
    using max_version_Some(2) [OF Some that] by simp
  then show ?thesis using assms(1) Some m mem_next_version [OF m(2)] mem_version_null by (auto simp: fresh_draw_def)
qed

section \<open>What is saved is what is live\<close>

text \<open>
  C7: After every superstep of a run on a fresh thread that checkpoints as it goes, executing what
  the loop submitted to its saver and reading the newest checkpoint back restores exactly the live
  channels, with the versions of the live checkpoint and what the nodes have seen of them: a run
  that dies there is resumed from the same state. The channels are of classes that checkpoint their
  value, and the versions that are drawn are new.
\<close>

theorem run_is_persisted:
  assumes "enter env cfg None history (ValueInput v) = Inr lo"
    and "le_durability env \<noteq> DExit" "le_checkpointer env \<noteq> None"
    and "serde_ok sd" "plain_specs (le_specs env)" "\<And>n. le_uuid env n \<noteq> []" "fresh_draw env []"
    and "conf_index cfg ''thread_id'' = Inr t" "\<not> in_dict ''__pregel_resuming'' (cfg_configurable cfg)"
      "wf_dict (cfg_configurable cfg)"
    and "(\<lambda>a b. superstep env error_nodes handled cache a b \<and> fresh_draw env (cp_channel_versions (lo_checkpoint a)))\<^sup>*\<^sup>* lo lo'"
  shows "\<exists>sv tup sv' chs. run_saves sd (lo_saves lo') saver_init = Inr sv
    \<and> mem_get_tuple sd (saver_config t (conf_ns (lo_config lo')) (cp_id (lo_checkpoint lo'))) sv = Inr (Some tup, sv')
    \<and> cp_channel_versions (ct_checkpoint tup) = cp_channel_versions (lo_checkpoint lo')
    \<and> cp_versions_seen (ct_checkpoint tup) = cp_versions_seen (lo_checkpoint lo')
    \<and> channels_from_checkpoint (le_specs env) (ct_checkpoint tup) None = Inr (chs, managed_specs (le_specs env))
    \<and> (\<forall>k. dict_get chs k = dict_get (lo_channels lo') k)"
proof -
  have wf: "wf_dict (le_specs env)" using assms(5) by (simp add: plain_specs_def)
  have "saved_run sd env t saver_init lo'"
    using assms(11) enter_saved [OF assms(1-10)]
  proof (induction rule: rtranclp_induct)
    case (step a b)
    then show ?case using superstep_saved [OF _ assms(2-4) wf assms(6)] by blast
  qed
  then show ?thesis unfolding saved_run_def reads_back_def by blast
qed

theorem run_is_persisted_witness:
  "\<exists>sv tup sv' chs. run_saves ex_serde (lo_saves (ex_step ex_entered)) saver_init = Inr sv
    \<and> mem_get_tuple ex_serde (saver_config ''1'' (conf_ns (lo_config (ex_step ex_entered))) (cp_id (lo_checkpoint (ex_step ex_entered)))) sv = Inr (Some tup, sv')
    \<and> cp_channel_versions (ct_checkpoint tup) = cp_channel_versions (lo_checkpoint (ex_step ex_entered))
    \<and> cp_versions_seen (ct_checkpoint tup) = cp_versions_seen (lo_checkpoint (ex_step ex_entered))
    \<and> channels_from_checkpoint (le_specs ex_loop_env) (ct_checkpoint tup) None = Inr (chs, managed_specs (le_specs ex_loop_env))
    \<and> (\<forall>k. dict_get chs k = dict_get (lo_channels (ex_step ex_entered)) k)"
proof (rule run_is_persisted [OF ex_entered])
  have next_v: "le_get_next_version ex_loop_env = base_get_next_version" by (simp add: ex_loop_env_def)
  show "fresh_draw ex_loop_env []" by (rule fresh_draw_base [OF next_v]) simp
  have "map snd (cp_channel_versions (lo_checkpoint ex_entered)) = [IVer 1]" by code_simp
  then have "snd ` set (cp_channel_versions (lo_checkpoint ex_entered)) = {IVer 1}" by (metis list.set(1) list.set(2) set_map)
  then have "fresh_draw ex_loop_env (cp_channel_versions (lo_checkpoint ex_entered))"
    by (intro fresh_draw_base [OF next_v]) auto
  then show "(\<lambda>a b. superstep ex_loop_env [] [] None a b \<and> fresh_draw ex_loop_env (cp_channel_versions (lo_checkpoint a)))\<^sup>*\<^sup>* ex_entered (ex_step ex_entered)"
    using ex_superstep1 by blast
  show "plain_specs (le_specs ex_loop_env)"
    by (auto simp: plain_specs_def ex_loop_env_def channel_specs_def List.map_filter_simps ch_persists_def split: if_split_asm)
  show "le_uuid ex_loop_env n \<noteq> []" for n
    by (simp add: ex_loop_env_def uuid_groups_def)
  show "wf_dict (cfg_configurable ex_thread)" by code_simp
  show "\<not> in_dict ''__pregel_resuming'' (cfg_configurable ex_thread)" by code_simp
  show "conf_index ex_thread ''thread_id'' = Inr ''1''" by code_simp
qed (simp_all add: ex_loop_env_def ex_serde_ok)

end
