(* ===== verification/Run_Invariant.thy ===== *)
theory Run_Invariant
  imports Run
begin

section \<open>Invariants of a run\<close>

text \<open>
  The interface between an invariant of the loop and the operations that make up a run: an
  invariant that survives the few elementary changes of the state survives the runner's steps, the
  supersteps and the first step of a run. The development's invariants are interpretations.
\<close>

locale run_invariant =
  fixes env :: loop_env and P :: "loop \<Rightarrow> bool"
  assumes elementary:
      "P (lo\<lparr>lo_tasks := ts\<rparr>) = P lo" "P (lo\<lparr>lo_pending_writes := pws\<rparr>) = P lo" "P (lo\<lparr>lo_drawn := n\<rparr>) = P lo"
      "P (lo\<lparr>lo_status := st\<rparr>) = P lo" "P (lo\<lparr>lo_config := cfg\<rparr>) = P lo" "P (lo\<lparr>lo_updated := up\<rparr>) = P lo"
      "P (lo\<lparr>lo_events := es\<rparr>) = P lo" "P (lo\<lparr>lo_is_replaying := b\<rparr>) = P lo" "P (lo\<lparr>lo_exit_delta_writes := ds\<rparr>) = P lo"
    and save_writes: "P lo \<Longrightarrow> P (put_stamped env t ws lo)"
    and save_checkpoint: "P lo \<Longrightarrow> put_checkpoint env (Some md) lo = Inr lo' \<Longrightarrow> P lo'"
    and step_applied: "P lo \<Longrightarrow> apply_writes (lo_checkpoint lo) (lo_channels lo) (tasks :: task_writes list)
        (Some (le_get_next_version env)) (le_trigger_to_nodes env) = Inr (cp, chs, upd) \<Longrightarrow>
        P (lo\<lparr>lo_checkpoint := cp, lo_channels := chs\<rparr>)"
    and step_applied_exec: "P lo \<Longrightarrow> apply_writes (lo_checkpoint lo) (lo_channels lo) (xtasks :: exec_task list)
        (Some (le_get_next_version env)) (le_trigger_to_nodes env) = Inr (cp, chs, upd) \<Longrightarrow>
        P (lo\<lparr>lo_checkpoint := cp, lo_channels := chs\<rparr>)"
    and overwrites_noted: "P lo \<Longrightarrow> P (lo\<lparr>lo_overwritten := remdups (lo_overwritten lo @ overwritten_deltas env ws)\<rparr>)"
    and interrupt_seen: "P lo \<Longrightarrow> P (lo\<lparr>lo_checkpoint := mark_interrupt_seen (lo_channels lo) (lo_checkpoint lo)\<rparr>)"
begin

lemma task_changes: "P (set_task_writes i f lo) = P lo" "P (add_task t lo) = P lo"
  by (simp_all add: set_task_writes_def add_task_def elementary)

lemma folded: "(\<And>x lo. P (f x lo) = P lo) \<Longrightarrow> P (fold f xs lo) = P lo"
  by (induction xs arbitrary: lo) auto

lemma reapplied: "P (reapply_writes among lo) = P lo"
  unfolding reapply_writes_def by (rule folded) (auto simp: task_changes split: prod.splits)

lemma cached: "P (match_cached_writes cache lo) = P lo"
  unfolding match_cached_writes_def
  by (cases cache) (auto simp: task_changes intro!: folded split: prod.splits option.splits)

lemma put_writes_inv: "loop_put_writes env t ws lo = Inr lo' \<Longrightarrow> P lo \<Longrightarrow> P lo'"
  by (auto simp: loop_put_writes_def rbind_Inr_iff elementary intro!: save_writes split: if_splits)

lemma store_task_writes_inv: "store_task_writes env t ws lo = Inr lo' \<Longrightarrow> P lo \<Longrightarrow> P lo'"
  by (auto simp: store_task_writes_def rbind_Inr_iff elementary task_changes intro!: save_writes)

lemma commit_inv: "commit_task env ehs handled t out lo = Inr lo' \<Longrightarrow> P lo \<Longrightarrow> P lo'"
  by (auto simp: commit_task_def Let_def split: outcome.splits if_splits dest: put_writes_inv store_task_writes_inv)

lemma start_task_inv: "start_task cache t lo = (new, lo') \<Longrightarrow> P lo' = P lo"
  by (auto simp: start_task_def Let_def task_changes reapplied cached split: if_split_asm)

lemma accept_push_inv:
  assumes "accept_push env cache t idx c lo = Inr (new, lo')"
  shows "P lo' = P lo"
proof -
  from assms obtain x pws where "(case x of Some (XTask t) \<Rightarrow> Inr (start_task cache t (lo\<lparr>lo_pending_writes := pws\<rparr>))
      | _ \<Rightarrow> Inr (None, lo\<lparr>lo_pending_writes := pws\<rparr>)) = (Inr (new, lo') :: _ res)"
    by (auto simp: accept_push_def rbind_Inr_iff Let_def)
  then show ?thesis by (cases x; cases "the x") (auto dest!: start_task_inv simp: elementary)
qed

lemma schedule_handler_inv: "schedule_error_handler env cache t e lo = Inr (new, lo') \<Longrightarrow> P lo' = P lo"
  by (auto simp: schedule_error_handler_def rbind_Inr_iff Let_def elementary split: option.split_asm dest!: start_task_inv)

lemma runner_step_inv: "runner_step env ehs handled cache lo lo' \<Longrightarrow> P lo \<Longrightarrow> P lo'"
  by (erule runner_step.cases)
    (auto simp: task_changes cached dest: commit_inv accept_push_inv schedule_handler_inv)

lemma runner_steps_inv: "(runner_step env ehs handled cache)\<^sup>*\<^sup>* lo lo' \<Longrightarrow> P lo \<Longrightarrow> P lo'"
  by (induction rule: rtranclp_induct) (auto intro: runner_step_inv)

lemma resume_handler_inv: "resume_error_handler env x lo = Inr lo' \<Longrightarrow> P lo' = P lo"
  by (cases x) (auto simp: resume_error_handler_def rbind_Inr_iff Let_def elementary task_changes split: option.splits)

lemma resume_pending_inv:
  assumes "resume_pending env lo = Inr lo'"
  shows "P lo' = P lo"
proof -
  have "rfold (resume_error_handler env) xs a = Inr b \<Longrightarrow> P b = P a" for xs a b
    by (erule rfold_invariant [where P = "\<lambda>s. P s = P a"]) (auto dest: resume_handler_inv)
  then show ?thesis using assms reapplied
    by (auto simp: resume_pending_def resume_error_handlers_def split: if_splits)
qed

lemma tick_inv:
  assumes "tick env drain lo = (Inr True, lo')"
  shows "P lo' = P lo"
proof -
  from assms obtain ts pws where "resume_pending env (lo\<lparr>lo_tasks := ts, lo_pending_writes := pws\<rparr>) = Inr lo'"
    by (auto simp: tick_def Let_def split: if_splits sum.splits)
  then show ?thesis using resume_pending_inv by (metis elementary(1,2))
qed

lemma after_tick_inv:
  assumes "after_tick env lo = (Inr b, lo')" "P lo"
  shows "P lo'"
proof (rule after_tick_cases [OF assms(1), of b])
  fix applied :: "checkpoint \<times> channels \<times> string list" and lo1
  let ?lo = "lo\<lparr>lo_overwritten := remdups (lo_overwritten lo @ overwritten_deltas env (concat (map tw_writes (loop_tasks lo))))\<rparr>"
  obtain cp chs upd where r: "applied = (cp, chs, upd)" by (cases applied)
  assume aw: "apply_writes (lo_checkpoint lo) (lo_channels lo) (loop_tasks lo) (Some (le_get_next_version env)) (le_trigger_to_nodes env) = Inr applied"
    and put: "put_checkpoint env (Some [(''source'', VStr ''loop'')]) (applied_state env ?lo applied) = Inr lo1"
    and lo': "lo' = (if isl (Inr b :: bool res) then lo1\<lparr>lo_status := StInterruptAfter\<rparr>
            else lo1\<lparr>lo_config := (lo_config lo1)\<lparr>cfg_configurable := AList.delete ''__pregel_resuming'' (cfg_configurable (lo_config lo1))\<rparr>\<rparr>)"
  have "P ?lo" by (rule overwrites_noted [OF assms(2)])
  then have "P (?lo\<lparr>lo_checkpoint := cp, lo_channels := chs\<rparr>)" by (rule step_applied_exec) (use aw r in simp)
  moreover have "applied_state env ?lo applied = (?lo\<lparr>lo_checkpoint := cp, lo_channels := chs\<rparr>)
      \<lparr>lo_updated := Some upd, lo_exit_delta_writes := map_option (\<lambda>es. es @ delta_writes env (lo_step lo) (lo_pending_writes lo)) (lo_exit_delta_writes lo),
       lo_pending_writes := [], lo_is_replaying := False\<rparr>"
    by (simp add: applied_state_def r)
  ultimately have "P (applied_state env ?lo applied)" by (simp only: elementary)
  then show "P lo'" using save_checkpoint [OF _ put] lo' by (simp add: elementary)
qed simp

lemma superstep_inv:
  assumes "superstep env ehs handled cache lo lo'" "P lo"
  shows "P lo'"
  using assms(1)
proof cases
  case (step drain lo1 lo2)
  then show ?thesis using tick_inv runner_steps_inv after_tick_inv assms(2) by metis
qed

lemma first_command_inv:
  assumes "first_command env cmd lo = Inr lo'" "P lo"
  shows "P lo'"
proof -
  obtain m lo1 ws where lo1: "take_resume env cmd lo = Inr (m, lo1)" "rfold (\<lambda>(t, ws). loop_put_writes env t ws) ws lo1 = Inr lo'"
    using assms(1) by (auto simp: first_command_def rbind_Inr_iff)
  have "P lo1" using lo1(1) assms(2)
    by (auto simp: take_resume_def rbind_Inr_iff elementary split: if_splits)
  with lo1(2) show ?thesis by (rule rfold_invariant) (auto intro: put_writes_inv)
qed

lemma apply_null_inv: "apply_null_writes env (u, lo) = Inr (u', lo') \<Longrightarrow> P lo \<Longrightarrow> P lo'"
  by (auto simp: apply_null_writes_def Let_def rbind_Inr_iff elementary split: if_splits intro: step_applied)

lemma first_resume_inv:
  assumes "first_resume env tt lo = Inr lo'" "P lo"
  shows "P lo'"
proof -
  let ?lo = "lo\<lparr>lo_checkpoint := mark_interrupt_seen (lo_channels lo) (lo_checkpoint lo)\<rparr>"
  have 1: "P ?lo" by (rule interrupt_seen [OF assms(2)])
  show ?thesis
  proof (cases "tt \<and> \<not> from_update ?lo")
    case True
    then have "put_checkpoint env (Some [(''source'', VStr ''fork'')])
        (?lo\<lparr>lo_pending_writes := filter (\<lambda>(_, c, _). c \<noteq> INTERRUPT) (lo_pending_writes ?lo)\<rparr>) = Inr lo'"
      using assms(1) unfolding first_resume_def Let_def by (simp only: simp_thms if_True)
    then show ?thesis by (rule save_checkpoint [rotated]) (use 1 in \<open>simp only: elementary\<close>)
  next
    case False
    then show ?thesis using assms(1) 1 unfolding first_resume_def Let_def by (simp only: if_False sum.inject)
  qed
qed

lemma first_input_inv:
  assumes "first_input env ws (u, lo) = Inr (u', lo')" "P lo"
  shows "P lo'"
proof -
  from assms(1) obtain discard pws cp chs upd lo3 where
    aw: "apply_writes (lo_checkpoint lo) (lo_channels lo) (map (task_writes.truncate \<circ> snd) (exec_tasks discard) @ [input_task ws])
      (Some (le_get_next_version env)) (le_trigger_to_nodes env) = Inr (cp, chs, upd)"
    and lo3: "save_delta_input env ws (input_state env ws
        (lo\<lparr>lo_pending_writes := pws, lo_overwritten := remdups (lo_overwritten lo @ overwritten_deltas env ws)\<rparr>) cp chs) = Inr lo3"
    and put: "put_checkpoint env (Some [(''source'', VStr ''input'')]) (lo3\<lparr>lo_updated := Some upd\<rparr>) = Inr lo'"
    by (auto simp: first_input_def rbind_Inr_iff Let_def)
  let ?lo = "lo\<lparr>lo_pending_writes := pws, lo_overwritten := remdups (lo_overwritten lo @ overwritten_deltas env ws)\<rparr>"
  have "P ?lo" using overwrites_noted [of "lo\<lparr>lo_pending_writes := pws\<rparr>"] assms(2) by (simp add: elementary)
  then have "P (?lo\<lparr>lo_checkpoint := cp, lo_channels := chs\<rparr>)" by (rule step_applied) (use aw in simp)
  then have "P (input_state env ws ?lo cp chs)" by (simp add: input_state_def elementary)
  then have "P lo3" using lo3 by (auto simp: save_delta_input_def Let_def split: if_split_asm dest: put_writes_inv)
  then have "P (lo3\<lparr>lo_updated := Some upd\<rparr>)" by (simp add: elementary)
  then show ?thesis by (rule save_checkpoint [OF _ put])
qed

lemma first_inv:
  assumes "first env inp u lo = Inr (u', lo')" "P lo"
  shows "P lo'"
proof -
  let ?lo = "if is_time_traveling env inp lo then lo\<lparr>lo_pending_writes := filter (\<lambda>(_, c, _). c \<noteq> RESUME) (lo_pending_writes lo)\<rparr> else lo"
  from assms(1) obtain lo1 u2 lo2 u3 lo3 where
    1: "(case inp of CommandInput cmd _ \<Rightarrow> first_command env cmd ?lo | _ \<Rightarrow> Inr ?lo) = Inr lo1" and
    2: "apply_null_writes env (u, lo1) = Inr (u2, lo2)" and
    3: "first_proceed env inp (is_resuming env inp lo) (is_time_traveling env inp lo) (u2, lo2) = Inr (u3, lo3)" and
    4: "first_finish env (is_resuming env inp lo) (is_time_traveling env inp lo) lo3 = Inr lo'"
    by (auto simp: first_def Let_def rbind_Inr_iff)
  have "P ?lo" using assms(2) by (simp add: elementary)
  then have "P lo1" using 1 first_command_inv by (cases inp) auto
  then have "P lo2" by (rule apply_null_inv [OF 2])
  then have "P lo3" using 3
    by (auto simp: first_proceed_def rbind_Inr_iff split: if_split_asm dest: first_resume_inv first_input_inv)
  then show ?thesis using 4 by (auto simp: first_finish_def push_event_def Let_def elementary split: if_split_asm)
qed

text \<open>What holds in the state that is loaded holds in every state of the run.\<close>

lemma run_inv:
  assumes "enter env cfg saved history inp = Inr lo" "(superstep env ehs handled cache)\<^sup>*\<^sup>* lo lo'"
    and "\<And>cfg0 cfg ccfg per tup chs mg step saver. channels_from_checkpoint (le_specs env) (ct_checkpoint tup) saver = Inr (chs, mg) \<Longrightarrow>
      P (entered_state env cfg0 cfg ccfg per tup chs mg step)"
  shows "P lo'"
proof -
  have "P lo" using assms(1) by (auto simp: enter_def Let_def rbind_Inr_iff elementary dest: first_inv intro: assms(3))
  with assms(2) show ?thesis by (induction rule: rtranclp_induct) (auto intro: superstep_inv)
qed

end

end
