(* ===== verification/Loop_Props.thy ===== *)
theory Loop_Props
  imports Persistence Run_Invariant
begin

section \<open>Properties of the loop\<close>

text \<open>
  What holds of every run, however it is entered: the channels keep the classes and configuration
  of their specifications; and of the single operations: which writes are pending and saved, what
  is restored of an earlier run, which interrupts are pending, and what a resume skips.
\<close>

subsection \<open>The channels keep their specification\<close>

definition typed :: "loop_env \<Rightarrow> loop \<Rightarrow> bool" where
  "typed env lo \<longleftrightarrow> specs_match (channel_specs (le_specs env)) (lo_channels lo)"

lemma dc_update_fields:
  assumes "dc_replay_writes d vs = Inr d'"
  shows "dc_reducer d' = dc_reducer d" "dc_typ d' = dc_typ d" "dc_frequency d' = dc_frequency d" "dc_key d' = dc_key d"
  using assms by (auto simp: dc_replay_writes_def Let_def rbind_Inr_iff split: if_splits option.splits prod.splits)

lemma replay_spec:
  assumes "replay_channel spec h = Inr c"
  shows "same_spec spec c"
proof (cases spec)
  case (DeltaChannel d)
  then obtain d1 d2 where d: "dc_from_checkpoint d (h_seed h) = Inr d1" "dc_replay_writes d1 (map (\<lambda>(_, _, v). v) (h_writes h)) = Inr d2" "c = DeltaChannel d2"
    using assms by (auto simp: rbind_Inr_iff)
  have "dc_from_checkpoint d2 = dc_from_checkpoint d1"
    unfolding fun_eq_iff dc_from_checkpoint_def dc_update_fields [OF d(2)] by simp
  then show ?thesis using delta_restores_spec [OF d(1)] d(3) DeltaChannel by (simp add: same_spec_def)
qed (use assms in \<open>auto simp: rbind_Inr_iff\<close>)

lemma restored_specs:
  assumes "channels_from_checkpoint specs cp saver = Inr (chs, mg)" "wf_dict specs"
  shows "specs_match (channel_specs specs) chs"
proof -
  let ?chans = "channel_specs specs"
  have wf: "wf_dict ?chans" by (rule wf_channel_specs [OF assms(2)])
  obtain hs where r: "rfold (restore_step hs (cp_channel_values cp)) ?chans [] = Inr chs"
    using assms(1) by (auto simp: channels_from_checkpoint_def Let_def rbind_Inr_iff)
  have "rel_option same_spec (dict_get ?chans k) (dict_get chs k)" for k
  proof (cases "dict_get ?chans k")
    case (Some spec)
    with restore_all [OF r wf Some] show ?thesis
      by (auto split: option.split_asm dest: replay_spec from_checkpoint_spec)
  next
    case None
    then have k: "k \<notin> fst ` set ?chans" by (simp add: map_of_eq_None_iff)
    have "dict_get chs k = dict_get [] k"
    proof (rule rfold_view [where view = "\<lambda>s. dict_get s k", OF restore_other [of _ k] r wf])
      fix x assume "x \<in> set ?chans" "fst x = k"
      then show ?thesis using k by blast
    qed simp_all
    then show ?thesis using None by simp
  qed
  then show ?thesis by (simp add: specs_match_def)
qed

lemma restored_wf:
  assumes "channels_from_checkpoint specs cp saver = Inr (chs, mg)"
  shows "wf_dict chs"
proof -
  obtain hs where "rfold (restore_step hs (cp_channel_values cp)) (channel_specs specs) [] = Inr chs"
    using assms by (auto simp: channels_from_checkpoint_def Let_def rbind_Inr_iff)
  then show ?thesis by (rule rfold_invariant) (auto simp: restore_step_def rbind_Inr_iff distinct_update)
qed

lemma typed_elementary [simp]:
  "typed env (lo\<lparr>lo_tasks := ts\<rparr>) = typed env lo" "typed env (lo\<lparr>lo_pending_writes := pws\<rparr>) = typed env lo"
  "typed env (lo\<lparr>lo_drawn := n\<rparr>) = typed env lo" "typed env (lo\<lparr>lo_status := st\<rparr>) = typed env lo"
  "typed env (lo\<lparr>lo_config := cfg\<rparr>) = typed env lo" "typed env (lo\<lparr>lo_updated := up\<rparr>) = typed env lo"
  "typed env (lo\<lparr>lo_events := es\<rparr>) = typed env lo" "typed env (lo\<lparr>lo_is_replaying := b\<rparr>) = typed env lo"
  "typed env (lo\<lparr>lo_exit_delta_writes := ds\<rparr>) = typed env lo" "typed env (lo\<lparr>lo_overwritten := ks\<rparr>) = typed env lo"
  "typed env (lo\<lparr>lo_checkpoint := cp\<rparr>) = typed env lo" "typed env (lo\<lparr>lo_saves := ss\<rparr>) = typed env lo"
  by (simp_all add: typed_def)

lemma put_stamped_channels [simp]: "lo_channels (put_stamped env t ws lo) = lo_channels lo"
  by (simp add: put_stamped_def submit_writes_def Let_def)

lemma typed_applied:
  "typed env lo \<Longrightarrow> apply_writes cp (lo_channels lo) tasks gnv ttn = Inr (cp', chs, upd) \<Longrightarrow>
     typed env (lo\<lparr>lo_checkpoint := cp', lo_channels := chs\<rparr>)"
  by (simp add: typed_def apply_writes_specs)

interpretation typed_run: run_invariant env "typed env" for env
  by unfold_locales (simp_all add: typed_applied, simp_all add: typed_def put_checkpoint_Some)

lemma entered_typed:
  assumes "channels_from_checkpoint (le_specs env) cp saver = Inr (chs, mg)" "wf_dict (le_specs env)"
  shows "typed env (entered_state env cfg0 cfg ccfg per tup chs mg step)"
  using restored_specs [OF assms] by (simp add: typed_def entered_state_def)

text \<open>
  C8: In every run, however it is entered, the live channels stay instances of the graph's
  specification: the same names in each superstep, each with the class and the configuration that
  its specification gives.
\<close>

theorem run_keeps_channel_types:
  assumes "enter env cfg saved history inp = Inr lo" and "wf_dict (le_specs env)"
    and "(superstep env error_nodes handled cache)\<^sup>*\<^sup>* lo lo'"
  shows "rel_option same_spec (dict_get (channel_specs (le_specs env)) k) (dict_get (lo_channels lo') k)"
proof -
  have "typed env lo'" by (rule typed_run.run_inv [OF assms(1,3) entered_typed [OF _ assms(2)]])
  then show ?thesis by (simp add: typed_def specs_match_def)
qed

theorem run_keeps_channel_types_witness: "dict_get (lo_channels (ex_step ex_entered)) ''c'' = None"
proof -
  have "wf_dict (le_specs ex_loop_env)" by code_simp
  moreover have "(superstep ex_loop_env [] [] None)\<^sup>*\<^sup>* ex_entered (ex_step ex_entered)" using ex_superstep1 by blast
  ultimately have "rel_option same_spec (dict_get (channel_specs (le_specs ex_loop_env)) ''c'') (dict_get (lo_channels (ex_step ex_entered)) ''c'')"
    by (rule run_keeps_channel_types [OF ex_entered])
  moreover have "dict_get (channel_specs (le_specs ex_loop_env)) ''c'' = None"
    by (simp add: ex_loop_env_def channel_specs_def List.map_filter_simps)
  ultimately show ?thesis by simp
qed

subsection \<open>Untracked values are not saved\<close>

text \<open>What a save tells about channel \<open>c\<close>: a write to it, its value in a checkpoint, or a packet whose
  argument is a dict with its name, among the writes or the pending packets of a checkpoint.\<close>

fun packet_tells :: "string \<Rightarrow> val \<Rightarrow> bool" where
  "packet_tells c (VSend node (VDict d) timeout) = in_dict c d"
| "packet_tells c v = False"

definition pending_packets :: "checkpoint \<Rightarrow> val list" where
  "pending_packets cp = (case dict_get (cp_channel_values cp) TASKS of
     Some v \<Rightarrow> (case py_iter v of Inr packets \<Rightarrow> packets | Inl _ \<Rightarrow> []) | None \<Rightarrow> [])"

fun save_tells :: "string \<Rightarrow> save \<Rightarrow> bool" where
  "save_tells c (SaveWrites cfg ws t p) \<longleftrightarrow> list_ex (\<lambda>(k, v). k = c \<or> k = TASKS \<and> packet_tells c v) ws"
| "save_tells c (SaveCheckpoint cfg cp md nv) \<longleftrightarrow>
     in_dict c (cp_channel_values cp) \<or> list_ex (packet_tells c) (pending_packets cp)"

definition clean_save :: "loop_env \<Rightarrow> save \<Rightarrow> bool" where
  "clean_save env s \<longleftrightarrow> (\<forall>c. is_untracked_spec env c \<longrightarrow> \<not> save_tells c s)"

definition clean :: "loop_env \<Rightarrow> loop \<Rightarrow> bool" where
  "clean env lo \<longleftrightarrow> wf_dict (le_specs env) \<and> typed env lo \<and> wf_dict (lo_channels lo)
     \<and> (\<forall>c \<in> set (lo_overwritten lo). is_delta_spec env c) \<and> (\<forall>s \<in> set (lo_saves lo). clean_save env s)"

lemma same_spec_untracked: "same_spec (UntrackedValue u) c \<Longrightarrow> is_untracked c"
  by (cases c) (auto simp: same_spec_def uv_from_checkpoint_def as_channel_Inr dest!: spec [of _ None] sym [of "Inr _"])

lemma spec_chan:
  assumes "typed env lo" "dict_get (channel_specs (le_specs env)) c = Some s"
  shows "\<exists>ch. dict_get (lo_channels lo) c = Some ch \<and> same_spec s ch"
proof -
  have "rel_option same_spec (Some s) (dict_get (lo_channels lo) c)" using assms unfolding typed_def specs_match_def by metis
  then show ?thesis by (auto simp: option_rel_Some1)
qed

lemma untracked_chan:
  assumes "typed env lo" "wf_dict (le_specs env)" "is_untracked_spec env c"
  shows "\<exists>u. dict_get (lo_channels lo) c = Some (UntrackedValue u)"
proof -
  obtain s where s: "dict_get (channel_specs (le_specs env)) c = Some s" "is_untracked s"
    using assms(2,3) by (auto simp: is_untracked_spec_def dict_get_channel_specs split: option.splits spec.splits)
  with spec_chan [OF assms(1)] obtain ch where ch: "dict_get (lo_channels lo) c = Some ch" "same_spec s ch" by blast
  obtain u where "s = UntrackedValue u" using s(2) by (cases s) auto
  then have "is_untracked ch" using same_spec_untracked ch(2) by blast
  then show ?thesis using ch(1) by (cases ch) auto
qed

lemma delta_not_untracked: "is_delta_spec env c \<Longrightarrow> \<not> is_untracked_spec env c"
  by (auto simp: is_delta_spec_def is_untracked_spec_def split: option.splits spec.splits elim: is_delta.elims)

text \<open>The channel is there and untracked, so a packet is saved without it.\<close>

lemma sanitized_packet:
  "dict_get chs c = Some (UntrackedValue u) \<Longrightarrow> \<not> packet_tells c (sanitize_send chs packet)"
  by (cases "(chs, packet)" rule: sanitize_send.cases) (auto simp: map_of_eq_None_iff)

lemma has_untracked_chan: "dict_get chs c = Some (UntrackedValue u) \<Longrightarrow> has_untracked chs"
  by (force simp: has_untracked_def dest: map_of_SomeD)

lemma sanitized_checkpoint:
  assumes "sanitize_tasks chs cp = Inr cp'" "dict_get chs c = Some (UntrackedValue u)"
    and "dict_get (cp_channel_values cp) c = None"
  shows "\<not> save_tells c (SaveCheckpoint cfg cp' md nv)"
  using assms(1,3) sanitized_packet [OF assms(2)] has_untracked_chan [OF assms(2)]
  by (auto simp: sanitize_tasks_def pending_packets_def in_dict_iff list_ex_iff rbind_Inr_iff split: option.split_asm if_split_asm)

lemma drop_untracked_clean:
  assumes "typed env lo" "wf_dict (le_specs env)"
  shows "clean_save env (SaveWrites cfg (drop_untracked env (lo_channels lo) ws) t p)"
  unfolding clean_save_def
proof (intro allI impI)
  fix c assume c: "is_untracked_spec env c"
  then obtain u where u: "dict_get (lo_channels lo) c = Some (UntrackedValue u)" using untracked_chan [OF assms] by blast
  show "\<not> save_tells c (SaveWrites cfg (drop_untracked env (lo_channels lo) ws) t p)"
    using c has_untracked_chan [OF u] sanitized_packet [OF u] by (auto simp: drop_untracked_def list_ex_iff)
qed

lemma put_stamped_clean: "clean env lo \<Longrightarrow> clean env (put_stamped env t ws lo)"
  using drop_untracked_clean [of env lo] by (auto simp: clean_def put_stamped_def submit_writes_def Let_def)

lemma untracked_not_due [simp]: "\<not> delta_due bound (UntrackedValue u) p"
  by (cases p) simp

lemma put_checkpoint_clean:
  assumes "clean env lo" "put_checkpoint env (Some md) lo = Inr lo'"
  shows "clean env lo'"
proof -
  let ?chs = "lo_channels lo"
  have lo: "wf_dict (le_specs env)" "typed env lo" "wf_dict ?chs" "\<And>c. c \<in> set (lo_overwritten lo) \<Longrightarrow> is_delta_spec env c"
    "\<And>s. s \<in> set (lo_saves lo) \<Longrightarrow> clean_save env s"
    using assms(1) by (auto simp: clean_def)
  have made: "\<not> save_tells c (SaveCheckpoint ccfg cp' md' nv)"
    if "create_checkpoint (lo_checkpoint lo) (Some ?chs) None upd gnv
          (remdups (delta_channels_to_snapshot bound ?chs counters @ lo_overwritten lo)) i ts = Inr cp"
       "sanitize_tasks ?chs cp = Inr cp'" "is_untracked_spec env c" for cp cp' upd gnv bound counters i ts c ccfg md' nv
  proof -
    from untracked_chan [OF lo(2,1) that(3)] obtain u where u: "dict_get ?chs c = Some (UntrackedValue u)" by blast
    have "c \<notin> set (delta_channels_to_snapshot bound ?chs counters)"
    proof
      assume "c \<in> set (delta_channels_to_snapshot bound ?chs counters)"
      then obtain ch where ch: "(c, ch) \<in> set ?chs" "delta_due bound ch (dict_get_or counters c (0, 0))"
        by (auto simp: delta_channels_to_snapshot_def)
      have "ch = UntrackedValue u" using map_of_is_SomeI [OF lo(3) ch(1)] u by simp
      with ch(2) show False by simp
    qed
    moreover have "c \<notin> set (lo_overwritten lo)" using lo(4) delta_not_untracked that(3) by blast
    ultimately have "dict_get (cp_channel_values cp) c = None"
      using create_checkpoint_Inr [OF that(1) lo(3) u]
      by (auto simp: stored_value_def uv_checkpoint_def split: option.split_asm)
    then show ?thesis by (rule sanitized_checkpoint [OF that(2) u])
  qed
  have "lo_channels lo' = ?chs" using put_checkpoint_Some [OF assms(2)] by simp
  moreover have "set (lo_overwritten lo') \<subseteq> set (lo_overwritten lo)" "\<forall>s \<in> set (lo_saves lo'). clean_save env s"
    using assms(2) lo(5) made
    by (auto simp: put_checkpoint_def clean_save_def Let_def rbind_Inr_iff save_checkpoint_def simp del: save_tells.simps split: if_split_asm)
  ultimately show ?thesis using lo unfolding clean_def by (auto simp: typed_def)
qed

lemma clean_elementary [simp]:
  "clean env (lo\<lparr>lo_tasks := ts\<rparr>) = clean env lo" "clean env (lo\<lparr>lo_pending_writes := pws\<rparr>) = clean env lo"
  "clean env (lo\<lparr>lo_drawn := n\<rparr>) = clean env lo" "clean env (lo\<lparr>lo_status := st\<rparr>) = clean env lo"
  "clean env (lo\<lparr>lo_config := cfg\<rparr>) = clean env lo" "clean env (lo\<lparr>lo_updated := up\<rparr>) = clean env lo"
  "clean env (lo\<lparr>lo_events := es\<rparr>) = clean env lo" "clean env (lo\<lparr>lo_is_replaying := b\<rparr>) = clean env lo"
  "clean env (lo\<lparr>lo_exit_delta_writes := ds\<rparr>) = clean env lo" "clean env (lo\<lparr>lo_checkpoint := cp\<rparr>) = clean env lo"
  by (simp_all add: clean_def)

lemma clean_overwrites: "clean env lo \<Longrightarrow> clean env (lo\<lparr>lo_overwritten := remdups (lo_overwritten lo @ overwritten_deltas env ws)\<rparr>)"
  by (auto simp: clean_def overwritten_deltas_def)

lemma clean_applied:
  "clean env lo \<Longrightarrow> apply_writes cp (lo_channels lo) tasks gnv ttn = Inr (cp', chs, upd) \<Longrightarrow>
     clean env (lo\<lparr>lo_checkpoint := cp', lo_channels := chs\<rparr>)"
  using typed_applied [of env lo cp tasks gnv ttn cp' chs upd] apply_writes_keys [of cp "lo_channels lo" tasks gnv ttn cp' chs upd]
  by (simp add: clean_def)

interpretation clean_run: run_invariant env "clean env" for env
  by unfold_locales (simp_all only: clean_elementary put_stamped_clean put_checkpoint_clean clean_applied clean_overwrites)

text \<open>
  C9: While a run goes on (up to and including its last superstep; not the writes that a run with
  the durability \<open>exit\<close> saves when it is left), nothing handed to the saver tells the value of an
  \<open>UntrackedValue\<close> channel \<open>c\<close> under its name: no saved write is a write to \<open>c\<close>, no saved checkpoint
  has a value for \<open>c\<close>, and no packet that is saved, as a write to the pending tasks or as one of the
  packets pending in a checkpoint, has \<open>c\<close> among the keys of its argument when that is a dict.
\<close>

theorem untracked_never_saved:
  assumes "enter env cfg saved history inp = Inr lo" and "wf_dict (le_specs env)"
    and "(superstep env error_nodes handled cache)\<^sup>*\<^sup>* lo lo'"
    and "s \<in> set (lo_saves lo')" and "is_untracked_spec env c"
  shows "\<not> save_tells c s"
proof -
  have e: "clean env (entered_state env cfg0 cfg ccfg per tup chs mg step)"
    if "channels_from_checkpoint (le_specs env) (ct_checkpoint tup) saver = Inr (chs, mg)" for cfg0 cfg ccfg per tup chs mg step saver
    using entered_typed [OF that assms(2)] restored_wf [OF that] assms(2) by (simp add: clean_def entered_state_def)
  have "clean env lo'" by (rule clean_run.run_inv [OF assms(1,3) e])
  then show ?thesis using assms(4,5) by (auto simp: clean_def clean_save_def)
qed

text \<open>An example whose input is a command that writes an untracked channel and sends its value to a
  node.\<close>

definition ex_untracked_env :: loop_env where
  "ex_untracked_env = ex_loop_env\<lparr>
     le_specs := le_specs ex_loop_env @ [(''u'', ChannelSpec (UntrackedValue \<lparr>uv_key = ''u'', uv_value = None, uv_guard = True\<rparr>)),
       (TASKS, ChannelSpec (Topic \<lparr>tp_key = TASKS, tp_accumulate = False, tp_values = []\<rparr>))]\<rparr>"

definition ex_untracked_input :: loop_input where
  "ex_untracked_input = CommandInput \<lparr>cmd_graph = None, cmd_update = VDict [(''a'', VInt 1), (''u'', VInt 7)], cmd_resume = VNone,
     cmd_goto = VList [VSend ''n1'' (VDict [(''a'', VInt 1), (''u'', VInt 7)]) VNone]\<rparr> VNone"

definition ex_untracked_saved :: checkpoint_tuple where
  "ex_untracked_saved = \<lparr>ct_config = ex_thread, ct_checkpoint = (empty_checkpoint (le_uuid ex_loop_env 0) ''t'')
       \<lparr>cp_channel_values := [(''a'', VInt 0)], cp_channel_versions := [(''a'', IVer 1)]\<rparr>,
     ct_metadata = [(''step'', VInt 0)], ct_parent_config = None, ct_pending_writes = []\<rparr>"

definition ex_untracked :: loop where
  "ex_untracked = projr (enter ex_untracked_env ex_thread (Some ex_untracked_saved) (\<lambda>c ks. Inr []) ex_untracked_input)"

lemma ex_untracked: "enter ex_untracked_env ex_thread (Some ex_untracked_saved) (\<lambda>c ks. Inr []) ex_untracked_input = Inr ex_untracked"
proof -
  have "\<not> isl (enter ex_untracked_env ex_thread (Some ex_untracked_saved) (\<lambda>c ks. Inr []) ex_untracked_input)"
    by code_simp
  then show ?thesis by (simp add: ex_untracked_def)
qed

theorem untracked_never_saved_witness:
  "ch_get (the (dict_get (lo_channels ex_untracked) ''u'')) = Inr (VInt 7) \<and>
   list_ex (\<lambda>s. case s of SaveWrites _ ws _ _ \<Rightarrow> in_dict TASKS ws | _ \<Rightarrow> False) (lo_saves ex_untracked) \<and>
   list_all (\<lambda>s. \<not> save_tells ''u'' s) (lo_saves ex_untracked)"
proof (intro conjI)
  show "ch_get (the (dict_get (lo_channels ex_untracked) ''u'')) = Inr (VInt 7)" by code_simp
  show "list_ex (\<lambda>s. case s of SaveWrites _ ws _ _ \<Rightarrow> in_dict TASKS ws | _ \<Rightarrow> False) (lo_saves ex_untracked)" by code_simp
  have "wf_dict (le_specs ex_untracked_env)" "is_untracked_spec ex_untracked_env ''u''" by code_simp+
  then show "list_all (\<lambda>s. \<not> save_tells ''u'' s) (lo_saves ex_untracked)"
    unfolding list_all_iff using untracked_never_saved [OF ex_untracked _ rtranclp.rtrancl_refl] by blast
qed

end
