(* ===== verification/Writers.thy ===== *)
theory Writers
  imports Tasks
begin

section \<open>Running a node's writers (pregel/_write.py, pregel/_read.py, graph/_branch.py)\<close>

text \<open>
  A node's function returns a value, its writers translate it to channel writes: \<open>ChannelWrite\<close>
  with its entries, and \<open>BranchSpec\<close>, which asks a user function for the destinations. The writes
  that a task has sent so far are a list that grows; a writer that raises leaves what the earlier
  ones sent, so running writers returns the result and the writes.
\<close>

subsection \<open>Entries\<close>

text \<open>The two sentinel objects of the module, by identity.\<close>

definition PASSTHROUGH :: val where "PASSTHROUGH = VObj 0"
definition SKIP_WRITE :: val where "SKIP_WRITE = VObj 1"

text \<open>\<open>ChannelWriteEntry\<close> has channel, value, \<open>skip_none\<close> and mapper; a \<open>ChannelWriteTupleEntry\<close> has a
  mapper, whose \<open>None\<close> is the empty list, a value, and the declared writes; a \<open>Send\<close> is itself.\<close>

type_synonym static_write = "string \<times> val \<times> string option"

datatype write_entry =
    ChannelWriteEntry string val bool "(val \<Rightarrow> val res) option"
  | ChannelWriteTupleEntry "val \<Rightarrow> chan_write list res" val "static_write list"
  | SendEntry val

text \<open>The input takes the place of \<open>PASSTHROUGH\<close>.\<close>

fun with_input :: "val \<Rightarrow> write_entry \<Rightarrow> write_entry" where
  "with_input x (ChannelWriteEntry c v skip m) = ChannelWriteEntry c (if v = PASSTHROUGH then x else v) skip m"
| "with_input x (ChannelWriteTupleEntry m v st) =
     (if v = PASSTHROUGH then ChannelWriteTupleEntry m x [] else ChannelWriteTupleEntry m v st)"
| "with_input x (SendEntry s) = SendEntry s"

fun check_entry :: "bool \<Rightarrow> write_entry \<Rightarrow> unit res" where
  "check_entry allow_passthrough (ChannelWriteEntry c v skip m) =
     (if c = TASKS then Inl InvalidUpdateError
      else if v = PASSTHROUGH \<and> \<not> allow_passthrough then Inl InvalidUpdateError else Inr ())"
| "check_entry allow_passthrough (ChannelWriteTupleEntry m v st) =
     (if v = PASSTHROUGH \<and> \<not> allow_passthrough then Inl InvalidUpdateError else Inr ())"
| "check_entry allow_passthrough (SendEntry s) = Inr ()"

fun entry_writes :: "write_entry \<Rightarrow> chan_write list res" where
  "entry_writes (SendEntry s) = Inr [(TASKS, s)]"
| "entry_writes (ChannelWriteTupleEntry m v st) = m v"
| "entry_writes (ChannelWriteEntry c v skip m) =
     rbind (case m of Some f \<Rightarrow> f v | None \<Rightarrow> Inr v)
       (\<lambda>x. Inr (if x = SKIP_WRITE \<or> skip \<and> x = VNone then [] else [(c, x)]))"

definition assemble_writes :: "write_entry list \<Rightarrow> chan_write list res" where
  "assemble_writes ws = rfold (\<lambda>w acc. rbind (entry_writes w) (\<lambda>ts. Inr (acc @ ts))) ws []"

text \<open>\<open>do_write\<close> sends all writes at once, after all entries are checked and assembled.\<close>

definition do_write :: "bool \<Rightarrow> write_entry list \<Rightarrow> chan_write list \<Rightarrow> chan_write list res" where
  "do_write allow_passthrough ws sent =
     rbind (rmap (check_entry allow_passthrough) ws) (\<lambda>_.
     rbind (assemble_writes ws) (\<lambda>ts. Inr (sent @ ts)))"

subsection \<open>Branches\<close>

text \<open>The path function is the user's; \<open>ends\<close> maps what it returns to node names, \<open>None\<close> if it returns
  the names.\<close>

record branch_spec =
  br_path :: "val \<Rightarrow> val res"
  br_ends :: "(val, string) dict option"
  br_input_schema :: "nat option"

datatype path_map = PathDict "(val, string) dict" | PathList "string list" | NoPathMap

text \<open>\<open>literal\<close> are the names in the path function's return annotation, \<open>schema\<close> what is inferred for
  its input.\<close>

definition branch_from_path :: "(val \<Rightarrow> val res) \<Rightarrow> path_map \<Rightarrow> string list option \<Rightarrow> nat option \<Rightarrow> branch_spec" where
  "branch_from_path path pm literal schema =
     \<lparr>br_path = path,
      br_ends = (case pm of
          PathDict d \<Rightarrow> Some d
        | PathList ns \<Rightarrow> Some (dict_of (map (\<lambda>n. (VStr n, n)) ns))
        | NoPathMap \<Rightarrow> map_option (\<lambda>ns. dict_of (map (\<lambda>n. (VStr n, n)) ns)) literal),
      br_input_schema = schema\<rparr>"

definition END :: string where "END = ''__end__''"

text \<open>\<open>self.ends[r]\<close>\<close>

definition branch_end :: "(val, string) dict \<Rightarrow> val \<Rightarrow> val res" where
  "branch_end ends r = (case r of
       VSend n a t \<Rightarrow> Inr r
     | _ \<Rightarrow> if \<not> hashable r then Inl TypeError else rbind (dict_index ends r) (\<lambda>e. Inr (VStr e)))"

fun sends_to_end :: "val \<Rightarrow> bool" where
  "sends_to_end (VSend n a t) = (n = END)"
| "sends_to_end _ = False"

definition branch_destinations :: "branch_spec \<Rightarrow> val \<Rightarrow> val list res" where
  "branch_destinations br result =
     (let results = (case result of VList xs \<Rightarrow> xs | VTuple xs \<Rightarrow> xs | v \<Rightarrow> [v])
      in rbind (case br_ends br of
             Some (e # es) \<Rightarrow> rmap (branch_end (e # es)) results
           | _ \<Rightarrow> Inr results)
         (\<lambda>dests. if VNone \<in> set dests \<or> VStr START \<in> set dests then Inl ValueError
                  else if \<exists>d \<in> set dests. sends_to_end d then Inl InvalidUpdateError
                  else Inr dests))"

subsection \<open>Reading and writing\<close>

text \<open>What \<open>CONFIG_KEY_READ\<close> holds: \<open>local_read\<close> of the task, with the writes it has sent so far.\<close>

type_synonym reader = "chan_write list \<Rightarrow> select \<Rightarrow> bool \<Rightarrow> val res"

definition do_read :: "reader option \<Rightarrow> chan_write list \<Rightarrow> select \<Rightarrow> bool \<Rightarrow> (nat \<times> (val \<Rightarrow> val res)) option \<Rightarrow> val res" where
  "do_read read sent sel fresh mapper =
     (case read of
        None \<Rightarrow> Inl RuntimeError
      | Some f \<Rightarrow> rbind (f sent sel fresh) (case mapper of Some (_, m) \<Rightarrow> m | None \<Rightarrow> Inr))"

text \<open>A branch's publisher translates destinations to entries; its reader reads afresh, through the
  mapper.\<close>

datatype writer =
    ChannelWriter "write_entry list"
  | BranchWriter branch_spec "val list \<Rightarrow> write_entry list" "(select \<times> (nat \<times> (val \<Rightarrow> val res)) option) option"

definition branch_input :: "reader option \<Rightarrow> branch_spec \<Rightarrow> (select \<times> (nat \<times> (val \<Rightarrow> val res)) option) option \<Rightarrow>
    val \<Rightarrow> chan_write list \<Rightarrow> val res" where
  "branch_input read br rd x sent =
     (case rd of
        None \<Rightarrow> Inr x
      | Some (sel, mapper) \<Rightarrow> rbind (do_read read sent sel True mapper)
          (\<lambda>v. Inr (case (v, x) of
               (VDict dv, VDict dx) \<Rightarrow> if br_input_schema br = None then VDict (dict_update dx dv) else v
             | _ \<Rightarrow> v)))"

definition needs_passthrough :: "write_entry list \<Rightarrow> bool" where
  "needs_passthrough es \<longleftrightarrow> (\<exists>e \<in> set es. case e of ChannelWriteEntry c v skip m \<Rightarrow> v = PASSTHROUGH | _ \<Rightarrow> False)"

fun run_writer :: "reader option \<Rightarrow> writer \<Rightarrow> val \<Rightarrow> chan_write list \<Rightarrow> chan_write list res" where
  "run_writer read (ChannelWriter ws) x sent = do_write True (map (with_input x) ws) sent"
| "run_writer read (BranchWriter br publish rd) x sent =
     rbind (branch_input read br rd x sent) (\<lambda>v.
     rbind (br_path br v) (\<lambda>result.
     rbind (branch_destinations br result) (\<lambda>dests.
       let es = publish dests
       in if es = [] then Inr sent
          else if needs_passthrough es then do_write True (map (with_input x) es) sent
          else do_write True es sent)))"

text \<open>Every writer returns its input, so each gets the value of the node's function.\<close>

fun run_writers :: "reader option \<Rightarrow> writer list \<Rightarrow> val \<Rightarrow> chan_write list \<Rightarrow> unit res \<times> chan_write list" where
  "run_writers read [] x sent = (Inr (), sent)"
| "run_writers read (w # ws) x sent =
     (case run_writer read w x sent of
        Inl e \<Rightarrow> (Inl e, sent)
      | Inr sent \<Rightarrow> run_writers read ws x sent)"

subsection \<open>Merging writers\<close>

text \<open>The last writers are merged as long as two \<open>ChannelWrite\<close>s follow each other at the end.\<close>

fun merge_last :: "writer list \<Rightarrow> writer list" where
  "merge_last (ChannelWriter b # ChannelWriter a # ws) = merge_last (ChannelWriter (a @ b) # ws)"
| "merge_last ws = ws"

definition flat_writers :: "writer list \<Rightarrow> writer list" where
  "flat_writers ws = rev (merge_last (rev ws))"

text \<open>A task's body and then its writers.\<close>

definition run_node :: "reader option \<Rightarrow> (val \<Rightarrow> val res) \<Rightarrow> writer list \<Rightarrow> val \<Rightarrow> unit res \<times> chan_write list" where
  "run_node read body writers x =
     (case body x of Inl e \<Rightarrow> (Inl e, []) | Inr y \<Rightarrow> run_writers read (flat_writers writers) y [])"

section \<open>Properties\<close>

lemma assemble_Nil [simp]: "assemble_writes [] = Inr []"
  by (simp add: assemble_writes_def)

lemma assemble_fold:
  "rfold (\<lambda>w acc. rbind (entry_writes w) (\<lambda>ts. Inr (acc @ ts))) ws s = rbind (assemble_writes ws) (\<lambda>ts. Inr (s @ ts))"
proof (induction ws arbitrary: s)
  case (Cons w ws)
  show ?case
  proof (cases "entry_writes w")
    case (Inr ts)
    have "rfold (\<lambda>w acc. rbind (entry_writes w) (\<lambda>ts. Inr (acc @ ts))) (w # ws) s
        = rbind (assemble_writes ws) (\<lambda>us. Inr ((s @ ts) @ us))" for s
      using Inr Cons.IH [of "s @ ts"] by simp
    from this [of s] this [of "[]"] show ?thesis by (cases "assemble_writes ws") (simp_all add: assemble_writes_def)
  qed (simp add: assemble_writes_def)
qed (simp add: assemble_writes_def)

lemma assemble_Cons: "assemble_writes (w # ws) = rbind (entry_writes w) (\<lambda>a. rbind (assemble_writes ws) (\<lambda>b. Inr (a @ b)))"
  by (cases "entry_writes w") (simp_all add: assemble_writes_def [of "w # ws"], simp add: assemble_fold)

lemma assemble_append: "assemble_writes (ws @ vs) = rbind (assemble_writes ws) (\<lambda>a. rbind (assemble_writes vs) (\<lambda>b. Inr (a @ b)))"
  by (induction ws) (auto simp: assemble_Cons rbind_assoc)

lemma do_write_Inr: "do_write allow ws sent = Inr r \<longleftrightarrow>
    (\<forall>w \<in> set ws. check_entry allow w = Inr ()) \<and> (\<exists>ts. assemble_writes ws = Inr ts \<and> r = sent @ ts)"
  using rmap_total [of ws "check_entry allow"] by (auto simp: do_write_def rbind_Inr_iff)

lemma do_write_append: "do_write allow (ws @ vs) sent = Inr r \<longleftrightarrow> (\<exists>s. do_write allow ws sent = Inr s \<and> do_write allow vs s = Inr r)"
  by (auto simp: do_write_Inr assemble_append rbind_Inr_iff)

lemma run_writers_append:
  "run_writers read (ws @ vs) x sent =
     (case run_writers read ws x sent of (Inl e, s) \<Rightarrow> (Inl e, s) | (Inr _, s) \<Rightarrow> run_writers read vs x s)"
  by (induction ws arbitrary: sent) (auto split: sum.splits)

lemma run_Cons: "run_writers read (w # ws) x sent = (Inr (), r) \<longleftrightarrow>
    (\<exists>s. run_writer read w x sent = Inr s \<and> run_writers read ws x s = (Inr (), r))"
  by (auto split: sum.splits)

lemma run_two_writes: "run_writers read [ChannelWriter a, ChannelWriter b] x sent = (Inr (), r) \<longleftrightarrow>
    run_writers read [ChannelWriter (a @ b)] x sent = (Inr (), r)"
  by (simp only: run_Cons) (simp add: do_write_append)

lemma run_merge_last: "run_writers read (rev (merge_last ws)) x sent = (Inr (), r) \<longleftrightarrow> run_writers read (rev ws) x sent = (Inr (), r)"
proof (induction ws arbitrary: r rule: merge_last.induct)
  case (1 b a ws)
  have "run_writers read (rev ws @ [ChannelWriter (a @ b)]) x sent = (Inr (), r) \<longleftrightarrow>
      run_writers read (rev ws @ [ChannelWriter a, ChannelWriter b]) x sent = (Inr (), r)"
    using run_two_writes [of read a b x _ r]
    unfolding run_writers_append by (cases "run_writers read (rev ws) x sent") (auto split: sum.splits)
  with 1 show ?case by simp
qed simp_all

lemma flat_writers_run: "run_writers read (flat_writers ws) x sent = (Inr (), r) \<longleftrightarrow> run_writers read ws x sent = (Inr (), r)"
  using run_merge_last [of read "rev ws" x sent r] by (simp add: flat_writers_def)

lemma flat_writers_raise: "isl (fst (run_writers read (flat_writers ws) x sent)) \<longleftrightarrow> isl (fst (run_writers read ws x sent))"
proof -
  have "\<not> isl (fst p) \<longleftrightarrow> (\<exists>r. p = (Inr (), r))" for p :: "unit res \<times> chan_write list"
    by (cases p; cases "fst p") auto
  then show ?thesis using flat_writers_run [of read ws x sent] by metis
qed

end
