(* ===== verification/State_Graph.thy ===== *)
theory State_Graph
  imports Writers Checkpointing
begin

section \<open>Building and compiling a graph (graph/state.py, pregel/_validate.py)\<close>

text \<open>
  \<open>StateGraph\<close> collects nodes, edges, waiting edges and branches over the channels of a state
  schema; \<open>compile\<close> turns them into nodes that trigger on channels and writers that write them. What
  the code learns by reflection over type annotations and classes is in \<open>graph_host\<close>. A Python
  \<open>set\<close> is a list without duplicates; the order of iteration is the order of the list. Methods
  return the changed graph; when one raises, the graph is given up.
\<close>

subsection \<open>What reflection gives\<close>

text \<open>
  A schema is a class, by its identity: \<open>gh_channels\<close> is \<open>_get_channels\<close>, \<open>gh_mapper\<close> the coercion
  to the class if it is a model or a dataclass (\<open>_pick_mapper\<close>), \<open>gh_same_channel\<close> equality of
  channels, \<open>gh_keys\<close> the annotated keys of an object's class and \<open>gh_tuples\<close> the object's values
  under given keys, \<open>gh_str\<close> what an object that is no string is formatted as.
\<close>

record graph_host =
  gh_channels :: "nat \<Rightarrow> (channels \<times> managed_map) res"
  gh_same_channel :: "channel \<Rightarrow> channel \<Rightarrow> bool"
  gh_mapper :: "nat \<Rightarrow> (nat \<times> (val \<Rightarrow> val res)) option"
  gh_keys :: "val \<Rightarrow> string list"
  gh_tuples :: "val \<Rightarrow> string list \<Rightarrow> chan_write list"
  gh_str :: "val \<Rightarrow> string"

subsection \<open>The builder\<close>

datatype node_ends = EndNames "string list" | EndLabels "(string, string) dict"

fun ends_keys :: "node_ends \<Rightarrow> string list" where
  "ends_keys (EndNames ns) = ns"
| "ends_keys (EndLabels d) = dict_keys d"

record state_node =
  sn_runnable :: runnable
  sn_metadata :: "(string, val) dict"
  sn_input_schema :: nat
  sn_retry_policy :: "nat list option"
  sn_cache_policy :: "cache_policy option"
  sn_is_error_handler :: bool
  sn_error_handler_node :: "string option"
  sn_ends :: node_ends
  sn_defer :: bool
  sn_timeout :: val

record node_defaults =
  nd_retry_policy :: "nat list option"
  nd_cache_policy :: "cache_policy option"
  nd_error_handler :: "runnable option"
  nd_timeout :: val

record state_graph =
  sg_nodes :: "(string, state_node) dict"
  sg_edges :: "(string \<times> string) list"
  sg_branches :: "(string, (string, branch_spec) dict) dict"
  sg_schemas :: "(nat, (string, spec) dict) dict"
  sg_channels :: channels
  sg_managed :: managed_map
  sg_waiting_edges :: "(string list \<times> string) list"
  sg_compiled :: bool
  sg_state_schema :: nat
  sg_input_schema :: nat
  sg_output_schema :: nat
  sg_node_defaults :: node_defaults

text \<open>\<open>_add_schema\<close>: a channel that exists already must be the same one, unless the new one is the
  default \<open>LastValue\<close>.\<close>

definition merge_channel :: "graph_host \<Rightarrow> string \<times> channel \<Rightarrow> channels \<Rightarrow> channels res" where
  "merge_channel h = (\<lambda>(key, c) chs. case dict_get chs key of
       None \<Rightarrow> Inr (dict_set key c chs)
     | Some c' \<Rightarrow> if gh_same_channel h c' c then Inr chs
         else (case c of LastValue _ \<Rightarrow> Inr chs | _ \<Rightarrow> Inl ValueError))"

definition merge_managed :: "string \<times> managed \<Rightarrow> managed_map \<Rightarrow> managed_map res" where
  "merge_managed = (\<lambda>(key, m) mg. case dict_get mg key of
       None \<Rightarrow> Inr (dict_set key m mg)
     | Some m' \<Rightarrow> if m' = m then Inr mg else Inl ValueError)"

definition add_schema :: "graph_host \<Rightarrow> bool \<Rightarrow> nat \<Rightarrow> state_graph \<Rightarrow> state_graph res" where
  "add_schema h allow_managed schema g =
     (if in_dict schema (sg_schemas g) then Inr g
      else rbind (gh_channels h schema) (\<lambda>(chs, mg).
        if mg \<noteq> [] \<and> \<not> allow_managed then Inl ValueError
        else
          let g = g\<lparr>sg_schemas := dict_set schema
                (dict_update (map (\<lambda>(k, c). (k, ChannelSpec c)) chs) (map (\<lambda>(k, m). (k, ManagedSpec m)) mg))
                (sg_schemas g)\<rparr>
          in rbind (rfold (merge_channel h) chs (sg_channels g)) (\<lambda>channels.
             rbind (rfold merge_managed mg (sg_managed g)) (\<lambda>managed.
             Inr (g\<lparr>sg_channels := channels, sg_managed := managed\<rparr>)))))"

definition state_graph_init :: "graph_host \<Rightarrow> nat \<Rightarrow> nat option \<Rightarrow> nat option \<Rightarrow> state_graph res" where
  "state_graph_init h state_schema input_schema output_schema =
     (let inp = (case input_schema of Some s \<Rightarrow> s | None \<Rightarrow> state_schema);
          out = (case output_schema of Some s \<Rightarrow> s | None \<Rightarrow> state_schema);
          g = \<lparr>sg_nodes = [], sg_edges = [], sg_branches = [], sg_schemas = [], sg_channels = [], sg_managed = [],
               sg_waiting_edges = [], sg_compiled = False, sg_state_schema = state_schema, sg_input_schema = inp,
               sg_output_schema = out, sg_node_defaults = \<lparr>nd_retry_policy = None, nd_cache_policy = None,
                 nd_error_handler = None, nd_timeout = VNone\<rparr>\<rparr>
      in rbind (add_schema h True state_schema g) (\<lambda>g.
         rbind (add_schema h False inp g) (add_schema h False out)))"

definition set_node_defaults ::
  "nat list option \<Rightarrow> cache_policy option \<Rightarrow> runnable option \<Rightarrow> val \<Rightarrow> state_graph \<Rightarrow> state_graph" where
  "set_node_defaults retry cache handler timeout g =
     (let d = sg_node_defaults g
      in g\<lparr>sg_node_defaults := \<lparr>nd_retry_policy = (if retry \<noteq> None then retry else nd_retry_policy d),
            nd_cache_policy = (case cache of Some p \<Rightarrow> Some p | None \<Rightarrow> nd_cache_policy d),
            nd_error_handler = (if handler \<noteq> None then handler else nd_error_handler d),
            nd_timeout = (if timeout \<noteq> VNone then timeout else nd_timeout d)\<rparr>\<rparr>)"

text \<open>The arguments of \<open>add_node\<close>; the name is given or the action's, the last two are inferred from
  the action's annotations, when no input schema is given.\<close>

record node_args =
  na_name :: string
  na_action :: runnable
  na_defer :: bool
  na_metadata :: "(string, val) dict"
  na_input_schema :: "nat option"
  na_retry_policy :: "nat list option"
  na_cache_policy :: "cache_policy option"
  na_error_handler :: "runnable option"
  na_destinations :: "node_ends option"
  na_timeout :: val
  na_inferred_schema :: "nat option"
  na_inferred_ends :: "string list"

definition handler_name :: "string \<Rightarrow> string" where
  "handler_name node = ''__error_handler__'' @ node"

definition handler_spec :: "runnable \<Rightarrow> nat \<Rightarrow> state_node" where
  "handler_spec handler schema = \<lparr>sn_runnable = handler, sn_metadata = [], sn_input_schema = schema, sn_retry_policy = None,
     sn_cache_policy = None, sn_is_error_handler = True, sn_error_handler_node = None, sn_ends = EndNames [],
     sn_defer = False, sn_timeout = VNone\<rparr>"

definition given_schema :: "node_args \<Rightarrow> nat option" where
  "given_schema a = (case na_input_schema a of Some s \<Rightarrow> Some s | None \<Rightarrow> na_inferred_schema a)"

definition add_node :: "graph_host \<Rightarrow> node_args \<Rightarrow> state_graph \<Rightarrow> state_graph res" where
  "add_node h a g =
     (let node = na_name a;
          schema = (case given_schema a of Some s \<Rightarrow> s | None \<Rightarrow> sg_state_schema g);
          spec = \<lparr>sn_runnable = na_action a, sn_metadata = na_metadata a, sn_input_schema = schema,
                  sn_retry_policy = na_retry_policy a, sn_cache_policy = na_cache_policy a, sn_is_error_handler = False,
                  sn_error_handler_node = map_option (\<lambda>_. handler_name node) (na_error_handler a),
                  sn_ends = (case na_destinations a of Some e \<Rightarrow> e | None \<Rightarrow> EndNames (na_inferred_ends a)),
                  sn_defer = na_defer a, sn_timeout = na_timeout a\<rparr>
      in if in_dict node (sg_nodes g) then Inl ValueError
         else if node = END \<or> node = START then Inl ValueError
         else if CHR ''|'' \<in> set node \<or> CHR '':'' \<in> set node then Inl ValueError
         else if na_error_handler a \<noteq> None \<and> in_dict (handler_name node) (sg_nodes g) then Inl ValueError
         else
           let nodes = (case na_error_handler a of
                   Some handler \<Rightarrow> dict_set (handler_name node) (handler_spec handler schema) (sg_nodes g)
                 | None \<Rightarrow> sg_nodes g);
               g = g\<lparr>sg_nodes := dict_set node spec nodes\<rparr>
           in (case given_schema a of Some s \<Rightarrow> add_schema h True s g | None \<Rightarrow> Inr g))"

definition add_edge :: "string \<Rightarrow> string \<Rightarrow> state_graph \<Rightarrow> state_graph res" where
  "add_edge start end_key g =
     (if start = END then Inl ValueError
      else if end_key = START then Inl ValueError
      else Inr (g\<lparr>sg_edges := List.insert (start, end_key) (sg_edges g)\<rparr>))"

text \<open>An edge from a list of nodes.\<close>

definition add_waiting_edge :: "string list \<Rightarrow> string \<Rightarrow> state_graph \<Rightarrow> state_graph res" where
  "add_waiting_edge starts end_key g =
     (if \<exists>start \<in> set starts. start = END \<or> \<not> in_dict start (sg_nodes g) then Inl ValueError
      else if end_key = START then Inl ValueError
      else if end_key \<noteq> END \<and> \<not> in_dict end_key (sg_nodes g) then Inl ValueError
      else Inr (g\<lparr>sg_waiting_edges := List.insert (starts, end_key) (sg_waiting_edges g)\<rparr>))"

text \<open>\<open>path_name\<close> is the name of the path function, if it has one.\<close>

definition add_conditional_edges ::
  "graph_host \<Rightarrow> string \<Rightarrow> string \<Rightarrow> branch_spec \<Rightarrow> state_graph \<Rightarrow> state_graph res" where
  "add_conditional_edges h source path_name branch g =
     (let name = (if path_name = [] then ''condition'' else path_name);
          branches = dict_get_or (sg_branches g) source []
      in if in_dict name branches then Inl ValueError
         else
           let g = g\<lparr>sg_branches := dict_set source (dict_set name branch branches) (sg_branches g)\<rparr>
           in (case br_input_schema branch of Some s \<Rightarrow> add_schema h True s g | None \<Rightarrow> Inr g))"

definition add_sequence_step ::
  "graph_host \<Rightarrow> node_args \<Rightarrow> string option \<times> state_graph \<Rightarrow> (string option \<times> state_graph) res" where
  "add_sequence_step h a = (\<lambda>(previous, g).
     if in_dict (na_name a) (sg_nodes g) then Inl ValueError
     else rbind (add_node h a g) (\<lambda>g.
          rbind (case previous of Some p \<Rightarrow> add_edge p (na_name a) g | None \<Rightarrow> Inr g)
            (\<lambda>g. Inr (Some (na_name a), g))))"

definition add_sequence :: "graph_host \<Rightarrow> node_args list \<Rightarrow> state_graph \<Rightarrow> state_graph res" where
  "add_sequence h nodes g =
     (if nodes = [] then Inl ValueError
      else rbind (rfold (add_sequence_step h) nodes (None, g)) (\<lambda>(_, g). Inr g))"

definition set_entry_point :: "string \<Rightarrow> state_graph \<Rightarrow> state_graph res" where
  "set_entry_point key = add_edge START key"

definition set_conditional_entry_point ::
  "graph_host \<Rightarrow> string \<Rightarrow> branch_spec \<Rightarrow> state_graph \<Rightarrow> state_graph res" where
  "set_conditional_entry_point h = add_conditional_edges h START"

definition set_finish_point :: "string \<Rightarrow> state_graph \<Rightarrow> state_graph res" where
  "set_finish_point key = add_edge key END"

subsection \<open>Validation of the builder\<close>

definition all_edges :: "state_graph \<Rightarrow> (string \<times> string) list" where
  "all_edges g = sg_edges g @ concat (map (\<lambda>(starts, e). map (\<lambda>s. (s, e)) starts) (sg_waiting_edges g))"

definition all_sources :: "state_graph \<Rightarrow> string list" where
  "all_sources g = map fst (all_edges g) @ dict_keys (sg_branches g)
     @ map fst (filter (\<lambda>(_, s). ends_keys (sn_ends s) \<noteq> []) (sg_nodes g))"

text \<open>The targets of a branch; without \<open>ends\<close> it can go everywhere but to its own node.\<close>

definition branch_targets :: "state_graph \<Rightarrow> string \<Rightarrow> branch_spec \<Rightarrow> string list" where
  "branch_targets g start br = (case br_ends br of
       Some es \<Rightarrow> map snd es
     | None \<Rightarrow> END # filter (\<lambda>n. n \<noteq> start) (dict_keys (sg_nodes g)))"

definition all_targets :: "state_graph \<Rightarrow> string list" where
  "all_targets g = map snd (all_edges g)
     @ concat (map (\<lambda>(start, brs). concat (map (\<lambda>(_, br). branch_targets g start br) brs)) (sg_branches g))
     @ concat (map (\<lambda>(_, s). ends_keys (sn_ends s)) (sg_nodes g))"

definition validate_builder :: "string list \<Rightarrow> state_graph \<Rightarrow> state_graph res" where
  "validate_builder nodes g =
     (if \<exists>s \<in> set (all_sources g). \<not> in_dict s (sg_nodes g) \<and> s \<noteq> START then Inl ValueError
      else if START \<notin> set (all_sources g) then Inl ValueError
      else if \<exists>t \<in> set (all_targets g). \<not> in_dict t (sg_nodes g) \<and> t \<noteq> END then Inl ValueError
      else if \<exists>n \<in> set nodes. \<not> in_dict n (sg_nodes g) then Inl ValueError
      else Inr (g\<lparr>sg_compiled := True\<rparr>))"

text \<open>The nodes to interrupt at that are checked: the conditional expression takes in both lists.\<close>

definition interrupts_to_check :: "string list option \<Rightarrow> string list option \<Rightarrow> string list" where
  "interrupts_to_check before_nodes after_nodes = (case after_nodes of
       Some a \<Rightarrow> (case before_nodes of Some b \<Rightarrow> b | None \<Rightarrow> []) @ a
     | None \<Rightarrow> [])"

subsection \<open>The writers of a node\<close>

definition branch_to :: "string \<Rightarrow> string" where
  "branch_to n = ''branch:to:'' @ n"

definition join_channel :: "string list \<Rightarrow> string \<Rightarrow> string" where
  "join_channel starts end_key = ''join:'' @ join ''+'' starts @ '':'' @ end_key"

text \<open>The state updates in a node's result: \<open>_get_updates\<close> over the node's output keys, and \<open>_get_root\<close>
  for a state that is one value. A result of \<open>None\<close> is no update.\<close>

definition annotated_update :: "graph_host \<Rightarrow> val \<Rightarrow> chan_write list option" where
  "annotated_update h u = (if gh_keys h u = [] then None else Some (gh_tuples h u (gh_keys h u)))"

fun is_command :: "val \<Rightarrow> bool" where
  "is_command (VCommand g u r t) = True"
| "is_command _ = False"

definition object_updates :: "graph_host \<Rightarrow> string list \<Rightarrow> val \<Rightarrow> chan_write list res" where
  "object_updates h keys x = (if gh_keys h x = [] then Inl InvalidUpdateError else Inr (gh_tuples h x keys))"

definition command_updates :: "graph_host \<Rightarrow> string list \<Rightarrow> string option \<Rightarrow> val \<Rightarrow> chan_write list" where
  "command_updates h keys graph upd =
     (if graph = Some PARENT then [] else filter (\<lambda>(k, v). k \<in> set keys) (update_as_tuples (annotated_update h) upd))"

fun get_updates :: "graph_host \<Rightarrow> string list \<Rightarrow> val \<Rightarrow> chan_write list res" where
  "get_updates h keys VNone = Inr []"
| "get_updates h keys (VDict d) = Inr (filter (\<lambda>(k, v). k \<in> set keys) d)"
| "get_updates h keys (VCommand g u r t) = Inr (command_updates h keys g u)"
| "get_updates h keys (VList xs) =
     (if \<exists>x \<in> set xs. is_command x then rbind (rmap (get_updates h keys) xs) (\<lambda>us. Inr (concat us))
      else object_updates h keys (VList xs))"
| "get_updates h keys (VTuple xs) =
     (if \<exists>x \<in> set xs. is_command x then rbind (rmap (get_updates h keys) xs) (\<lambda>us. Inr (concat us))
      else object_updates h keys (VTuple xs))"
| "get_updates h keys x = object_updates h keys x"

fun root_item :: "graph_host \<Rightarrow> val \<Rightarrow> chan_write list" where
  "root_item h (VCommand g u r t) = (if g = Some PARENT then [] else update_as_tuples (annotated_update h) u)"
| "root_item h x = [(''__root__'', x)]"

definition get_root :: "graph_host \<Rightarrow> val \<Rightarrow> chan_write list res" where
  "get_root h x = Inr (case x of
       VCommand g u r t \<Rightarrow> root_item h x
     | VList xs \<Rightarrow> if \<exists>y \<in> set xs. is_command y then concat (map (root_item h) xs) else [(''__root__'', x)]
     | VTuple xs \<Rightarrow> if \<exists>y \<in> set xs. is_command y then concat (map (root_item h) xs) else [(''__root__'', x)]
     | VNone \<Rightarrow> []
     | _ \<Rightarrow> [(''__root__'', x)])"

text \<open>Where a \<open>Send\<close> or the commands in a node's result go; a command for the parent graph is raised.\<close>

fun goto_writes :: "val \<Rightarrow> chan_write list" where
  "goto_writes (VSend n a t) = [(TASKS, VSend n a t)]"
| "goto_writes (VStr s) = (if s = END then [] else [(branch_to s, VNone)])"
| "goto_writes _ = []"

fun command_goto :: "val \<Rightarrow> chan_write list res" where
  "command_goto (VCommand g u r t) =
     (if g = Some PARENT then Inl (ParentCommand (VCommand g u r t))
      else rbind (case t of VSend n a s \<Rightarrow> Inr [t] | VStr s \<Rightarrow> Inr [t] | _ \<Rightarrow> py_iter t)
             (\<lambda>targets. Inr (concat (map goto_writes targets))))"
| "command_goto _ = Inr []"

definition control_branch :: "val \<Rightarrow> chan_write list res" where
  "control_branch x = (case x of
       VSend n a t \<Rightarrow> Inr [(TASKS, x)]
     | VCommand g u r t \<Rightarrow> command_goto x
     | VList xs \<Rightarrow> rbind (rmap command_goto xs) (\<lambda>ws. Inr (concat ws))
     | VTuple xs \<Rightarrow> rbind (rmap command_goto xs) (\<lambda>ws. Inr (concat ws))
     | _ \<Rightarrow> Inr [])"

definition control_static :: "node_ends \<Rightarrow> static_write list" where
  "control_static es = (case es of
       EndLabels d \<Rightarrow> map (\<lambda>(k, label). (if k = END then k else branch_to k, VNone, Some label)) d
     | EndNames ns \<Rightarrow> map (\<lambda>e. (if e = END then e else branch_to e, VNone, None)) ns)"

subsection \<open>The compiled graph\<close>

record compiled_node =
  cn_triggers :: "string list"
  cn_channels :: select
  cn_mapper :: "(nat \<times> (val \<Rightarrow> val res)) option"
  cn_writers :: "writer list"
  cn_bound :: "runnable option"
  cn_tags :: "string list"
  cn_metadata :: "(string, val) dict"
  cn_retry_policy :: "nat list option"
  cn_cache_policy :: "cache_policy option"
  cn_is_error_handler :: bool
  cn_error_handler_node :: "string option"
  cn_timeout :: val

record compiled_graph =
  cg_nodes :: "(string, compiled_node) dict"
  cg_channels :: "(string, spec) dict"
  cg_input_channels :: select
  cg_output_channels :: select
  cg_stream_channels :: select
  cg_interrupt_before :: "string list option"
  cg_interrupt_after :: "string list option"
  cg_error_handlers :: "(string, string) dict"
  cg_trigger_to_nodes :: "(string, string list) dict"

definition schema_keys :: "(string, spec) dict \<Rightarrow> string list" where
  "schema_keys d = map fst (filter (\<lambda>(_, s). case s of ChannelSpec _ \<Rightarrow> True | ManagedSpec _ \<Rightarrow> False) d)"

definition pick_mapper :: "graph_host \<Rightarrow> string list \<Rightarrow> nat \<Rightarrow> (nat \<times> (val \<Rightarrow> val res)) option" where
  "pick_mapper h keys schema = (if keys = [''__root__''] then None else gh_mapper h schema)"

text \<open>The writers for state updates and commands, with the given output keys.\<close>

definition state_writer :: "graph_host \<Rightarrow> string list \<Rightarrow> static_write list \<Rightarrow> writer" where
  "state_writer h output_keys static =
     ChannelWriter [ChannelWriteTupleEntry (if output_keys = [''__root__''] then get_root h else get_updates h output_keys) PASSTHROUGH [],
                    ChannelWriteTupleEntry control_branch PASSTHROUGH static]"

definition attach_start :: "graph_host \<Rightarrow> state_graph \<Rightarrow> compiled_graph \<Rightarrow> compiled_graph res" where
  "attach_start h g cg =
     rbind (dict_index (sg_schemas g) (sg_input_schema g)) (\<lambda>schema.
       Inr (cg\<lparr>cg_nodes := dict_set START
         \<lparr>cn_triggers = [START], cn_channels = One START, cn_mapper = None, cn_writers = [state_writer h (schema_keys schema) []],
          cn_bound = None, cn_tags = [TAG_HIDDEN], cn_metadata = [], cn_retry_policy = None, cn_cache_policy = None,
          cn_is_error_handler = False, cn_error_handler_node = None, cn_timeout = VNone\<rparr> (cg_nodes cg)\<rparr>))"

definition branch_channel :: "state_node \<Rightarrow> channel" where
  "branch_channel s = (if sn_defer s then LastValueAfterFinish (lvf_init []) else EphemeralValue (ev_init False))"

definition attach_node :: "graph_host \<Rightarrow> state_graph \<Rightarrow> string \<times> state_node \<Rightarrow> compiled_graph \<Rightarrow> compiled_graph res" where
  "attach_node h g = (\<lambda>(key, s) cg.
     rbind (dict_index (sg_schemas g) (sn_input_schema s)) (\<lambda>schema.
       let output_keys = dict_keys (sg_channels g) @ dict_keys (sg_managed g);
           input_channels = dict_keys schema;
           single = (length input_channels = 1 \<and> ''__root__'' \<in> set input_channels)
       in Inr (cg\<lparr>cg_channels := dict_set (branch_to key) (ChannelSpec (branch_channel s)) (cg_channels cg),
            cg_nodes := dict_set key
              \<lparr>cn_triggers = [branch_to key], cn_channels = (if single then One ''__root__'' else Many input_channels),
               cn_mapper = pick_mapper h input_channels (sn_input_schema s),
               cn_writers = [state_writer h output_keys (control_static (sn_ends s))],
               cn_bound = Some (sn_runnable s), cn_tags = [], cn_metadata = sn_metadata s, cn_retry_policy = sn_retry_policy s,
               cn_cache_policy = sn_cache_policy s, cn_is_error_handler = sn_is_error_handler s,
               cn_error_handler_node = sn_error_handler_node s, cn_timeout = sn_timeout s\<rparr> (cg_nodes cg)\<rparr>)))"

definition update_node :: "string \<Rightarrow> (compiled_node \<Rightarrow> compiled_node) \<Rightarrow> compiled_graph \<Rightarrow> compiled_graph res" where
  "update_node n f cg = rbind (dict_index (cg_nodes cg) n) (\<lambda>cn. Inr (cg\<lparr>cg_nodes := dict_set n (f cn) (cg_nodes cg)\<rparr>))"

definition append_writer :: "string \<Rightarrow> writer \<Rightarrow> compiled_graph \<Rightarrow> compiled_graph res" where
  "append_writer n w = update_node n (\<lambda>cn. cn\<lparr>cn_writers := cn_writers cn @ [w]\<rparr>)"

definition attach_edge :: "string \<times> string \<Rightarrow> compiled_graph \<Rightarrow> compiled_graph res" where
  "attach_edge = (\<lambda>(start, end_key) cg.
     if end_key = END then Inr cg
     else append_writer start (ChannelWriter [ChannelWriteEntry (branch_to end_key) VNone False None]) cg)"

definition attach_waiting_edge :: "state_graph \<Rightarrow> string list \<times> string \<Rightarrow> compiled_graph \<Rightarrow> compiled_graph res" where
  "attach_waiting_edge g = (\<lambda>(starts, end_key) cg.
     if end_key = END then Inr cg
     else
       let chan = join_channel starts end_key; names = remdups (map VStr starts)
       in rbind (dict_index (sg_nodes g) end_key) (\<lambda>s.
          rbind (update_node end_key (\<lambda>cn. cn\<lparr>cn_triggers := cn_triggers cn @ [chan]\<rparr>)
            (cg\<lparr>cg_channels := dict_set chan (ChannelSpec (if sn_defer s then NamedBarrierValueAfterFinish (nbf_init names)
                                                         else NamedBarrierValue (nb_init names))) (cg_channels cg)\<rparr>))
          (rfold (\<lambda>start. append_writer start (ChannelWriter [ChannelWriteEntry chan (VStr start) False None])) starts)))"

definition branch_publish :: "graph_host \<Rightarrow> val list \<Rightarrow> write_entry list" where
  "branch_publish h dests = map (\<lambda>p. case p of
       VSend n a t \<Rightarrow> SendEntry p
     | VStr n \<Rightarrow> ChannelWriteEntry (branch_to n) VNone False None
     | _ \<Rightarrow> ChannelWriteEntry (branch_to (gh_str h p)) VNone False None) (filter (\<lambda>p. p \<noteq> VStr END) dests)"

definition branch_schema :: "state_graph \<Rightarrow> string \<Rightarrow> branch_spec \<Rightarrow> nat" where
  "branch_schema g start br = (case br_input_schema br of
       Some s \<Rightarrow> s
     | None \<Rightarrow> (case dict_get (sg_nodes g) start of Some n \<Rightarrow> sn_input_schema n | None \<Rightarrow> sg_state_schema g))"

definition attach_branch :: "graph_host \<Rightarrow> state_graph \<Rightarrow> string \<Rightarrow> branch_spec \<Rightarrow> compiled_graph \<Rightarrow> compiled_graph res" where
  "attach_branch h g start br cg =
     (let schema = branch_schema g start br
      in rbind (dict_index (sg_schemas g) schema) (\<lambda>d.
         let channels = dict_keys d
         in append_writer start (BranchWriter br (branch_publish h)
              (Some (if channels = [''__root__''] then One ''__root__'' else Many channels, pick_mapper h channels schema))) cg))"

subsection \<open>Validation of the compiled graph\<close>

fun select_list :: "select \<Rightarrow> string list" where
  "select_list (One c) = [c]"
| "select_list (Many cs) = cs"

definition validate_node :: "(string, spec) dict \<Rightarrow> compiled_node \<Rightarrow> unit res" where
  "validate_node chs cn = (case cn_channels cn of
       One c \<Rightarrow> (case dict_get chs c of Some (ChannelSpec _) \<Rightarrow> Inr () | _ \<Rightarrow> Inl ValueError)
     | Many cs \<Rightarrow> if \<forall>c \<in> set cs. in_dict c chs then Inr () else Inl ValueError)"

definition is_channel :: "(string, spec) dict \<Rightarrow> string \<Rightarrow> bool" where
  "is_channel chs c \<longleftrightarrow> (case dict_get chs c of Some (ChannelSpec _) \<Rightarrow> True | _ \<Rightarrow> False)"

text \<open>\<open>validate_graph\<close>: reserved names, what nodes read and subscribe to, input and output, interrupts.\<close>

definition validate_graph :: "compiled_graph \<Rightarrow> unit res" where
  "validate_graph cg =
     (let chs = cg_channels cg;
          subscribed = concat (map (\<lambda>(_, cn). cn_triggers cn) (cg_nodes cg));
          known_node = (\<lambda>n. in_dict n (cg_nodes cg))
      in if \<exists>c \<in> set (dict_keys chs). c \<in> set RESERVED then Inl ValueError
         else if \<exists>n \<in> set (dict_keys (cg_nodes cg)). n \<in> set RESERVED then Inl ValueError
         else rbind (rmap (\<lambda>(_, cn). validate_node chs cn) (cg_nodes cg)) (\<lambda>_.
           if \<exists>c \<in> set subscribed. \<not> is_channel chs c then Inl ValueError
           else if \<exists>c \<in> set (select_list (cg_input_channels cg)). \<not> is_channel chs c then Inl ValueError
           else if \<forall>c \<in> set (select_list (cg_input_channels cg)). c \<notin> set subscribed then Inl ValueError
           else if \<exists>c \<in> set (select_list (cg_output_channels cg) @ select_list (cg_stream_channels cg)). \<not> is_channel chs c
           then Inl ValueError
           else if \<exists>n \<in> set (case cg_interrupt_after cg of Some ns \<Rightarrow> ns | None \<Rightarrow> []). \<not> known_node n then Inl ValueError
           else if \<exists>n \<in> set (case cg_interrupt_before cg of Some ns \<Rightarrow> ns | None \<Rightarrow> []). \<not> known_node n then Inl ValueError
           else Inr ()))"

definition trigger_to_nodes :: "(string, compiled_node) dict \<Rightarrow> (string, string list) dict" where
  "trigger_to_nodes nodes =
     fold (\<lambda>(name, cn). fold (\<lambda>trigger. dict_append trigger name) (cn_triggers cn)) nodes []"

definition validate_compiled :: "compiled_graph \<Rightarrow> compiled_graph res" where
  "validate_compiled cg = rbind (validate_graph cg)
     (\<lambda>_. Inr (cg\<lparr>cg_trigger_to_nodes := trigger_to_nodes (cg_nodes cg)\<rparr>))"

subsection \<open>\<open>compile\<close>\<close>

definition DEFAULT_ERROR_HANDLER_NODE :: string where
  "DEFAULT_ERROR_HANDLER_NODE = ''__default_error_handler__''"

definition root_or_keys :: "string list \<Rightarrow> string list \<Rightarrow> select" where
  "root_or_keys all_keys keys = (if length all_keys = 1 \<and> ''__root__'' \<in> set all_keys then One ''__root__'' else Many keys)"

text \<open>The policies of the node win over the defaults; handlers are not handled or cached.\<close>

definition apply_defaults :: "node_defaults \<Rightarrow> string option \<Rightarrow> state_node \<Rightarrow> state_node" where
  "apply_defaults d handler s =
     s\<lparr>sn_error_handler_node := (if \<not> sn_is_error_handler s \<and> handler \<noteq> None \<and> sn_error_handler_node s = None
                                 then handler else sn_error_handler_node s),
       sn_retry_policy := (if nd_retry_policy d \<noteq> None \<and> sn_retry_policy s = None then nd_retry_policy d else sn_retry_policy s),
       sn_cache_policy := (case (sn_is_error_handler s, nd_cache_policy d, sn_cache_policy s) of
           (False, Some p, None) \<Rightarrow> Some p | _ \<Rightarrow> sn_cache_policy s),
       sn_timeout := (if nd_timeout d \<noteq> VNone \<and> sn_timeout s = VNone then nd_timeout d else sn_timeout s)\<rparr>"

text \<open>The builder's nodes with the default handler and the defaults; they stay in the builder.\<close>

definition nodes_with_defaults :: "state_graph \<Rightarrow> (string, state_node) dict res" where
  "nodes_with_defaults g =
     (let d = sg_node_defaults g
      in case nd_error_handler d of
           None \<Rightarrow> Inr (map (\<lambda>(k, s). (k, apply_defaults d None s)) (sg_nodes g))
         | Some handler \<Rightarrow>
             if in_dict DEFAULT_ERROR_HANDLER_NODE (sg_nodes g) then Inl ValueError
             else Inr (map (\<lambda>(k, s). (k, apply_defaults d (Some DEFAULT_ERROR_HANDLER_NODE) s))
               (dict_set DEFAULT_ERROR_HANDLER_NODE (handler_spec handler (sg_state_schema g)) (sg_nodes g))))"

definition error_handler_map :: "(string, state_node) dict \<Rightarrow> (string, string) dict" where
  "error_handler_map nodes = List.map_filter (\<lambda>(k, s).
     if sn_is_error_handler s then None else map_option (Pair k) (sn_error_handler_node s)) nodes"

text \<open>\<open>Pregel.__init__\<close> adds the channel of pending sends.\<close>

definition initial_graph :: "string list option \<Rightarrow> string list option \<Rightarrow> select \<Rightarrow> select \<Rightarrow> state_graph \<Rightarrow> compiled_graph res" where
  "initial_graph before_nodes after_nodes out stream g =
     (let chs = dict_set START (ChannelSpec (EphemeralValue (ev_init True)))
            (dict_update (map (\<lambda>(k, c). (k, ChannelSpec c)) (sg_channels g)) (map (\<lambda>(k, m). (k, ManagedSpec m)) (sg_managed g)))
      in if (case dict_get chs TASKS of None \<Rightarrow> False | Some (ChannelSpec (Topic _)) \<Rightarrow> False | Some _ \<Rightarrow> True)
         then Inl ValueError
         else Inr \<lparr>cg_nodes = [], cg_channels = dict_set TASKS (ChannelSpec (Topic (tp_init False))) chs,
           cg_input_channels = One START, cg_output_channels = out, cg_stream_channels = stream,
           cg_interrupt_before = before_nodes, cg_interrupt_after = after_nodes,
           cg_error_handlers = error_handler_map (sg_nodes g), cg_trigger_to_nodes = []\<rparr>)"

definition attach_all :: "graph_host \<Rightarrow> state_graph \<Rightarrow> compiled_graph \<Rightarrow> compiled_graph res" where
  "attach_all h g cg =
     rbind (attach_start h g cg) (\<lambda>cg.
     rbind (rfold (attach_node h g) (sg_nodes g) cg) (\<lambda>cg.
     rbind (rfold attach_edge (sg_edges g) cg) (\<lambda>cg.
     rbind (rfold (attach_waiting_edge g) (sg_waiting_edges g) cg) (\<lambda>cg.
     rfold (\<lambda>(start, brs). rfold (\<lambda>(_, br). attach_branch h g start br) brs) (sg_branches g) cg))))"

text \<open>\<open>None\<close> is \<open>"*"\<close>. The result has the builder, which \<open>compile\<close> changes.\<close>

definition compile :: "graph_host \<Rightarrow> string list option \<Rightarrow> string list option \<Rightarrow> state_graph \<Rightarrow> (state_graph \<times> compiled_graph) res" where
  "compile h before_nodes after_nodes g =
     rbind (validate_builder (interrupts_to_check before_nodes after_nodes) g) (\<lambda>g.
     rbind (dict_index (sg_schemas g) (sg_output_schema g)) (\<lambda>out.
     rbind (nodes_with_defaults g) (\<lambda>nodes.
     let g = g\<lparr>sg_nodes := nodes\<rparr>
     in rbind (initial_graph before_nodes after_nodes (root_or_keys (dict_keys out) (schema_keys out))
          (root_or_keys (dict_keys (sg_channels g)) (dict_keys (sg_channels g))) g) (\<lambda>cg.
        rbind (attach_all h g cg) (\<lambda>cg.
        rbind (validate_compiled cg) (\<lambda>cg. Inr (g, cg)))))))"

end
