(* ===== verification/Graph_Compile.thy ===== *)
theory Graph_Compile
  imports State_Graph
begin

section \<open>What a graph compiles to\<close>

text \<open>
  The triggers, the writers and the channels of the compiled nodes, in terms of the builder's edges,
  waiting edges and branches; the invariant of the builder that its methods keep; and which
  exceptions \<open>compile\<close> can raise on a graph that was built with them.
\<close>

subsection \<open>Triggers and writers\<close>

definition node_view :: "compiled_graph \<Rightarrow> string \<Rightarrow> (string list \<times> writer list) option" where
  "node_view cg n = map_option (\<lambda>cn. (cn_triggers cn, cn_writers cn)) (dict_get (cg_nodes cg) n)"

text \<open>An operation that only appends triggers and writers to the nodes.\<close>

definition appends :: "(compiled_graph \<Rightarrow> compiled_graph res) \<Rightarrow> (string \<Rightarrow> string list) \<Rightarrow> (string \<Rightarrow> writer list) \<Rightarrow> bool" where
  "appends f ts ws \<longleftrightarrow> (\<forall>cg cg'. f cg = Inr cg' \<longrightarrow> dict_keys (cg_nodes cg') = dict_keys (cg_nodes cg)
     \<and> (\<forall>n. node_view cg' n = map_option (\<lambda>(a, b). (a @ ts n, b @ ws n)) (node_view cg n)))"

lemma appendsD: "appends f ts ws \<Longrightarrow> f cg = Inr cg' \<Longrightarrow>
    node_view cg' n = map_option (\<lambda>(a, b). (a @ ts n, b @ ws n)) (node_view cg n)"
  by (auto simp: appends_def)

lemma appends_keys: "appends f ts ws \<Longrightarrow> f cg = Inr cg' \<Longrightarrow> dict_keys (cg_nodes cg') = dict_keys (cg_nodes cg)"
  by (simp add: appends_def)

lemma appends_Inr: "appends Inr (\<lambda>_. []) (\<lambda>_. [])"
  by (simp add: appends_def option.map_ident_strong)

lemma appends_bind:
  assumes "appends f ts ws" "appends f' ts' ws'"
  shows "appends (\<lambda>cg. rbind (f cg) f') (\<lambda>n. ts n @ ts' n) (\<lambda>n. ws n @ ws' n)"
  unfolding appends_def
proof (intro allI impI conjI)
  fix cg cg' n
  assume "rbind (f cg) f' = Inr cg'"
  then obtain cg1 where cg1: "f cg = Inr cg1" "f' cg1 = Inr cg'" by (auto simp: rbind_Inr_iff)
  show "dict_keys (cg_nodes cg') = dict_keys (cg_nodes cg)"
    using appends_keys [OF assms(1) cg1(1)] appends_keys [OF assms(2) cg1(2)] by simp
  show "node_view cg' n = map_option (\<lambda>(a, b). (a @ (ts n @ ts' n), b @ (ws n @ ws' n))) (node_view cg n)"
    using appendsD [OF assms(1) cg1(1)] appendsD [OF assms(2) cg1(2)] by (cases "node_view cg n") auto
qed

lemma appends_rfold:
  "(\<And>x. appends (f x) (ts x) (ws x)) \<Longrightarrow> appends (rfold f xs) (\<lambda>n. concat (map (\<lambda>x. ts x n) xs)) (\<lambda>n. concat (map (\<lambda>x. ws x n) xs))"
proof (induction xs)
  case Nil
  then show ?case using appends_Inr by (simp add: appends_def)
next
  case (Cons x xs)
  then show ?case using appends_bind [OF Cons.prems [of x] Cons.IH] by simp
qed

lemma appends_update_node:
  assumes "\<And>cn. cn_triggers (f cn) = cn_triggers cn @ ts" "\<And>cn. cn_writers (f cn) = cn_writers cn @ ws"
  shows "appends (update_node k f) (\<lambda>n. if n = k then ts else []) (\<lambda>n. if n = k then ws else [])"
  unfolding appends_def
proof (intro allI impI conjI)
  fix cg cg' n
  assume "update_node k f cg = Inr cg'"
  then obtain cn where cn: "dict_get (cg_nodes cg) k = Some cn" "cg' = cg\<lparr>cg_nodes := dict_set k (f cn) (cg_nodes cg)\<rparr>"
    by (auto simp: update_node_def dict_index_def rbind_Inr_iff split: option.split_asm)
  then show "dict_keys (cg_nodes cg') = dict_keys (cg_nodes cg)" by (simp add: dict_keys_replace)
  show "node_view cg' n = map_option (\<lambda>(a, b). (a @ (if n = k then ts else []), b @ (if n = k then ws else []))) (node_view cg n)"
    using cn assms by (auto simp: node_view_def option.map_comp comp_def)
qed

lemma appends_writer: "appends (append_writer k w) (\<lambda>_. []) (\<lambda>n. if n = k then [w] else [])"
  using appends_update_node [of "\<lambda>cn. cn\<lparr>cn_writers := cn_writers cn @ [w]\<rparr>" "[]" "[w]" k]
  by (simp add: append_writer_def)

definition edge_writer :: "string \<Rightarrow> writer" where
  "edge_writer e = ChannelWriter [ChannelWriteEntry (branch_to e) VNone False None]"

definition join_writer :: "string list \<Rightarrow> string \<Rightarrow> string \<Rightarrow> writer" where
  "join_writer starts e n = ChannelWriter [ChannelWriteEntry (join_channel starts e) (VStr n) False None]"

lemma appends_edge: "appends (attach_edge (s, e)) (\<lambda>_. []) (\<lambda>n. if n = s \<and> e \<noteq> END then [edge_writer e] else [])"
  using appends_writer [of s "edge_writer e"] appends_Inr
  by (cases "e = END") (simp_all add: attach_edge_def edge_writer_def)

lemma appends_channels: "appends f ts ws \<Longrightarrow> appends (\<lambda>cg. f (cg\<lparr>cg_channels := c cg\<rparr>)) ts ws"
  by (simp add: appends_def node_view_def)

lemma appends_index: "(\<And>x. appends (f x) ts ws) \<Longrightarrow> appends (\<lambda>cg. rbind r (\<lambda>x. f x cg)) ts ws"
  by (cases r) (auto simp: appends_def)

lemma appends_waiting:
  "appends (attach_waiting_edge g (starts, e)) (\<lambda>n. if n = e \<and> e \<noteq> END then [join_channel starts e] else [])
     (\<lambda>n. if e \<noteq> END then concat (map (\<lambda>s. if n = s then [join_writer starts e s] else []) starts) else [])"
proof (cases "e = END")
  case True
  then show ?thesis using appends_Inr by (simp add: attach_waiting_edge_def)
next
  case False
  let ?chan = "join_channel starts e"
  have 1: "appends (update_node e (\<lambda>cn. cn\<lparr>cn_triggers := cn_triggers cn @ [?chan]\<rparr>)) (\<lambda>n. if n = e then [?chan] else []) (\<lambda>n. [])"
    using appends_update_node [of "\<lambda>cn. cn\<lparr>cn_triggers := cn_triggers cn @ [?chan]\<rparr>" "[?chan]" "[]" e] by simp
  have 2: "appends (rfold (\<lambda>s. append_writer s (join_writer starts e s)) starts) (\<lambda>n. [])
      (\<lambda>n. concat (map (\<lambda>s. if n = s then [join_writer starts e s] else []) starts))"
    using appends_rfold [of "\<lambda>s. append_writer s (join_writer starts e s)" "\<lambda>_ _. []" "\<lambda>s n. if n = s then [join_writer starts e s] else []" starts,
        OF appends_writer] by (simp add: concat_eq_Nil_conv [THEN iffD2])
  show ?thesis
    using appends_index [of "\<lambda>s cg. rbind (update_node e (\<lambda>cn. cn\<lparr>cn_triggers := cn_triggers cn @ [?chan]\<rparr>) (cg\<lparr>cg_channels := _ s cg\<rparr>))
        (rfold (\<lambda>s. append_writer s (join_writer starts e s)) starts)", OF appends_channels [OF appends_bind [OF 1 2]]] False
    by (simp add: attach_waiting_edge_def join_writer_def Let_def)
qed

definition branch_writer :: "graph_host \<Rightarrow> state_graph \<Rightarrow> string \<Rightarrow> branch_spec \<Rightarrow> writer" where
  "branch_writer h g start br =
     (let schema = branch_schema g start br; channels = dict_keys (dict_get_or (sg_schemas g) schema [])
      in BranchWriter br (branch_publish h)
           (Some (if channels = [''__root__''] then One ''__root__'' else Many channels, pick_mapper h channels schema)))"

lemma appends_branch: "appends (attach_branch h g s br) (\<lambda>_. []) (\<lambda>n. if n = s then [branch_writer h g s br] else [])"
proof (cases "dict_get (sg_schemas g) (branch_schema g s br)")
  case None
  then show ?thesis by (simp add: appends_def attach_branch_def dict_index_def Let_def)
next
  case (Some d)
  then have "attach_branch h g s br = append_writer s (branch_writer h g s br)"
    by (simp add: fun_eq_iff attach_branch_def branch_writer_def dict_index_def dict_get_or_def Let_def)
  then show ?thesis using appends_writer by simp
qed

definition output_keys :: "state_graph \<Rightarrow> string list" where
  "output_keys g = dict_keys (sg_channels g) @ dict_keys (sg_managed g)"

text \<open>The writers that edges, waiting edges and branches give a node, and its joins.\<close>

definition edge_targets :: "state_graph \<Rightarrow> string \<Rightarrow> string list" where
  "edge_targets g n = map snd (filter (\<lambda>(s, e). s = n \<and> e \<noteq> END) (sg_edges g))"

definition node_joins :: "state_graph \<Rightarrow> string \<Rightarrow> string list" where
  "node_joins g n = concat (map (\<lambda>(starts, e). if n = e \<and> e \<noteq> END then [join_channel starts e] else []) (sg_waiting_edges g))"

definition join_writers :: "state_graph \<Rightarrow> string \<Rightarrow> writer list" where
  "join_writers g n = concat (map (\<lambda>(starts, e). if e \<noteq> END
     then concat (map (\<lambda>s. if n = s then [join_writer starts e s] else []) starts) else []) (sg_waiting_edges g))"

definition branch_writers :: "graph_host \<Rightarrow> state_graph \<Rightarrow> string \<Rightarrow> writer list" where
  "branch_writers h g n = concat (map (\<lambda>(start, brs). concat (map (\<lambda>(_, br). if n = start then [branch_writer h g start br] else []) brs))
     (sg_branches g))"

definition routing_writers :: "graph_host \<Rightarrow> state_graph \<Rightarrow> string \<Rightarrow> writer list" where
  "routing_writers h g n = map edge_writer (edge_targets g n) @ join_writers g n @ branch_writers h g n"

lemma edges_writers: "concat (map (\<lambda>(s, e). if n = s \<and> e \<noteq> END then [edge_writer e] else []) es)
    = map edge_writer (map snd (filter (\<lambda>(s, e). s = n \<and> e \<noteq> END) es))"
  by (induction es) (auto split: if_splits)

lemma appends_edges: "appends (rfold attach_edge (sg_edges g)) (\<lambda>_. []) (\<lambda>n. map edge_writer (edge_targets g n))"
proof -
  have "appends (attach_edge x) (\<lambda>_. []) (\<lambda>n. case x of (s, e) \<Rightarrow> if n = s \<and> e \<noteq> END then [edge_writer e] else [])" for x
    using appends_edge by (cases x) simp
  from appends_rfold [of attach_edge, OF this, of "sg_edges g"] show ?thesis
    by (simp add: edge_targets_def edges_writers concat_eq_Nil_conv [THEN iffD2])
qed

lemma appends_joins: "appends (rfold (attach_waiting_edge g) (sg_waiting_edges g)) (node_joins g) (join_writers g)"
proof -
  have "appends (attach_waiting_edge g x) (\<lambda>n. case x of (starts, e) \<Rightarrow> if n = e \<and> e \<noteq> END then [join_channel starts e] else [])
     (\<lambda>n. case x of (starts, e) \<Rightarrow> if e \<noteq> END then concat (map (\<lambda>s. if n = s then [join_writer starts e s] else []) starts) else [])" for x
    using appends_waiting by (cases x) simp
  from appends_rfold [of "attach_waiting_edge g", OF this] show ?thesis
    by (simp add: node_joins_def [abs_def] join_writers_def [abs_def])
qed

lemma appends_branches:
  "appends (rfold (\<lambda>(start, brs). rfold (\<lambda>(_, br). attach_branch h g start br) brs) (sg_branches g)) (\<lambda>_. []) (branch_writers h g)"
proof -
  have 1: "appends (case y of (_, br) \<Rightarrow> attach_branch h g start br) (\<lambda>_. []) (\<lambda>n. case y of (_, br) \<Rightarrow> if n = start then [branch_writer h g start br] else [])" for y :: "string \<times> branch_spec" and start
    using appends_branch by (cases y) simp
  have 2: "appends (case x of (start, brs) \<Rightarrow> rfold (\<lambda>(_, br). attach_branch h g start br) brs) (\<lambda>_. [])
      (\<lambda>n. case x of (start, brs) \<Rightarrow> concat (map (\<lambda>(_, br). if n = start then [branch_writer h g start br] else []) brs))"
    for x :: "string \<times> (string \<times> branch_spec) list"
    using appends_rfold [of "\<lambda>(_, br). attach_branch h g (fst x) br" "\<lambda>_ _. []", OF 1, of "snd x"]
    by (simp add: split_def concat_eq_Nil_conv [THEN iffD2])
  from appends_rfold [of "\<lambda>(start, brs). rfold (\<lambda>(_, br). attach_branch h g start br) brs" "\<lambda>_ _. []", OF 2, of "sg_branches g"]
  show ?thesis by (simp add: branch_writers_def [abs_def] concat_eq_Nil_conv [THEN iffD2])
qed

definition node_state_writer :: "graph_host \<Rightarrow> state_graph \<Rightarrow> state_node \<Rightarrow> writer" where
  "node_state_writer h g s = state_writer h (output_keys g) (control_static (sn_ends s))"

lemma attach_node_view:
  assumes "attach_node h g (k, s) cg = Inr cg'"
  shows "node_view cg' n = (if n = k then Some ([branch_to k], [node_state_writer h g s]) else node_view cg n)"
    "set (dict_keys (cg_nodes cg')) = insert k (set (dict_keys (cg_nodes cg)))"
proof -
  from assms obtain cn where cn: "cg_nodes cg' = dict_set k cn (cg_nodes cg)" "cn_triggers cn = [branch_to k]"
    "cn_writers cn = [node_state_writer h g s]"
    by (auto simp: attach_node_def rbind_Inr_iff Let_def node_state_writer_def output_keys_def)
  show "set (dict_keys (cg_nodes cg')) = insert k (set (dict_keys (cg_nodes cg)))"
    unfolding cn(1) by (rule dict_keys_set)
  show "node_view cg' n = (if n = k then Some ([branch_to k], [node_state_writer h g s]) else node_view cg n)"
    using cn by (simp add: node_view_def)
qed

lemma attach_nodes_view:
  assumes "rfold (attach_node h g) nodes cg = Inr cg'" "wf_dict nodes"
  shows "node_view cg' n = (case dict_get nodes n of
      Some s \<Rightarrow> Some ([branch_to n], [node_state_writer h g s]) | None \<Rightarrow> node_view cg n)"
proof (cases "dict_get nodes n")
  case (Some s)
  have view: "node_view cg'' n = node_view cg' n" if "fst x \<noteq> n" "attach_node h g x cg' = Inr cg''" for x cg' cg''
    using that attach_node_view(1) [of h g "fst x" "snd x"] by simp
  show ?thesis
  proof (rule rfold_view [where view = "\<lambda>cg. node_view cg n", OF view assms])
    fix x t t' assume x: "x \<in> set nodes" "fst x = n" "attach_node h g x t = Inr t'" "node_view cg' n = node_view t' n"
    then have "(n, snd x) \<in> set nodes" by (metis prod.collapse)
    from map_of_is_SomeI [OF assms(2) this] have "x = (n, s)" using Some x(2) by (cases x) simp
    then show ?thesis using x attach_node_view(1) [of h g n s t t' n] Some by simp
  qed (use Some in \<open>auto dest: dict_get_in_keys\<close>)
next
  case None
  have view: "node_view cg'' n = node_view cg' n" if "fst x \<noteq> n" "attach_node h g x cg' = Inr cg''" for x cg' cg''
    using that attach_node_view(1) [of h g "fst x" "snd x"] by simp
  show ?thesis
  proof (rule rfold_view [where view = "\<lambda>cg. node_view cg n", OF view assms])
    fix x assume "x \<in> set nodes" "fst x = n"
    then show ?thesis using None by (auto simp: map_of_eq_None_iff)
  qed (use None in simp_all)
qed

lemma attach_all_view:
  assumes "attach_all h g cg = Inr cg'" "wf_dict (sg_nodes g)" "dict_get (sg_nodes g) n = Some s"
  shows "node_view cg' n = Some (branch_to n # node_joins g n, node_state_writer h g s # routing_writers h g n)"
proof -
  from assms(1) obtain cg1 cg2 where cg: "attach_start h g cg = Inr cg1" "rfold (attach_node h g) (sg_nodes g) cg1 = Inr cg2"
    "rbind (rfold attach_edge (sg_edges g) cg2) (\<lambda>cg. rbind (rfold (attach_waiting_edge g) (sg_waiting_edges g) cg)
       (rfold (\<lambda>(start, brs). rfold (\<lambda>(_, br). attach_branch h g start br) brs) (sg_branches g))) = Inr cg'"
    by (auto simp: attach_all_def rbind_Inr_iff)
  have 2: "node_view cg2 n = Some ([branch_to n], [node_state_writer h g s])"
    using attach_nodes_view [OF cg(2) assms(2)] assms(3) by simp
  show ?thesis
    using appendsD [OF appends_bind [OF appends_edges appends_bind [OF appends_joins appends_branches]] cg(3), of n] 2
    by (simp add: routing_writers_def)
qed

lemma compile_parts:
  assumes "compile h before_nodes after_nodes g = Inr (g', cg)"
  obtains cg0 cg1 out stream where "validate_builder (interrupts_to_check before_nodes after_nodes) g = Inr (g\<lparr>sg_compiled := True\<rparr>)"
    "nodes_with_defaults (g\<lparr>sg_compiled := True\<rparr>) = Inr (sg_nodes g')" "g' = g\<lparr>sg_compiled := True, sg_nodes := sg_nodes g'\<rparr>"
    "initial_graph before_nodes after_nodes out stream g' = Inr cg0" "attach_all h g' cg0 = Inr cg1"
    "validate_graph cg1 = Inr ()" "cg = cg1\<lparr>cg_trigger_to_nodes := trigger_to_nodes (cg_nodes cg1)\<rparr>"
proof -
  from assms obtain g1 out nodes cg0 cg1 cg2 where 1: "validate_builder (interrupts_to_check before_nodes after_nodes) g = Inr g1"
    "nodes_with_defaults g1 = Inr nodes" "g' = g1\<lparr>sg_nodes := nodes\<rparr>"
    "initial_graph before_nodes after_nodes (root_or_keys (dict_keys out) (schema_keys out))
          (root_or_keys (dict_keys (sg_channels g')) (dict_keys (sg_channels g'))) g' = Inr cg0"
    "attach_all h g' cg0 = Inr cg1" "validate_compiled cg1 = Inr cg"
    by (auto simp: compile_def rbind_Inr_iff Let_def)
  have g1: "g1 = g\<lparr>sg_compiled := True\<rparr>" using 1(1) by (auto simp: validate_builder_def split: if_split_asm)
  show thesis
    by (rule that [OF _ _ _ 1(4,5)]) (use 1 g1 in \<open>auto simp: validate_compiled_def rbind_Inr_iff\<close>)
qed

lemma nodes_with_defaults_keys:
  "nodes_with_defaults g = Inr nodes \<Longrightarrow> dict_keys nodes = dict_keys (sg_nodes g)
     \<or> nodes \<noteq> [] \<and> nd_error_handler (sg_node_defaults g) \<noteq> None \<and> dict_keys nodes = dict_keys (sg_nodes g) @ [DEFAULT_ERROR_HANDLER_NODE]"
  by (auto simp: nodes_with_defaults_def Let_def split_def comp_def update_keys in_dict_iff split: option.split_asm if_split_asm)

lemma nodes_with_defaults_wf: "nodes_with_defaults g = Inr nodes \<Longrightarrow> wf_dict (sg_nodes g) \<Longrightarrow> wf_dict nodes"
  by (auto simp: nodes_with_defaults_def Let_def split_def comp_def distinct_update split: option.split_asm if_split_asm)

text \<open>The triggers and writers of a node of the compiled graph.\<close>

lemma compiled_node:
  assumes "compile h before_nodes after_nodes g = Inr (g', cg)" "wf_dict (sg_nodes g)" "dict_get (sg_nodes g') n = Some s"
  obtains cn where "dict_get (cg_nodes cg) n = Some cn" "cn_triggers cn = branch_to n # node_joins g n"
    "cn_writers cn = node_state_writer h g' s # routing_writers h g' n"
proof (rule compile_parts [OF assms(1)])
  fix cg0 cg1 out stream
  assume c: "nodes_with_defaults (g\<lparr>sg_compiled := True\<rparr>) = Inr (sg_nodes g')" "g' = g\<lparr>sg_compiled := True, sg_nodes := sg_nodes g'\<rparr>"
    "attach_all h g' cg0 = Inr cg1" "cg = cg1\<lparr>cg_trigger_to_nodes := trigger_to_nodes (cg_nodes cg1)\<rparr>"
  have "wf_dict (sg_nodes g')" using nodes_with_defaults_wf [OF c(1)] assms(2) by simp
  from attach_all_view [OF c(3) this assms(3)] obtain cn where cn: "dict_get (cg_nodes cg1) n = Some cn"
    "cn_triggers cn = branch_to n # node_joins g' n" "cn_writers cn = node_state_writer h g' s # routing_writers h g' n"
    by (auto simp: node_view_def)
  moreover have "node_joins g' n = node_joins g n" by (subst c(2)) (simp add: node_joins_def)
  ultimately show thesis using that [of cn] c(4) by simp
qed

subsection \<open>Channels\<close>

lemma channel_names [simp]: "branch_to n \<noteq> join_channel ss e" "join_channel ss e \<noteq> branch_to n" "branch_to n = branch_to m \<longleftrightarrow> n = m"
  "branch_to n \<noteq> TASKS" "branch_to n \<noteq> START" "join_channel ss e \<noteq> TASKS" "join_channel ss e \<noteq> START"
  by (simp_all add: branch_to_def join_channel_def name_defs)

lemma append_writer_channels: "append_writer n w cg = Inr cg' \<Longrightarrow> cg_channels cg' = cg_channels cg"
  by (auto simp: append_writer_def update_node_def rbind_Inr_iff)

lemma append_writers_channels: "rfold (\<lambda>x. append_writer (n x) (w x)) xs cg = Inr cg' \<Longrightarrow> cg_channels cg' = cg_channels cg"
  by (erule rfold_invariant) (auto dest: append_writer_channels)

lemma attach_edge_channels: "attach_edge x cg = Inr cg' \<Longrightarrow> cg_channels cg' = cg_channels cg"
  by (auto simp: attach_edge_def split: prod.split_asm if_split_asm dest: append_writer_channels)

lemma attach_branch_channels: "attach_branch h g s br cg = Inr cg' \<Longrightarrow> cg_channels cg' = cg_channels cg"
  by (auto simp: attach_branch_def Let_def rbind_Inr_iff dest: append_writer_channels)

definition join_spec :: "state_node \<Rightarrow> string list \<Rightarrow> spec" where
  "join_spec s starts = ChannelSpec (if sn_defer s then NamedBarrierValueAfterFinish (nbf_init (remdups (map VStr starts)))
     else NamedBarrierValue (nb_init (remdups (map VStr starts))))"

lemma attach_waiting_channels:
  assumes "attach_waiting_edge g (starts, e) cg = Inr cg'"
  shows "cg_channels cg' = (if e = END then cg_channels cg else
    dict_set (join_channel starts e) (join_spec (the (dict_get (sg_nodes g) e)) starts) (cg_channels cg))"
  using assms
  by (auto simp: attach_waiting_edge_def Let_def rbind_Inr_iff dict_index_def update_node_def join_spec_def
      split: if_split_asm option.split_asm dest!: append_writers_channels)

lemma attach_branches_channels:
  assumes "rfold (\<lambda>(start, brs). rfold (\<lambda>(_, br). attach_branch h g start br) brs) bs cg = Inr cg'"
  shows "cg_channels cg' = cg_channels cg"
  using assms
proof (rule rfold_invariant)
  fix x t t'
  assume t: "cg_channels t = cg_channels cg" "(case x of (start, brs) \<Rightarrow> rfold (\<lambda>(_, br). attach_branch h g start br) brs) t = Inr t'"
  obtain start brs where x: "x = (start, brs)" by (cases x)
  have "rfold (\<lambda>(_, br). attach_branch h g start br) brs t = Inr t'" using t(2) x by simp
  then have "cg_channels t' = cg_channels t"
    by (rule rfold_invariant) (auto dest: attach_branch_channels)
  then show "cg_channels t' = cg_channels cg" using t(1) by simp
qed simp

lemma attach_nodes_channels:
  assumes "rfold (attach_node h g) nodes cg = Inr cg'" "wf_dict nodes" "dict_get nodes n = Some s"
  shows "dict_get (cg_channels cg') (branch_to n) = Some (ChannelSpec (branch_channel s))"
proof -
  have view: "dict_get (cg_channels cg'') (branch_to n) = dict_get (cg_channels cg') (branch_to n)"
    if "fst x \<noteq> n" "attach_node h g x cg' = Inr cg''" for x cg' cg''
    using that by (auto simp: attach_node_def rbind_Inr_iff Let_def split: prod.split_asm)
  show ?thesis
  proof (rule rfold_view [where view = "\<lambda>cg. dict_get (cg_channels cg) (branch_to n)", OF view assms(1,2)])
    fix x t t' assume x: "x \<in> set nodes" "fst x = n" "attach_node h g x t = Inr t'"
      "dict_get (cg_channels cg') (branch_to n) = dict_get (cg_channels t') (branch_to n)"
    then have "(n, snd x) \<in> set nodes" by (metis prod.collapse)
    from map_of_is_SomeI [OF assms(2) this] have "x = (n, s)" using assms(3) x(2) by (cases x) simp
    then show ?thesis using x by (auto simp: attach_node_def rbind_Inr_iff Let_def)
  qed (use assms(3) in \<open>auto dest: dict_get_in_keys\<close>)
qed

lemma attach_joins_branch:
  "rfold (attach_waiting_edge g) es cg = Inr cg' \<Longrightarrow> dict_get (cg_channels cg') (branch_to n) = dict_get (cg_channels cg) (branch_to n)"
  by (erule rfold_invariant) (auto dest!: attach_waiting_channels split: if_split_asm)

text \<open>No two waiting edges share a channel; this is a condition on the names, see below.\<close>

definition joins_differ :: "state_graph \<Rightarrow> bool" where
  "joins_differ g \<longleftrightarrow> (\<forall>(ss, e) \<in> set (sg_waiting_edges g). \<forall>(ss', e') \<in> set (sg_waiting_edges g).
     join_channel ss e = join_channel ss' e' \<longrightarrow> ss = ss' \<and> e = e')"

lemma attach_joins_channel:
  assumes "rfold (attach_waiting_edge g) es cg = Inr cg'" "(ss, e) \<in> set es" "e \<noteq> END"
    and "\<forall>(ss', e') \<in> set es. join_channel ss e = join_channel ss' e' \<longrightarrow> ss = ss' \<and> e = e'"
  shows "dict_get (cg_channels cg') (join_channel ss e) = Some (join_spec (the (dict_get (sg_nodes g) e)) ss)"
  using assms
proof (induction es arbitrary: cg' rule: rev_induct)
  case (snoc x es)
  obtain ss' e' where x: "x = (ss', e')" by (cases x)
  from snoc.prems(1) obtain t where t: "rfold (attach_waiting_edge g) es cg = Inr t" "attach_waiting_edge g (ss', e') t = Inr cg'"
    by (auto simp: rfold_append rbind_Inr_iff x)
  show ?case
  proof (cases "join_channel ss' e' = join_channel ss e \<and> e' \<noteq> END")
    case True
    then have "ss' = ss" "e' = e" using snoc.prems(4) x by auto
    then show ?thesis using attach_waiting_channels [OF t(2)] snoc.prems(3) by simp
  next
    case False
    then have "(ss, e) \<in> set es" using snoc.prems(2,3) x by auto
    then have "dict_get (cg_channels t) (join_channel ss e) = Some (join_spec (the (dict_get (sg_nodes g) e)) ss)"
      using snoc.IH [OF t(1)] snoc.prems(3,4) by simp
    then show ?thesis using attach_waiting_channels [OF t(2)] False by auto
  qed
qed simp

lemma compiled_channels:
  assumes "compile h before_nodes after_nodes g = Inr (g', cg)" "wf_dict (sg_nodes g)"
  shows "dict_get (sg_nodes g') n = Some s \<Longrightarrow> dict_get (cg_channels cg) (branch_to n) = Some (ChannelSpec (branch_channel s))"
    and "joins_differ g \<Longrightarrow> (ss, e) \<in> set (sg_waiting_edges g) \<Longrightarrow> e \<noteq> END \<Longrightarrow>
      dict_get (cg_channels cg) (join_channel ss e) = Some (join_spec (the (dict_get (sg_nodes g') e)) ss)"
proof -
  from assms(1) obtain cg0 cg1 where c: "nodes_with_defaults (g\<lparr>sg_compiled := True\<rparr>) = Inr (sg_nodes g')"
    "g' = g\<lparr>sg_compiled := True, sg_nodes := sg_nodes g'\<rparr>" "attach_all h g' cg0 = Inr cg1"
    "cg = cg1\<lparr>cg_trigger_to_nodes := trigger_to_nodes (cg_nodes cg1)\<rparr>"
    by (rule compile_parts)
  have wf: "wf_dict (sg_nodes g')" using nodes_with_defaults_wf [OF c(1)] assms(2) by simp
  have we: "sg_waiting_edges g' = sg_waiting_edges g" by (subst c(2)) simp
  from c(3) obtain cga cgb cgc cgd where r: "rfold (attach_node h g') (sg_nodes g') cga = Inr cgb"
    "rfold attach_edge (sg_edges g') cgb = Inr cgc" "rfold (attach_waiting_edge g') (sg_waiting_edges g') cgc = Inr cgd"
    "rfold (\<lambda>(start, brs). rfold (\<lambda>(_, br). attach_branch h g' start br) brs) (sg_branches g') cgd = Inr cg1"
    by (auto simp: attach_all_def rbind_Inr_iff)
  have e: "cg_channels cgc = cg_channels cgb" using r(2) by (rule rfold_invariant) (auto dest: attach_edge_channels)
  have b: "cg_channels cg = cg_channels cgd" using attach_branches_channels [OF r(4)] c(4) by simp
  show "dict_get (sg_nodes g') n = Some s \<Longrightarrow> dict_get (cg_channels cg) (branch_to n) = Some (ChannelSpec (branch_channel s))"
    using attach_nodes_channels [OF r(1) wf] attach_joins_branch [OF r(3)] e b by simp
  show "joins_differ g \<Longrightarrow> (ss, e) \<in> set (sg_waiting_edges g) \<Longrightarrow> e \<noteq> END \<Longrightarrow>
      dict_get (cg_channels cg) (join_channel ss e) = Some (join_spec (the (dict_get (sg_nodes g') e)) ss)"
    using attach_joins_channel [OF r(3), of ss e] b we by (fastforce simp: joins_differ_def)
qed

subsection \<open>The writes of a node\<close>

definition branch_reader :: "graph_host \<Rightarrow> state_graph \<Rightarrow> string \<Rightarrow> branch_spec \<Rightarrow> (select \<times> (nat \<times> (val \<Rightarrow> val res)) option) option" where
  "branch_reader h g start br =
     (let schema = branch_schema g start br; channels = dict_keys (dict_get_or (sg_schemas g) schema [])
      in Some (if channels = [''__root__''] then One ''__root__'' else Many channels, pick_mapper h channels schema))"

lemma branch_writer_eq: "branch_writer h g n br = BranchWriter br (branch_publish h) (branch_reader h g n br)"
  by (simp add: branch_writer_def branch_reader_def Let_def)

text \<open>Where a branch goes: its path function sees the fresh state, the writes so far included.\<close>

definition branch_picks :: "graph_host \<Rightarrow> state_graph \<Rightarrow> reader option \<Rightarrow> string \<Rightarrow> val \<Rightarrow> branch_spec \<Rightarrow> chan_write list \<Rightarrow> val list res" where
  "branch_picks h g read n y br sent =
     rbind (branch_input read br (branch_reader h g n br) y sent) (\<lambda>v. rbind (br_path br v) (branch_destinations br))"

definition dest_write :: "graph_host \<Rightarrow> val \<Rightarrow> chan_write" where
  "dest_write h p = (case p of
       VSend n a t \<Rightarrow> (TASKS, p)
     | VStr n \<Rightarrow> (branch_to n, VNone)
     | _ \<Rightarrow> (branch_to (gh_str h p), VNone))"

definition dest_writes :: "graph_host \<Rightarrow> val list \<Rightarrow> chan_write list" where
  "dest_writes h dests = map (dest_write h) (filter (\<lambda>p. p \<noteq> VStr END) dests)"

fun branch_dests :: "graph_host \<Rightarrow> state_graph \<Rightarrow> reader option \<Rightarrow> string \<Rightarrow> val \<Rightarrow> branch_spec list \<Rightarrow> chan_write list \<Rightarrow> val list res" where
  "branch_dests h g read n y [] sent = Inr []"
| "branch_dests h g read n y (br # brs) sent =
     rbind (branch_picks h g read n y br sent)
       (\<lambda>ds. rbind (branch_dests h g read n y brs (sent @ dest_writes h ds)) (\<lambda>rest. Inr (ds @ rest)))"

definition branches_of :: "state_graph \<Rightarrow> string \<Rightarrow> branch_spec list" where
  "branches_of g n = concat (map (\<lambda>(start, brs). if n = start then map snd brs else []) (sg_branches g))"

definition join_writes :: "state_graph \<Rightarrow> string \<Rightarrow> chan_write list" where
  "join_writes g n = concat (map (\<lambda>(starts, e). if e \<noteq> END
     then map (\<lambda>s. (join_channel starts e, VStr s)) (filter (\<lambda>s. n = s) starts) else []) (sg_waiting_edges g))"

lemma not_sentinel [simp]: "VNone \<noteq> PASSTHROUGH" "VStr s \<noteq> PASSTHROUGH" "VNone \<noteq> SKIP_WRITE" "VStr s \<noteq> SKIP_WRITE"
  by (simp_all add: PASSTHROUGH_def SKIP_WRITE_def)

lemma branch_publish_writes:
  "do_write True (branch_publish h dests) sent = Inr (sent @ dest_writes h dests)"
  "\<not> needs_passthrough (branch_publish h dests)"
proof -
  have "assemble_writes (branch_publish h dests) = Inr (dest_writes h dests)"
    by (induction dests) (auto simp: dest_writes_def branch_publish_def assemble_Cons dest_write_def split: val.split)
  moreover have "\<forall>w \<in> set (branch_publish h dests). check_entry True w = Inr ()"
    by (auto simp: branch_publish_def split: val.split)
  ultimately show "do_write True (branch_publish h dests) sent = Inr (sent @ dest_writes h dests)"
    by (simp add: do_write_Inr)
  show "\<not> needs_passthrough (branch_publish h dests)"
    by (auto simp: needs_passthrough_def branch_publish_def split: val.split_asm)
qed

lemma run_branch_writer: "run_writer read (branch_writer h g n br) y sent
    = rbind (branch_picks h g read n y br sent) (\<lambda>ds. Inr (sent @ dest_writes h ds))"
proof -
  have "branch_publish h dests = [] \<Longrightarrow> dest_writes h dests = []" for dests by (simp add: branch_publish_def dest_writes_def)
  then show ?thesis
    by (simp add: branch_writer_eq branch_picks_def rbind_assoc Let_def branch_publish_writes cong: if_cong)
      (auto intro!: arg_cong2 [where f = rbind] ext)
qed

lemma run_one: "run_writers read [w] y sent = (Inr (), ws) \<longleftrightarrow> run_writer read w y sent = Inr ws"
  by (auto split: sum.splits)

lemma run_append: "run_writers read (as @ bs) y sent = (Inr (), ws) \<longleftrightarrow>
    (\<exists>s. run_writers read as y sent = (Inr (), s) \<and> run_writers read bs y s = (Inr (), ws))"
  by (auto simp: run_writers_append split: prod.split sum.split)

lemma run_constant_writers:
  assumes "\<And>x sent. x \<in> set xs \<Longrightarrow> run_writer read (w x) y sent = Inr (sent @ [r x])"
  shows "run_writers read (map w xs) y sent = (Inr (), ws) \<longleftrightarrow> ws = sent @ map r xs"
  using assms by (induction xs arbitrary: sent) auto

lemma run_entry_writer: "run_writer read (ChannelWriter [ChannelWriteEntry c v False None]) y sent = Inr (sent @ [(c, v)])"
  if "c \<noteq> TASKS" "v \<noteq> PASSTHROUGH" "v \<noteq> SKIP_WRITE"
  using that by (simp add: do_write_def assemble_Cons)

definition entry_writer :: "chan_write \<Rightarrow> writer" where
  "entry_writer w = ChannelWriter [ChannelWriteEntry (fst w) (snd w) False None]"

lemma join_writers_map: "join_writers g n = map entry_writer (join_writes g n)"
proof -
  have 1: "concat (map (\<lambda>s. if n = s then [join_writer ss e s] else []) ss')
      = map entry_writer (map (\<lambda>s. (join_channel ss e, VStr s)) (filter (\<lambda>s. n = s) ss'))" for ss e ss'
    by (induction ss') (auto simp: join_writer_def entry_writer_def)
  have "concat (map (\<lambda>(starts, e). if e \<noteq> END then concat (map (\<lambda>s. if n = s then [join_writer starts e s] else []) starts) else []) es)
      = map entry_writer (concat (map (\<lambda>(starts, e). if e \<noteq> END then map (\<lambda>s. (join_channel starts e, VStr s)) (filter (\<lambda>s. n = s) starts) else []) es))" for es
    by (induction es) (auto simp: 1)
  then show ?thesis by (simp add: join_writers_def join_writes_def)
qed

text \<open>The updates of the state in a node's result.\<close>

definition state_updates :: "graph_host \<Rightarrow> state_graph \<Rightarrow> val \<Rightarrow> chan_write list res" where
  "state_updates h g y = (if output_keys g = [''__root__''] then get_root h y else get_updates h (output_keys g) y)"

lemma run_state_writer: "run_writer read (node_state_writer h g s) y sent = Inr ws \<longleftrightarrow>
    (\<exists>us cs. state_updates h g y = Inr us \<and> control_branch y = Inr cs \<and> ws = sent @ us @ cs)"
  by (auto simp: node_state_writer_def state_writer_def do_write_Inr assemble_Cons rbind_Inr_iff state_updates_def)

lemma branch_writers_map: "branch_writers h g n = map (branch_writer h g n) (branches_of g n)"
proof -
  have 1: "concat (map (\<lambda>(_, br). if n = start then [branch_writer h g start br] else []) brs)
      = map (branch_writer h g n) (if n = start then map snd brs else [])" for start and brs :: "(string \<times> branch_spec) list"
    by (induction brs) auto
  have "concat (map (\<lambda>(start, brs). concat (map (\<lambda>(_, br). if n = start then [branch_writer h g start br] else []) brs)) bs)
      = map (branch_writer h g n) (concat (map (\<lambda>(start, brs). if n = start then map snd brs else []) bs))"
    for bs :: "(string \<times> (string \<times> branch_spec) list) list"
    by (induction bs) (auto simp: 1)
  then show ?thesis by (simp add: branch_writers_def branches_of_def)
qed

lemma dest_writes_append: "dest_writes h (as @ bs) = dest_writes h as @ dest_writes h bs"
  by (simp add: dest_writes_def)

lemma run_branch_writers:
  "run_writers read (map (branch_writer h g n) brs) y sent = (Inr (), ws)
    \<longleftrightarrow> (\<exists>ds. branch_dests h g read n y brs sent = Inr ds \<and> ws = sent @ dest_writes h ds)"
proof (induction brs arbitrary: sent)
  case (Cons br brs)
  show ?case
    using run_branch_writer [of read h g n br y sent] Cons.IH
    by (cases "branch_picks h g read n y br sent") (auto simp: rbind_Inr_iff dest_writes_append)
qed (auto simp: dest_writes_def)

text \<open>What the edges and the waiting edges of a node send.\<close>

definition edge_writes :: "state_graph \<Rightarrow> string \<Rightarrow> chan_write list" where
  "edge_writes g n = map (\<lambda>e. (branch_to e, VNone)) (edge_targets g n)"

lemma edge_writers_map: "map edge_writer (edge_targets g n) = map entry_writer (edge_writes g n)"
  by (simp add: edge_writes_def edge_writer_def entry_writer_def)

lemma run_routing:
  "run_writers read (routing_writers h g n) y sent = (Inr (), ws) \<longleftrightarrow>
     (\<exists>ds. branch_dests h g read n y (branches_of g n) (sent @ edge_writes g n @ join_writes g n) = Inr ds
        \<and> ws = sent @ edge_writes g n @ join_writes g n @ dest_writes h ds)"
proof -
  have e: "run_writers read (map entry_writer xs) y sent = (Inr (), ws) \<longleftrightarrow> ws = sent @ xs"
    if "\<forall>(c, v) \<in> set xs. c \<noteq> TASKS \<and> v \<noteq> PASSTHROUGH \<and> v \<noteq> SKIP_WRITE" for xs sent ws
    using run_constant_writers [of xs read entry_writer y "\<lambda>w. w" sent ws] run_entry_writer that
    by (fastforce simp: entry_writer_def)
  have "\<forall>(c, v) \<in> set (edge_writes g n). c \<noteq> TASKS \<and> v \<noteq> PASSTHROUGH \<and> v \<noteq> SKIP_WRITE"
    "\<forall>(c, v) \<in> set (join_writes g n). c \<noteq> TASKS \<and> v \<noteq> PASSTHROUGH \<and> v \<noteq> SKIP_WRITE"
    by (auto simp: edge_writes_def join_writes_def split: if_split_asm)
  from e [OF this(1)] e [OF this(2)] show ?thesis
    by (simp add: routing_writers_def run_append edge_writers_map join_writers_map branch_writers_map run_branch_writers)
qed

subsection \<open>An example\<close>

text \<open>\<open>START \<rightarrow> a\<close>, \<open>a \<rightarrow> b\<close>, \<open>a \<rightarrow> c\<close>, \<open>[b, c] \<rightarrow> d\<close>, and from \<open>d\<close> a branch back to \<open>a\<close> or to the end, over a
  state with the key \<open>x\<close>.\<close>

definition gx_host :: graph_host where
  "gx_host = \<lparr>gh_channels = (\<lambda>_. Inr ([(''x'', LastValue \<lparr>lv_key = ''x'', lv_value = None\<rparr>)], [])),
     gh_same_channel = (\<lambda>a b. True), gh_mapper = (\<lambda>_. None), gh_keys = (\<lambda>_. []), gh_tuples = (\<lambda>_ _. []), gh_str = (\<lambda>_. [])\<rparr>"

definition gx_args :: "string \<Rightarrow> node_args" where
  "gx_args n = \<lparr>na_name = n, na_action = 0, na_defer = False, na_metadata = [], na_input_schema = None, na_retry_policy = None,
     na_cache_policy = None, na_error_handler = None, na_destinations = None, na_timeout = VNone, na_inferred_schema = None,
     na_inferred_ends = []\<rparr>"

definition gx_branch :: branch_spec where
  "gx_branch = branch_from_path (\<lambda>v. Inr (VList [VStr ''a'', VStr END])) NoPathMap None None"

definition gx_build :: "state_graph res" where
  "gx_build = rbind (state_graph_init gx_host 0 None None) (\<lambda>g.
     rbind (rfold (\<lambda>n. add_node gx_host (gx_args n)) [''a'', ''b'', ''c'', ''d''] g) (\<lambda>g.
     rbind (rfold (\<lambda>(s, e). add_edge s e) [(START, ''a''), (''a'', ''b''), (''a'', ''c'')] g) (\<lambda>g.
     rbind (add_waiting_edge [''b'', ''c''] ''d'' g) (add_conditional_edges gx_host ''d'' [] gx_branch))))"

definition gx_graph :: state_graph where
  "gx_graph = projr gx_build"

definition gx_compiled :: "state_graph \<times> compiled_graph" where
  "gx_compiled = projr (compile gx_host (Some []) (Some []) gx_graph)"

lemma gx_compile: "compile gx_host (Some []) (Some []) gx_graph = Inr (fst gx_compiled, snd gx_compiled)"
proof -
  have "\<not> isl (compile gx_host (Some []) (Some []) gx_graph)" by code_simp
  then show ?thesis by (simp add: gx_compiled_def)
qed

lemma gx_wf: "wf_dict (sg_nodes gx_graph)"
  by code_simp

definition gx_node :: "string \<Rightarrow> compiled_node" where
  "gx_node n = the (dict_get (cg_nodes (snd gx_compiled)) n)"

lemma gx_node: "in_dict n (cg_nodes (snd gx_compiled)) \<Longrightarrow> dict_get (cg_nodes (snd gx_compiled)) n = Some (gx_node n)"
  by (auto simp: gx_node_def)

text \<open>
  C25: A compiled node's writers send exactly what the builder says: the updates of the state in the
  node's result, where its commands go, one write to the channel of each target of an edge, one to
  the channel of each waiting edge, and then what its branches pick with all that in view. Merging
  writers changes nothing.
\<close>

theorem node_writes_exact:
  assumes "compile h before_nodes after_nodes g = Inr (g', cg)" and "wf_dict (sg_nodes g)"
    and "in_dict n (sg_nodes g')" and "dict_get (cg_nodes cg) n = Some cn" and "body x = Inr y"
  shows "run_node read body (cn_writers cn) x = (Inr (), ws) \<longleftrightarrow>
    (\<exists>us cs ds. state_updates h g' y = Inr us \<and> control_branch y = Inr cs \<and>
       branch_dests h g' read n y (branches_of g n) (us @ cs @ edge_writes g n @ join_writes g n) = Inr ds \<and>
       ws = us @ cs @ edge_writes g n @ join_writes g n @ dest_writes h ds)"
proof -
  obtain s where s: "dict_get (sg_nodes g') n = Some s" using assms(3) by auto
  from compiled_node [OF assms(1,2) s] assms(4) have w: "cn_writers cn = node_state_writer h g' s # routing_writers h g' n" by auto
  have "g' = g\<lparr>sg_compiled := True, sg_nodes := sg_nodes g'\<rparr>" using compile_parts [OF assms(1)] by blast
  then have eq: "branches_of g' n = branches_of g n" "edge_writes g' n = edge_writes g n" "join_writes g' n = join_writes g n"
    by (metis (no_types, lifting) branches_of_def edge_writes_def edge_targets_def join_writes_def state_graph.select_convs
        state_graph.surjective state_graph.update_convs)+
  have "run_node read body (cn_writers cn) x = (Inr (), ws) \<longleftrightarrow> run_writers read ([node_state_writer h g' s] @ routing_writers h g' n) y [] = (Inr (), ws)"
    by (simp add: run_node_def assms(5) flat_writers_run w)
  then show ?thesis
    unfolding run_append run_one run_state_writer run_routing eq by auto
qed

theorem node_writes_exact_witness:
  "run_node (Some (\<lambda>sent sel fresh. Inr VNone)) Inr (cn_writers (gx_node ''d'')) (VDict [(''x'', VInt 1), (''y'', VInt 2)])
     = (Inr (), [(''x'', VInt 1), (''branch:to:a'', VNone)])"
proof -
  let ?x = "VDict [(''x'', VInt 1), (''y'', VInt 2)]" and ?read = "Some (\<lambda>sent sel fresh. Inr VNone) :: reader option"
  have n: "in_dict ''d'' (sg_nodes (fst gx_compiled))" "in_dict ''d'' (cg_nodes (snd gx_compiled))" by code_simp+
  have "state_updates gx_host (fst gx_compiled) ?x = Inr [(''x'', VInt 1)]" by code_simp
  moreover have "control_branch ?x = Inr []" by code_simp
  moreover have "branch_dests gx_host (fst gx_compiled) ?read ''d'' ?x (branches_of gx_graph ''d'')
      ([(''x'', VInt 1)] @ [] @ edge_writes gx_graph ''d'' @ join_writes gx_graph ''d'') = Inr [VStr ''a'', VStr END]" by code_simp
  moreover have "[(''x'', VInt 1), (''branch:to:a'', VNone)] = [(''x'', VInt 1)] @ [] @ edge_writes gx_graph ''d'' @ join_writes gx_graph ''d''
      @ dest_writes gx_host [VStr ''a'', VStr END]" by code_simp
  ultimately show ?thesis
    using node_writes_exact [OF gx_compile gx_wf n(1) gx_node [OF n(2)], where body = Inr and x = ?x and y = ?x and read = ?read] by blast
qed

end
