(* ===== verification/Graph_Steps.thy ===== *)
theory Graph_Steps
  imports Graph_Compile Persistence
begin

section \<open>Which nodes run next\<close>

text \<open>
  The compiled graph in the algorithm: what a superstep writes decides which nodes are due after it.
  For a node that is not deferred, being due means that a task of the step wrote its branch channel
  or completed one of its waiting edges.
\<close>

subsection \<open>Reported channels\<close>

lemma notify_keeps: "notify_chan nv k st = Inr st' \<Longrightarrow> set (ap_updated st) \<subseteq> set (ap_updated st')"
  by (auto simp: notify_chan_def rbind_Inr_iff note_change_def Let_def split: option.split_asm if_split_asm prod.split_asm)

lemma finish_keeps: "set (ap_updated st) \<subseteq> set (ap_updated (finish_chan nv k st))"
  by (auto simp: finish_chan_def note_change_def Let_def split: option.split prod.split)

lemma finish_all_keeps: "set (ap_updated st) \<subseteq> set (ap_updated (fold (finish_chan nv) ks st))"
  by (induction ks arbitrary: st) (use finish_keeps in fastforce)+

text \<open>A channel that the writes of the step changed and left available is reported.\<close>

lemma apply_writes_written:
  assumes "apply_writes cp chs tasks (Some f) ttn = Inr (cp', chs', upd)" "wf_dict chs" "dict_get chs k = Some c"
    and "writes_to k (sort_tasks tasks) \<noteq> []" "k \<notin> set IGNORED_WRITES"
    and "ch_update (if k \<notin> set RESERVED \<and> (\<exists>t \<in> set tasks. k \<in> set (tw_triggers t)) then fst (ch_consume c) else c)
        (writes_to k (sort_tasks tasks)) = Inr (c2, True)" and "ch_is_available c2"
  shows "k \<in> set upd"
  using assms(1)
proof (rule apply_writes_Inr)
  fix nv st
  let ?ts = "sort_tasks tasks"
  let ?trigs = "read_triggers chs ?ts" and ?pending = "group_writes chs ?ts"
  assume nv: "draw_version (Some f) (cp_channel_versions cp) = Inr nv"
    and ac: "apply_channels nv (has_triggers tasks) ttn ?trigs ?pending (start_state cp chs) = Inr st"
    and eqs: "upd = ap_updated st"
  from nv obtain v where v: "nv = Some v" by (auto simp: draw_version_Some)
  let ?s1 = "fold (consume_chan nv) ?trigs (start_state cp chs)"
  from ac obtain s2 s3 where s2: "rfold (update_chan nv) ?pending ?s1 = Inr s2"
    and s3: "(if has_triggers tasks then rfold (notify_chan nv) (dict_keys chs) s2 else Inr s2) = Inr s3"
    and st: "st = (if has_triggers tasks \<and> triggers_nothing ttn s3 then fold (finish_chan nv) (dict_keys chs) s3 else s3)"
    by (auto simp: apply_channels_def Let_def rbind_Inr_iff)
  have trig: "k \<in> set ?trigs \<longleftrightarrow> k \<notin> set RESERVED \<and> (\<exists>t \<in> set tasks. k \<in> set (tw_triggers t))"
    using assms(3) by (auto simp: read_triggers_def)
  have p: "dict_get_or ?pending k [] = writes_to k ?ts" using assms(3,5) by (simp add: group_writes_get)
  then have in_p: "k \<in> fst ` set ?pending"
    using assms(4) dict_get_in_keys [of ?pending k] by (auto simp: dict_get_or_def split: option.split_asm)
  have "chan_view k ?s1 = (Some (if k \<in> set ?trigs then fst (ch_consume c) else c), False)"
    by (rule view_consume_all) (use assms(3) in \<open>auto simp: read_triggers_def chan_view_def\<close>)
  from view_update_all [OF s2 [unfolded v] wf_group_writes this [unfolded v]] have "k \<in> set (ap_updated s2)"
    using in_p p assms(6,7) unfolding trig by (auto simp: chan_view_def)
  moreover have "set (ap_updated s2) \<subseteq> set (ap_updated s3)"
  proof (cases "has_triggers tasks")
    case True
    then have "rfold (notify_chan nv) (dict_keys chs) s2 = Inr s3" using s3 by simp
    then show ?thesis by (rule rfold_invariant) (auto dest: notify_keeps)
  qed (use s3 in simp)
  moreover have "set (ap_updated s3) \<subseteq> set (ap_updated st)" using finish_all_keeps st by auto
  ultimately show ?thesis using eqs by blast
qed

subsection \<open>Due nodes and reported triggers\<close>

text \<open>No node has seen a version of a channel newer than the channel's.\<close>

definition versions_seen_ok :: "checkpoint \<Rightarrow> bool" where
  "versions_seen_ok cp \<longleftrightarrow> (\<forall>n c w. seen_version (cp_versions_seen cp) n c = Some w \<longrightarrow>
     (\<exists>v. dict_get (cp_channel_versions cp) c = Some v \<and> w \<le> v))"

lemma seen_after_step:
  assumes "apply_writes cp chs tasks (Some f) ttn = Inr (cp', chs', upd)" "versions_seen_ok cp"
    and "seen_version (cp_versions_seen cp') n c = Some w"
  shows "\<exists>v. dict_get (cp_channel_versions cp) c = Some v \<and> w \<le> v"
proof -
  have "cp_versions_seen cp' = fold (mark_seen (cp_channel_versions cp)) (sort_tasks tasks) (cp_versions_seen cp)"
    using assms(1) by (elim apply_writes_Inr) simp
  with assms(3) mark_all_version [of "cp_channel_versions cp" "sort_tasks tasks" "cp_versions_seen cp" n c] show ?thesis
    using assms(2) unfolding versions_seen_ok_def by (auto split: if_split_asm)
qed

lemma reported_due:
  assumes "apply_writes cp chs tasks (Some f) ttn = Inr (cp', chs', upd)"
    and "f (max_version (cp_channel_versions cp)) = Inr v" and "channels_inv chs"
    and "\<And>k w. dict_get (cp_channel_versions cp) k = Some w \<Longrightarrow> w < v" and "null < v" and "versions_seen_ok cp"
    and "\<forall>c \<in> set trigs. in_dict c chs" and "c \<in> set trigs" "c \<in> set upd"
  shows "due chs' (cp_channel_versions cp') (cp_versions_seen cp') null n trigs"
proof -
  have fresh: "\<forall>k. dict_get (cp_channel_versions cp) k \<noteq> Some v" using assms(4) by blast
  from apply_writes_reported [OF assms(1-3) fresh] assms(9) obtain ch where
    c: "dict_get (cp_channel_versions cp') c = Some v" "dict_get chs' c = Some ch" "ch_is_available ch" by blast
  have trigs: "\<forall>c \<in> set trigs. in_dict c chs'" using assms(7) apply_writes_keys [OF assms(1)] in_dict_iff by metis
  have "dict_get_or (dict_get_or (cp_versions_seen cp') n []) c null < v"
  proof (cases "seen_version (cp_versions_seen cp') n c")
    case None
    then show ?thesis using assms(5) by (simp add: seen_version_def dict_get_or_def split: option.splits)
  next
    case (Some w)
    with seen_after_step [OF assms(1,6)] assms(4) have "w < v" by (meson le_less_trans)
    then show ?thesis using Some by (auto simp: seen_version_def dict_get_or_def split: option.splits)
  qed
  then have "newer_than_seen (cp_channel_versions cp') (dict_get_or (cp_versions_seen cp') n []) null c"
    using c(1) by (simp add: newer_than_seen_def dict_get_or_def)
  then show ?thesis unfolding due_iff [OF trigs] using assms(8) c(2,3) by blast
qed

lemma due_iff_reported:
  assumes "apply_writes cp chs tasks (Some f) ttn = Inr (cp', chs', upd)"
    and "f (max_version (cp_channel_versions cp)) = Inr v" and "channels_inv chs"
    and "\<And>k w. dict_get (cp_channel_versions cp) k = Some w \<Longrightarrow> w < v" and "null < v" and "versions_seen_ok cp"
    and "\<forall>c \<in> set trigs. in_dict c chs"
    and "due chs (cp_channel_versions cp) (cp_versions_seen cp) null n trigs \<Longrightarrow>
       \<exists>t \<in> set tasks. tw_name t = n \<and> set trigs \<subseteq> set (tw_triggers t)"
  shows "due chs' (cp_channel_versions cp') (cp_versions_seen cp') null n trigs \<longleftrightarrow> (\<exists>c \<in> set trigs. c \<in> set upd)"
proof
  assume "\<exists>c \<in> set trigs. c \<in> set upd"
  then obtain c where c: "c \<in> set trigs" "c \<in> set upd" by blast
  show "due chs' (cp_channel_versions cp') (cp_versions_seen cp') null n trigs"
    by (rule reported_due [OF assms(1-3) _ assms(5-7) c]) (fact assms(4))
next
  have fresh: "\<forall>k. dict_get (cp_channel_versions cp) k \<noteq> Some v" using assms(4) by blast
  assume d: "due chs' (cp_channel_versions cp') (cp_versions_seen cp') null n trigs"
  show "\<exists>c \<in> set trigs. c \<in> set upd"
  proof (rule due_reported [OF assms(1-3) fresh assms(7,8) _ d])
    fix c assume "seen_version (cp_versions_seen cp) n c \<noteq> None"
    then obtain w where "seen_version (cp_versions_seen cp) n c = Some w" by (cases "seen_version (cp_versions_seen cp) n c") auto
    then have "\<exists>v. dict_get (cp_channel_versions cp) c = Some v" using assms(6) unfolding versions_seen_ok_def by blast
    then show "in_dict c (cp_channel_versions cp)" by simp
  qed
qed

subsection \<open>The branch channel\<close>

lemma same_spec_ephemeral: "same_spec (EphemeralValue e) c \<Longrightarrow> \<exists>e'. c = EphemeralValue e' \<and> ev_guard e' = ev_guard e"
proof (cases c)
  case (EphemeralValue e')
  assume s: "same_spec (EphemeralValue e) c"
  have "ch_from_checkpoint (EphemeralValue e) None = ch_from_checkpoint c None" using s by (simp add: same_spec_def)
  then show ?thesis using EphemeralValue by (simp add: ev_from_checkpoint_def ev_init_def Let_def)
qed (auto simp: same_spec_def ev_from_checkpoint_def as_channel_Inr Let_def dest!: spec [of _ None] sym [of "Inr _"])

lemma writes_to_iff: "writes_to k tasks \<noteq> [] \<longleftrightarrow> (\<exists>t \<in> set tasks. k \<in> fst ` set (tw_writes t))"
  by (force simp: writes_to_def filter_empty_conv)

lemma ephemeral_written:
  assumes "ev_guard e = False" "ws \<noteq> []"
  shows "ch_update (EphemeralValue e) ws = Inr (EphemeralValue (e\<lparr>ev_value := Some (last ws)\<rparr>), True)"
  using assms by (simp add: ev_update_def)

lemma branch_not_reserved: "branch_to n \<notin> set IGNORED_WRITES"
  by (simp add: branch_to_def IGNORED_WRITES_def name_defs)

lemma branch_channel_reported:
  assumes "apply_writes cp chs tasks (Some f) ttn = Inr (cp', chs', upd)" "wf_dict chs"
    and "f (max_version (cp_channel_versions cp)) = Inr v" "channels_inv chs"
    and "\<forall>k. dict_get (cp_channel_versions cp) k \<noteq> Some v" "has_triggers tasks"
    and "dict_get chs (branch_to n) = Some (EphemeralValue e)" "ev_guard e = False"
  shows "branch_to n \<in> set upd \<longleftrightarrow> (\<exists>t \<in> set tasks. branch_to n \<in> fst ` set (tw_writes t))"
proof
  assume "\<exists>t \<in> set tasks. branch_to n \<in> fst ` set (tw_writes t)"
  then have ws: "writes_to (branch_to n) (sort_tasks tasks) \<noteq> []" unfolding writes_to_iff by simp
  let ?c2 = "EphemeralValue (e\<lparr>ev_value := Some (last (writes_to (branch_to n) (sort_tasks tasks)))\<rparr>)"
  show "branch_to n \<in> set upd"
    by (rule apply_writes_written [OF assms(1,2,7) ws branch_not_reserved, of ?c2])
      (use ephemeral_written [OF assms(8) ws] in \<open>simp_all add: base_consume_def ev_is_available_def\<close>)
next
  assume "branch_to n \<in> set upd"
  with apply_writes_reported [OF assms(1,3,4,5)] obtain c where c: "dict_get chs' (branch_to n) = Some c" "ch_is_available c" by blast
  show "\<exists>t \<in> set tasks. branch_to n \<in> fst ` set (tw_writes t)"
  proof (rule ccontr)
    assume "\<not> ?thesis"
    then have ws: "writes_to (branch_to n) (sort_tasks tasks) = []" using writes_to_iff [of "branch_to n" "sort_tasks tasks"] by simp
    from apply_writes_spec [OF assms(1,2)] obtain fin c' where "dict_get chs' (branch_to n) = Some c'"
      "chan_spec (branch_to n \<notin> set RESERVED \<and> (\<exists>t \<in> set tasks. branch_to n \<in> set (tw_triggers t)))
        (if branch_to n \<in> set IGNORED_WRITES then [] else writes_to (branch_to n) (sort_tasks tasks)) (has_triggers tasks) fin
        (EphemeralValue e) = Inr c'" using assms(7) by blast
    then have "\<not> ch_is_available c"
      using c(1) ws assms(6) branch_not_reserved
      by (auto simp: chan_spec_def Let_def base_consume_def base_finish_def rbind_Inr_iff ev_update_def ev_is_available_def split: if_split_asm)
    then show False using c(2) by simp
  qed
qed

text \<open>
  C26: In a graph compiled from the builder, a node that is not deferred is due after a superstep
  exactly if some task of the step wrote the node's branch channel or completed one of the waiting
  edges that end at it (the edge's channel is among the updated ones), provided that it ran in the step if it
  was due before: edges, commands and branches decide what runs next, and nothing else does.
\<close>

theorem next_nodes_are_routed:
  assumes "compile h before_nodes after_nodes g = Inr (g', cg)" and "wf_dict (sg_nodes g)"
    and "dict_get (sg_nodes g') e = Some s" "\<not> sn_defer s" "dict_get (cg_nodes cg) e = Some cn"
    and "\<And>k. rel_option same_spec (dict_get (channel_specs (cg_channels cg)) k) (dict_get chs k)" and "wf_dict (cg_channels cg)"
    and "apply_writes cp chs tasks (Some f) ttn = Inr (cp', chs', upd)" and "has_triggers tasks"
    and "f (max_version (cp_channel_versions cp)) = Inr v" "\<And>k w. dict_get (cp_channel_versions cp) k = Some w \<Longrightarrow> w < v" "null < v"
    and "wf_dict chs" "channels_inv chs" "versions_seen_ok cp"
    and "\<forall>c \<in> set (cn_triggers cn). in_dict c chs"
    and "due chs (cp_channel_versions cp) (cp_versions_seen cp) null e (cn_triggers cn) \<Longrightarrow>
       \<exists>t \<in> set tasks. tw_name t = e \<and> set (cn_triggers cn) \<subseteq> set (tw_triggers t)"
  shows "due chs' (cp_channel_versions cp') (cp_versions_seen cp') null e (cn_triggers cn) \<longleftrightarrow>
    (\<exists>t \<in> set tasks. branch_to e \<in> fst ` set (tw_writes t)) \<or> (\<exists>j \<in> set (node_joins g e). j \<in> set upd)"
proof -
  have fresh: "\<forall>k. dict_get (cp_channel_versions cp) k \<noteq> Some v" using assms(11) by blast
  from compiled_node [OF assms(1-3)] assms(5) have trigs: "cn_triggers cn = branch_to e # node_joins g e" by auto
  have "dict_get (cg_channels cg) (branch_to e) = Some (ChannelSpec (EphemeralValue (ev_init False)))"
    using compiled_channels(1) [OF assms(1-3)] assms(4) by (simp add: branch_channel_def)
  then have "dict_get (channel_specs (cg_channels cg)) (branch_to e) = Some (EphemeralValue (ev_init False))"
    using assms(7) by (simp add: dict_get_channel_specs)
  with assms(6) [of "branch_to e"] obtain ch where ch: "dict_get chs (branch_to e) = Some ch" "same_spec (EphemeralValue (ev_init False)) ch"
    by (auto simp: option_rel_Some1)
  from same_spec_ephemeral [OF ch(2)] obtain ev where ev: "ch = EphemeralValue ev" "ev_guard ev = False" by (auto simp: ev_init_def)
  have "due chs' (cp_channel_versions cp') (cp_versions_seen cp') null e (cn_triggers cn) \<longleftrightarrow> (\<exists>c \<in> set (cn_triggers cn). c \<in> set upd)"
    by (rule due_iff_reported [OF assms(8,10,14) _ assms(12,15,16,17)]) (fact assms(11))
  then show ?thesis
    using branch_channel_reported [OF assms(8,13,10,14) fresh assms(9) ch(1) [unfolded ev(1)] ev(2)] trigs by auto
qed

declare same_spec_refl [simp]

text \<open>An example: \<open>a\<close> has run, its edges lead to \<open>b\<close> and \<open>c\<close>.\<close>

definition gs_channels :: channels where
  "gs_channels = channel_specs (cg_channels (snd gx_compiled))"

definition gs_checkpoint :: checkpoint where
  "gs_checkpoint = \<lparr>cp_v = 4, cp_id = [], cp_ts = [], cp_channel_values = [], cp_channel_versions = [(''branch:to:a'', IVer 1)],
     cp_versions_seen = [], cp_updated_channels = None\<rparr>"

definition gs_tasks :: "task_writes list" where
  "gs_tasks = [\<lparr>tw_path = [PStr PULL, PStr ''a''], tw_name = ''a'',
     tw_writes = snd (run_node None Inr (cn_writers (gx_node ''a'')) (VDict [(''x'', VInt 1)])), tw_triggers = [''branch:to:a'']\<rparr>]"

definition gs_applied :: "checkpoint \<times> channels \<times> string list" where
  "gs_applied = projr (apply_writes gs_checkpoint gs_channels gs_tasks (Some base_get_next_version) [])"

lemma gs_applied: "apply_writes gs_checkpoint gs_channels gs_tasks (Some base_get_next_version) []
    = Inr (fst gs_applied, fst (snd gs_applied), snd (snd gs_applied))"
proof -
  have "\<not> isl (apply_writes gs_checkpoint gs_channels gs_tasks (Some base_get_next_version) [])" by code_simp
  then show ?thesis by (simp add: gs_applied_def)
qed

theorem next_nodes_are_routed_witness:
  "due (fst (snd gs_applied)) (cp_channel_versions (fst gs_applied)) (cp_versions_seen (fst gs_applied)) (IVer 0) ''b'' (cn_triggers (gx_node ''b''))"
proof -
  have n: "in_dict ''b'' (cg_nodes (snd gx_compiled))" "in_dict ''b'' (sg_nodes (fst gx_compiled))"
    "\<not> sn_defer (the (dict_get (sg_nodes (fst gx_compiled)) ''b''))" by code_simp+
  have s: "dict_get (sg_nodes (fst gx_compiled)) ''b'' = Some (the (dict_get (sg_nodes (fst gx_compiled)) ''b''))" using n(2) by auto
  have typed: "rel_option same_spec (dict_get (channel_specs (cg_channels (snd gx_compiled))) k) (dict_get gs_channels k)" for k
    by (cases "dict_get gs_channels k") (simp_all add: gs_channels_def)
  have wf: "wf_dict (cg_channels (snd gx_compiled))" "wf_dict gs_channels" "has_triggers gs_tasks"
    "\<forall>c \<in> set (cn_triggers (gx_node ''b'')). in_dict c gs_channels" by code_simp+
  have v: "base_get_next_version (max_version (cp_channel_versions gs_checkpoint)) = Inr (IVer 2)" by code_simp
  have fresh: "w < IVer 2" if "dict_get (cp_channel_versions gs_checkpoint) k = Some w" for k w
    using that by (auto simp: gs_checkpoint_def less_version_def split: if_split_asm)
  have "\<forall>(k, c) \<in> set gs_channels. case c of LastValue _ \<Rightarrow> True | EphemeralValue _ \<Rightarrow> True | Topic _ \<Rightarrow> True
      | NamedBarrierValue b \<Rightarrow> nb_inv b \<and> nb_names b \<noteq> [] | _ \<Rightarrow> False" by code_simp
  then have "ch_inv c \<and> has_names c" if "(k, c) \<in> set gs_channels" for k c using that by (fastforce split: channel.splits)
  then have inv: "channels_inv gs_channels" using wf(2) by (auto simp: channels_inv_def dest!: map_of_SomeD)
  have seen: "versions_seen_ok gs_checkpoint" by (simp add: versions_seen_ok_def gs_checkpoint_def seen_version_def)
  have old: "\<not> due gs_channels (cp_channel_versions gs_checkpoint) (cp_versions_seen gs_checkpoint) (IVer 0) ''b'' (cn_triggers (gx_node ''b''))"
    unfolding due_def by code_simp
  have pos: "(IVer 0 :: version) < IVer 2" by code_simp
  have "due (fst (snd gs_applied)) (cp_channel_versions (fst gs_applied)) (cp_versions_seen (fst gs_applied)) (IVer 0) ''b'' (cn_triggers (gx_node ''b''))
      \<longleftrightarrow> (\<exists>t \<in> set gs_tasks. branch_to ''b'' \<in> fst ` set (tw_writes t)) \<or> (\<exists>j \<in> set (node_joins gx_graph ''b''). j \<in> set (snd (snd gs_applied)))"
    by (rule next_nodes_are_routed [OF gx_compile gx_wf s n(3) gx_node [OF n(1)] typed wf(1) gs_applied wf(3) v _ pos wf(2) inv seen wf(4)])
      (use fresh old in blast)+
  moreover have "\<exists>t \<in> set gs_tasks. branch_to ''b'' \<in> fst ` set (tw_writes t)" by code_simp
  ultimately show ?thesis by blast
qed

subsection \<open>Waiting edges\<close>

lemma same_spec_barrier: "same_spec (NamedBarrierValue b) c \<Longrightarrow> \<exists>b'. c = NamedBarrierValue b' \<and> nb_names b' = nb_names b"
proof (cases c)
  case (NamedBarrierValue b')
  assume s: "same_spec (NamedBarrierValue b) c"
  have "ch_from_checkpoint (NamedBarrierValue b) None = ch_from_checkpoint c None" using s by (simp add: same_spec_def)
  then show ?thesis using NamedBarrierValue by (simp add: nb_from_checkpoint_def nb_init_def Let_def)
qed (auto simp: same_spec_def nb_from_checkpoint_def as_channel_Inr Let_def dest!: spec [of _ None] sym [of "Inr _"])

lemma join_not_reserved: "join_channel ss e \<notin> set IGNORED_WRITES" "join_channel ss e \<notin> set RESERVED"
  by (simp_all add: join_channel_def IGNORED_WRITES_def name_defs)

text \<open>What a step does to a barrier: consumed if it was full and triggered a task, then the writes.\<close>

lemma barrier_step:
  assumes "chan_spec triggered ws bump_step fin (NamedBarrierValue b) = Inr c'"
  shows "\<exists>b'. c' = NamedBarrierValue b' \<and> nb_names b' = nb_names b
    \<and> set (nb_seen b') = (if triggered \<and> nb_full b then {} else set (nb_seen b)) \<union> set ws"
proof -
  define b0 where "b0 = (if triggered then fst (nb_consume b) else b)"
  have b0: "set (nb_seen b0) = (if triggered \<and> nb_full b then {} else set (nb_seen b))" "nb_names b0 = nb_names b"
    by (auto simp: b0_def nb_consume_def)
  have c0: "(if triggered then fst (ch_consume (NamedBarrierValue b)) else NamedBarrierValue b) = NamedBarrierValue b0"
    by (simp add: b0_def split: prod.split)
  from assms obtain c1 u c2 u' where
    u: "(if ws = [] then Inr (NamedBarrierValue b0, False) else ch_update (NamedBarrierValue b0) ws) = Inr (c1, u)"
    and n: "(if bump_step \<and> ch_is_available c1 \<and> \<not> u then ch_update c1 [] else Inr (c1, u)) = Inr (c2, u')"
    and f: "c' = (if fin then fst (ch_finish c2) else c2)"
    unfolding chan_spec_def Let_def c0 by (auto simp: rbind_Inr_iff)
  have upd: "\<exists>b'. c = NamedBarrierValue b' \<and> nb_names b' = nb_names a \<and> set (nb_seen b') = set (nb_seen a) \<union> set vs"
    if "ch_update (NamedBarrierValue a) vs = Inr (c, d)" for a vs c d
  proof -
    from that obtain b' where b': "nb_update a vs = Inr (b', d)" "c = NamedBarrierValue b'" by (auto simp: as_update_Inr)
    from nb_update_Inr [OF b'(1)] obtain seen where "rfold (barrier_see (nb_names a)) vs (nb_seen a, False) = Inr (seen, d)"
      "b' = a\<lparr>nb_seen := seen\<rparr>" by blast
    then show ?thesis using barrier_loop(1) b'(2) by auto
  qed
  obtain b1 where b1: "c1 = NamedBarrierValue b1" "nb_names b1 = nb_names b0" "set (nb_seen b1) = set (nb_seen b0) \<union> set ws"
    using u upd [of b0 ws c1 u] by (auto split: if_split_asm)
  have "\<exists>b2. c2 = NamedBarrierValue b2 \<and> nb_names b2 = nb_names b1 \<and> set (nb_seen b2) = set (nb_seen b1)"
    using n upd [of b1 "[]" c2 u'] b1(1) by (auto split: if_split_asm)
  then show ?thesis using f b0 b1 by (auto simp: base_finish_def)
qed

lemma join_after_step:
  assumes "apply_writes cp chs tasks (Some f) ttn = Inr (cp', chs', upd)" "wf_dict chs"
    and "dict_get chs (join_channel ss e) = Some (NamedBarrierValue b)"
  shows "\<exists>b'. dict_get chs' (join_channel ss e) = Some (NamedBarrierValue b') \<and> nb_names b' = nb_names b
    \<and> set (nb_seen b') = (if (\<exists>t \<in> set tasks. join_channel ss e \<in> set (tw_triggers t)) \<and> nb_full b then {} else set (nb_seen b))
        \<union> {v. \<exists>t \<in> set tasks. (join_channel ss e, v) \<in> set (tw_writes t)}"
proof -
  let ?j = "join_channel ss e"
  from apply_writes_spec [OF assms(1,2)] assms(3) join_not_reserved obtain fin c' where c': "dict_get chs' ?j = Some c'"
    "chan_spec (\<exists>t \<in> set tasks. ?j \<in> set (tw_triggers t)) (writes_to ?j (sort_tasks tasks)) (has_triggers tasks) fin (NamedBarrierValue b) = Inr c'"
    by (auto 4 4)
  have "set (writes_to ?j (sort_tasks tasks)) = {v. \<exists>t \<in> set tasks. (?j, v) \<in> set (tw_writes t)}"
    by (force simp: writes_to_def)
  with barrier_step [OF c'(2)] c'(1) show ?thesis by auto
qed

text \<open>
  C27: A waiting edge waits for all of its starts. For an edge to a node that is not deferred, other than
  the end of the graph, in a compiled graph in which no two different waiting edges have the same
  channel name (names joined with \<open>+\<close> can coincide, and then the edges share one barrier): after a
  superstep the edge's barrier has seen exactly the starts that it had seen before, or none if it was
  complete and a task that it triggers ran in this step, and those that wrote to it in this step; and
  it is complete, so that the end node can be triggered through it, if and only if these are all of the
  starts.
\<close>

theorem waiting_edge_waits:
  assumes "compile h before_nodes after_nodes g = Inr (g', cg)" and "wf_dict (sg_nodes g)" and "joins_differ g"
    and "(ss, e) \<in> set (sg_waiting_edges g)" "e \<noteq> END" "dict_get (sg_nodes g') e = Some s" "\<not> sn_defer s"
    and "\<And>k. rel_option same_spec (dict_get (channel_specs (cg_channels cg)) k) (dict_get chs k)" and "wf_dict (cg_channels cg)"
    and "apply_writes cp chs tasks (Some f) ttn = Inr (cp', chs', upd)" and "wf_dict chs"
  shows "\<exists>b b'. dict_get chs (join_channel ss e) = Some (NamedBarrierValue b)
    \<and> dict_get chs' (join_channel ss e) = Some (NamedBarrierValue b')
    \<and> set (nb_seen b') = (if (\<exists>t \<in> set tasks. join_channel ss e \<in> set (tw_triggers t)) \<and> set (nb_seen b) = VStr ` set ss
          then {} else set (nb_seen b)) \<union> {v. \<exists>t \<in> set tasks. (join_channel ss e, v) \<in> set (tw_writes t)}
    \<and> (ch_is_available (NamedBarrierValue b') \<longleftrightarrow> set (nb_seen b') = VStr ` set ss)"
proof -
  have "dict_get (cg_channels cg) (join_channel ss e) = Some (ChannelSpec (NamedBarrierValue (nb_init (remdups (map VStr ss)))))"
    using compiled_channels(2) [OF assms(1-5)] assms(6,7) by (simp add: join_spec_def)
  then have "dict_get (channel_specs (cg_channels cg)) (join_channel ss e) = Some (NamedBarrierValue (nb_init (remdups (map VStr ss))))"
    using assms(9) by (simp add: dict_get_channel_specs)
  with assms(8) [of "join_channel ss e"] obtain c where c: "dict_get chs (join_channel ss e) = Some c"
    "same_spec (NamedBarrierValue (nb_init (remdups (map VStr ss)))) c" by (auto simp: option_rel_Some1)
  from same_spec_barrier [OF c(2)] obtain b where b: "c = NamedBarrierValue b" "set (nb_names b) = VStr ` set ss"
    by (auto simp: nb_init_def)
  from join_after_step [OF assms(10,11) c(1) [unfolded b(1)]] obtain b' where
    b': "dict_get chs' (join_channel ss e) = Some (NamedBarrierValue b')" "nb_names b' = nb_names b"
    "set (nb_seen b') = (if (\<exists>t \<in> set tasks. join_channel ss e \<in> set (tw_triggers t)) \<and> nb_full b then {} else set (nb_seen b))
        \<union> {v. \<exists>t \<in> set tasks. (join_channel ss e, v) \<in> set (tw_writes t)}" by blast
  have "nb_full x \<longleftrightarrow> set (nb_seen x) = VStr ` set ss" if "nb_names x = nb_names b" for x
    using that b(2) by (simp add: nb_full_def)
  then have full: "nb_full b \<longleftrightarrow> set (nb_seen b) = VStr ` set ss" "nb_full b' \<longleftrightarrow> set (nb_seen b') = VStr ` set ss"
    using b'(2) by blast+
  have "ch_is_available (NamedBarrierValue b') \<longleftrightarrow> set (nb_seen b') = VStr ` set ss"
    by (simp add: nb_is_available_def full(2))
  with c(1) b(1) b'(1) b'(3) [unfolded full(1)] show ?thesis by blast
qed

text \<open>In the example, \<open>b\<close> alone does not complete the edge.\<close>

definition gs_half_tasks :: "task_writes list" where
  "gs_half_tasks = [\<lparr>tw_path = [PStr PULL, PStr ''b''], tw_name = ''b'',
     tw_writes = snd (run_node None Inr (cn_writers (gx_node ''b'')) (VDict [])), tw_triggers = [''branch:to:b'']\<rparr>]"

definition gs_half :: "checkpoint \<times> channels \<times> string list" where
  "gs_half = projr (apply_writes gs_checkpoint gs_channels gs_half_tasks (Some base_get_next_version) [])"

lemma gs_half: "apply_writes gs_checkpoint gs_channels gs_half_tasks (Some base_get_next_version) []
    = Inr (fst gs_half, fst (snd gs_half), snd (snd gs_half))"
proof -
  have "\<not> isl (apply_writes gs_checkpoint gs_channels gs_half_tasks (Some base_get_next_version) [])" by code_simp
  then show ?thesis by (simp add: gs_half_def)
qed

theorem waiting_edge_waits_witness:
  "\<exists>b. dict_get (fst (snd gs_half)) (join_channel [''b'', ''c''] ''d'') = Some (NamedBarrierValue b) \<and> set (nb_seen b) = {VStr ''b''}
     \<and> \<not> ch_is_available (NamedBarrierValue b)"
proof -
  let ?j = "join_channel [''b'', ''c''] ''d''"
  have n: "in_dict ''d'' (sg_nodes (fst gx_compiled))" "\<not> sn_defer (the (dict_get (sg_nodes (fst gx_compiled)) ''d''))"
    "([''b'', ''c''], ''d'') \<in> set (sg_waiting_edges gx_graph)" "joins_differ gx_graph" by code_simp+
  have s: "dict_get (sg_nodes (fst gx_compiled)) ''d'' = Some (the (dict_get (sg_nodes (fst gx_compiled)) ''d''))" using n(1) by auto
  have typed: "rel_option same_spec (dict_get (channel_specs (cg_channels (snd gx_compiled))) k) (dict_get gs_channels k)" for k
    by (cases "dict_get gs_channels k") (simp_all add: gs_channels_def)
  have wf: "wf_dict (cg_channels (snd gx_compiled))" "wf_dict gs_channels" "\<not> ch_is_available (the (dict_get gs_channels ?j))"
    "(case dict_get gs_channels ?j of Some (NamedBarrierValue b) \<Rightarrow> nb_seen b = [] | _ \<Rightarrow> False)" by code_simp+
  have w: "tw_writes (hd gs_half_tasks) = [(?j, VStr ''b'')]" "tw_triggers (hd gs_half_tasks) = [''branch:to:b'']" by code_simp+
  have "{v. \<exists>t \<in> set gs_half_tasks. (?j, v) \<in> set (tw_writes t)} = {VStr ''b''}"
    using w(1) by (auto simp: gs_half_tasks_def)
  moreover have "\<not> (\<exists>t \<in> set gs_half_tasks. ?j \<in> set (tw_triggers t))"
    using w(2) by (auto simp: gs_half_tasks_def join_channel_def)
  ultimately show ?thesis
    using waiting_edge_waits [OF gx_compile gx_wf n(4,3) _ s n(2) typed wf(1) gs_half wf(2)] wf(4)
    by (auto simp: END_def)
qed

end
