(* ===== verification/Graph_Builder.thy ===== *)
theory Graph_Builder
  imports Graph_Compile
begin

section \<open>Graphs that the builder's methods make\<close>

text \<open>
  The graphs that are reachable by the methods of \<open>StateGraph\<close>, the invariant they keep, and its
  consequence: compiling such a graph either works or raises a \<open>ValueError\<close>. Two defects of
  \<open>compile\<close> are lemmas at the end.
\<close>

inductive built :: "graph_host \<Rightarrow> state_graph \<Rightarrow> bool" for h where
  built_init: "state_graph_init h state_schema input_schema output_schema = Inr g \<Longrightarrow> built h g"
| built_defaults: "built h g \<Longrightarrow> built h (set_node_defaults retry cache handler timeout g)"
| built_node: "built h g \<Longrightarrow> add_node h a g = Inr g' \<Longrightarrow> built h g'"
| built_edge: "built h g \<Longrightarrow> add_edge s e g = Inr g' \<Longrightarrow> built h g'"
| built_waiting: "built h g \<Longrightarrow> add_waiting_edge ss e g = Inr g' \<Longrightarrow> built h g'"
| built_branch: "built h g \<Longrightarrow> add_conditional_edges h s name br g = Inr g' \<Longrightarrow> built h g'"
| built_compile: "built h g \<Longrightarrow> compile h before_nodes after_nodes g = Inr (g', cg) \<Longrightarrow> built h g'"

text \<open>The methods that are made of others.\<close>

lemma built_sequence: "built h g \<Longrightarrow> add_sequence h nodes g = Inr g' \<Longrightarrow> built h g'"
proof -
  assume b: "built h g" and "add_sequence h nodes g = Inr g'"
  then obtain p where "rfold (add_sequence_step h) nodes (None, g) = Inr (p, g')"
    by (auto simp: add_sequence_def rbind_Inr_iff split: if_split_asm)
  then have "built h (snd (p, g'))"
  proof (rule rfold_invariant [where P = "\<lambda>s. built h (snd s)"])
    fix x t t' assume t: "built h (snd t)" "add_sequence_step h x t = Inr t'"
    then obtain g1 where g1: "add_node h x (snd t) = Inr g1"
      "(case fst t of Some p \<Rightarrow> add_edge p (na_name x) g1 | None \<Rightarrow> Inr g1) = Inr (snd t')"
      by (auto simp: add_sequence_step_def rbind_Inr_iff split: prod.split_asm if_split_asm)
    have "built h g1" using t(1) g1(1) by (rule built_node)
    then show "built h (snd t')" using g1(2) by (cases "fst t") (auto intro: built_edge)
  qed (use b in simp)
  then show ?thesis by simp
qed

subsection \<open>The invariant\<close>

definition node_name_ok :: "string \<Rightarrow> bool" where
  "node_name_ok n \<longleftrightarrow> n \<noteq> START \<and> n \<noteq> END \<and> CHR '':'' \<notin> set n \<and> CHR ''|'' \<notin> set n"

text \<open>The schemas that the graph, its nodes and its branches use.\<close>

definition schemas_within :: "nat set \<Rightarrow> state_graph \<Rightarrow> bool" where
  "schemas_within S g \<longleftrightarrow> {sg_state_schema g, sg_input_schema g, sg_output_schema g} \<subseteq> S
     \<and> (\<forall>(n, s) \<in> set (sg_nodes g). sn_input_schema s \<in> S)
     \<and> (\<forall>(n, brs) \<in> set (sg_branches g). \<forall>(_, br) \<in> set brs. case br_input_schema br of None \<Rightarrow> True | Some s \<Rightarrow> s \<in> S)"

text \<open>Names are allowed, schemas are known, waiting edges join nodes.\<close>

definition builder_ok :: "state_graph \<Rightarrow> bool" where
  "builder_ok g \<longleftrightarrow> wf_dict (sg_nodes g) \<and> (\<forall>n \<in> fst ` set (sg_nodes g). node_name_ok n)
     \<and> schemas_within (fst ` set (sg_schemas g)) g
     \<and> (\<forall>(ss, e) \<in> set (sg_waiting_edges g). set ss \<subseteq> fst ` set (sg_nodes g) \<and> (e \<noteq> END \<longrightarrow> e \<in> fst ` set (sg_nodes g)))"

lemma schemas_withinI:
  assumes "{sg_state_schema g, sg_input_schema g, sg_output_schema g} \<subseteq> S"
    "\<And>n s. (n, s) \<in> set (sg_nodes g) \<Longrightarrow> sn_input_schema s \<in> S"
    "\<And>n brs m br sc. (n, brs) \<in> set (sg_branches g) \<Longrightarrow> (m, br) \<in> set brs \<Longrightarrow> br_input_schema br = Some sc \<Longrightarrow> sc \<in> S"
  shows "schemas_within S g"
  using assms by (auto simp: schemas_within_def split: option.split)

lemma schemas_withinD:
  assumes "schemas_within S g"
  shows "{sg_state_schema g, sg_input_schema g, sg_output_schema g} \<subseteq> S" "(n, s) \<in> set (sg_nodes g) \<Longrightarrow> sn_input_schema s \<in> S"
    "(n, brs) \<in> set (sg_branches g) \<Longrightarrow> (m, br) \<in> set brs \<Longrightarrow> br_input_schema br = Some sc \<Longrightarrow> sc \<in> S"
proof -
  show "{sg_state_schema g, sg_input_schema g, sg_output_schema g} \<subseteq> S" using assms by (simp add: schemas_within_def)
  show "(n, s) \<in> set (sg_nodes g) \<Longrightarrow> sn_input_schema s \<in> S" using assms unfolding schemas_within_def by blast
  assume "(n, brs) \<in> set (sg_branches g)" "(m, br) \<in> set brs" and sc: "br_input_schema br = Some sc"
  then have "case br_input_schema br of None \<Rightarrow> True | Some s \<Rightarrow> s \<in> S" using assms unfolding schemas_within_def by blast
  then show "sc \<in> S" using sc by simp
qed

lemma builder_okD:
  assumes "builder_ok g"
  shows "wf_dict (sg_nodes g)" "n \<in> fst ` set (sg_nodes g) \<Longrightarrow> node_name_ok n" "schemas_within (fst ` set (sg_schemas g)) g"
    "(ss, e) \<in> set (sg_waiting_edges g) \<Longrightarrow> set ss \<subseteq> fst ` set (sg_nodes g)"
    "(ss, e) \<in> set (sg_waiting_edges g) \<Longrightarrow> e \<noteq> END \<Longrightarrow> e \<in> fst ` set (sg_nodes g)"
  using assms unfolding builder_ok_def by blast+

lemma builder_okI:
  assumes "wf_dict (sg_nodes g)" "\<And>n. n \<in> fst ` set (sg_nodes g) \<Longrightarrow> node_name_ok n" "schemas_within (fst ` set (sg_schemas g)) g"
    "\<And>ss e. (ss, e) \<in> set (sg_waiting_edges g) \<Longrightarrow> set ss \<subseteq> fst ` set (sg_nodes g) \<and> (e \<noteq> END \<longrightarrow> e \<in> fst ` set (sg_nodes g))"
  shows "builder_ok g"
  using assms unfolding builder_ok_def by blast

lemma add_schema_frame:
  assumes "add_schema h allow s g = Inr g'"
  shows "sg_nodes g' = sg_nodes g" "sg_branches g' = sg_branches g" "sg_waiting_edges g' = sg_waiting_edges g"
    "sg_state_schema g' = sg_state_schema g" "sg_input_schema g' = sg_input_schema g" "sg_output_schema g' = sg_output_schema g"
    "fst ` set (sg_schemas g') = insert s (fst ` set (sg_schemas g))"
proof -
  have "fst ` set (sg_schemas g') = insert s (fst ` set (sg_schemas g)) \<and> sg_nodes g' = sg_nodes g \<and> sg_branches g' = sg_branches g
    \<and> sg_waiting_edges g' = sg_waiting_edges g \<and> sg_state_schema g' = sg_state_schema g \<and> sg_input_schema g' = sg_input_schema g
    \<and> sg_output_schema g' = sg_output_schema g"
  proof (cases "in_dict s (sg_schemas g)")
    case True
    then have "s \<in> fst ` set (sg_schemas g)" by (auto dest: dict_get_in_keys)
    then show ?thesis using assms True by (auto simp: add_schema_def)
  next
    case False
    with assms obtain d chs mg where "g' = g\<lparr>sg_schemas := dict_set s d (sg_schemas g), sg_channels := chs, sg_managed := mg\<rparr>"
      by (auto simp: add_schema_def rbind_Inr_iff Let_def split: if_split_asm)
    then show ?thesis by simp
  qed
  then show "sg_nodes g' = sg_nodes g" "sg_branches g' = sg_branches g" "sg_waiting_edges g' = sg_waiting_edges g"
    "sg_state_schema g' = sg_state_schema g" "sg_input_schema g' = sg_input_schema g" "sg_output_schema g' = sg_output_schema g"
    "fst ` set (sg_schemas g') = insert s (fst ` set (sg_schemas g))" by blast+
qed

lemma schemas_within_mono: "schemas_within S g \<Longrightarrow> S \<subseteq> S' \<Longrightarrow> schemas_within S' g"
  by (rule schemas_withinI) (blast dest: schemas_withinD)+

lemma builder_ok_grow:
  assumes "builder_ok g" "wf_dict (sg_nodes g')" "sg_waiting_edges g' = sg_waiting_edges g"
    "fst ` set (sg_nodes g) \<subseteq> fst ` set (sg_nodes g')" "\<And>n. n \<in> fst ` set (sg_nodes g') \<Longrightarrow> node_name_ok n"
    "schemas_within (fst ` set (sg_schemas g')) g'"
  shows "builder_ok g'"
proof (rule builder_okI)
  fix ss e assume "(ss, e) \<in> set (sg_waiting_edges g')"
  with assms(3) have "(ss, e) \<in> set (sg_waiting_edges g)" by simp
  then show "set ss \<subseteq> fst ` set (sg_nodes g') \<and> (e \<noteq> END \<longrightarrow> e \<in> fst ` set (sg_nodes g'))"
    using builder_okD(4,5) [OF assms(1)] assms(4) by blast
qed (use assms in blast)+

lemma builder_ok_init:
  assumes "state_graph_init h state_schema input_schema output_schema = Inr g"
  shows "builder_ok g"
proof -
  define g0 where "g0 = \<lparr>sg_nodes = [], sg_edges = [], sg_branches = [], sg_schemas = [], sg_channels = [], sg_managed = [],
      sg_waiting_edges = [], sg_compiled = False, sg_state_schema = state_schema,
      sg_input_schema = (case input_schema of Some s \<Rightarrow> s | None \<Rightarrow> state_schema),
      sg_output_schema = (case output_schema of Some s \<Rightarrow> s | None \<Rightarrow> state_schema),
      sg_node_defaults = \<lparr>nd_retry_policy = None, nd_cache_policy = None, nd_error_handler = None, nd_timeout = VNone\<rparr>\<rparr>"
  have g0: "sg_nodes g0 = []" "sg_branches g0 = []" "sg_waiting_edges g0 = []" "sg_state_schema g0 = state_schema"
    by (simp_all add: g0_def)
  obtain g1 g2 where g1: "add_schema h True state_schema g0 = Inr g1" and g2: "add_schema h False (sg_input_schema g0) g1 = Inr g2"
    and g: "add_schema h False (sg_output_schema g0) g2 = Inr g"
    using assms by (auto simp: state_graph_init_def Let_def rbind_Inr_iff g0_def)
  show ?thesis
    using g0 add_schema_frame [OF g1] add_schema_frame [OF g2] add_schema_frame [OF g]
    by (simp add: builder_ok_def schemas_within_def)
qed

lemma handler_name_ok: "node_name_ok n \<Longrightarrow> node_name_ok (handler_name n)"
  by (simp add: node_name_ok_def handler_name_def START_def END_def)

lemma builder_ok_node:
  assumes "builder_ok g" and "add_node h a g = Inr g'"
  shows "builder_ok g'"
proof -
  let ?n = "na_name a"
  define schema where "schema = (case given_schema a of Some s \<Rightarrow> s | None \<Rightarrow> sg_state_schema g)"
  define S where "S = insert schema (fst ` set (sg_schemas g))"
  define nodes where "nodes = (case na_error_handler a of
      Some handler \<Rightarrow> dict_set (handler_name ?n) (handler_spec handler schema) (sg_nodes g) | None \<Rightarrow> sg_nodes g)"
  define spec where "spec = \<lparr>sn_runnable = na_action a, sn_metadata = na_metadata a, sn_input_schema = schema,
      sn_retry_policy = na_retry_policy a, sn_cache_policy = na_cache_policy a, sn_is_error_handler = False,
      sn_error_handler_node = map_option (\<lambda>_. handler_name ?n) (na_error_handler a),
      sn_ends = (case na_destinations a of Some e \<Rightarrow> e | None \<Rightarrow> EndNames (na_inferred_ends a)),
      sn_defer = na_defer a, sn_timeout = na_timeout a\<rparr>"
  have add: "add_node h a g = (if in_dict ?n (sg_nodes g) then Inl ValueError
         else if ?n = END \<or> ?n = START then Inl ValueError
         else if CHR ''|'' \<in> set ?n \<or> CHR '':'' \<in> set ?n then Inl ValueError
         else if na_error_handler a \<noteq> None \<and> in_dict (handler_name ?n) (sg_nodes g) then Inl ValueError
         else (case given_schema a of Some s \<Rightarrow> add_schema h True s (g\<lparr>sg_nodes := dict_set ?n spec nodes\<rparr>)
           | None \<Rightarrow> Inr (g\<lparr>sg_nodes := dict_set ?n spec nodes\<rparr>)))"
    unfolding add_node_def Let_def spec_def nodes_def schema_def by (rule refl)
  have n: "?n \<noteq> END" "?n \<noteq> START" "CHR ''|'' \<notin> set ?n" "CHR '':'' \<notin> set ?n"
    and g': "(case given_schema a of Some s \<Rightarrow> add_schema h True s (g\<lparr>sg_nodes := dict_set ?n spec nodes\<rparr>)
        | None \<Rightarrow> Inr (g\<lparr>sg_nodes := dict_set ?n spec nodes\<rparr>)) = Inr g'"
    using assms(2) unfolding add by (simp_all split: if_split_asm)
  have spec: "sn_input_schema spec = schema" by (simp add: spec_def)
  let ?g = "g\<lparr>sg_nodes := dict_set ?n spec nodes\<rparr>"
  have wf: "wf_dict nodes" "wf_dict (dict_set ?n spec nodes)" using assms(1) by (auto simp: builder_ok_def nodes_def wf_dict_set split: option.split)
  have keys: "fst ` set nodes \<subseteq> insert (handler_name ?n) (fst ` set (sg_nodes g))" "fst ` set (sg_nodes g) \<subseteq> fst ` set nodes"
    by (auto simp: nodes_def split: option.split)
  have ok: "node_name_ok ?n" using n by (simp add: node_name_ok_def)
  note within = builder_okD(3) [OF assms(1)]
  have schemas: "schemas_within S ?g"
  proof (rule schemas_withinI)
    fix m s assume "(m, s) \<in> set (sg_nodes ?g)"
    then have "s = spec \<or> (m, s) \<in> set (sg_nodes g) \<or> (\<exists>handler. s = handler_spec handler schema)"
      by (auto simp: nodes_def dest!: in_dict_setD split: option.split_asm)
    then show "sn_input_schema s \<in> S"
      using schemas_withinD(2) [OF within] spec by (auto simp: S_def handler_spec_def)
  qed (use schemas_withinD(1,3) [OF within] in \<open>auto simp: S_def\<close>)
  have names: "node_name_ok n" if "n \<in> fst ` set (dict_set ?n spec nodes)" for n
  proof -
    have "n = ?n \<or> n = handler_name ?n \<or> n \<in> fst ` set (sg_nodes g)" using that keys(1) by auto
    then show ?thesis using ok handler_name_ok [OF ok] builder_okD(2) [OF assms(1)] by blast
  qed
  have known: "builder_ok g''" if "sg_nodes g'' = sg_nodes ?g" "sg_waiting_edges g'' = sg_waiting_edges ?g"
    "schemas_within (fst ` set (sg_schemas g'')) g''" for g''
    by (rule builder_ok_grow [OF assms(1)]) (use that wf(2) keys(2) names in auto)
  show ?thesis
  proof (cases "given_schema a")
    case None
    have "sg_state_schema g \<in> fst ` set (sg_schemas g)" using schemas_withinD(1) [OF within] by simp
    with None have "S = fst ` set (sg_schemas ?g)" by (auto simp: S_def schema_def)
    with g' None schemas show ?thesis by (intro known) simp_all
  next
    case (Some s)
    with g' have add: "add_schema h True s ?g = Inr g'" and "schema = s" by (simp_all add: schema_def)
    with schemas add_schema_frame [OF add] show ?thesis
      by (intro known) (simp_all add: schemas_within_def S_def)
  qed
qed

lemma builder_ok_branch:
  assumes "builder_ok g" and "add_conditional_edges h s name br g = Inr g'"
  shows "builder_ok g'"
proof -
  obtain nm where g': "(case br_input_schema br of
        Some sc \<Rightarrow> add_schema h True sc (g\<lparr>sg_branches := dict_set s (dict_set nm br (dict_get_or (sg_branches g) s [])) (sg_branches g)\<rparr>)
      | None \<Rightarrow> Inr (g\<lparr>sg_branches := dict_set s (dict_set nm br (dict_get_or (sg_branches g) s [])) (sg_branches g)\<rparr>)) = Inr g'"
    using assms(2) by (auto simp: add_conditional_edges_def Let_def split: if_split_asm)
  let ?g = "g\<lparr>sg_branches := dict_set s (dict_set nm br (dict_get_or (sg_branches g) s [])) (sg_branches g)\<rparr>"
  define S where "S = (case br_input_schema br of Some sc \<Rightarrow> insert sc (fst ` set (sg_schemas g)) | None \<Rightarrow> fst ` set (sg_schemas g))"
  have "schemas_within (fst ` set (sg_schemas g)) g" by (rule builder_okD(3) [OF assms(1)])
  then have within: "schemas_within S g" by (rule schemas_within_mono) (auto simp: S_def split: option.split)
  have schemas: "schemas_within S ?g"
  proof (rule schemas_withinI)
    fix n brs m b sc
    assume brs: "(n, brs) \<in> set (sg_branches ?g)" and b: "(m, b) \<in> set brs" and sc: "br_input_schema b = Some sc"
    have "b = br \<or> (\<exists>brs'. (n, brs') \<in> set (sg_branches g) \<and> (m, b) \<in> set brs')"
      using brs b by (auto dest!: in_dict_setD simp: dict_get_or_def dest: map_of_SomeD split: option.split_asm)
    then show "sc \<in> S" using schemas_withinD(3) [OF within _ _ sc] sc by (auto simp: S_def)
  qed (use schemas_withinD(1,2) [OF within] in auto)
  show ?thesis
  proof (cases "br_input_schema br")
    case None
    with g' have "g' = ?g" by simp
    then show ?thesis using None schemas by (intro builder_ok_grow [OF assms(1)]) (use builder_okD(1,2) [OF assms(1)] in \<open>simp_all add: S_def\<close>)
  next
    case (Some sc)
    with g' have add: "add_schema h True sc ?g = Inr g'" by simp
    with Some schemas add_schema_frame [OF add] assms(1) show ?thesis
      by (simp add: builder_ok_def schemas_within_def S_def)
  qed
qed

lemma with_defaults_nodes:
  assumes "nodes_with_defaults g = Inr nodes" and "(n, s) \<in> set nodes"
  shows "(\<exists>s'. (n, s') \<in> set (sg_nodes g) \<and> sn_input_schema s = sn_input_schema s')
    \<or> n = DEFAULT_ERROR_HANDLER_NODE \<and> sn_input_schema s = sg_state_schema g"
proof -
  have [simp]: "sn_input_schema (apply_defaults d x s) = sn_input_schema s" for d x s by (simp add: apply_defaults_def)
  show ?thesis
    using assms by (fastforce simp: nodes_with_defaults_def Let_def handler_spec_def dest!: in_dict_setD split: option.split_asm if_split_asm)
qed

lemma default_handler_ok: "node_name_ok DEFAULT_ERROR_HANDLER_NODE"
  by (simp add: node_name_ok_def DEFAULT_ERROR_HANDLER_NODE_def START_def END_def)

lemma builder_ok_defaults:
  assumes "builder_ok g" and "nodes_with_defaults g = Inr nodes"
  shows "builder_ok (g\<lparr>sg_nodes := nodes\<rparr>)"
proof -
  have "fst ` set (sg_nodes g) \<subseteq> fst ` set nodes" using nodes_with_defaults_keys [OF assms(2)]
    by (metis (no_types, opaque_lifting) Un_upper1 set_append set_eq_subset set_map)
  moreover have "wf_dict nodes" using nodes_with_defaults_wf [OF assms(2)] assms(1) by (simp add: builder_ok_def)
  moreover have "node_name_ok n" if "n \<in> fst ` set nodes" for n
  proof -
    from that obtain s where "(n, s) \<in> set nodes" by auto
    then have "n \<in> fst ` set (sg_nodes g) \<or> n = DEFAULT_ERROR_HANDLER_NODE" using with_defaults_nodes [OF assms(2)] by force
    then show ?thesis using builder_okD(2) [OF assms(1)] default_handler_ok by blast
  qed
  moreover have "schemas_within (fst ` set (sg_schemas g)) (g\<lparr>sg_nodes := nodes\<rparr>)"
  proof (rule schemas_withinI)
    fix n s assume "(n, s) \<in> set (sg_nodes (g\<lparr>sg_nodes := nodes\<rparr>))"
    then have "(\<exists>s'. (n, s') \<in> set (sg_nodes g) \<and> sn_input_schema s = sn_input_schema s') \<or> sn_input_schema s = sg_state_schema g"
      using with_defaults_nodes [OF assms(2), of n s] by auto
    then show "sn_input_schema s \<in> fst ` set (sg_schemas g)"
    proof (elim disjE exE conjE)
      assume "sn_input_schema s = sg_state_schema g"
      then show ?thesis using schemas_withinD(1) [OF builder_okD(3) [OF assms(1)]] by simp
    qed (use schemas_withinD(2) [OF builder_okD(3) [OF assms(1)]] in simp)
  qed (use schemas_withinD(1,3) [OF builder_okD(3) [OF assms(1)]] in auto)
  ultimately show ?thesis by (intro builder_ok_grow [OF assms(1)]) simp_all
qed

lemma builder_ok_compiled: "builder_ok g \<Longrightarrow> builder_ok (g\<lparr>sg_compiled := True\<rparr>)"
  by (simp add: builder_ok_def schemas_within_def)

lemma built_ok: "built h g \<Longrightarrow> builder_ok g"
proof (induction rule: built.induct)
  case (built_init state_schema input_schema output_schema g)
  then show ?case by (rule builder_ok_init)
next
  case (built_defaults g retry cache handler timeout)
  then show ?case by (simp add: set_node_defaults_def Let_def builder_ok_def schemas_within_def)
next
  case (built_node g a g')
  then show ?case by (blast intro: builder_ok_node)
next
  case (built_edge g s e g')
  then have "g' = g\<lparr>sg_edges := List.insert (s, e) (sg_edges g)\<rparr>" by (simp add: add_edge_def split: if_split_asm)
  then show ?case using built_edge.IH by (simp add: builder_ok_def schemas_within_def)
next
  case (built_waiting g ss e g')
  then have ss: "\<forall>x \<in> set ss. in_dict x (sg_nodes g)" "e = END \<or> in_dict e (sg_nodes g)"
    and g': "g' = g\<lparr>sg_waiting_edges := List.insert (ss, e) (sg_waiting_edges g)\<rparr>"
    by (simp_all add: add_waiting_edge_def split: if_split_asm)
  have join: "set ss \<subseteq> fst ` set (sg_nodes g) \<and> (e \<noteq> END \<longrightarrow> e \<in> fst ` set (sg_nodes g))" using ss by (auto dest: dict_get_in_keys)
  have "set ss' \<subseteq> fst ` set (sg_nodes g) \<and> (e' \<noteq> END \<longrightarrow> e' \<in> fst ` set (sg_nodes g))"
    if "(ss', e') \<in> set (sg_waiting_edges g')" for ss' e'
  proof -
    have "ss' = ss \<and> e' = e \<or> (ss', e') \<in> set (sg_waiting_edges g)" using that g' by auto
    then show ?thesis using join builder_okD(4,5) [OF built_waiting.IH] by blast
  qed
  then show ?case using builder_okD(1,2,3) [OF built_waiting.IH] g' by (intro builder_okI) (auto simp: schemas_within_def)
next
  case (built_branch g s name br g')
  then show ?case by (blast intro: builder_ok_branch)
next
  case (built_compile g before_nodes after_nodes g' cg)
  from compile_parts [OF built_compile(2)]
  have 1: "nodes_with_defaults (g\<lparr>sg_compiled := True\<rparr>) = Inr (sg_nodes g')" "g' = g\<lparr>sg_compiled := True, sg_nodes := sg_nodes g'\<rparr>" by metis+
  have "builder_ok (g\<lparr>sg_compiled := True, sg_nodes := sg_nodes g'\<rparr>)"
    using builder_ok_defaults [OF builder_ok_compiled [OF built_compile.IH] 1(1)] by simp
  then show ?case using 1(2) by argo
qed

subsection \<open>Compiling a builder that is well-formed\<close>

text \<open>A step of \<open>compile\<close> that cannot fail when the nodes \<open>B\<close> are there, and adds the nodes \<open>M\<close>.\<close>

definition attaches :: "string set \<Rightarrow> string set \<Rightarrow> (compiled_graph \<Rightarrow> compiled_graph res) \<Rightarrow> bool" where
  "attaches B M f \<longleftrightarrow> (\<forall>cg. B \<subseteq> fst ` set (cg_nodes cg) \<longrightarrow> (\<exists>cg'. f cg = Inr cg' \<and> fst ` set (cg_nodes cg) \<union> M \<subseteq> fst ` set (cg_nodes cg')))"

lemma attachesD:
  assumes "attaches B M f" "B \<subseteq> fst ` set (cg_nodes cg)"
  obtains cg' where "f cg = Inr cg'" "fst ` set (cg_nodes cg) \<union> M \<subseteq> fst ` set (cg_nodes cg')"
  using assms unfolding attaches_def by blast

lemma attaches_weaken: "attaches B M f \<Longrightarrow> B \<subseteq> B' \<Longrightarrow> attaches B' M f"
  unfolding attaches_def by blast

lemma attaches_Inr: "attaches B {} Inr"
  by (simp add: attaches_def)

lemma attaches_bind:
  assumes "attaches B M f" "attaches (B \<union> M) M' f'"
  shows "attaches B (M \<union> M') (\<lambda>cg. rbind (f cg) f')"
  unfolding attaches_def
proof (intro allI impI)
  fix cg :: compiled_graph assume B: "B \<subseteq> fst ` set (cg_nodes cg)"
  obtain cg1 where 1: "f cg = Inr cg1" "fst ` set (cg_nodes cg) \<union> M \<subseteq> fst ` set (cg_nodes cg1)"
    by (rule attachesD [OF assms(1) B])
  then have "B \<union> M \<subseteq> fst ` set (cg_nodes cg1)" using B by blast
  then obtain cg2 where "f' cg1 = Inr cg2" "fst ` set (cg_nodes cg1) \<union> M' \<subseteq> fst ` set (cg_nodes cg2)"
    by (rule attachesD [OF assms(2)])
  with 1 show "\<exists>cg'. rbind (f cg) f' = Inr cg' \<and> fst ` set (cg_nodes cg) \<union> (M \<union> M') \<subseteq> fst ` set (cg_nodes cg')"
    by (intro exI [of _ cg2]) (simp add: subset_trans [of _ "fst ` set (cg_nodes cg1)"])
qed

lemma attaches_rfold:
  "(\<And>x. x \<in> set xs \<Longrightarrow> attaches B (M x) (f x)) \<Longrightarrow> attaches B (\<Union>x \<in> set xs. M x) (rfold f xs)"
proof (induction xs)
  case (Cons x xs)
  have "attaches (B \<union> M x) (\<Union>x \<in> set xs. M x) (rfold f xs)"
    by (rule attaches_weaken [OF Cons.IH]) (use Cons.prems in auto)
  from attaches_bind [OF Cons.prems this] show ?case by simp
qed (simp add: attaches_def)

lemma attaches_rfold_only: "(\<And>x. x \<in> set xs \<Longrightarrow> attaches B {} (f x)) \<Longrightarrow> attaches B {} (rfold f xs)"
  using attaches_rfold [of xs B "\<lambda>_. {}" f] by simp

lemma dict_index_known: "k \<in> fst ` set d \<Longrightarrow> dict_index d k = Inr (the (dict_get d k))"
  by (auto simp: dict_index_def map_of_eq_None_iff split: option.split)

lemma attaches_index: "k \<in> fst ` set d \<Longrightarrow> (\<And>x. attaches B M (f x)) \<Longrightarrow> attaches B M (\<lambda>cg. rbind (dict_index d k) (\<lambda>x. f x cg))"
  by (simp add: dict_index_known)

lemma attaches_update: "attaches {n} {} (update_node n f)"
  by (auto simp: attaches_def update_node_def dict_index_known)

lemma attaches_writer: "attaches {n} {} (append_writer n w)"
  by (simp add: append_writer_def attaches_update)

lemma attaches_start: "sg_input_schema g \<in> fst ` set (sg_schemas g) \<Longrightarrow> attaches {} {START} (attach_start h g)"
  by (auto simp: attach_start_def attaches_def dict_index_known)

lemma attaches_node: "sn_input_schema s \<in> fst ` set (sg_schemas g) \<Longrightarrow> attaches {} {n} (attach_node h g (n, s))"
  by (auto simp: attach_node_def attaches_def dict_index_known Let_def)

lemma attaches_edge: "attaches {s} {} (attach_edge (s, e))"
  using attaches_writer attaches_Inr by (cases "e = END") (simp_all add: attach_edge_def)

lemma attaches_channels:
  assumes "attaches B M f"
  shows "attaches B M (\<lambda>cg :: compiled_graph. f (cg\<lparr>cg_channels := c cg\<rparr>))"
  unfolding attaches_def
proof (intro allI impI)
  fix cg :: compiled_graph assume "B \<subseteq> fst ` set (cg_nodes cg)"
  then have "B \<subseteq> fst ` set (cg_nodes (cg\<lparr>cg_channels := c cg\<rparr>))" by simp
  then show "\<exists>cg'. f (cg\<lparr>cg_channels := c cg\<rparr>) = Inr cg' \<and> fst ` set (cg_nodes cg) \<union> M \<subseteq> fst ` set (cg_nodes cg')"
    by (rule attachesD [OF assms]) simp
qed

lemma attaches_waiting:
  assumes "e = END \<or> e \<in> fst ` set (sg_nodes g) \<and> e \<in> B" "set ss \<subseteq> B"
  shows "attaches B {} (attach_waiting_edge g (ss, e))"
proof (cases "e = END")
  case True
  then show ?thesis using attaches_Inr by (simp add: attach_waiting_edge_def)
next
  case False
  then have e: "e \<in> fst ` set (sg_nodes g)" "{e} \<subseteq> B" using assms(1) by auto
  have "attaches B {} (rfold (\<lambda>s. append_writer s (ws s)) ss)" for ws
    by (rule attaches_rfold_only) (rule attaches_weaken [OF attaches_writer], use assms(2) in blast)
  then have "attaches B ({} \<union> {}) (\<lambda>cg. rbind (update_node e f cg) (rfold (\<lambda>s. append_writer s (ws s)) ss))" for ws f
    by (intro attaches_bind attaches_weaken [OF attaches_update e(2)]) simp
  then have "attaches B {} (\<lambda>cg :: compiled_graph. rbind (update_node e f (cg\<lparr>cg_channels := c cg\<rparr>)) (rfold (\<lambda>s. append_writer s (ws s)) ss))" for ws f c
    by (intro attaches_channels) simp
  then show ?thesis using False unfolding attach_waiting_edge_def Let_def by (auto intro!: attaches_index [OF e(1)])
qed

lemma attaches_branch:
  assumes "s \<in> B" "branch_schema g s br \<in> fst ` set (sg_schemas g)"
  shows "attaches B {} (attach_branch h g s br)"
  unfolding attach_branch_def Let_def
  by (rule attaches_index [OF assms(2)]) (rule attaches_weaken [OF attaches_writer], use assms(1) in blast)

lemma branch_schema_known:
  assumes "schemas_within S g" "(s, brs) \<in> set (sg_branches g)" "(m, br) \<in> set brs"
  shows "branch_schema g s br \<in> S"
  using schemas_withinD(1) [OF assms(1)] schemas_withinD(2) [OF assms(1) map_of_SomeD, of s] schemas_withinD(3) [OF assms]
  by (auto simp: branch_schema_def split: option.split)

text \<open>After validation, all sources are nodes.\<close>

lemma attaches_all:
  assumes "builder_ok g" and "\<And>s. s \<in> set (all_sources g) \<Longrightarrow> s = START \<or> s \<in> fst ` set (sg_nodes g)"
  shows "attaches {} (insert START (fst ` set (sg_nodes g))) (attach_all h g)"
proof -
  let ?N = "insert START (fst ` set (sg_nodes g))"
  note within = builder_okD(3) [OF assms(1)]
  have start: "attaches {} {START} (attach_start h g)" using schemas_withinD(1) [OF within] by (intro attaches_start) simp
  have "attaches {START} (\<Union>x \<in> set (sg_nodes g). {fst x}) (rfold (attach_node h g) (sg_nodes g))"
  proof (rule attaches_rfold)
    fix x assume "x \<in> set (sg_nodes g)"
    then have "attaches {} {fst x} (attach_node h g (fst x, snd x))" using schemas_withinD(2) [OF within, of "fst x" "snd x"] by (intro attaches_node) simp
    then show "attaches {START} {fst x} (attach_node h g x)" using attaches_weaken [of "{}"] by simp
  qed
  moreover have "(\<Union>x \<in> set (sg_nodes g). {fst x}) = fst ` set (sg_nodes g)" by auto
  ultimately have nodes: "attaches ({} \<union> {START}) (fst ` set (sg_nodes g)) (rfold (attach_node h g) (sg_nodes g))" by simp
  have edges: "attaches ?N {} (rfold attach_edge (sg_edges g))"
  proof (rule attaches_rfold_only)
    fix x assume x: "x \<in> set (sg_edges g)"
    then have "fst x \<in> ?N" using assms(2) [of "fst x"] by (auto simp: all_sources_def all_edges_def)
    then show "attaches ?N {} (attach_edge x)" using attaches_weaken [OF attaches_edge [of "fst x" "snd x"]] by simp
  qed
  have joins: "attaches ?N {} (rfold (attach_waiting_edge g) (sg_waiting_edges g))"
  proof (rule attaches_rfold_only)
    fix x assume "x \<in> set (sg_waiting_edges g)"
    then show "attaches ?N {} (attach_waiting_edge g x)"
      using builder_okD(4,5) [OF assms(1), of "fst x" "snd x"] attaches_waiting [of "snd x" g ?N "fst x"] by auto
  qed
  have branches: "attaches ?N {} (rfold (\<lambda>(start, brs). rfold (\<lambda>(_, br). attach_branch h g start br) brs) (sg_branches g))"
  proof (rule attaches_rfold_only)
    fix x assume x: "x \<in> set (sg_branches g)"
    then have s: "fst x \<in> ?N" using assms(2) [of "fst x"] by (auto simp: all_sources_def)
    have "attaches ?N {} (rfold (\<lambda>(_, br). attach_branch h g (fst x) br) (snd x))"
    proof (rule attaches_rfold_only)
      fix y assume "y \<in> set (snd x)"
      then have "branch_schema g (fst x) (snd y) \<in> fst ` set (sg_schemas g)"
        using branch_schema_known [OF within, of "fst x" "snd x" "fst y" "snd y"] x by simp
      from attaches_branch [OF s this] show "attaches ?N {} (case y of (_, br) \<Rightarrow> attach_branch h g (fst x) br)"
        by (cases y) simp
    qed
    then show "attaches ?N {} (case x of (start, brs) \<Rightarrow> rfold (\<lambda>(_, br). attach_branch h g start br) brs)" by (cases x) simp
  qed
  have "attaches {} ({START} \<union> (fst ` set (sg_nodes g) \<union> ({} \<union> ({} \<union> {})))) (attach_all h g)"
    unfolding attach_all_def [abs_def]
    by (intro attaches_bind start nodes) (use edges joins branches in \<open>simp_all add: attaches_weaken\<close>)
  then show ?thesis by simp
qed

lemma validated_sources:
  assumes "validate_builder nodes g = Inr g'"
  shows "g' = g\<lparr>sg_compiled := True\<rparr>" "s \<in> set (all_sources g) \<Longrightarrow> s = START \<or> s \<in> fst ` set (sg_nodes g)"
  using assms by (auto simp: validate_builder_def dest: dict_get_in_keys split: if_split_asm)

lemma all_sources_with_defaults:
  assumes "nodes_with_defaults g = Inr nodes" "s \<in> set (all_sources (g\<lparr>sg_nodes := nodes\<rparr>))"
  shows "s \<in> set (all_sources g) \<or> s \<in> fst ` set nodes"
proof -
  have "fst ` set (filter P nodes) \<subseteq> fst ` set nodes" for P by auto
  then show ?thesis using assms(2) by (auto simp: all_sources_def all_edges_def)
qed

lemma validate_graph_error: "validate_graph cg = Inl e \<Longrightarrow> e = ValueError"
proof -
  have 1: "rmap (\<lambda>(_, cn). validate_node chs cn) ns = Inl e \<Longrightarrow> e = ValueError" for chs ns
    by (induction ns) (auto simp: rbind_Inl_iff validate_node_def split: if_split_asm option.split_asm spec.split_asm select.split_asm)
  assume "validate_graph cg = Inl e"
  then show ?thesis by (auto simp: validate_graph_def Let_def rbind_Inl_iff dest: 1 split: if_split_asm)
qed

lemma compile_raises:
  assumes "builder_ok g" and "compile h before_nodes after_nodes g = Inl e"
  shows "e = ValueError"
proof (cases "validate_builder (interrupts_to_check before_nodes after_nodes) g")
  case (Inl e')
  then show ?thesis using assms(2) by (auto simp: compile_def validate_builder_def split: if_split_asm)
next
  case (Inr g1)
  note v = validated_sources [OF Inr]
  have ok: "builder_ok g1" unfolding v(1) by (rule builder_ok_compiled [OF assms(1)])
  have out: "dict_index (sg_schemas g1) (sg_output_schema g1) = Inr (the (dict_get (sg_schemas g1) (sg_output_schema g1)))"
    using schemas_withinD(1) [OF builder_okD(3) [OF ok]] by (intro dict_index_known) simp
  show ?thesis
  proof (cases "nodes_with_defaults g1")
    case (Inl e')
    then have "e' = ValueError" by (auto simp: nodes_with_defaults_def Let_def split: option.split_asm if_split_asm)
    then show ?thesis using assms(2) Inl Inr out by (simp add: compile_def)
  next
    case nodes: (Inr nodes)
    let ?g = "g1\<lparr>sg_nodes := nodes\<rparr>"
    have "fst ` set (sg_nodes g) \<subseteq> fst ` set nodes"
    proof -
      obtain ys where "dict_keys nodes = dict_keys (sg_nodes g) @ ys" using nodes_with_defaults_keys [OF nodes] unfolding v(1) by auto
      from arg_cong [OF this, of set] show ?thesis unfolding set_map set_append by blast
    qed
    moreover have "set (all_sources g1) = set (all_sources g)" by (simp add: v(1) all_sources_def all_edges_def)
    ultimately have src: "s = START \<or> s \<in> fst ` set (sg_nodes ?g)" if "s \<in> set (all_sources ?g)" for s
      using all_sources_with_defaults [OF nodes that] v(2) [of s] by auto
    have "attaches {} (insert START (fst ` set (sg_nodes ?g))) (attach_all h ?g)"
      by (rule attaches_all [OF builder_ok_defaults [OF ok nodes] src])
    then have all: "\<exists>cg'. attach_all h ?g cg = Inr cg'" for cg by (metis attachesD empty_subsetI)
    have "compile h before_nodes after_nodes g = rbind (initial_graph before_nodes after_nodes
        (root_or_keys (dict_keys (the (dict_get (sg_schemas g1) (sg_output_schema g1)))) (schema_keys (the (dict_get (sg_schemas g1) (sg_output_schema g1)))))
        (root_or_keys (dict_keys (sg_channels g1)) (dict_keys (sg_channels g1))) ?g)
      (\<lambda>cg. rbind (attach_all h ?g cg) (\<lambda>cg. rbind (validate_compiled cg) (\<lambda>cg. Inr (?g, cg))))"
      by (simp add: compile_def Inr out nodes Let_def)
    with assms(2) obtain cg out stream where "initial_graph before_nodes after_nodes out stream ?g = Inl e
        \<or> attach_all h ?g cg = Inl e \<or> validate_compiled cg = Inl e"
      by (auto simp: rbind_Inl_iff)
    moreover have "initial_graph before_nodes after_nodes out stream ?g = Inl e \<Longrightarrow> e = ValueError"
      by (simp add: initial_graph_def Let_def split: if_split_asm)
    moreover have "attach_all h ?g cg \<noteq> Inl e" using all [of cg] by auto
    moreover have "validate_compiled cg = Inl e \<Longrightarrow> e = ValueError"
      by (auto simp: validate_compiled_def rbind_Inl_iff dest: validate_graph_error)
    ultimately show ?thesis by blast
  qed
qed

text \<open>
  C28: Whatever sequence of the builder's methods has made a graph, compiling it included, its node
  names are unique, none is \<open>START\<close> or \<open>END\<close> or has a character that the namespaces of checkpoints use, the
  schemas of its nodes and branches have been read, and waiting edges join nodes.
\<close>

theorem builder_inv:
  assumes "built h g"
  shows "builder_ok g"
  by (rule built_ok [OF assms])

lemma built_fold:
  "rfold f xs g = Inr g' \<Longrightarrow> built h g \<Longrightarrow> (\<And>x t t'. built h t \<Longrightarrow> f x t = Inr t' \<Longrightarrow> built h t') \<Longrightarrow> built h g'"
  by (rule rfold_invariant [where P = "built h"])

lemma gx_built: "built gx_host gx_graph"
proof -
  have "\<not> isl gx_build" by code_simp
  then have "gx_build = Inr gx_graph" by (simp add: gx_graph_def)
  then obtain g0 g1 g2 g3 where g0: "state_graph_init gx_host 0 None None = Inr g0"
    and g1: "rfold (\<lambda>n. add_node gx_host (gx_args n)) [''a'', ''b'', ''c'', ''d''] g0 = Inr g1"
    and g2: "rfold (\<lambda>(s, e). add_edge s e) [(START, ''a''), (''a'', ''b''), (''a'', ''c'')] g1 = Inr g2"
    and g3: "add_waiting_edge [''b'', ''c''] ''d'' g2 = Inr g3" and g: "add_conditional_edges gx_host ''d'' [] gx_branch g3 = Inr gx_graph"
    unfolding gx_build_def rbind_Inr_iff by blast
  have "built gx_host g1" by (rule built_fold [OF g1 built_init [OF g0]]) (rule built_node)
  then have "built gx_host g2" by (rule built_fold [OF g2]) (auto intro: built_edge)
  then show ?thesis by (rule built_branch [OF built_waiting [OF _ g3] g])
qed

theorem builder_inv_witness:
  "builder_ok (fst gx_compiled) \<and> dict_keys (sg_nodes (fst gx_compiled)) = [''a'', ''b'', ''c'', ''d'']"
proof
  show "builder_ok (fst gx_compiled)" by (rule builder_inv [OF built_compile [OF gx_built gx_compile]])
  show "dict_keys (sg_nodes (fst gx_compiled)) = [''a'', ''b'', ''c'', ''d'']" by code_simp
qed




subsection \<open>Defects of \<open>compile\<close>\<close>

text \<open>
  The names of the channels of waiting edges join the names of the starts with a character that names
  may have: edges from \<open>a\<close> and \<open>b\<close> and from one node \<open>a+b\<close> to the same node share a channel, and
  the one that is attached last replaces the barrier of the other.
\<close>

lemma join_channels_collide:
  "join_channel [''a'', ''b''] e = join_channel [''a+b''] e" "node_name_ok ''a+b''"
  by (simp_all add: join_channel_def join_def node_name_ok_def START_def END_def)

text \<open>A builder with a default error handler compiles once: \<open>compile\<close> leaves the handler in its nodes.\<close>

lemma compile_again_raises:
  assumes "built h g" "nd_error_handler (sg_node_defaults g) \<noteq> None" "compile h b a g = Inr (g', cg)"
  shows "compile h b' a' g' = Inl ValueError"
proof -
  from compile_parts [OF assms(3)] have n: "nodes_with_defaults (g\<lparr>sg_compiled := True\<rparr>) = Inr (sg_nodes g')"
    and g': "g' = g\<lparr>sg_compiled := True, sg_nodes := sg_nodes g'\<rparr>" by metis+
  have d: "sg_node_defaults g' = sg_node_defaults g" by (subst g') simp
  obtain handler where "nd_error_handler (sg_node_defaults g) = Some handler" using assms(2) by blast
  with n have "\<exists>f x. sg_nodes g' = map (\<lambda>(k, s). (k, f s)) (dict_set DEFAULT_ERROR_HANDLER_NODE x (sg_nodes g))"
    by (intro exI [of _ "apply_defaults (sg_node_defaults g) (Some DEFAULT_ERROR_HANDLER_NODE)"] exI [of _ "handler_spec handler (sg_state_schema g)"])
      (simp add: nodes_with_defaults_def Let_def split: if_split_asm)
  then obtain f x where "sg_nodes g' = map (\<lambda>(k, s). (k, f s)) (dict_set DEFAULT_ERROR_HANDLER_NODE x (sg_nodes g))" by blast
  then have "fst ` set (sg_nodes g') = fst ` set (dict_set DEFAULT_ERROR_HANDLER_NODE x (sg_nodes g))"
    by (simp add: image_image split_def)
  then have h: "in_dict DEFAULT_ERROR_HANDLER_NODE (sg_nodes g')" by (simp add: map_of_eq_None_iff)
  have "compile h b' a' g' \<noteq> Inr y" for y
  proof
    assume "compile h b' a' g' = Inr y"
    then have "compile h b' a' g' = Inr (fst y, snd y)" by simp
    from compile_parts [OF this] obtain nodes where "nodes_with_defaults (g'\<lparr>sg_compiled := True\<rparr>) = Inr nodes" by metis
    then show False using h assms(2) d by (auto simp: nodes_with_defaults_def Let_def)
  qed
  then obtain e where e: "compile h b' a' g' = Inl e" by (cases "compile h b' a' g'") auto
  with compile_raises [OF built_ok [OF built_compile [OF assms(1,3)]] e] show ?thesis by simp
qed

end
