(* ===== verification/Store_Text.thy ===== *)
theory Store_Text
  imports Pregel_Types
begin

section \<open>Texts of a stored value (store/base/embed.py)\<close>

text \<open>
  The paths that select what is embedded of a value: \<open>tokenize_path\<close> and \<open>get_text_at_path\<close>, with
  \<open>json.dumps\<close> and the conversions of the language that they use. A path that is configured is
  \<open>None\<close> for \<open>"$"\<close>, else its tokens.
\<close>

subsection \<open>JSON\<close>

text \<open>\<open>json.dumps(obj, sort_keys=True, ensure_ascii=False)\<close>.\<close>

definition hex_digit :: "nat \<Rightarrow> char" where
  "hex_digit n = (if n < 10 then char_of (48 + n) else char_of (87 + n))"

definition json_char :: "char \<Rightarrow> string" where
  "json_char c = (let n = of_char c :: nat in
     if n = 34 then [char_of (92 :: nat), c] else if n = 92 then [c, c]
     else if n = 10 then [char_of (92 :: nat), CHR ''n''] else if n = 13 then [char_of (92 :: nat), CHR ''r'']
     else if n = 9 then [char_of (92 :: nat), CHR ''t''] else if n = 8 then [char_of (92 :: nat), CHR ''b'']
     else if n = 12 then [char_of (92 :: nat), CHR ''f'']
     else if n < 32 then char_of (92 :: nat) # ''u00'' @ [hex_digit (n div 16), hex_digit (n mod 16)]
     else [c])"

definition json_string :: "string \<Rightarrow> string" where
  "json_string s = [char_of (34 :: nat)] @ concat (map json_char s) @ [char_of (34 :: nat)]"

fun json_dumps :: "val \<Rightarrow> string res" where
  "json_dumps VNone = Inr ''null''"
| "json_dumps (VBool b) = Inr (if b then ''true'' else ''false'')"
| "json_dumps (VInt i) = Inr (int_str i)"
| "json_dumps (VStr s) = Inr (json_string s)"
| "json_dumps (VList xs) = rbind (rmap json_dumps xs) (\<lambda>ss. Inr (''['' @ join '', '' ss @ '']''))"
| "json_dumps (VTuple xs) = rbind (rmap json_dumps xs) (\<lambda>ss. Inr (''['' @ join '', '' ss @ '']''))"
| "json_dumps (VDict d) = rbind (rmap (\<lambda>(k, v). rbind (json_dumps v) (\<lambda>s. Inr (k, s))) d)
     (\<lambda>ps. Inr (''{'' @ join '', '' (map (\<lambda>(k, s). json_string k @ '': '' @ s) (sort_key fst ps)) @ ''}''))"
| "json_dumps _ = Inl TypeError"

subsection \<open>Tokens of a path\<close>

text \<open>The characters up to the bracket that closes the ones that are open, and the rest; the end of
  the path closes all.\<close>

fun bracketed :: "char \<Rightarrow> char \<Rightarrow> nat \<Rightarrow> string \<Rightarrow> string \<times> string" where
  "bracketed opening closing 0 cs = ([], cs)"
| "bracketed opening closing (Suc n) [] = ([], [])"
| "bracketed opening closing (Suc n) (c # cs) =
     (let (t, rest) = bracketed opening closing
            (if c = opening then Suc (Suc n) else if c = closing then n else Suc n) cs
      in (c # t, rest))"

lemma bracketed_shorter: "bracketed opening closing n cs = (t, rest) \<Longrightarrow> length rest \<le> length cs"
proof (induction "opening" "closing" n cs arbitrary: t rule: bracketed.induct)
  case (3 "opening" "closing" n c cs)
  then show ?case by (fastforce split: prod.split_asm)
qed simp_all

definition flush :: "string \<Rightarrow> string list" where
  "flush current = (if current = [] then [] else [current])"

function tokenize_from :: "string \<Rightarrow> string \<Rightarrow> string list" where
  "tokenize_from current [] = flush current"
| "tokenize_from current (c # cs) =
     (if c = CHR ''['' then
        let (t, rest) = bracketed (CHR ''['') (CHR '']'') 1 cs in flush current @ (c # t) # tokenize_from [] rest
      else if c = CHR ''{'' then
        let (t, rest) = bracketed (CHR ''{'') (CHR ''}'') 1 cs in flush current @ (c # t) # tokenize_from [] rest
      else if c = CHR ''.'' then flush current @ tokenize_from [] cs
      else tokenize_from (current @ [c]) cs)"
  by pat_completeness auto
termination
  by (relation "measure (length \<circ> snd)") (auto dest: bracketed_shorter [OF sym])

definition tokenize_path :: "string \<Rightarrow> string list" where
  "tokenize_path path = tokenize_from [] path"

subsection \<open>Conversions\<close>

text \<open>\<open>str.strip()\<close>, \<open>int(s)\<close> and \<open>str(x)\<close>.\<close>

definition is_space :: "char \<Rightarrow> bool" where
  "is_space c \<longleftrightarrow> (let n = of_char c :: nat in 9 \<le> n \<and> n \<le> 13 \<or> 28 \<le> n \<and> n \<le> 32 \<or> n = 133 \<or> n = 160)"

definition strip :: "string \<Rightarrow> string" where
  "strip s = rev (dropWhile is_space (rev (dropWhile is_space s)))"

definition underscores_ok :: "string \<Rightarrow> bool" where
  "underscores_ok s \<longleftrightarrow> list_all (\<lambda>w. w \<noteq> []) (split_on (CHR ''_'') s)"

definition py_int :: "string \<Rightarrow> int res" where
  "py_int s =
     (let s = strip s;
          (sign, digits) = (case s of
              c # cs \<Rightarrow> if c = CHR ''-'' then (-1, cs) else if c = CHR ''+'' then (1, cs) else (1, s)
            | [] \<Rightarrow> (1, s))
      in if \<not> underscores_ok digits then Inl ValueError
         else rbind (parse_nat (filter (\<lambda>c. c \<noteq> CHR ''_'') digits)) (\<lambda>n. Inr (sign * int n)))"

text \<open>The text of a value that is selected, if it has one.\<close>

fun text_of :: "val \<Rightarrow> string list res" where
  "text_of (VStr s) = Inr [s]"
| "text_of (VInt i) = Inr [int_str i]"
| "text_of (VBool b) = Inr [if b then ''True'' else ''False'']"
| "text_of (VList xs) = rbind (json_dumps (VList xs)) (\<lambda>s. Inr [s])"
| "text_of (VDict d) = rbind (json_dumps (VDict d)) (\<lambda>s. Inr [s])"
| "text_of _ = Inr []"

subsection \<open>Extraction\<close>

definition enclosed :: "char \<Rightarrow> char \<Rightarrow> string \<Rightarrow> bool" where
  "enclosed opening closing token \<longleftrightarrow> token \<noteq> [] \<and> hd token = opening \<and> last token = closing"

text \<open>\<open>token[1:-1]\<close>\<close>

definition inner :: "string \<Rightarrow> string" where
  "inner token = butlast (tl token)"

fun walk_fields :: "string list \<Rightarrow> val \<Rightarrow> val option" where
  "walk_fields [] v = Some v"
| "walk_fields (t # ts) (VDict d) = (case dict_get d t of Some v \<Rightarrow> walk_fields ts v | None \<Rightarrow> None)"
| "walk_fields (t # ts) _ = None"

text \<open>One field of a token \<open>{...}\<close>.\<close>

definition field_text :: "val \<Rightarrow> string \<Rightarrow> string list res" where
  "field_text obj field = (case tokenize_path (strip field) of
       [] \<Rightarrow> Inr []
     | ts \<Rightarrow> (case walk_fields ts obj of Some v \<Rightarrow> text_of v | None \<Rightarrow> Inr []))"

definition list_index :: "'a list \<Rightarrow> string \<Rightarrow> 'a option" where
  "list_index xs index = (case py_int index of
       Inl _ \<Rightarrow> None
     | Inr i \<Rightarrow> let i = (if i < 0 then int (length xs) + i else i)
                in if 0 \<le> i \<and> i < int (length xs) then Some (xs ! nat i) else None)"

fun extract_from_obj :: "string list \<Rightarrow> val \<Rightarrow> string list res" where
  "extract_from_obj [] obj = text_of obj"
| "extract_from_obj (token # tokens) obj =
     (if enclosed (CHR ''['') (CHR '']'') token then
        (case obj of
           VList xs \<Rightarrow>
             if inner token = ''*'' then rbind (rmap (extract_from_obj tokens) xs) (\<lambda>rs. Inr (concat rs))
             else (case list_index xs (inner token) of Some x \<Rightarrow> extract_from_obj tokens x | None \<Rightarrow> Inr [])
         | _ \<Rightarrow> Inr [])
      else if enclosed (CHR ''{'') (CHR ''}'') token then
        (case obj of
           VDict d \<Rightarrow> rbind (rmap (field_text obj) (split_on (CHR '','') (inner token))) (\<lambda>rs. Inr (concat rs))
         | _ \<Rightarrow> Inr [])
      else if token = ''*'' then
        (case obj of
           VDict d \<Rightarrow> rbind (rmap (extract_from_obj tokens) (map snd d)) (\<lambda>rs. Inr (concat rs))
         | VList xs \<Rightarrow> rbind (rmap (extract_from_obj tokens) xs) (\<lambda>rs. Inr (concat rs))
         | _ \<Rightarrow> Inr [])
      else
        (case obj of
           VDict d \<Rightarrow> (case dict_get d token of Some v \<Rightarrow> extract_from_obj tokens v | None \<Rightarrow> Inr [])
         | _ \<Rightarrow> Inr []))"

definition get_text_at_path :: "val \<Rightarrow> string list option \<Rightarrow> string list res" where
  "get_text_at_path obj path = (case path of
       None \<Rightarrow> rbind (json_dumps obj) (\<lambda>s. Inr [s])
     | Some [] \<Rightarrow> rbind (json_dumps obj) (\<lambda>s. Inr [s])
     | Some tokens \<Rightarrow> extract_from_obj tokens obj)"

text \<open>A path that is given as a string.\<close>

definition path_of :: "string \<Rightarrow> string list option" where
  "path_of path = (if path = ''$'' then None else Some (tokenize_path path))"

section \<open>Properties\<close>

text \<open>Names without the characters of the path syntax.\<close>

definition plain_name :: "string \<Rightarrow> bool" where
  "plain_name n \<longleftrightarrow> n \<noteq> [] \<and> list_all (\<lambda>c. c \<noteq> CHR ''['' \<and> c \<noteq> CHR ''{'' \<and> c \<noteq> CHR ''.'') n"

lemma tokenize_name:
  "list_all (\<lambda>c. c \<noteq> CHR ''['' \<and> c \<noteq> CHR ''{'' \<and> c \<noteq> CHR ''.'') n \<Longrightarrow> tokenize_from current (n @ rest) = tokenize_from (current @ n) rest"
  by (induction n arbitrary: current) auto

lemma tokenize_dotted:
  "list_all plain_name ns \<Longrightarrow> current \<noteq> [] \<Longrightarrow> tokenize_from current (concat (map ((@) ''.'') ns)) = current # ns"
proof (induction ns arbitrary: current)
  case Nil
  then show ?case by (simp add: flush_def)
next
  case (Cons n ns)
  then show ?case using tokenize_name [of n "[]"] by (simp add: plain_name_def flush_def)
qed

lemma tokenize_join: "list_all plain_name ns \<Longrightarrow> tokenize_path (join ''.'' ns) = ns"
proof (cases ns)
  case (Cons n ms)
  assume "list_all plain_name ns"
  with Cons show ?thesis
    using tokenize_name [of n "[]" "concat (map ((@) ''.'') ms)"] tokenize_dotted [of ms n]
    by (simp add: tokenize_path_def join_def plain_name_def)
qed (simp add: tokenize_path_def join_def flush_def)

lemma plain_not_enclosed: "plain_name n \<Longrightarrow> \<not> enclosed (CHR ''['') c n \<and> \<not> enclosed (CHR ''{'') c n"
  by (cases n) (auto simp: plain_name_def enclosed_def)

lemma extract_names:
  "list_all plain_name ns \<Longrightarrow> ''*'' \<notin> set ns \<Longrightarrow>
   extract_from_obj ns v = (case walk_fields ns v of Some w \<Rightarrow> text_of w | None \<Rightarrow> Inr [])"
proof (induction ns arbitrary: v)
  case (Cons n ns)
  have "n \<noteq> ''*''" using Cons.prems(2) by auto
  then show ?case
    using Cons plain_not_enclosed [of n] by (cases v) (auto split: option.split)
qed simp

text \<open>
  A path of field names, joined by dots, is tokenized into these names, and the text that it
  selects of a value is the text of the object that the names lead to, field by field, or nothing
  if a field is missing.
\<close>

theorem field_path_roundtrip:
  assumes "list_all plain_name ns" and "''*'' \<notin> set ns" and "ns \<noteq> []"
  shows "tokenize_path (join ''.'' ns) = ns \<and> get_text_at_path v (Some (tokenize_path (join ''.'' ns)))
      = (case walk_fields ns v of Some w \<Rightarrow> text_of w | None \<Rightarrow> Inr [])"
  unfolding tokenize_join [OF assms(1)]
  using assms(3) extract_names [OF assms(1,2), of v] by (cases ns) (simp_all add: get_text_at_path_def)

definition st_value :: val where
  "st_value = VDict [(''info'', VDict [(''tags'', VList [VStr ''a'', VInt 2]), (''name'', VStr ''n'')])]"

theorem field_path_roundtrip_witness:
  "tokenize_path ''info.name'' = [''info'', ''name''] \<and> get_text_at_path st_value (path_of ''info.name'') = Inr [''n'']"
proof -
  have ns: "list_all plain_name [''info'', ''name'']" "''*'' \<notin> set [''info'', ''name'']" "[''info'', ''name''] \<noteq> []"
    and j: "join ''.'' [''info'', ''name''] = ''info.name''"
    and w: "walk_fields [''info'', ''name''] st_value = Some (VStr ''n'')" by code_simp+
  have p: "path_of ''info.name'' = Some (tokenize_path ''info.name'')" by (simp add: path_of_def)
  show ?thesis unfolding p by (rule field_path_roundtrip [OF ns, of st_value, unfolded j w option.case text_of.simps])
qed

end
