(* ===== verification/Store_Memory.thy ===== *)
theory Store_Memory
  imports Store_Text
begin

section \<open>The in-memory store (store/memory, store/base)\<close>

text \<open>
  \<open>InMemoryStore\<close>: items in namespaces, with vectors for the items that are embedded. All public
  methods are batches of operations; a batch reads before it writes. A batch that raises leaves the
  store as far as it has come, so it returns the result and the store. Floating-point numbers,
  embeddings, their similarity and the clock are parameters (\<open>store_host\<close>); \<open>'f\<close> are the floats
  that are comparable, \<open>'v\<close> the vectors.
\<close>

subsection \<open>Data\<close>

type_synonym namespace = "string list"

record item =
  it_value :: "(string, val) dict"
  it_key :: string
  it_namespace :: namespace
  it_created_at :: nat
  it_updated_at :: nat

text \<open>\<open>SearchItem\<close> adds a score.\<close>

type_synonym 'f search_item = "item \<times> 'f option"

text \<open>\<open>match_type\<close> is a string, \<open>''prefix''\<close> or \<open>''suffix''\<close>.\<close>

type_synonym match_condition = "string \<times> namespace"

text \<open>The default index configuration, none, or some paths.\<close>

datatype index_arg = DefaultIndex | NoIndex | IndexPaths "string list"

record search_args =
  sa_prefix :: namespace
  sa_filter :: "(string, val) dict option"
  sa_limit :: int
  sa_offset :: int
  sa_query :: "string option"
  sa_refresh_ttl :: bool

datatype store_op =
    GetOp namespace string bool
  | SearchOp search_args
  | ListNamespacesOp "match_condition list option" "int option" int int
  | PutOp namespace string "(string, val) dict option" index_arg

datatype 'f store_result = NoResult | ItemResult item | ItemsResult "'f search_item list" | NamespacesResult "namespace list"

text \<open>\<open>sh_index\<close> are the configured paths with their tokens; \<open>sh_time n\<close> is the \<open>n\<close>th reading of the
  clock. \<open>sh_float\<close> is the conversion to a float.\<close>

record ('v, 'f) store_host =
  sh_index :: "(string \<times> string list option) list option"
  sh_embed :: "string list \<Rightarrow> 'v list res"
  sh_embed_query :: "string \<Rightarrow> 'v res"
  sh_cosine :: "'v \<Rightarrow> 'v \<Rightarrow> 'f"
  sh_float :: "val \<Rightarrow> 'f res"
  sh_time :: "nat \<Rightarrow> nat"

record 'v store =
  st_data :: "(namespace, (string, item) dict) dict"
  st_vectors :: "(namespace, (string, (string, 'v) dict) dict) dict"
  st_clock :: nat

definition store_init :: "'v store" where
  "store_init = \<lparr>st_data = [], st_vectors = [], st_clock = 0\<rparr>"

subsection \<open>Slices and lazy quantifiers\<close>

text \<open>\<open>xs[a:b]\<close> with bounds that count from the end when they are negative.\<close>

definition slice_bound :: "'a list \<Rightarrow> int \<Rightarrow> nat" where
  "slice_bound xs i = nat (if i < 0 then int (length xs) + i else min (int (length xs)) i)"

definition py_slice :: "'a list \<Rightarrow> int \<Rightarrow> int \<Rightarrow> 'a list" where
  "py_slice xs a b = take (slice_bound xs b - slice_bound xs a) (drop (slice_bound xs a) xs)"

text \<open>\<open>all(...)\<close> stops at the first element that is false.\<close>

fun res_all :: "('a \<Rightarrow> bool res) \<Rightarrow> 'a list \<Rightarrow> bool res" where
  "res_all f [] = Inr True"
| "res_all f (x # xs) = rbind (f x) (\<lambda>b. if b then res_all f xs else Inr False)"

lemma res_all_cong [fundef_cong]: "xs = ys \<Longrightarrow> (\<And>x. x \<in> set ys \<Longrightarrow> f x = g x) \<Longrightarrow> res_all f xs = res_all g ys"
  by (induction ys arbitrary: xs) (auto cong: if_cong)

fun res_filter :: "('a \<Rightarrow> bool res) \<Rightarrow> 'a list \<Rightarrow> 'a list res" where
  "res_filter f [] = Inr []"
| "res_filter f (x # xs) = rbind (f x) (\<lambda>b. rbind (res_filter f xs) (\<lambda>ys. Inr (if b then x # ys else ys)))"

subsection \<open>Filters\<close>

definition apply_operator :: "('v, 'f :: linorder) store_host \<Rightarrow> val \<Rightarrow> string \<Rightarrow> val \<Rightarrow> bool res" where
  "apply_operator h v operator op_value =
     (let compare = (\<lambda>rel. rbind (sh_float h v) (\<lambda>x. rbind (sh_float h op_value) (\<lambda>y. Inr (rel x y))))
      in if operator = ''$eq'' then Inr (v = op_value)
         else if operator = ''$gt'' then compare (\<lambda>x y. y < x)
         else if operator = ''$gte'' then compare (\<lambda>x y. y \<le> x)
         else if operator = ''$lt'' then compare (\<lambda>x y. x < y)
         else if operator = ''$lte'' then compare (\<lambda>x y. x \<le> y)
         else if operator = ''$ne'' then Inr (v \<noteq> op_value)
         else Inl ValueError)"

definition is_operator :: "string \<Rightarrow> bool" where
  "is_operator k \<longleftrightarrow> k \<noteq> [] \<and> hd k = CHR ''$''"

lemma size_dict_value: "(k :: string, x) \<in> set d \<Longrightarrow> size (x :: val) < Suc (size_list (size_prod (\<lambda>_. 0) size) d)"
  by (induction d) auto

lemma size_member: "x \<in> set xs \<Longrightarrow> size (x :: val) < Suc (size_list size xs)"
  by (induction xs) auto

function compare_values :: "('v, 'f :: linorder) store_host \<Rightarrow> val \<Rightarrow> val \<Rightarrow> bool res" where
  "compare_values h v f = (case f of
       VDict fd \<Rightarrow>
         if \<exists>(k, _) \<in> set fd. is_operator k then res_all (\<lambda>(k, x). apply_operator h v k x) fd
         else (case v of
             VDict d \<Rightarrow> res_all (\<lambda>(k, x). compare_values h (dict_get_or d k VNone) x) fd
           | _ \<Rightarrow> Inr False)
     | VList fs \<Rightarrow> (case v of
           VList xs \<Rightarrow> if length xs = length fs then res_all (\<lambda>(x, y). compare_values h x y) (zip xs fs) else Inr False
         | VTuple xs \<Rightarrow> if length xs = length fs then res_all (\<lambda>(x, y). compare_values h x y) (zip xs fs) else Inr False
         | _ \<Rightarrow> Inr False)
     | VTuple fs \<Rightarrow> (case v of
           VList xs \<Rightarrow> if length xs = length fs then res_all (\<lambda>(x, y). compare_values h x y) (zip xs fs) else Inr False
         | VTuple xs \<Rightarrow> if length xs = length fs then res_all (\<lambda>(x, y). compare_values h x y) (zip xs fs) else Inr False
         | _ \<Rightarrow> Inr False)
     | _ \<Rightarrow> Inr (v = f))"
  by pat_completeness auto

termination
  by (relation "measure (\<lambda>(h, v, f). size f)") (auto dest!: set_zip_rightD size_member size_dict_value)

declare compare_values.simps [simp del]

definition filter_func :: "('v, 'f :: linorder) store_host \<Rightarrow> search_args \<Rightarrow> item \<Rightarrow> bool res" where
  "filter_func h op it = (case sa_filter op of
       None \<Rightarrow> Inr True
     | Some fd \<Rightarrow> res_all (\<lambda>(k, f). compare_values h (dict_get_or (it_value it) k VNone) f) fd)"

definition in_prefix :: "namespace \<Rightarrow> namespace \<Rightarrow> bool" where
  "in_prefix prefix ns \<longleftrightarrow> length prefix \<le> length ns \<and> take (length prefix) ns = prefix"

definition has_query :: "search_args \<Rightarrow> bool" where
  "has_query op \<longleftrightarrow> (case sa_query op of Some q \<Rightarrow> q \<noteq> [] | None \<Rightarrow> False)"

text \<open>A look-up in \<open>_vectors\<close> leaves an empty entry behind, which no operation can tell from none.\<close>

definition item_vectors :: "'v store \<Rightarrow> namespace \<Rightarrow> string \<Rightarrow> 'v list" where
  "item_vectors st ns key = map snd (dict_get_or (dict_get_or (st_vectors st) ns []) key [])"

definition filter_items :: "('v, 'f :: linorder) store_host \<Rightarrow> 'v store \<Rightarrow> search_args \<Rightarrow> (item \<times> 'v list) list res" where
  "filter_items h st op =
     (let entries = concat (map (\<lambda>(ns, items). map (\<lambda>(key, it). (ns, key, it)) items)
            (filter (\<lambda>(ns, _). in_prefix (sa_prefix op) ns) (st_data st)))
      in rbind (res_filter (\<lambda>(_, _, it). filter_func h op it) entries)
           (\<lambda>es. Inr (map (\<lambda>(ns, key, it). (it, if has_query op then item_vectors st ns key else [])) es)))"

subsection \<open>Namespaces\<close>

definition match_elements :: "namespace \<Rightarrow> namespace \<Rightarrow> bool" where
  "match_elements key path \<longleftrightarrow> list_all (\<lambda>(k, p). p = ''*'' \<or> k = p) (zip key path)"

definition does_match :: "match_condition \<Rightarrow> namespace \<Rightarrow> bool res" where
  "does_match = (\<lambda>(match_type, path) key.
     if length key < length path then Inr False
     else if match_type = ''prefix'' then Inr (match_elements key path)
     else if match_type = ''suffix'' then Inr (match_elements (rev key) (rev path))
     else Inl ValueError)"

definition handle_list_namespaces ::
  "'v store \<Rightarrow> match_condition list option \<Rightarrow> int option \<Rightarrow> int \<Rightarrow> int \<Rightarrow> namespace list res" where
  "handle_list_namespaces st conditions max_depth limit offset =
     rbind (case conditions of
         None \<Rightarrow> Inr (dict_keys (st_data st))
       | Some cs \<Rightarrow> res_filter (\<lambda>ns. res_all (\<lambda>c. does_match c ns) cs) (dict_keys (st_data st)))
       (\<lambda>nss. let nss = (case max_depth of
                Some d \<Rightarrow> sort (remdups (map (\<lambda>ns. py_slice ns 0 d) nss))
              | None \<Rightarrow> sort nss)
          in Inr (py_slice nss offset (offset + limit)))"

subsection \<open>Ranking\<close>

text \<open>The best score of each item, in the order of \<open>sorted_results\<close>; the positions from the offset
  up to the limit are kept.\<close>

definition item_id :: "item \<Rightarrow> namespace \<times> string" where
  "item_id it = (it_namespace it, it_key it)"

fun max_pool :: "int \<Rightarrow> int \<Rightarrow> (namespace \<times> string) list \<Rightarrow> ('f \<times> item) list \<Rightarrow> ('f \<times> item) list" where
  "max_pool offset limit seen [] = []"
| "max_pool offset limit seen ((score, it) # xs) =
     (if item_id it \<in> set seen then max_pool offset limit seen xs
      else if int (length seen) \<ge> offset + limit then []
      else if int (length seen) < offset then max_pool offset limit (item_id it # seen) xs
      else (score, it) # max_pool offset limit (item_id it # seen) xs)"

text \<open>\<open>sorted(..., reverse=True)\<close> keeps the order of equal elements.\<close>

definition sorted_reverse :: "('f :: linorder \<times> 'a) list \<Rightarrow> ('f \<times> 'a) list" where
  "sorted_reverse xs = rev (sort_key fst (rev xs))"

definition rank :: "('v, 'f :: linorder) store_host \<Rightarrow> search_args \<Rightarrow> 'v \<Rightarrow> (item \<times> 'v list) list \<Rightarrow> 'f search_item list" where
  "rank h op query candidates =
     (let flat = concat (map (\<lambda>(it, vectors). map (\<lambda>v. (sh_cosine h query v, it)) vectors) candidates);
          scoreless = map fst (filter (\<lambda>(_, vectors). vectors = []) candidates);
          kept = map (\<lambda>(s, it). (it, Some s)) (max_pool (sa_offset op) (sa_limit op) [] (sorted_reverse flat))
      in if scoreless \<noteq> [] \<and> int (length kept) < sa_limit op
         then kept @ map (\<lambda>it. (it, None)) (py_slice scoreless 0 (sa_limit op - int (length kept)))
         else kept)"

definition search_result ::
  "('v, 'f :: linorder) store_host \<Rightarrow> (string, 'v) dict \<Rightarrow> search_args \<Rightarrow> (item \<times> 'v list) list \<Rightarrow> 'f search_item list res" where
  "search_result h queries op candidates =
     (if candidates = [] then Inr []
      else if has_query op \<and> queries \<noteq> [] then
        rbind (dict_index queries (the (sa_query op))) (\<lambda>q. Inr (rank h op q candidates))
      else Inr (map (\<lambda>(it, _). (it, None)) (py_slice candidates (sa_offset op) (sa_offset op + sa_limit op))))"

subsection \<open>A batch\<close>

type_synonym 'f results = "'f store_result list"
type_synonym put_ops = "(namespace \<times> string, (string, val) dict option \<times> index_arg) dict"
type_synonym 'v search_ops = "(nat \<times> search_args \<times> (item \<times> 'v list) list) list"

text \<open>\<open>_prepare_ops\<close>; to read a namespace that is missing makes it.\<close>

definition touch :: "namespace \<Rightarrow> 'v store \<Rightarrow> 'v store" where
  "touch ns st = st\<lparr>st_data := dict_set ns (dict_get_or (st_data st) ns []) (st_data st)\<rparr>"

fun prepare_ops :: "('v, 'f :: linorder) store_host \<Rightarrow> store_op list \<Rightarrow> 'f results \<times> put_ops \<times> 'v search_ops \<Rightarrow> 'v store \<Rightarrow>
    ('f results \<times> put_ops \<times> 'v search_ops) res \<times> 'v store" where
  "prepare_ops h [] acc st = (Inr acc, st)"
| "prepare_ops h (GetOp ns key refresh # ops) (rs, puts, searches) st =
     (let st = touch ns st
      in prepare_ops h ops (rs @ [case dict_get (dict_get_or (st_data st) ns []) key of
             Some it \<Rightarrow> ItemResult it | None \<Rightarrow> NoResult], puts, searches) st)"
| "prepare_ops h (SearchOp op # ops) (rs, puts, searches) st =
     (case filter_items h st op of
        Inl e \<Rightarrow> (Inl e, st)
      | Inr candidates \<Rightarrow> prepare_ops h ops (rs @ [NoResult], puts, searches @ [(length rs, op, candidates)]) st)"
| "prepare_ops h (ListNamespacesOp cs depth limit offset # ops) (rs, puts, searches) st =
     (case handle_list_namespaces st cs depth limit offset of
        Inl e \<Rightarrow> (Inl e, st)
      | Inr nss \<Rightarrow> prepare_ops h ops (rs @ [NamespacesResult nss], puts, searches) st)"
| "prepare_ops h (PutOp ns key v index # ops) (rs, puts, searches) st =
     prepare_ops h ops (rs @ [NoResult], dict_set (ns, key) (v, index) puts, searches) st"

text \<open>A Python set of the elements, in the order of their first occurrences.\<close>

definition unique :: "'a list \<Rightarrow> 'a list" where
  "unique xs = rev (remdups (rev xs))"

definition embed_search_queries :: "('v, 'f) store_host \<Rightarrow> 'v search_ops \<Rightarrow> (string, 'v) dict res" where
  "embed_search_queries h searches =
     (if sh_index h = None then Inr []
      else rmap (\<lambda>q. rbind (sh_embed_query h q) (\<lambda>v. Inr (q, v)))
        (unique (map (\<lambda>(_, op, _). the (sa_query op)) (filter (\<lambda>(_, op, _). has_query op) searches))))"

definition batch_search ::
  "('v, 'f :: linorder) store_host \<Rightarrow> (string, 'v) dict \<Rightarrow> 'v search_ops \<Rightarrow> 'f results \<Rightarrow> 'f results res" where
  "batch_search h queries searches rs =
     rfold (\<lambda>(i, op, candidates) rs. rbind (search_result h queries op candidates)
       (\<lambda>items. Inr (rs[i := ItemsResult items]))) searches rs"

text \<open>The texts to embed, with the items and the paths they are from.\<close>

type_synonym text_sources = "(string, (namespace \<times> string \<times> string) list) dict"

definition text_names :: "string \<Rightarrow> string list \<Rightarrow> (string \<times> string) list" where
  "text_names path texts = (if length texts > 1
     then map (\<lambda>(i, t). (t, path @ ''.'' @ nat_str i)) (enumerate 0 texts) else map (\<lambda>t. (t, path)) texts)"

definition op_texts ::
  "(string \<times> string list option) list \<Rightarrow> (namespace \<times> string) \<times> (string, val) dict option \<times> index_arg \<Rightarrow> text_sources \<Rightarrow> text_sources res" where
  "op_texts cfg_paths = (\<lambda>((ns, key), v, index) to_embed.
     (case (v, index) of
        (None, _) \<Rightarrow> Inr to_embed
      | (_, NoIndex) \<Rightarrow> Inr to_embed
      | (Some d, _) \<Rightarrow>
          let paths = (case index of IndexPaths ps \<Rightarrow> map (\<lambda>p. (p, Some (tokenize_path p))) ps | _ \<Rightarrow> cfg_paths)
          in rfold (\<lambda>(path, tokens) te. rbind (get_text_at_path (VDict d) tokens)
               (\<lambda>texts. Inr (fold (\<lambda>(t, name) te. dict_append t (ns, key, name) te) (text_names path texts) te))) paths to_embed))"

definition extract_texts :: "('v, 'f) store_host \<Rightarrow> put_ops \<Rightarrow> text_sources res" where
  "extract_texts h puts = (case sh_index h of
       None \<Rightarrow> Inr []
     | Some cfg_paths \<Rightarrow> rfold (op_texts cfg_paths) puts [])"

text \<open>\<open>_insertinmem_store\<close>: one embedding for each source.\<close>

definition set_vector :: "'v \<times> namespace \<times> string \<times> string \<Rightarrow> 'v store \<Rightarrow> 'v store" where
  "set_vector = (\<lambda>(v, ns, key, path) st.
     (let keys = dict_get_or (st_vectors st) ns []
      in st\<lparr>st_vectors := dict_set ns (dict_set key (dict_set path v (dict_get_or keys key [])) keys) (st_vectors st)\<rparr>))"

definition insert_vectors :: "text_sources \<Rightarrow> 'v list \<Rightarrow> 'v store \<Rightarrow> 'v store res" where
  "insert_vectors to_embed embeddings st =
     (let indices = concat (map snd to_embed)
      in if length indices \<noteq> length embeddings then Inl ValueError
         else Inr (fold set_vector (zip embeddings indices) st))"

definition apply_put :: "('v, 'f) store_host \<Rightarrow> (namespace \<times> string) \<times> (string, val) dict option \<times> index_arg \<Rightarrow> 'v store \<Rightarrow> 'v store" where
  "apply_put h = (\<lambda>((ns, key), v, index) st. case v of
       None \<Rightarrow> st\<lparr>st_data := dict_set ns (AList.delete key (dict_get_or (st_data st) ns [])) (st_data st),
                 st_vectors := dict_set ns (AList.delete key (dict_get_or (st_vectors st) ns [])) (st_vectors st)\<rparr>
     | Some d \<Rightarrow>
         let it = \<lparr>it_value = d, it_key = key, it_namespace = ns,
                   it_created_at = sh_time h (st_clock st), it_updated_at = sh_time h (st_clock st + 1)\<rparr>
         in st\<lparr>st_data := dict_set ns (dict_set key it (dict_get_or (st_data st) ns [])) (st_data st), st_clock := st_clock st + 2\<rparr>)"

definition apply_put_ops :: "('v, 'f) store_host \<Rightarrow> put_ops \<Rightarrow> 'v store \<Rightarrow> 'v store" where
  "apply_put_ops h puts st = fold (apply_put h) puts st"

definition embed_puts :: "('v, 'f) store_host \<Rightarrow> put_ops \<Rightarrow> 'v store \<Rightarrow> 'v store res" where
  "embed_puts h puts st =
     rbind (extract_texts h puts) (\<lambda>to_embed.
       if to_embed = [] then Inr st
       else rbind (sh_embed h (dict_keys to_embed)) (\<lambda>embeddings. insert_vectors to_embed embeddings st))"

definition batch :: "('v, 'f :: linorder) store_host \<Rightarrow> store_op list \<Rightarrow> 'v store \<Rightarrow> 'f results res \<times> 'v store" where
  "batch h ops st =
     (case prepare_ops h ops ([], [], []) st of
        (Inl e, st) \<Rightarrow> (Inl e, st)
      | (Inr (rs, puts, searches), st) \<Rightarrow>
          (case rbind (embed_search_queries h searches) (\<lambda>queries. batch_search h queries searches rs) of
             Inl e \<Rightarrow> (Inl e, st)
           | Inr rs \<Rightarrow>
               (case embed_puts h puts st of
                  Inl e \<Rightarrow> (Inl e, st)
                | Inr st \<Rightarrow> (Inr rs, apply_put_ops h puts st))))"

subsection \<open>The methods of \<open>BaseStore\<close>\<close>

definition validate_namespace :: "namespace \<Rightarrow> unit res" where
  "validate_namespace ns =
     (if ns = [] then Inl ValueError
      else if \<exists>label \<in> set ns. CHR ''.'' \<in> set label \<or> label = [] then Inl ValueError
      else if hd ns = ''langgraph'' then Inl ValueError
      else Inr ())"

text \<open>The store has no expiry, hence no configuration for it.\<close>

definition ensure_refresh :: "bool option \<Rightarrow> bool" where
  "ensure_refresh refresh = (case refresh of Some b \<Rightarrow> b | None \<Rightarrow> True)"

definition store_get :: "('v, 'f :: linorder) store_host \<Rightarrow> namespace \<Rightarrow> string \<Rightarrow> bool option \<Rightarrow> 'v store \<Rightarrow> 'f store_result res \<times> 'v store" where
  "store_get h ns key refresh st = (let (r, st) = batch h [GetOp ns key (ensure_refresh refresh)] st in (rbind r (\<lambda>rs. Inr (hd rs)), st))"

definition store_search :: "('v, 'f :: linorder) store_host \<Rightarrow> search_args \<Rightarrow> 'v store \<Rightarrow> 'f store_result res \<times> 'v store" where
  "store_search h op st = (let (r, st) = batch h [SearchOp op] st in (rbind r (\<lambda>rs. Inr (hd rs)), st))"

text \<open>The store does not support expiry: \<open>ttl\<close> says whether one is given.\<close>

definition store_put ::
  "('v, 'f :: linorder) store_host \<Rightarrow> namespace \<Rightarrow> string \<Rightarrow> (string, val) dict \<Rightarrow> index_arg \<Rightarrow> bool \<Rightarrow> 'v store \<Rightarrow> unit res \<times> 'v store" where
  "store_put h ns key v index ttl st =
     (case validate_namespace ns of
        Inl e \<Rightarrow> (Inl e, st)
      | Inr _ \<Rightarrow> if ttl then (Inl NotImplementedError, st)
          else let (r, st) = batch h [PutOp ns key (Some v) index] st in (rbind r (\<lambda>_. Inr ()), st))"

definition store_delete :: "('v, 'f :: linorder) store_host \<Rightarrow> namespace \<Rightarrow> string \<Rightarrow> 'v store \<Rightarrow> unit res \<times> 'v store" where
  "store_delete h ns key st = (let (r, st) = batch h [PutOp ns key None DefaultIndex] st in (rbind r (\<lambda>_. Inr ()), st))"

definition store_list_namespaces ::
  "('v, 'f :: linorder) store_host \<Rightarrow> namespace option \<Rightarrow> namespace option \<Rightarrow> int option \<Rightarrow> int \<Rightarrow> int \<Rightarrow> 'v store \<Rightarrow>
     'f store_result res \<times> 'v store" where
  "store_list_namespaces h prefix suffix max_depth limit offset st =
     (let conditions = (case prefix of Some (p # ps) \<Rightarrow> [(''prefix'', p # ps)] | _ \<Rightarrow> [])
            @ (case suffix of Some (p # ps) \<Rightarrow> [(''suffix'', p # ps)] | _ \<Rightarrow> []);
          (r, st) = batch h [ListNamespacesOp (Some conditions) max_depth limit offset] st
      in (rbind r (\<lambda>rs. Inr (hd rs)), st))"

end
