(* ===== verification/Store_Props.thy ===== *)
theory Store_Props
  imports Store_Memory
begin

section \<open>Properties of the in-memory store\<close>

text \<open>
  The abstract store is a map from namespaces and keys to values. A batch reads from the store as it
  was and then applies its puts in order, the last put of a key wins. Search results are ranked. The
  defects are lemmas at the end.
\<close>

subsection \<open>The abstract store\<close>

definition item_at :: "'v store \<Rightarrow> namespace \<times> string \<Rightarrow> item option" where
  "item_at st = (\<lambda>(ns, key). dict_get (dict_get_or (st_data st) ns []) key)"

definition store_abs :: "'v store \<Rightarrow> namespace \<times> string \<Rightarrow> (string, val) dict option" where
  "store_abs st p = map_option it_value (item_at st p)"

fun abs_step :: "store_op \<Rightarrow> (namespace \<times> string \<Rightarrow> (string, val) dict option) \<Rightarrow> (namespace \<times> string \<Rightarrow> (string, val) dict option)" where
  "abs_step (PutOp ns key v index) m = m((ns, key) := v)"
| "abs_step _ m = m"

text \<open>What the results of a batch are; a search sees the store before the batch.\<close>

fun answers :: "('v, 'f :: linorder) store_host \<Rightarrow> (string, 'v) dict \<Rightarrow> 'v store \<Rightarrow> store_op \<Rightarrow> 'f store_result \<Rightarrow> bool" where
  "answers h queries st (GetOp ns key refresh) r = (r = (case item_at st (ns, key) of Some it \<Rightarrow> ItemResult it | None \<Rightarrow> NoResult))"
| "answers h queries st (PutOp ns key v index) r = (r = NoResult)"
| "answers h queries st (SearchOp op) r =
     (Inr r = rbind (filter_items h st op) (\<lambda>cs. rbind (search_result h queries op cs) (\<lambda>items. Inr (ItemsResult items))))"
| "answers h queries st (ListNamespacesOp cs depth limit offset) r = (\<exists>nss. r = NamespacesResult nss)"

subsection \<open>Preparation\<close>

lemma dict_set_new: "dict_get d k = None \<Longrightarrow> dict_set k v d = d @ [(k, v)]"
  by (induction d) auto

lemma touch_known: "in_dict ns (st_data st) \<Longrightarrow> touch ns st = st"
  by (auto simp: touch_def dict_get_or_def dict_set_same)

lemma touch_frame [simp]:
  "item_at (touch ns st) = item_at st" "st_vectors (touch ns st) = st_vectors st" "st_clock (touch ns st) = st_clock st"
  by (auto simp: touch_def item_at_def fun_eq_iff dict_get_or_def)

lemma touch_filter: "filter_items h (touch ns st) = filter_items h st"
proof (cases "in_dict ns (st_data st)")
  case False
  then have d: "st_data (touch ns st) = st_data st @ [(ns, [])]" by (simp add: touch_def dict_get_or_def dict_set_new)
  have v: "item_vectors (touch ns st) = item_vectors st" by (simp add: fun_eq_iff item_vectors_def)
  show ?thesis by (rule ext) (unfold filter_items_def d v, simp)
qed (simp add: touch_known)

fun put_of :: "store_op \<Rightarrow> put_ops \<Rightarrow> put_ops" where
  "put_of (PutOp ns key v index) puts = dict_set (ns, key) (v, index) puts"
| "put_of _ puts = puts"

lemma prepare_frame:
  "prepare_ops h ops acc st = (r, st') \<Longrightarrow> item_at st' = item_at st \<and> st_vectors st' = st_vectors st \<and> st_clock st' = st_clock st
     \<and> filter_items h st' = filter_items h st"
  by (induction h ops acc st rule: prepare_ops.induct) (auto simp: Let_def touch_filter split: sum.split_asm)

lemma answers_cong:
  "item_at st' = item_at st \<Longrightarrow> filter_items h st' = filter_items h st \<Longrightarrow> answers h queries st' = answers h queries st"
proof (intro ext)
  fix op r assume "item_at st' = item_at st" "filter_items h st' = filter_items h st"
  then show "answers h queries st' op r = answers h queries st op r" by (cases op) simp_all
qed

lemma batch_search_Cons:
  "batch_search h queries ((i, op, cs) # ss) rs =
     rbind (search_result h queries op cs) (\<lambda>items. batch_search h queries ss (rs[i := ItemsResult items]))"
  by (simp add: batch_search_def rbind_assoc)

lemma batch_search_append:
  "batch_search h queries (ss @ ss') rs = rbind (batch_search h queries ss rs) (batch_search h queries ss')"
  by (simp add: batch_search_def [abs_def] rfold_append)

lemma batch_search_later:
  "\<forall>(i, op, cs) \<in> set ss. i < length rs \<Longrightarrow>
     batch_search h queries ss (rs @ xs) = rbind (batch_search h queries ss rs) (\<lambda>rs. Inr (rs @ xs))"
proof (induction ss arbitrary: rs)
  case (Cons s ss)
  obtain i op cs where s: "s = (i, op, cs)" by (cases s)
  then show ?case
    using Cons.IH [of "rs[i := ItemsResult items]" for items] Cons.prems
    by (cases "search_result h queries op cs") (auto simp: batch_search_Cons list_update_append)
qed (simp add: batch_search_def)

lemma batch_search_length: "batch_search h queries ss rs = Inr rs' \<Longrightarrow> length rs' = length rs"
  by (induction ss arbitrary: rs) (auto simp: batch_search_Cons rbind_Inr_iff, simp add: batch_search_def)

lemma prepare_results:
  assumes "prepare_ops h ops (rs, puts, ss) st = (Inr (rs', puts', ss'), st')" and "\<forall>(i, op, cs) \<in> set ss. i < length rs"
    and "batch_search h queries ss' rs' = Inr fin"
  shows "puts' = fold put_of ops puts \<and> (\<exists>fin0 ms. batch_search h queries ss rs = Inr fin0 \<and> fin = fin0 @ ms
     \<and> list_all2 (answers h queries st) ops ms)"
  using assms
proof (induction ops arbitrary: rs puts ss st)
  case Nil
  then show ?case by auto
next
  case (Cons op ops)
  have step: ?case
    if p: "prepare_ops h ops (rs @ [x], puts1, ss) st1 = (Inr (rs', puts', ss'), st')" "puts1 = put_of op puts"
      "item_at st1 = item_at st" "filter_items h st1 = filter_items h st" "answers h queries st op x" for x puts1 st1
  proof -
    have later: "\<forall>(i, op, cs) \<in> set ss. i < length (rs @ [x])" using Cons.prems(2) by auto
    from Cons.IH [OF p(1) later Cons.prems(3)] obtain fin0 ms where f: "puts' = fold put_of ops puts1"
      "batch_search h queries ss (rs @ [x]) = Inr fin0" "fin = fin0 @ ms" "list_all2 (answers h queries st1) ops ms" by blast
    obtain fin1 where fin1: "batch_search h queries ss rs = Inr fin1" "fin0 = fin1 @ [x]"
      using f(2) unfolding batch_search_later [OF Cons.prems(2)] by (auto simp: rbind_Inr_iff)
    have "list_all2 (answers h queries st) (op # ops) (x # ms)" using f(4) p(5) unfolding answers_cong [OF p(3,4)] by simp
    then show ?thesis using f(1,3) fin1 p(2) by (intro conjI exI [of _ fin1] exI [of _ "x # ms"]) simp_all
  qed
  show ?case
  proof (cases op)
    case (GetOp ns key refresh)
    have "item_at (touch ns st) (ns, key) = dict_get (dict_get_or (st_data (touch ns st)) ns []) key" by (simp add: item_at_def)
    then have g: "dict_get (dict_get_or (st_data (touch ns st)) ns []) key = item_at st (ns, key)" by simp
    show ?thesis
      by (rule step [of "case item_at st (ns, key) of Some it \<Rightarrow> ItemResult it | None \<Rightarrow> NoResult" puts "touch ns st"])
        (use Cons.prems(1) GetOp in \<open>simp_all add: Let_def g touch_filter\<close>)
  next
    case (PutOp ns key v index)
    with Cons.prems(1) show ?thesis by (intro step [of NoResult "dict_set (ns, key) (v, index) puts" st]) simp_all
  next
    case (ListNamespacesOp cs depth limit offset)
    with Cons.prems(1) obtain nss where "prepare_ops h ops (rs @ [NamespacesResult nss], puts, ss) st = (Inr (rs', puts', ss'), st')"
      by (auto split: sum.split_asm)
    then show ?thesis by (rule step) (simp_all add: ListNamespacesOp)
  next
    case (SearchOp a)
    with Cons.prems(1) obtain cs where cs: "filter_items h st a = Inr cs"
      "prepare_ops h ops (rs @ [NoResult], puts, ss @ [(length rs, a, cs)]) st = (Inr (rs', puts', ss'), st')"
      by (auto split: sum.split_asm)
    have later: "\<forall>(i, op, cs) \<in> set (ss @ [(length rs, a, cs)]). i < length (rs @ [NoResult])" using Cons.prems(2) by auto
    from Cons.IH [OF cs(2) later Cons.prems(3)] obtain fin0 ms where f: "puts' = fold put_of ops puts"
      "batch_search h queries (ss @ [(length rs, a, cs)]) (rs @ [NoResult]) = Inr fin0" "fin = fin0 @ ms"
      "list_all2 (answers h queries st) ops ms" by blast
    then obtain fin1 items where r: "batch_search h queries ss rs = Inr fin1" "search_result h queries a cs = Inr items"
      "fin0 = (fin1 @ [NoResult])[length rs := ItemsResult items]"
      by (auto simp: batch_search_append batch_search_later [OF Cons.prems(2)] rbind_Inr_iff batch_search_Cons) (auto simp: batch_search_def)
    then have "fin0 = fin1 @ [ItemsResult items]" using batch_search_length [OF r(1)] by (simp add: list_update_append)
    moreover have "answers h queries st op (ItemsResult items)" by (simp add: SearchOp cs(1) r(2))
    ultimately show ?thesis using f(1,3,4) r(1) SearchOp
      by (intro conjI exI [of _ fin1] exI [of _ "ItemsResult items # ms"]) simp_all
  qed
qed

subsection \<open>Puts\<close>

lemma item_at_set:
  "item_at (st\<lparr>st_data := dict_set ns items (st_data st)\<rparr>) = (\<lambda>(ns', key). if ns' = ns then dict_get items key else item_at st (ns', key))"
  by (auto simp: item_at_def fun_eq_iff)

lemma apply_put_abs: "store_abs (apply_put h ((ns, key), v, index) st) = (store_abs st)((ns, key) := v)"
  by (auto simp: fun_eq_iff store_abs_def apply_put_def item_at_def Let_def delete_conv' split: option.split)

lemma apply_put_item:
  "item_at (apply_put h ((ns, key), v, index) st) = (item_at st)((ns, key) := map_option (\<lambda>d. \<lparr>it_value = d, it_key = key,
     it_namespace = ns, it_created_at = sh_time h (st_clock st), it_updated_at = sh_time h (st_clock st + 1)\<rparr>) v)"
  by (auto simp: fun_eq_iff apply_put_def item_at_def Let_def delete_conv' split: option.split)

lemma apply_puts_abs:
  "wf_dict puts \<Longrightarrow> store_abs (apply_put_ops h puts st) = (\<lambda>p. case dict_get puts p of Some (v, index) \<Rightarrow> v | None \<Rightarrow> store_abs st p)"
proof (induction puts arbitrary: st)
  case (Cons x puts)
  obtain ns key v index where x: "x = ((ns, key), v, index)" by (cases x) auto
  have "dict_get puts (ns, key) = None" using Cons.prems x by (simp add: map_of_eq_None_iff)
  then show ?case using Cons by (auto simp: apply_put_ops_def x fun_eq_iff apply_put_abs split: option.split)
qed (simp add: apply_put_ops_def)

lemma put_of_wf: "wf_dict puts \<Longrightarrow> wf_dict (fold put_of ops puts)"
proof (induction ops arbitrary: puts)
  case (Cons op ops)
  then show ?case by (cases op) (simp_all add: wf_dict_set)
qed simp

lemma put_of_abs:
  "(\<lambda>p. case dict_get (fold put_of ops puts) p of Some (v, index) \<Rightarrow> v | None \<Rightarrow> m p)
     = fold abs_step ops (\<lambda>p. case dict_get puts p of Some (v, index) \<Rightarrow> v | None \<Rightarrow> m p)"
proof (induction ops arbitrary: puts)
  case (Cons op ops)
  show ?case
  proof (cases op)
    case (PutOp ns key v index)
    have "(\<lambda>p. case dict_get (dict_set (ns, key) (v, index) puts) p of Some (v, index) \<Rightarrow> v | None \<Rightarrow> m p)
        = (\<lambda>p. case dict_get puts p of Some (v, index) \<Rightarrow> v | None \<Rightarrow> m p)((ns, key) := v)" by (auto simp: fun_eq_iff)
    then show ?thesis using Cons.IH [of "dict_set (ns, key) (v, index) puts"] PutOp by simp
  qed (use Cons.IH [of puts] in simp_all)
qed simp

lemma insert_vectors_data:
  "insert_vectors te es st = Inr st' \<Longrightarrow> st_data st' = st_data st \<and> st_clock st' = st_clock st"
proof -
  have "st_data (fold set_vector xs st) = st_data st \<and> st_clock (fold set_vector xs st) = st_clock st" for xs :: "('a \<times> namespace \<times> string \<times> string) list"
    by (induction xs arbitrary: st) (simp_all add: set_vector_def Let_def split: prod.split)
  then show "insert_vectors te es st = Inr st' \<Longrightarrow> ?thesis" by (auto simp: insert_vectors_def Let_def split: if_split_asm)
qed

lemma embed_puts_data: "embed_puts h puts st = Inr st' \<Longrightarrow> item_at st' = item_at st \<and> st_clock st' = st_clock st"
  by (auto simp: embed_puts_def rbind_Inr_iff item_at_def dest: insert_vectors_data split: if_split_asm)

text \<open>The parts of a batch that returns.\<close>

lemma batch_Inr:
  assumes "batch h ops st = (Inr rs, st')"
  obtains rs0 ss st1 st2 queries where "prepare_ops h ops ([], [], []) st = (Inr (rs0, fold put_of ops [], ss), st1)"
    "embed_search_queries h ss = Inr queries" "list_all2 (answers h queries st) ops rs"
    "embed_puts h (fold put_of ops []) st1 = Inr st2" "st' = apply_put_ops h (fold put_of ops []) st2"
proof -
  from assms obtain rs0 puts ss st1 st2 queries where p: "prepare_ops h ops ([], [], []) st = (Inr (rs0, puts, ss), st1)"
    and q: "embed_search_queries h ss = Inr queries" and b: "batch_search h queries ss rs0 = Inr rs"
    and e: "embed_puts h puts st1 = Inr st2" and st': "st' = apply_put_ops h puts st2"
    by (auto simp: batch_def rbind_Inr_iff split: prod.split_asm sum.split_asm)
  from prepare_results [OF p _ b] have "puts = fold put_of ops []" "list_all2 (answers h queries st) ops rs"
    by (auto simp: batch_search_def)
  then show ?thesis using that p q e st' by blast
qed

lemma batch_items:
  assumes "batch h ops st = (Inr rs, st')"
  shows "store_abs st' = fold abs_step ops (store_abs st)"
proof -
  obtain rs0 ss st1 st2 queries where p: "prepare_ops h ops ([], [], []) st = (Inr (rs0, fold put_of ops [], ss), st1)"
    and e: "embed_puts h (fold put_of ops []) st1 = Inr st2" and st': "st' = apply_put_ops h (fold put_of ops []) st2"
    by (rule batch_Inr [OF assms])
  have same: "store_abs st2 = store_abs st" using prepare_frame [OF p] embed_puts_data [OF e] by (simp add: fun_eq_iff store_abs_def)
  then show ?thesis
    unfolding st' apply_puts_abs [OF put_of_wf [where puts = "[]", simplified]] same
    using put_of_abs [where puts = "[]" and m = "store_abs st"] by simp
qed

text \<open>A batch that raises changes no item.\<close>

lemma batch_raises:
  assumes "batch h ops st = (Inl e, st')"
  shows "item_at st' = item_at st" "st_vectors st' = st_vectors st"
  using assms by (auto simp: batch_def dest: prepare_frame split: prod.split_asm sum.split_asm)

text \<open>
  C30: A batch is one atomic step on the map of values: its reads and searches see the store before
  the batch, whatever the order of the operations, and its puts are applied as if one after the
  other, so that the last put of a key wins. (Of the listing of namespaces it says nothing.)
\<close>

theorem batch_refines:
  assumes "batch h ops st = (Inr rs, st')"
  shows "store_abs st' = fold abs_step ops (store_abs st) \<and> (\<exists>queries. list_all2 (answers h queries st) ops rs)"
  using batch_items [OF assms] batch_Inr [OF assms] by blast

text \<open>An example with embeddings: the texts' lengths, and their distance.\<close>

definition sx_host :: "(nat, int) store_host" where
  "sx_host = \<lparr>sh_index = Some [(''a'', Some [''a'']), (''b'', Some [''b''])], sh_embed = (\<lambda>ts. Inr (map length ts)),
     sh_embed_query = (\<lambda>q. Inr (length q)), sh_cosine = (\<lambda>x y. - \<bar>int x - int y\<bar>),
     sh_float = (\<lambda>v. case v of VInt i \<Rightarrow> Inr i | _ \<Rightarrow> Inl TypeError), sh_time = (\<lambda>n. n)\<rparr>"

definition sx_ops :: "store_op list" where
  "sx_ops = [PutOp [''n''] ''k'' (Some [(''a'', VStr ''xx''), (''b'', VStr ''yyyy'')]) DefaultIndex,
     GetOp [''n''] ''k'' True, PutOp [''n''] ''l'' (Some [(''a'', VStr ''xxxxxx'')]) DefaultIndex,
     PutOp [''m''] ''z'' (Some [(''c'', VInt 5)]) NoIndex, PutOp [''n''] ''l'' (Some [(''a'', VStr ''xxxxx'')]) DefaultIndex]"

definition sx_store :: "nat store" where
  "sx_store = snd (batch sx_host sx_ops store_init)"

lemma sx_batch: "batch sx_host sx_ops store_init = (Inr (replicate 5 NoResult), sx_store)"
proof -
  have "fst (batch sx_host sx_ops store_init) = Inr (replicate 5 NoResult)" by code_simp
  then show ?thesis by (simp add: sx_store_def prod_eq_iff)
qed

theorem batch_refines_witness:
  "store_abs sx_store ([''n''], ''l'') = Some [(''a'', VStr ''xxxxx'')] \<and> store_abs sx_store ([''n''], ''x'') = None"
proof -
  have e: "store_abs (store_init :: nat store) p = None" for p by (simp add: store_abs_def item_at_def store_init_def split: prod.split)
  have "store_abs sx_store = fold abs_step sx_ops (store_abs (store_init :: nat store))" by (rule conjunct1 [OF batch_refines [OF sx_batch]])
  then show ?thesis by (simp add: sx_ops_def e)
qed

subsection \<open>Items are stored under their names\<close>

definition store_ok :: "'v store \<Rightarrow> bool" where
  "store_ok st \<longleftrightarrow> wf_dict (st_data st) \<and> (\<forall>(ns, items) \<in> set (st_data st). wf_dict items
     \<and> (\<forall>(key, it) \<in> set items. item_id it = (ns, key)))"

lemma store_okD:
  assumes "store_ok st"
  shows "wf_dict (st_data st)" "wf_dict (dict_get_or (st_data st) ns [])"
    "(key, it) \<in> set (dict_get_or (st_data st) ns []) \<Longrightarrow> item_id it = (ns, key)"
proof -
  show "wf_dict (st_data st)" using assms by (simp add: store_ok_def)
  have items: "wf_dict items \<and> (\<forall>(key, it) \<in> set items. item_id it = (ns, key))" if "dict_get (st_data st) ns = Some items" for items
    using map_of_SomeD [OF that] assms unfolding store_ok_def by blast
  then show "wf_dict (dict_get_or (st_data st) ns [])" by (auto simp: dict_get_or_def split: option.split)
  show "(key, it) \<in> set (dict_get_or (st_data st) ns []) \<Longrightarrow> item_id it = (ns, key)"
    using items by (cases "dict_get (st_data st) ns") (auto simp: dict_get_or_def)
qed

lemma store_ok_data: "st_data st' = st_data st \<Longrightarrow> store_ok st \<Longrightarrow> store_ok st'"
  by (simp add: store_ok_def)

lemma deleted_in: "x \<in> set (AList.delete k d) \<Longrightarrow> x \<in> set d"
  by (induction d) (auto split: if_split_asm)

lemma store_ok_set:
  assumes "store_ok st" "wf_dict items" "\<And>key it. (key, it) \<in> set items \<Longrightarrow> item_id it = (ns, key)"
    "st_data st' = dict_set ns items (st_data st)"
  shows "store_ok st'"
  using assms by (auto simp: store_ok_def wf_dict_set dest!: in_dict_setD)

lemma store_ok_touch: "store_ok st \<Longrightarrow> store_ok (touch ns st)"
  by (rule store_ok_set [where ns = ns]) (simp_all add: touch_def store_okD)

lemma store_ok_put: "store_ok st \<Longrightarrow> store_ok (apply_put h ((ns, key), v, index) st)"
proof (cases v)
  case None
  assume ok: "store_ok st"
  then show ?thesis
    by (rule store_ok_set [where ns = ns and items = "AList.delete key (dict_get_or (st_data st) ns [])"])
      (auto simp: apply_put_def None distinct_delete store_okD(2) [OF ok] dest!: deleted_in dest: store_okD(3) [OF ok])
next
  case (Some d)
  assume ok: "store_ok st"
  then show ?thesis
    by (rule store_ok_set [where ns = ns]) (auto simp: apply_put_def Let_def Some item_id_def intro!: wf_dict_set store_okD(2) [OF ok] dest!: in_dict_setD
        dest: store_okD(3) [OF ok, unfolded item_id_def])
qed

lemma store_ok_puts: "store_ok st \<Longrightarrow> store_ok (apply_put_ops h puts st)"
  unfolding apply_put_ops_def
proof (induction puts arbitrary: st)
  case (Cons x puts)
  then show ?case using store_ok_put [of st h "fst (fst x)" "snd (fst x)" "fst (snd x)" "snd (snd x)"] by simp
qed simp

lemma store_ok_prepare: "prepare_ops h ops acc st = (r, st') \<Longrightarrow> store_ok st \<Longrightarrow> store_ok st'"
  by (induction h ops acc st rule: prepare_ops.induct) (auto simp: Let_def store_ok_touch split: sum.split_asm)

lemma store_ok_batch:
  assumes "store_ok st" "batch h ops st = (r, st')"
  shows "store_ok st'"
proof -
  have embed: "store_ok st2" if "embed_puts h puts st1 = Inr st2" "store_ok st1" for puts st1 st2
    using that by (auto simp: embed_puts_def rbind_Inr_iff dest: insert_vectors_data intro: store_ok_data split: if_split_asm)
  show ?thesis
    using assms by (auto simp: batch_def dest: store_ok_prepare embed intro!: store_ok_puts split: prod.split_asm sum.split_asm)
qed

text \<open>The stores that batches make.\<close>

inductive stored :: "('v, 'f :: linorder) store_host \<Rightarrow> 'v store \<Rightarrow> bool" for h where
  stored_init: "stored h store_init"
| stored_batch: "stored h st \<Longrightarrow> batch h ops st = (r, st') \<Longrightarrow> stored h st'"

lemma stored_ok: "stored h st \<Longrightarrow> store_ok st"
  by (induction rule: stored.induct) (simp add: store_ok_def store_init_def, blast intro: store_ok_batch)

subsection \<open>Ranking\<close>

lemma res_filter_filter: "res_filter f xs = Inr ys \<Longrightarrow> ys = filter (\<lambda>x. f x = Inr True) xs"
  by (induction xs arbitrary: ys) (auto simp: rbind_Inr_iff)

lemma entries_distinct:
  "wf_dict data \<Longrightarrow> (\<forall>(ns, items) \<in> set data. wf_dict items) \<Longrightarrow>
   distinct (map (\<lambda>(ns, key, it). (ns, key)) (concat (map (\<lambda>(ns, items). map (\<lambda>(key, it). (ns, key, it)) items) (filter P data))))"
proof (induction data)
  case (Cons x data)
  obtain ns items where x: "x = (ns, items)" by (cases x)
  have "distinct (map (\<lambda>(key, it). (ns, key)) items)"
    using Cons.prems(2) x by (auto simp: distinct_map inj_on_def split_def)
  then show ?case using Cons x by (force simp: split_def comp_def)
qed simp

lemma filter_items_distinct:
  assumes "store_ok st" "filter_items h st op = Inr candidates"
  shows "distinct (map (item_id \<circ> fst) candidates)"
proof -
  define entries where "entries = concat (map (\<lambda>(ns, items). map (\<lambda>(key, it). (ns, key, it)) items)
      (filter (\<lambda>(ns, _). in_prefix (sa_prefix op) ns) (st_data st)))"
  from assms(2) obtain es where es: "res_filter (\<lambda>(_, _, it). filter_func h op it) entries = Inr es"
    "candidates = map (\<lambda>(ns, key, it). (it, if has_query op then item_vectors st ns key else [])) es"
    by (auto simp: filter_items_def Let_def entries_def rbind_Inr_iff)
  have "set es \<subseteq> set entries" using res_filter_filter [OF es(1)] by auto
  then have "item_id it = (ns, key)" if "(ns, key, it) \<in> set es" for ns key it
    using that assms(1) by (fastforce simp: entries_def store_ok_def)
  then have "map (item_id \<circ> fst) candidates = map (\<lambda>(ns, key, it). (ns, key)) es"
    unfolding es(2) by (auto simp: fun_eq_iff)
  moreover have "distinct (map (\<lambda>(ns, key, it). (ns, key)) entries)"
    unfolding entries_def by (rule entries_distinct) (use assms(1) in \<open>auto simp: store_ok_def\<close>)
  ultimately show ?thesis using res_filter_filter [OF es(1)] by (simp add: distinct_map_filter)
qed

text \<open>The first entry of each item, not counting those seen.\<close>

fun firsts :: "(namespace \<times> string) list \<Rightarrow> ('f \<times> item) list \<Rightarrow> ('f \<times> item) list" where
  "firsts seen [] = []"
| "firsts seen ((s, it) # xs) = (if item_id it \<in> set seen then firsts seen xs else (s, it) # firsts (item_id it # seen) xs)"

lemma max_pool_firsts:
  "0 \<le> offset \<Longrightarrow> 0 \<le> limit \<Longrightarrow>
   max_pool offset limit seen xs = take (nat (offset + limit) - max (nat offset) (length seen)) (drop (nat offset - length seen) (firsts seen xs))"
proof (induction offset limit seen xs rule: max_pool.induct)
  case (2 offset limit seen s it xs)
  consider "item_id it \<in> set seen" | "item_id it \<notin> set seen" "int (length seen) \<ge> offset + limit"
    | "item_id it \<notin> set seen" "int (length seen) < offset + limit" "int (length seen) < offset"
    | "item_id it \<notin> set seen" "int (length seen) < offset + limit" "offset \<le> int (length seen)" by linarith
  then show ?case
  proof cases
    case 1
    then show ?thesis using "2.IH"(1) "2.prems" by simp
  next
    case 2
    then have "nat (offset + limit) \<le> length seen" by linarith
    then show ?thesis using 2 by simp
  next
    case 3
    then have "nat offset - length seen = Suc (nat offset - Suc (length seen))"
      "max (nat offset) (length seen) = max (nat offset) (Suc (length seen))" by linarith+
    then show ?thesis using 3 "2.IH"(2) "2.prems" by simp
  next
    case 4
    then have "nat offset - length seen = 0" "nat offset - Suc (length seen) = 0" "max (nat offset) (length seen) = length seen"
      "max (nat offset) (Suc (length seen)) = Suc (length seen)"
      "nat (offset + limit) - length seen = Suc (nat (offset + limit) - Suc (length seen))" by linarith+
    then show ?thesis using 4 "2.IH"(3) "2.prems" by simp
  qed
qed simp

lemma firsts_set: "set (firsts seen xs) \<subseteq> set xs"
  by (induction seen xs rule: firsts.induct) auto

lemma firsts_fresh: "x \<in> set (firsts seen xs) \<Longrightarrow> item_id (snd x) \<notin> set seen"
  by (induction seen xs rule: firsts.induct) (auto split: if_split_asm)

lemma firsts_distinct: "distinct (map (item_id \<circ> snd) (firsts seen xs))"
  by (induction seen xs rule: firsts.induct) (auto dest: firsts_fresh)

lemma firsts_sorted: "sorted_wrt (\<lambda>x y. fst y \<le> fst x) xs \<Longrightarrow> sorted_wrt (\<lambda>x y. fst y \<le> fst x) (firsts seen xs)"
  by (induction seen xs rule: firsts.induct) (use firsts_set in \<open>auto 4 3\<close>)

lemma firsts_covers: "x \<in> set xs \<Longrightarrow> item_id (snd x) \<notin> set seen \<Longrightarrow> \<exists>y \<in> set (firsts seen xs). item_id (snd y) = item_id (snd x)"
proof (induction seen xs rule: firsts.induct)
  case (2 seen s it xs)
  then show ?case by (cases "item_id (snd x) = item_id it") auto
qed simp

lemma firsts_best:
  fixes xs :: "('f :: linorder \<times> item) list"
  shows "sorted_wrt (\<lambda>x y. fst y \<le> fst x) xs \<Longrightarrow> y \<in> set (firsts seen xs) \<Longrightarrow> x \<in> set xs \<Longrightarrow> item_id (snd x) = item_id (snd y)
   \<Longrightarrow> fst x \<le> fst y"
  by (induction seen xs rule: firsts.induct) (auto split: if_split_asm dest: firsts_fresh)

lemma sorted_reverse_set [simp]: "set (sorted_reverse xs) = set xs"
  by (simp add: sorted_reverse_def)

lemma sorted_reverse_sorted: "sorted_wrt (\<lambda>x y. fst y \<le> fst x) (sorted_reverse xs)"
  using sorted_sort_key [of fst "rev xs"] by (simp add: sorted_reverse_def sorted_wrt_rev sorted_map)

definition ranking :: "('v, 'f :: linorder) store_host \<Rightarrow> 'v \<Rightarrow> (item \<times> 'v list) list \<Rightarrow> ('f \<times> item) list" where
  "ranking h query candidates =
     firsts [] (sorted_reverse (concat (map (\<lambda>(it, vectors). map (\<lambda>v. (sh_cosine h query v, it)) vectors) candidates)))"

lemma ranking_best:
  assumes "distinct (map (item_id \<circ> fst) candidates)"
  shows "(s, it) \<in> set (ranking h q candidates) \<longleftrightarrow>
    (\<exists>vs. (it, vs) \<in> set candidates \<and> vs \<noteq> [] \<and> s = Max (set (map (sh_cosine h q) vs)))"
proof -
  define flat where "flat = concat (map (\<lambda>(it, vectors). map (\<lambda>v. (sh_cosine h q v, it)) vectors) candidates)"
  have flat: "(s, it) \<in> set flat \<longleftrightarrow> (\<exists>vs. (it, vs) \<in> set candidates \<and> s \<in> sh_cosine h q ` set vs)" for s it
    by (force simp: flat_def)
  have same: "it' = it \<and> vs' = vs" if "(it, vs) \<in> set candidates" "(it', vs') \<in> set candidates" "item_id it' = item_id it" for it vs it' vs'
    using assms that by (auto simp: distinct_map inj_on_def) (metis fst_conv snd_conv prod.inject)+
  have mem: "\<exists>vs. (it, vs) \<in> set candidates \<and> vs \<noteq> [] \<and> s = Max (set (map (sh_cosine h q) vs))"
    if r: "(s, it) \<in> set (ranking h q candidates)" for s it
  proof -
    have r': "(s, it) \<in> set (firsts [] (sorted_reverse flat))" using r by (simp add: ranking_def flat_def)
    then have "(s, it) \<in> set flat" using firsts_set [of "[]" "sorted_reverse flat"] by auto
    then obtain vs where vs: "(it, vs) \<in> set candidates" "s \<in> sh_cosine h q ` set vs" unfolding flat by blast
    have "t \<le> s" if "t \<in> sh_cosine h q ` set vs" for t
      using firsts_best [OF sorted_reverse_sorted r', of "(t, it)"] that vs(1) flat [of t it] by auto
    then have "s = Max (set (map (sh_cosine h q) vs))" using vs(2) by (intro Max_eqI [symmetric]) auto
    with vs show ?thesis by auto
  qed
  show ?thesis
  proof
    assume "\<exists>vs. (it, vs) \<in> set candidates \<and> vs \<noteq> [] \<and> s = Max (set (map (sh_cosine h q) vs))"
    then obtain vs where vs: "(it, vs) \<in> set candidates" "vs \<noteq> []" "s = Max (set (map (sh_cosine h q) vs))" by blast
    then obtain v where "v \<in> set vs" by (cases vs) auto
    then have "(sh_cosine h q v, it) \<in> set (sorted_reverse flat)" using flat vs(1) by auto
    from firsts_covers [OF this, of "[]"] obtain t it' where t: "(t, it') \<in> set (ranking h q candidates)" "item_id it' = item_id it"
      by (auto simp: ranking_def flat_def)
    from mem [OF t(1)] obtain vs' where vs': "(it', vs') \<in> set candidates" "t = Max (set (map (sh_cosine h q) vs'))" by blast
    from same [OF vs(1) vs'(1) t(2)] vs(3) vs'(2) t(1) show "(s, it) \<in> set (ranking h q candidates)" by simp
  qed (rule mem)
qed

lemma py_slice_pos: "0 \<le> a \<Longrightarrow> 0 \<le> b \<Longrightarrow> py_slice xs a (a + b) = take (nat b) (drop (nat a) xs)"
proof -
  assume "0 \<le> a" "0 \<le> b"
  then have "slice_bound xs (a + b) = min (length xs) (nat a + nat b)" "slice_bound xs a = min (length xs) (nat a)"
    by (auto simp: slice_bound_def)
  then show ?thesis by (cases "nat a \<le> length xs") (auto simp: py_slice_def min_def)
qed

lemma rank_parts:
  assumes "0 \<le> sa_offset op" "0 \<le> sa_limit op"
  shows "rank h op q candidates = (let kept = map (\<lambda>(s, it). (it, Some s)) (take (nat (sa_limit op)) (drop (nat (sa_offset op)) (ranking h q candidates)))
     in kept @ map (\<lambda>it. (it, None)) (take (nat (sa_limit op) - length kept) (map fst (filter (\<lambda>(_, vs). vs = []) candidates))))"
proof -
  let ?flat = "concat (map (\<lambda>(it, vectors). map (\<lambda>v. (sh_cosine h q v, it)) vectors) candidates)"
  let ?kept = "map (\<lambda>(s, it). (it, Some s)) (take (nat (sa_limit op)) (drop (nat (sa_offset op)) (ranking h q candidates)))"
  let ?less = "map fst (filter (\<lambda>(_, vs). vs = []) candidates)"
  have pool: "map (\<lambda>(s, it). (it, Some s)) (max_pool (sa_offset op) (sa_limit op) [] (sorted_reverse ?flat)) = ?kept"
    using max_pool_firsts [OF assms, of "[]" "sorted_reverse ?flat"] assms by (simp add: ranking_def nat_add_distrib)
  have len: "length ?kept \<le> nat (sa_limit op)" by simp
  have "py_slice ?less 0 (sa_limit op - int (length ?kept)) = take (nat (sa_limit op) - length ?kept) ?less"
    if "int (length ?kept) < sa_limit op"
    using py_slice_pos [of 0 "sa_limit op - int (length ?kept)" ?less] that by (simp add: nat_diff_distrib)
  moreover have "take (nat (sa_limit op) - length ?kept) ?less = []" if "\<not> (?less \<noteq> [] \<and> int (length ?kept) < sa_limit op)"
    using that assms len by (cases "?less = []") (auto simp: nat_le_iff)
  ultimately show ?thesis unfolding rank_def Let_def pool by (cases "?less \<noteq> [] \<and> int (length ?kept) < sa_limit op") auto
qed

subsection \<open>Searching\<close>

definition found :: "('v, 'f :: linorder) store_host \<Rightarrow> 'v store \<Rightarrow> search_args \<Rightarrow> item \<Rightarrow> bool" where
  "found h st op it \<longleftrightarrow> item_at st (item_id it) = Some it \<and> in_prefix (sa_prefix op) (it_namespace it) \<and> filter_func h op it = Inr True"

definition vectors_of :: "'v store \<Rightarrow> item \<Rightarrow> 'v list" where
  "vectors_of st it = item_vectors st (it_namespace it) (it_key it)"

lemma item_at_data:
  assumes "store_ok st"
  shows "item_at st (ns, key) = Some it \<longleftrightarrow> (\<exists>items. (ns, items) \<in> set (st_data st) \<and> (key, it) \<in> set items)"
proof
  assume "item_at st (ns, key) = Some it"
  then show "\<exists>items. (ns, items) \<in> set (st_data st) \<and> (key, it) \<in> set items"
    by (auto simp: item_at_def dict_get_or_def dest!: map_of_SomeD split: option.split_asm)
next
  assume "\<exists>items. (ns, items) \<in> set (st_data st) \<and> (key, it) \<in> set items"
  then obtain items where i: "(ns, items) \<in> set (st_data st)" "(key, it) \<in> set items" by blast
  then have "dict_get (st_data st) ns = Some items" using assms by (simp add: store_ok_def)
  moreover have "dict_get items key = Some it" using i assms by (auto simp: store_ok_def)
  ultimately show "item_at st (ns, key) = Some it" by (simp add: item_at_def dict_get_or_def)
qed

lemma candidates_exact:
  assumes "store_ok st" "filter_items h st op = Inr candidates" "has_query op"
  shows "(it, vs) \<in> set candidates \<longleftrightarrow> found h st op it \<and> vs = vectors_of st it"
proof -
  define entries where "entries = concat (map (\<lambda>(ns, items). map (\<lambda>(key, it). (ns, key, it)) items)
      (filter (\<lambda>(ns, _). in_prefix (sa_prefix op) ns) (st_data st)))"
  from assms(2,3) obtain es where es: "res_filter (\<lambda>(_, _, it). filter_func h op it) entries = Inr es"
    "candidates = map (\<lambda>(ns, key, it). (it, item_vectors st ns key)) es"
    by (auto simp: filter_items_def Let_def entries_def rbind_Inr_iff)
  have "(ns, key, it) \<in> set entries \<longleftrightarrow> in_prefix (sa_prefix op) ns \<and> item_at st (ns, key) = Some it" for ns key it
    unfolding item_at_data [OF assms(1)] by (force simp: entries_def)
  then have e: "(ns, key, it) \<in> set es \<longleftrightarrow> in_prefix (sa_prefix op) ns \<and> item_at st (ns, key) = Some it \<and> filter_func h op it = Inr True" for ns key it
    using res_filter_filter [OF es(1)] by auto
  have id: "it_namespace it = ns" "it_key it = key" if "item_at st (ns, key) = Some it" for ns key it
  proof -
    have "item_id it = (ns, key)" using that assms(1) unfolding item_at_data [OF assms(1)] store_ok_def by fastforce
    then show "it_namespace it = ns" "it_key it = key" by (simp_all add: item_id_def)
  qed
  have "(it, vs) \<in> set candidates \<longleftrightarrow> (\<exists>ns key. (ns, key, it) \<in> set es \<and> vs = item_vectors st ns key)"
    unfolding es(2) by force
  also have "\<dots> \<longleftrightarrow> (it_namespace it, it_key it, it) \<in> set es \<and> vs = vectors_of st it"
    unfolding e vectors_of_def by (auto dest: id)
  finally show ?thesis unfolding e found_def item_id_def by blast
qed

lemma search_parts:
  assumes "store_search h op st = (Inr (ItemsResult items), st')" "has_query op" "sh_index h \<noteq> None"
  obtains candidates q where "filter_items h st op = Inr candidates" "sh_embed_query h (the (sa_query op)) = Inr q"
    "items = (if candidates = [] then [] else rank h op q candidates)"
  using assms
  by (auto simp: store_search_def batch_def unique_def embed_search_queries_def batch_search_def search_result_def dict_index_def rbind_Inr_iff
      split: prod.split_asm sum.split_asm if_split_asm)

text \<open>
  C31: A search with a query over an indexed store ranks the items below the prefix that pass the
  filter: each of them that has vectors is ranked once, with the best similarity of its vectors, in
  descending order; the results are the positions from the offset up to the limit, filled up with
  items that have no vectors. The fill begins with the first of these whatever the offset is.
\<close>

theorem search_ranked:
  assumes "stored h st" and "store_search h op st = (Inr (ItemsResult items), st')"
    and "has_query op" and "sh_index h \<noteq> None" and "0 \<le> sa_offset op" and "0 \<le> sa_limit op"
  shows "\<exists>q r rest. sh_embed_query h (the (sa_query op)) = Inr q
    \<and> distinct (map (item_id \<circ> snd) r) \<and> sorted_wrt (\<lambda>x y. fst y \<le> fst x) r
    \<and> (\<forall>s it. (s, it) \<in> set r \<longleftrightarrow> found h st op it \<and> vectors_of st it \<noteq> [] \<and> s = Max (set (map (sh_cosine h q) (vectors_of st it))))
    \<and> distinct (map item_id rest) \<and> (\<forall>it. it \<in> set rest \<longleftrightarrow> found h st op it \<and> vectors_of st it = [])
    \<and> items = (let kept = take (nat (sa_limit op)) (drop (nat (sa_offset op)) r)
        in map (\<lambda>(s, it). (it, Some s)) kept @ map (\<lambda>it. (it, None)) (take (nat (sa_limit op) - length kept) rest))"
proof -
  obtain candidates q where c: "filter_items h st op = Inr candidates" and q: "sh_embed_query h (the (sa_query op)) = Inr q"
    and items: "items = (if candidates = [] then [] else rank h op q candidates)"
    by (rule search_parts [OF assms(2,3,4)])
  note ok = stored_ok [OF assms(1)]
  note exact = candidates_exact [OF ok c assms(3)] and ids = filter_items_distinct [OF ok c]
  let ?r = "ranking h q candidates" and ?rest = "map fst (filter (\<lambda>(_, vs). vs = []) candidates)"
  have "(s, it) \<in> set ?r \<longleftrightarrow> found h st op it \<and> vectors_of st it \<noteq> [] \<and> s = Max (set (map (sh_cosine h q) (vectors_of st it)))" for s it
    unfolding ranking_best [OF ids] exact by blast
  moreover have "it \<in> set ?rest \<longleftrightarrow> found h st op it \<and> vectors_of st it = []" for it
    using exact [of it "[]"] by (force simp: image_iff)
  moreover have "distinct (map item_id ?rest)" using ids by (simp add: distinct_map_filter comp_def)
  moreover have "distinct (map (item_id \<circ> snd) ?r)" "sorted_wrt (\<lambda>x y. fst y \<le> fst x) ?r"
    unfolding ranking_def by (rule firsts_distinct, rule firsts_sorted [OF sorted_reverse_sorted])
  moreover have "items = (let kept = take (nat (sa_limit op)) (drop (nat (sa_offset op)) ?r)
        in map (\<lambda>(s, it). (it, Some s)) kept @ map (\<lambda>it. (it, None)) (take (nat (sa_limit op) - length kept) ?rest))"
    using items rank_parts [OF assms(5,6), of h q candidates] by (cases "candidates = []") (auto simp: Let_def ranking_def sorted_reverse_def)
  ultimately show ?thesis using q by (intro exI [of _ q] exI [of _ ?r] exI [of _ ?rest] conjI allI)
qed

definition sx_search :: search_args where
  "sx_search = \<lparr>sa_prefix = [], sa_filter = None, sa_limit = 10, sa_offset = 1, sa_query = Some ''abcd'', sa_refresh_ttl = True\<rparr>"

definition sx_items :: "int search_item list" where
  "sx_items = (case store_search sx_host sx_search sx_store of (Inr (ItemsResult items), _) \<Rightarrow> items | _ \<Rightarrow> [])"

theorem search_ranked_witness:
  "map (\<lambda>(it, s). (it_key it, s)) sx_items = [(''l'', Some (-1)), (''z'', None)] \<and>
   (\<exists>r rest. distinct (map (item_id \<circ> snd) r) \<and> sx_items = map (\<lambda>(s, it). (it, Some s)) (take 10 (drop 1 r))
      @ map (\<lambda>it. (it, None)) (take (10 - length (take 10 (drop 1 r))) rest))"
proof
  show "map (\<lambda>(it, s). (it_key it, s)) sx_items = [(''l'', Some (-1)), (''z'', None)]" by code_simp
  have st: "stored sx_host sx_store" by (rule stored_batch [OF stored_init sx_batch])
  have "(case store_search sx_host sx_search sx_store of (Inr (ItemsResult items), _) \<Rightarrow> True | _ \<Rightarrow> False)" by code_simp
  then have s: "store_search sx_host sx_search sx_store = (Inr (ItemsResult sx_items), snd (store_search sx_host sx_search sx_store))"
    by (auto simp: sx_items_def split: prod.splits sum.splits store_result.splits)
  have h: "has_query sx_search" "sh_index sx_host \<noteq> None" "0 \<le> sa_offset sx_search" "0 \<le> sa_limit sx_search"
    and n: "nat (sa_limit sx_search) = 10" "nat (sa_offset sx_search) = 1" by code_simp+
  show "\<exists>r rest. distinct (map (item_id \<circ> snd) r) \<and> sx_items = map (\<lambda>(s, it). (it, Some s)) (take 10 (drop 1 r))
      @ map (\<lambda>it. (it, None)) (take (10 - length (take 10 (drop 1 r))) rest)"
    using search_ranked [OF st s h] unfolding n Let_def by blast
qed

subsection \<open>Defects\<close>

text \<open>Two fields of a batch with the same text: one embedding for two sources, and the put raises.\<close>

lemma equal_texts_raise:
  "fst (store_put sx_host [''n''] ''k'' [(''a'', VStr ''xx''), (''b'', VStr ''xx'')] DefaultIndex False store_init) = Inl ValueError"
  by code_simp

text \<open>A put without index leaves the vectors of the value that it replaces.\<close>

lemma stale_vectors:
  "item_vectors (snd (store_put sx_host [''n''] ''k'' [(''c'', VInt 1)] NoIndex False sx_store)) [''n''] ''k'' = [2, 4]"
  by code_simp

text \<open>To read a namespace that is missing makes it, and to delete its items leaves it.\<close>

lemma phantom_namespace:
  "fst (batch sx_host [GetOp [''x''] ''k'' True, ListNamespacesOp None None 10 0] store_init) = Inr [NoResult, NamespacesResult [[''x'']]]"
  by code_simp

text \<open>A put of an item that exists resets the time of its creation.\<close>

lemma put_resets_creation:
  "item_at (apply_put h ((ns, key), Some d, index) st) (ns, key) = Some it \<Longrightarrow> it_created_at it = sh_time h (st_clock st)"
  by (auto simp: apply_put_item)

text \<open>A comparison with an item that has not the field raises.\<close>

lemma missing_field_raises:
  "fst (batch sx_host [SearchOp (sx_search\<lparr>sa_query := None, sa_filter := Some [(''c'', VDict [(''$gt'', VInt 1)])]\<rparr>)] sx_store)
     = Inl TypeError"
  by code_simp

end
