(* ===== verification/Store_Batch.thy ===== *)
theory Store_Batch
  imports Store_Props
begin

section \<open>Batches of operations that are queued together (store/base/batch.py)\<close>

text \<open>
  \<open>AsyncBatchedBaseStore\<close> collects the operations of one tick of the event loop, drops the repeated
  ones, and runs the rest as one batch; \<open>listen\<close> says which result belongs to which operation. The
  queue and the futures are left out.
\<close>

definition op_key :: "store_op \<Rightarrow> (namespace \<times> string) option" where
  "op_key op = (case op of PutOp ns key v index \<Rightarrow> Some (ns, key) | _ \<Rightarrow> None)"

text \<open>\<open>dedupped.index(op)\<close>\<close>

fun index_of :: "'a \<Rightarrow> 'a list \<Rightarrow> nat option" where
  "index_of x [] = None"
| "index_of x (y # ys) = (if x = y then Some 0 else map_option Suc (index_of x ys))"

type_synonym dedup = "store_op list \<times> nat list \<times> (namespace \<times> string, nat) dict"

definition dedupe_step :: "store_op \<Rightarrow> dedup \<Rightarrow> dedup" where
  "dedupe_step op = (\<lambda>(ops, listen, puts).
     case op_key op of
       None \<Rightarrow> (case index_of op ops of
           Some i \<Rightarrow> (ops, listen @ [i], puts)
         | None \<Rightarrow> (ops @ [op], listen @ [length ops], puts))
     | Some k \<Rightarrow> (case dict_get puts k of
           Some i \<Rightarrow> (ops[i := op], listen @ [i], puts)
         | None \<Rightarrow> (ops @ [op], listen @ [length ops], dict_set k (length ops) puts)))"

definition dedupe_ops :: "store_op list \<Rightarrow> nat list option \<times> store_op list" where
  "dedupe_ops ops = (if length ops \<le> 1 then (None, ops)
     else let (ds, listen, puts) = fold dedupe_step ops ([], [], []) in (Some listen, ds))"

text \<open>The results of the operations of one tick, and the store.\<close>

definition run_queued :: "('v, 'f :: linorder) store_host \<Rightarrow> store_op list \<Rightarrow> 'v store \<Rightarrow> 'f results res \<times> 'v store" where
  "run_queued h ops st =
     (let (listen, ds) = dedupe_ops ops; (r, st) = batch h ds st
      in (rbind r (\<lambda>rs. Inr (case listen of None \<Rightarrow> rs | Some is \<Rightarrow> map (\<lambda>i. rs ! i) is)), st))"

section \<open>Properties\<close>

subsection \<open>A batch, operation by operation\<close>

text \<open>
  When no read makes a namespace, the store stays the same while a batch is prepared, and what an
  operation does depends on itself only. The checks of all operations come first, then the
  embedding of the queries, then the answers.
\<close>

fun check_op :: "('v, 'f :: linorder) store_host \<Rightarrow> 'v store \<Rightarrow> store_op \<Rightarrow> unit res" where
  "check_op h st (SearchOp op) = rbind (filter_items h st op) (\<lambda>_. Inr ())"
| "check_op h st (ListNamespacesOp cs depth limit offset) = rbind (handle_list_namespaces st cs depth limit offset) (\<lambda>_. Inr ())"
| "check_op h st _ = Inr ()"

fun read_known :: "'v store \<Rightarrow> store_op \<Rightarrow> bool" where
  "read_known st (GetOp ns key refresh) = in_dict ns (st_data st)"
| "read_known st _ = True"

abbreviation reads_known :: "'v store \<Rightarrow> store_op list \<Rightarrow> bool" where
  "reads_known st ops \<equiv> list_all (read_known st) ops"

fun answer_op :: "('v, 'f :: linorder) store_host \<Rightarrow> (string, 'v) dict \<Rightarrow> 'v store \<Rightarrow> store_op \<Rightarrow> 'f store_result res" where
  "answer_op h queries st (GetOp ns key refresh) = Inr (case item_at st (ns, key) of Some it \<Rightarrow> ItemResult it | None \<Rightarrow> NoResult)"
| "answer_op h queries st (PutOp ns key v index) = Inr NoResult"
| "answer_op h queries st (SearchOp op) =
     rbind (filter_items h st op) (\<lambda>cs. rbind (search_result h queries op cs) (\<lambda>items. Inr (ItemsResult items)))"
| "answer_op h queries st (ListNamespacesOp cs depth limit offset) =
     rbind (handle_list_namespaces st cs depth limit offset) (\<lambda>nss. Inr (NamespacesResult nss))"

definition op_queries :: "store_op \<Rightarrow> string list" where
  "op_queries op = (case op of SearchOp a \<Rightarrow> if has_query a then [the (sa_query a)] else [] | _ \<Rightarrow> [])"

definition queries_of :: "store_op list \<Rightarrow> string list" where
  "queries_of ops = concat (map op_queries ops)"

definition embed_queries :: "('v, 'f) store_host \<Rightarrow> string list \<Rightarrow> (string, 'v) dict res" where
  "embed_queries h qs = (if sh_index h = None then Inr [] else rmap (\<lambda>q. rbind (sh_embed_query h q) (\<lambda>v. Inr (q, v))) (unique qs))"

text \<open>The searches that the preparation notes: their positions, arguments and candidates.\<close>

fun noted :: "('v, 'f :: linorder) store_host \<Rightarrow> 'v store \<Rightarrow> nat \<Rightarrow> store_op list \<Rightarrow> 'v search_ops" where
  "noted h st n [] = []"
| "noted h st n (op # ops) = (case op of
     SearchOp a \<Rightarrow> (n, a, case filter_items h st a of Inr cs \<Rightarrow> cs | Inl e \<Rightarrow> []) # noted h st (Suc n) ops
   | _ \<Rightarrow> noted h st (Suc n) ops)"

fun placeholder :: "'v store \<Rightarrow> store_op \<Rightarrow> 'f store_result" where
  "placeholder st (GetOp ns key refresh) = (case item_at st (ns, key) of Some it \<Rightarrow> ItemResult it | None \<Rightarrow> NoResult)"
| "placeholder st (ListNamespacesOp cs depth limit offset) =
     (case handle_list_namespaces st cs depth limit offset of Inr nss \<Rightarrow> NamespacesResult nss | Inl e \<Rightarrow> NoResult)"
| "placeholder st _ = NoResult"

lemma prepare_known:
  "reads_known st ops \<Longrightarrow> prepare_ops h ops (rs, puts, ss) st =
     (rbind (rmap (check_op h st) ops) (\<lambda>_. Inr (rs @ map (placeholder st) ops, fold put_of ops puts, ss @ noted h st (length rs) ops)), st)"
proof (induction ops arbitrary: rs puts ss)
  case (Cons op ops)
  then have k: "reads_known st ops" by simp
  show ?case
  proof (cases op)
    case (GetOp ns key refresh)
    with Cons.prems have "touch ns st = st" by (simp add: touch_known)
    then show ?thesis using Cons.IH [OF k] GetOp by (simp add: item_at_def rbind_assoc)
  next
    case (SearchOp a)
    then show ?thesis using Cons.IH [OF k] by (cases "filter_items h st a") (simp_all add: rbind_assoc)
  next
    case (ListNamespacesOp cs depth limit offset)
    then show ?thesis using Cons.IH [OF k] by (cases "handle_list_namespaces st cs depth limit offset") (simp_all add: rbind_assoc)
  next
    case (PutOp ns key v index)
    then show ?thesis using Cons.IH [OF k] by (simp add: rbind_assoc)
  qed
qed simp

lemma noted_queries:
  "map (\<lambda>(_, op, _). the (sa_query op)) (filter (\<lambda>(_, op, _). has_query op) (noted h st n ops)) = queries_of ops"
  by (induction ops arbitrary: n) (auto simp: queries_of_def op_queries_def split: store_op.split)

lemma noted_embedded: "embed_search_queries h (noted h st n ops) = embed_queries h (queries_of ops)"
  by (simp add: embed_search_queries_def embed_queries_def noted_queries)

lemma noted_answers:
  "rmap (check_op h st) ops = Inr us \<Longrightarrow>
   batch_search h queries (noted h st (length rs) ops) (rs @ map (placeholder st) ops)
     = rbind (rmap (answer_op h queries st) ops) (\<lambda>as. Inr (rs @ as))"
proof (induction ops arbitrary: rs us)
  case Nil
  then show ?case by (simp add: batch_search_def)
next
  case (Cons op ops)
  then obtain us' where us': "rmap (check_op h st) ops = Inr us'" and c: "check_op h st op = Inr ()" by (auto simp: rbind_Inr_iff)
  note IH = Cons.IH [OF us', of "rs @ [x]" for x, simplified]
  show ?case
  proof (cases op)
    case (SearchOp a)
    with c obtain cs where "filter_items h st a = Inr cs" by (auto simp: rbind_Inr_iff)
    then show ?thesis using SearchOp IH by (cases "search_result h queries a cs") (simp_all add: batch_search_Cons rbind_assoc)
  next
    case (ListNamespacesOp ms depth limit offset)
    with c obtain nss where "handle_list_namespaces st ms depth limit offset = Inr nss" by (auto simp: rbind_Inr_iff)
    then show ?thesis using ListNamespacesOp IH by (simp add: rbind_assoc)
  qed (use IH in \<open>simp_all add: rbind_assoc\<close>)
qed

lemma batch_known:
  assumes "reads_known st ops"
  shows "batch h ops st =
    (case rbind (rmap (check_op h st) ops) (\<lambda>_. rbind (embed_queries h (queries_of ops)) (\<lambda>queries. rmap (answer_op h queries st) ops)) of
       Inl e \<Rightarrow> (Inl e, st)
     | Inr rs \<Rightarrow> (case embed_puts h (fold put_of ops []) st of
           Inl e \<Rightarrow> (Inl e, st)
         | Inr st \<Rightarrow> (Inr rs, apply_put_ops h (fold put_of ops []) st)))"
proof (cases "rmap (check_op h st) ops")
  case (Inr us)
  then show ?thesis
    using noted_answers [OF Inr, of _ "[]", simplified]
    by (simp add: batch_def prepare_known [OF assms, of h "[]" "[]" "[]", simplified] noted_embedded)
qed (simp add: batch_def prepare_known [OF assms, of h "[]" "[]" "[]", simplified])

subsection \<open>Dropping repeated operations\<close>

lemma index_of_None: "index_of x xs = None \<longleftrightarrow> x \<notin> set xs"
  by (induction xs) auto

lemma index_of_Some: "index_of x xs = Some i \<Longrightarrow> i < length xs \<and> xs ! i = x"
  by (induction xs arbitrary: i) (auto split: if_split_asm)

definition put_keys :: "store_op list \<Rightarrow> (namespace \<times> string) list" where
  "put_keys ops = List.map_filter op_key ops"

lemma put_keys_simps [simp]:
  "put_keys [] = []" "put_keys (op # ops) = (case op_key op of Some k \<Rightarrow> [k] | None \<Rightarrow> []) @ put_keys ops"
  "put_keys (ops @ ops') = put_keys ops @ put_keys ops'"
  by (auto simp: put_keys_def List.map_filter_def split: option.split)

lemma put_keys_set: "k \<in> set (put_keys ops) \<longleftrightarrow> (\<exists>op \<in> set ops. op_key op = Some k)"
proof (induction ops)
  case (Cons op ops)
  then show ?case by (cases "op_key op") auto
qed simp

lemma put_keys_in: "i < length ops \<Longrightarrow> op_key (ops ! i) = Some k \<Longrightarrow> k \<in> set (put_keys ops)"
  unfolding put_keys_set by (meson nth_mem)

lemma put_keys_update: "op_key (ops ! i) = op_key op \<Longrightarrow> put_keys (ops[i := op]) = put_keys ops"
proof (induction ops arbitrary: i)
  case (Cons x ops)
  then show ?case by (cases i) simp_all
qed simp

lemma queries_put: "op_key op \<noteq> None \<Longrightarrow> op_queries op = []"
  by (cases op) (simp_all add: op_queries_def op_key_def)

lemma queries_update: "op_key (ops ! i) \<noteq> None \<Longrightarrow> op_key op \<noteq> None \<Longrightarrow> queries_of (ops[i := op]) = queries_of ops"
proof (induction ops arbitrary: i)
  case (Cons x ops)
  then show ?case by (cases i) (simp_all add: queries_of_def queries_put)
qed simp

lemma queries_member: "op \<in> set ops \<Longrightarrow> set (op_queries op) \<subseteq> set (queries_of ops)"
  by (auto simp: queries_of_def)

lemma unique_set [simp]: "set (unique xs) = set xs"
  by (simp add: unique_def)

lemma unique_append: "unique (xs @ [x]) = (if x \<in> set xs then unique xs else unique xs @ [x])"
  by (simp add: unique_def)

lemma unique_append_cong: "unique xs = unique ys \<Longrightarrow> unique (xs @ zs) = unique (ys @ zs)"
proof (induction zs rule: rev_induct)
  case (snoc z zs)
  then have "unique (xs @ zs) = unique (ys @ zs)" by simp
  then have "set (xs @ zs) = set (ys @ zs)" using unique_set by metis
  then show ?case using snoc unique_append [of "xs @ zs" z] unique_append [of "ys @ zs" z] by simp
qed simp

lemma unique_absorb: "set zs \<subseteq> set xs \<Longrightarrow> unique (xs @ zs) = unique xs"
proof (induction zs rule: rev_induct)
  case (snoc z zs)
  then show ?case using unique_append [of "xs @ zs" z] by simp
qed simp

text \<open>With distinct keys, the puts of a list are a dictionary in its order.\<close>

definition put_entries :: "store_op list \<Rightarrow> put_ops" where
  "put_entries ops = List.map_filter (\<lambda>op. case op of PutOp ns key v index \<Rightarrow> Some ((ns, key), (v, index)) | _ \<Rightarrow> None) ops"

lemma put_entries_simps [simp]:
  "put_entries [] = []" "put_entries (PutOp ns key v index # ops) = ((ns, key), (v, index)) # put_entries ops"
  "op_key op = None \<Longrightarrow> put_entries (op # ops) = put_entries ops" "put_entries (ops @ ops') = put_entries ops @ put_entries ops'"
  by (auto simp: put_entries_def List.map_filter_def op_key_def split: store_op.split_asm)

lemma op_key_Some: "op_key op = Some k \<Longrightarrow> \<exists>ns key v index. op = PutOp ns key v index \<and> k = (ns, key)"
  by (cases op) (auto simp: op_key_def)

lemma op_key_None: "op_key op = None \<Longrightarrow> put_of op puts = puts"
  by (cases op) (auto simp: op_key_def)

lemma put_entries_keys: "dict_keys (put_entries ops) = put_keys ops"
proof (induction ops)
  case (Cons op ops)
  then show ?case by (cases "op_key op") (auto dest: op_key_Some)
qed simp

lemma fold_put_distinct: "distinct (put_keys ops) \<Longrightarrow> fold put_of ops [] = put_entries ops"
proof (induction ops rule: rev_induct)
  case (snoc op ops)
  show ?case
  proof (cases "op_key op")
    case None
    then show ?thesis using snoc by (simp add: op_key_None)
  next
    case (Some k)
    then obtain ns key v index where op: "op = PutOp ns key v index" "k = (ns, key)" by (blast dest: op_key_Some)
    with snoc.prems Some have "(ns, key) \<notin> set (dict_keys (put_entries ops))" by (simp add: put_entries_keys)
    then have "dict_get (put_entries ops) (ns, key) = None" by (simp add: map_of_eq_None_iff)
    then show ?thesis using snoc op Some by (simp add: dict_set_new)
  qed
qed simp

lemma put_entries_update:
  "distinct (put_keys ops) \<Longrightarrow> i < length ops \<Longrightarrow> op_key (ops ! i) = op_key (PutOp ns key v index) \<Longrightarrow>
     put_entries (ops[i := PutOp ns key v index]) = dict_set (ns, key) (v, index) (put_entries ops)"
proof (induction ops arbitrary: i)
  case (Cons x ops)
  show ?case
  proof (cases i)
    case 0
    then have "op_key x = Some (ns, key)" using Cons.prems(3) by (simp add: op_key_def)
    then obtain v' index' where "x = PutOp ns key v' index'" by (auto dest: op_key_Some)
    then show ?thesis using 0 by simp
  next
    case (Suc j)
    then have k: "(ns, key) \<in> set (put_keys ops)" using Cons.prems put_keys_in [of j ops "(ns, key)"] by (simp add: op_key_def)
    have IH: "put_entries (ops[j := PutOp ns key v index]) = dict_set (ns, key) (v, index) (put_entries ops)"
      using Cons Suc by (simp split: option.split_asm)
    show ?thesis
    proof (cases "op_key x")
      case (Some k')
      then obtain ns' key' v' index' where "x = PutOp ns' key' v' index'" "k' = (ns', key')" by (blast dest: op_key_Some)
      then show ?thesis using IH Suc Some Cons.prems(1) k by auto
    qed (use IH Suc in simp)
  qed
qed simp

abbreviation reads :: "store_op list \<Rightarrow> store_op list" where
  "reads ops \<equiv> filter (\<lambda>op. op_key op = None) ops"

text \<open>The state of the loop after the operations \<open>xs\<close>.\<close>

definition deduped :: "store_op list \<Rightarrow> dedup \<Rightarrow> bool" where
  "deduped xs = (\<lambda>(ds, listen, puts). length listen = length xs \<and> distinct (put_keys ds)
     \<and> (\<forall>j < length xs. listen ! j < length ds \<and> op_key (ds ! (listen ! j)) = op_key (xs ! j)
          \<and> (op_key (xs ! j) = None \<longrightarrow> ds ! (listen ! j) = xs ! j))
     \<and> (\<forall>k i. dict_get puts k = Some i \<longleftrightarrow> i < length ds \<and> op_key (ds ! i) = Some k)
     \<and> put_entries ds = fold put_of xs [] \<and> reads ds = unique (reads xs))"

lemma reads_update: "op_key (ops ! i) \<noteq> None \<Longrightarrow> op_key op \<noteq> None \<Longrightarrow> reads (ops[i := op]) = reads ops"
proof (induction ops arbitrary: i)
  case (Cons x ops)
  then show ?case by (cases i) simp_all
qed simp

lemma dedupe_step_ok:
  assumes "deduped xs (ds, listen, puts)"
  shows "deduped (xs @ [x]) (dedupe_step x (ds, listen, puts))"
proof -
  note d = assms [unfolded deduped_def prod.case]
  then have len: "length listen = length xs" and dist: "distinct (put_keys ds)"
    and idx: "\<And>j. j < length xs \<Longrightarrow> listen ! j < length ds \<and> op_key (ds ! (listen ! j)) = op_key (xs ! j)
          \<and> (op_key (xs ! j) = None \<longrightarrow> ds ! (listen ! j) = xs ! j)"
    and puts: "\<And>k i. dict_get puts k = Some i \<longleftrightarrow> i < length ds \<and> op_key (ds ! i) = Some k"
    and entries: "put_entries ds = fold put_of xs []" and rd: "reads ds = unique (reads xs)" by blast+
  show ?thesis
  proof (cases "op_key x")
    case None
    show ?thesis
    proof (cases "index_of x ds")
      case (Some i)
      then have i: "i < length ds" "ds ! i = x" by (auto dest: index_of_Some)
      then have "x \<in> set (reads ds)" using None nth_mem [of i ds] by simp
      then have "x \<in> set (reads xs)" by (simp add: rd)
      then show ?thesis using None Some len dist idx puts entries rd i
        by (auto simp: dedupe_step_def deduped_def nth_append unique_append op_key_None less_Suc_eq)
    next
      case new: None
      then have "x \<notin> set (reads ds)" by (simp add: index_of_None)
      then have "x \<notin> set (reads xs)" by (simp add: rd)
      moreover have "dict_get puts k = Some i \<longleftrightarrow> i < length (ds @ [x]) \<and> op_key ((ds @ [x]) ! i) = Some k" for k i
        using puts [of k i] None by (auto simp: nth_append less_Suc_eq)
      ultimately show ?thesis using None new len dist idx entries rd
        by (auto simp: dedupe_step_def deduped_def nth_append unique_append op_key_None less_Suc_eq)
    qed
  next
    case (Some k)
    then obtain ns key v index where x: "x = PutOp ns key v index" "k = (ns, key)" by (blast dest: op_key_Some)
    show ?thesis
    proof (cases "dict_get puts k")
      case new: None
      have "k \<notin> set (put_keys ds)"
      proof
        assume "k \<in> set (put_keys ds)"
        then obtain i where "i < length ds" "op_key (ds ! i) = Some k" unfolding put_keys_set by (metis in_set_conv_nth)
        then show False using puts [of k i] new by simp
      qed
      moreover have "dict_get (dict_set k (length ds) puts) k' = Some i \<longleftrightarrow> i < length (ds @ [x]) \<and> op_key ((ds @ [x]) ! i) = Some k'" for k' i
        using puts [of k' i] puts [of k i] new Some by (auto simp: nth_append less_Suc_eq)
      moreover have "put_entries (ds @ [x]) = fold put_of (xs @ [x]) []"
      proof -
        have "\<not> in_dict (ns, key) (put_entries ds)" unfolding in_dict_iff put_entries_keys using calculation(1) x(2) by simp
        then have "dict_get (put_entries ds) (ns, key) = None" by blast
        then show ?thesis by (simp add: x(1) dict_set_new entries [symmetric])
      qed
      ultimately show ?thesis using Some new len dist idx rd
        by (auto simp: dedupe_step_def deduped_def nth_append less_Suc_eq)
    next
      case old: (Some i)
      then have i: "i < length ds" "op_key (ds ! i) = Some k" using puts by auto
      then have "put_entries (ds[i := x]) = fold put_of (xs @ [x]) []"
        using put_entries_update [OF dist i(1), of ns key v index] x entries by (simp add: op_key_def)
      moreover have "op_key (ds[i := x] ! j) = op_key (ds ! j)" for j
        using i Some by (cases "i = j") (auto simp: nth_list_update)
      moreover have "ds[i := x] ! j = ds ! j" if "op_key (ds ! j) = None" for j
        using i that by (cases "i = j") auto
      moreover have "put_keys (ds[i := x]) = put_keys ds" using i Some by (intro put_keys_update) simp
      moreover have "reads (ds[i := x]) = reads ds" using i Some by (intro reads_update) simp_all
      moreover have "dedupe_step x (ds, listen, puts) = (ds[i := x], listen @ [i], puts)" by (simp add: dedupe_step_def Some old)
      ultimately show ?thesis using Some len dist idx puts rd i
        by (auto simp: deduped_def nth_append less_Suc_eq)
    qed
  qed
qed

lemma dedupe_fold: "deduped xs (fold dedupe_step xs ([], [], []))"
proof (induction xs rule: rev_induct)
  case Nil
  then show ?case by (simp add: deduped_def unique_def)
next
  case (snoc x xs)
  then show ?case using dedupe_step_ok by (cases "fold dedupe_step xs ([], [], [])") simp
qed

text \<open>What a loop that may raise over the operations does is decided by their first occurrences.\<close>

definition outcome_of :: "('a \<Rightarrow> 'b res) \<Rightarrow> 'a list \<Rightarrow> unit res" where
  "outcome_of f xs = rbind (rmap f xs) (\<lambda>_. Inr ())"

lemma outcome_simps [simp]:
  "outcome_of f [] = Inr ()" "outcome_of f (x # xs) = rbind (f x) (\<lambda>_. outcome_of f xs)"
  "outcome_of f (xs @ ys) = rbind (outcome_of f xs) (\<lambda>_. outcome_of f ys)"
  by (simp_all add: outcome_of_def rbind_assoc rmap_append)

lemma outcome_Inr: "outcome_of f xs = Inr () \<longleftrightarrow> (\<exists>ys. rmap f xs = Inr ys)"
  by (auto simp: outcome_of_def rbind_Inr_iff)

lemma outcome_Inl: "outcome_of f xs = Inl e \<longleftrightarrow> rmap f xs = Inl e"
  by (auto simp: outcome_of_def rbind_Inl_iff)

lemma outcome_member: "outcome_of f xs = Inr () \<Longrightarrow> x \<in> set xs \<Longrightarrow> \<exists>y. f x = Inr y"
  by (induction xs) (auto simp: rbind_Inr_iff)

lemma outcome_unique: "outcome_of f (unique xs) = outcome_of f xs"
proof (induction xs rule: rev_induct)
  case Nil
  then show ?case by (simp add: unique_def)
next
  case (snoc x xs)
  show ?case
  proof (cases "x \<in> set xs")
    case True
    have "outcome_of f xs = rbind (outcome_of f xs) (\<lambda>_. rbind (f x) (\<lambda>_. Inr ()))"
      using outcome_member [of f xs x] True by (cases "outcome_of f xs") auto
    then show ?thesis using snoc True by (simp add: unique_append)
  qed (use snoc in \<open>simp add: unique_append\<close>)
qed

lemma outcome_reads: "(\<And>op. op_key op \<noteq> None \<Longrightarrow> \<exists>y. f op = Inr y) \<Longrightarrow> outcome_of f (reads ops) = outcome_of f ops"
proof (induction ops)
  case (Cons op ops)
  show ?case
  proof (cases "op_key op")
    case (Some k)
    then obtain y where "f op = Inr y" using Cons.prems [of op] by auto
    then show ?thesis using Some Cons by simp
  qed (use Cons in simp)
qed simp

lemma unique_queries: "unique (concat (map f (unique xs))) = unique (concat (map f xs))"
proof (induction xs rule: rev_induct)
  case Nil
  then show ?case by (simp add: unique_def)
next
  case (snoc x xs)
  show ?case
  proof (cases "x \<in> set xs")
    case True
    then have "set (f x) \<subseteq> set (concat (map f xs))" by auto
    then show ?thesis using snoc True by (simp add: unique_append unique_absorb)
  next
    case False
    then show ?thesis using unique_append_cong [OF snoc, of "f x"] by (simp add: unique_append)
  qed
qed

lemma queries_reads: "queries_of (reads ops) = queries_of ops"
  by (induction ops) (auto simp: queries_of_def queries_put)

lemma check_put: "op_key op \<noteq> None \<Longrightarrow> check_op h st op = Inr ()"
  by (cases op) (simp_all add: op_key_def)

lemma answer_put: "op_key op \<noteq> None \<Longrightarrow> answer_op h queries st op = Inr NoResult"
  by (cases op) (simp_all add: op_key_def)

lemma known_reads: "reads_known st (reads ops) = reads_known st ops"
proof (induction ops)
  case (Cons op ops)
  then show ?case by (cases op) (simp_all add: op_key_def)
qed simp

lemma rmap_nth: "rmap f xs = Inr ys \<Longrightarrow> i < length xs \<Longrightarrow> f (xs ! i) = Inr (ys ! i)"
proof (induction xs arbitrary: ys i)
  case (Cons x xs)
  then show ?case by (cases i) (auto simp: rbind_Inr_iff)
qed simp

lemma queued_batch:
  assumes "reads_known st ops"
  shows "run_queued h ops st = batch h ops st"
proof (cases "length ops \<le> 1")
  case True
  then show ?thesis by (cases "batch h ops st") (simp add: run_queued_def dedupe_ops_def)
next
  case False
  obtain ds listen puts where f: "fold dedupe_step ops ([], [], []) = (ds, listen, puts)" by (cases "fold dedupe_step ops ([], [], [])") auto
  note d = dedupe_fold [of ops, unfolded f deduped_def prod.case]
  then have len: "length listen = length ops" and dist: "distinct (put_keys ds)"
    and idx: "\<And>j. j < length ops \<Longrightarrow> listen ! j < length ds \<and> op_key (ds ! (listen ! j)) = op_key (ops ! j)
          \<and> (op_key (ops ! j) = None \<longrightarrow> ds ! (listen ! j) = ops ! j)"
    and entries: "put_entries ds = fold put_of ops []" and rd: "reads ds = unique (reads ops)" by blast+
  have q: "run_queued h ops st = (let (r, st') = batch h ds st in (rbind r (\<lambda>rs. Inr (map (\<lambda>i. rs ! i) listen)), st'))"
    using False by (simp add: run_queued_def dedupe_ops_def f Let_def)
  have same: "outcome_of g ds = outcome_of g ops" if "\<And>op. op_key op \<noteq> None \<Longrightarrow> \<exists>y. g op = Inr y" for g :: "store_op \<Rightarrow> 'c res"
  proof -
    have "outcome_of g ds = outcome_of g (reads ds)" by (rule outcome_reads [symmetric]) (rule that)
    also have "\<dots> = outcome_of g (reads ops)" unfolding rd by (rule outcome_unique)
    also have "\<dots> = outcome_of g ops" by (rule outcome_reads) (rule that)
    finally show ?thesis .
  qed
  have known: "reads_known st ds" using known_reads [of st ds] known_reads [of st ops] assms rd by (simp add: list_all_iff)
  have puts: "fold put_of ds [] = fold put_of ops []" using fold_put_distinct [OF dist] entries by simp
  have "unique (queries_of ds) = unique (queries_of ops)"
    using unique_queries [of op_queries "reads ops"] queries_reads [of ds] queries_reads [of ops] rd by (simp add: queries_of_def)
  then have queries: "embed_queries h (queries_of ds) = embed_queries h (queries_of ops)" by (simp add: embed_queries_def)
  have check: "outcome_of (check_op h st) ds = outcome_of (check_op h st) ops" by (rule same) (simp add: check_put)
  have answer: "rmap (answer_op h qs st) ops = rbind (rmap (answer_op h qs st) ds) (\<lambda>rs. Inr (map (\<lambda>i. rs ! i) listen))" for qs
  proof (cases "rmap (answer_op h qs st) ds")
    case (Inl e)
    have "outcome_of (answer_op h qs st) ds = outcome_of (answer_op h qs st) ops" by (rule same) (simp add: answer_put)
    then have "rmap (answer_op h qs st) ops = Inl e" using Inl outcome_Inl by metis
    with Inl show ?thesis by simp
  next
    case (Inr rs)
    have "outcome_of (answer_op h qs st) ds = outcome_of (answer_op h qs st) ops" by (rule same) (simp add: answer_put)
    with Inr obtain as where as: "rmap (answer_op h qs st) ops = Inr as" using outcome_Inr by metis
    have "as ! j = rs ! (listen ! j)" if "j < length ops" for j
      using rmap_nth [OF as that] rmap_nth [OF Inr, of "listen ! j"] idx [OF that] answer_put [of "ops ! j" h qs st]
        answer_put [of "ds ! (listen ! j)" h qs st] by (cases "op_key (ops ! j)") auto
    then have "as = map (\<lambda>i. rs ! i) listen" using rmap_Inr_length [OF as] len by (intro nth_equalityI) simp_all
    with as Inr show ?thesis by simp
  qed
  show ?thesis
  proof (cases "rmap (check_op h st) ops")
    case (Inl e)
    then have "rmap (check_op h st) ds = Inl e" using check outcome_Inl by metis
    then show ?thesis using Inl by (simp add: q batch_known [OF known] batch_known [OF assms])
  next
    case (Inr us)
    then obtain vs where "rmap (check_op h st) ds = Inr vs" using check outcome_Inr by metis
    with Inr show ?thesis
      by (simp add: q batch_known [OF known] batch_known [OF assms] puts queries answer rbind_assoc
          split: sum.split) (auto simp: rbind_Inr_iff rbind_Inl_iff split: sum.split)
  qed
qed

text \<open>
  C32: To drop repeated operations is transparent: when no read is of a namespace that does not exist,
  the operations of one tick get the same results, or the same exception, and leave the same store as
  if all of them had been run as one batch.
\<close>

theorem dedupe_transparent:
  assumes "reads_known st ops"
  shows "run_queued h ops st = batch h ops st"
  by (rule queued_batch [OF assms])

definition sx_queued :: "store_op list" where
  "sx_queued = [GetOp [''n''] ''k'' True, SearchOp sx_search, PutOp [''n''] ''k'' None DefaultIndex, GetOp [''n''] ''k'' True,
     PutOp [''n''] ''k'' (Some [(''a'', VStr ''x'')]) DefaultIndex, SearchOp sx_search]"

theorem dedupe_transparent_witness:
  "length (snd (dedupe_ops sx_queued)) = 3 \<and> run_queued sx_host sx_queued sx_store = batch sx_host sx_queued sx_store"
proof
  show "length (snd (dedupe_ops sx_queued)) = 3" by code_simp
  have "reads_known sx_store sx_queued" by code_simp
  then show "run_queued sx_host sx_queued sx_store = batch sx_host sx_queued sx_store" by (rule dedupe_transparent)
qed

text \<open>A read of a namespace that is missing makes it, so that the second listing differs from the first.\<close>

lemma dedupe_seen:
  "fst (run_queued sx_host [ListNamespacesOp None None 10 0, GetOp [''x''] ''k'' True, ListNamespacesOp None None 10 0] store_init)
     = Inr [NamespacesResult [], NoResult, NamespacesResult []]"
  "fst (batch sx_host [ListNamespacesOp None None 10 0, GetOp [''x''] ''k'' True, ListNamespacesOp None None 10 0] store_init)
     = Inr [NamespacesResult [], NoResult, NamespacesResult [[''x'']]]"
  by code_simp+

end
