(* ===== verification/Retry.thy ===== *)
theory Retry
  imports Run
begin

section \<open>Tasks with retries (pregel/_retry.py, _internal/_retry.py)\<close>

text \<open>
  \<open>run_with_retry\<close>: one attempt after the other until the node returns, raises what no policy covers,
  or uses up the attempts of the policy that covers it. What the node and its writers do is user code
  and may differ from attempt to attempt: they are functions of a world \<open>'w\<close> that is passed on, which
  also holds the clock and the random numbers. An attempt yields the writes it has made. Floating-point
  numbers \<open>'f\<close> come with their operations.
\<close>

subsection \<open>Namespaces of tasks\<close>

text \<open>\<open>str.isdigit()\<close>; three superscripts count as digits.\<close>

definition str_isdigit :: "string \<Rightarrow> bool" where
  "str_isdigit s \<longleftrightarrow> s \<noteq> [] \<and> list_all (\<lambda>c. is_digit c \<or> (of_char c :: nat) \<in> {178, 179, 185}) s"

text \<open>\<open>_internal/_config.py\<close>: a namespace without the ids of its tasks.\<close>

definition recast_checkpoint_ns :: "string \<Rightarrow> string" where
  "recast_checkpoint_ns ns = join NS_SEP (map (\<lambda>part. hd (split_on (CHR '':'') part))
     (filter (\<lambda>part. \<not> str_isdigit part) (split_on (CHR ''|'') ns)))"

definition drop_selectors :: "string list \<Rightarrow> string list" where
  "drop_selectors parts = rev (dropWhile str_isdigit (rev parts))"

definition checkpoint_ns_for_parent_command :: "string \<Rightarrow> string" where
  "checkpoint_ns_for_parent_command ns =
     (let parts = drop_selectors (split_on (CHR ''|'') ns)
      in join NS_SEP (drop_selectors (butlast parts)))"

subsection \<open>Policies\<close>

text \<open>The forms of \<open>retry_on\<close>; a class is its name.\<close>

datatype retry_on = RetryClass string | RetryClasses "string list" | RetryCall "err \<Rightarrow> bool res" | RetryOther

record 'f retry_policy =
  rp_initial_interval :: 'f
  rp_backoff_factor :: 'f
  rp_max_interval :: 'f
  rp_max_attempts :: int
  rp_jitter :: bool
  rp_retry_on :: retry_on

text \<open>An exception, with the interrupts of a \<open>GraphInterrupt\<close>; the response of an HTTP error is its truth
  value and its status.\<close>

type_synonym exc = "err \<times> val list"

record ('w, 'f) retry_host =
  rh_policy :: "nat \<Rightarrow> 'f retry_policy"
  rh_isinstance :: "err \<Rightarrow> string \<Rightarrow> bool"
  rh_response :: "err \<Rightarrow> bool \<times> int"
  rh_invoke :: "runnable \<Rightarrow> val \<Rightarrow> config \<Rightarrow> 'w \<Rightarrow> ((exc + val) \<times> chan_write list) \<times> 'w"
  rh_write :: "runnable \<Rightarrow> val \<Rightarrow> config \<Rightarrow> 'w \<Rightarrow> ((exc + unit) \<times> chan_write list) \<times> 'w"
  rh_time :: "'w \<Rightarrow> nat"
  rh_uniform :: "'w \<Rightarrow> 'f \<times> 'w"
  rh_power :: "'f \<Rightarrow> nat \<Rightarrow> 'f res"
  rh_times :: "'f \<Rightarrow> 'f \<Rightarrow> 'f"
  rh_plus :: "'f \<Rightarrow> 'f \<Rightarrow> 'f"

definition default_retry_on :: "('w, 'f) retry_host \<Rightarrow> err \<Rightarrow> bool" where
  "default_retry_on h e =
     (if rh_isinstance h e ''ConnectionError'' then True
      else if rh_isinstance h e ''httpx.HTTPStatusError'' then 500 \<le> snd (rh_response h e) \<and> snd (rh_response h e) < 600
      else if rh_isinstance h e ''requests.HTTPError'' then
        (if fst (rh_response h e) then 500 \<le> snd (rh_response h e) \<and> snd (rh_response h e) < 600 else True)
      else if list_ex (rh_isinstance h e) [''ValueError'', ''TypeError'', ''ArithmeticError'', ''ImportError'', ''LookupError'',
          ''NameError'', ''SyntaxError'', ''RuntimeError'', ''ReferenceError'', ''StopIteration'', ''StopAsyncIteration'', ''OSError'']
        then False
      else True)"

definition should_retry_on :: "('w, 'f) retry_host \<Rightarrow> 'f retry_policy \<Rightarrow> err \<Rightarrow> bool res" where
  "should_retry_on h p e = (case rp_retry_on p of
       RetryClasses cs \<Rightarrow> Inr (list_ex (rh_isinstance h e) cs)
     | RetryClass c \<Rightarrow> Inr (rh_isinstance h e c)
     | RetryCall f \<Rightarrow> f e
     | RetryOther \<Rightarrow> Inl TypeError)"

fun matching_policy :: "('w, 'f) retry_host \<Rightarrow> 'f retry_policy list \<Rightarrow> err \<Rightarrow> 'f retry_policy option res" where
  "matching_policy h [] e = Inr None"
| "matching_policy h (p # ps) e = rbind (should_retry_on h p e) (\<lambda>b. if b then Inr (Some p) else matching_policy h ps e)"

text \<open>\<open>min(a, b)\<close> is the first unless the second is less.\<close>

definition retry_interval :: "('w, 'f :: linorder) retry_host \<Rightarrow> 'f retry_policy \<Rightarrow> nat \<Rightarrow> 'f res" where
  "retry_interval h p attempts = rbind (rh_power h (rp_backoff_factor p) (attempts - 1))
     (\<lambda>factor. let x = rh_times h (rp_initial_interval p) factor
       in Inr (if x < rp_max_interval p then x else rp_max_interval p))"

definition sleep_time :: "('w, 'f :: linorder) retry_host \<Rightarrow> 'f retry_policy \<Rightarrow> nat \<Rightarrow> 'w \<Rightarrow> 'f res \<times> 'w" where
  "sleep_time h p attempts w = (case retry_interval h p attempts of
       Inl e \<Rightarrow> (Inl e, w)
     | Inr interval \<Rightarrow> if rp_jitter p then let (r, w) = rh_uniform h w in (Inr (rh_plus h interval r), w) else (Inr interval, w))"

subsection \<open>The runtime of an attempt\<close>

definition ensure_execution_info :: "config \<Rightarrow> exec_task \<Rightarrow> runtime \<Rightarrow> runtime" where
  "ensure_execution_info cfg t rt = (case rt_execution_info rt of
       Some _ \<Rightarrow> rt
     | None \<Rightarrow>
         let str = (\<lambda>k. case conf_str cfg k of Some s \<Rightarrow> s | None \<Rightarrow> [])
         in rt\<lparr>rt_execution_info := Some \<lparr>ei_checkpoint_id = str ''checkpoint_id'', ei_checkpoint_ns = str ''checkpoint_ns'',
              ei_task_id = (if str ''__pregel_task_id'' \<noteq> [] then str ''__pregel_task_id'' else et_id t),
              ei_thread_id = conf_str cfg ''thread_id'',
              ei_run_id = (case cfg_run_id cfg of Some (c # r) \<Rightarrow> Some (c # r) | _ \<Rightarrow> None),
              ei_node_attempt = 1, ei_first_attempt_time = None\<rparr>\<rparr>)"

definition patch_execution_info :: "(execution_info \<Rightarrow> execution_info) \<Rightarrow> runtime \<Rightarrow> runtime res" where
  "patch_execution_info f rt = (case rt_execution_info rt of
       None \<Rightarrow> Inl RuntimeError | Some ei \<Rightarrow> Inr (rt\<lparr>rt_execution_info := Some (f ei)\<rparr>))"

definition patch_runtime :: "(runtime \<Rightarrow> runtime res) \<Rightarrow> config \<Rightarrow> config res" where
  "patch_runtime f cfg = (case dict_get (cfg_configurable cfg) ''__pregel_runtime'' of
       Some (CRuntime rt) \<Rightarrow> rbind (f rt) (\<lambda>rt. Inr (patch_configurable cfg [(''__pregel_runtime'', CRuntime rt)]))
     | _ \<Rightarrow> Inr cfg)"

definition given_config :: "exec_task \<Rightarrow> (string, cval) dict option \<Rightarrow> config" where
  "given_config t configurable = (case configurable of Some c \<Rightarrow> patch_configurable (et_config t) c | None \<Rightarrow> et_config t)"

definition first_attempt_config :: "('w, 'f) retry_host \<Rightarrow> exec_task \<Rightarrow> (string, cval) dict option \<Rightarrow> 'w \<Rightarrow> config res" where
  "first_attempt_config h t configurable w =
     (let cfg = given_config t configurable
      in patch_runtime (\<lambda>rt. patch_execution_info (\<lambda>ei. ei\<lparr>ei_first_attempt_time := Some (rh_time h w)\<rparr>)
           (ensure_execution_info cfg t rt)) cfg)"

definition attempt_config :: "nat \<Rightarrow> config \<Rightarrow> config res" where
  "attempt_config attempts cfg = patch_runtime (patch_execution_info (\<lambda>ei. ei\<lparr>ei_node_attempt := attempts + 1\<rparr>)) cfg"

subsection \<open>Commands for a graph\<close>

definition bubbles_up :: "err \<Rightarrow> bool" where
  "bubbles_up e \<longleftrightarrow> (case e of GraphInterrupt \<Rightarrow> True | GraphDrained \<Rightarrow> True | ParentCommand _ \<Rightarrow> True | _ \<Rightarrow> False)"

definition addresses :: "string option \<Rightarrow> string \<Rightarrow> string \<Rightarrow> bool" where
  "addresses graph ns name \<longleftrightarrow> (case graph of Some g \<Rightarrow> g \<in> set [ns, recast_checkpoint_ns ns, name] | None \<Rightarrow> False)"

fun invoke_writers ::
  "('w, 'f) retry_host \<Rightarrow> runnable list \<Rightarrow> val \<Rightarrow> config \<Rightarrow> 'w \<Rightarrow> ((exc + unit) \<times> chan_write list) \<times> 'w" where
  "invoke_writers h [] cmd cfg w = ((Inr (), []), w)"
| "invoke_writers h (x # xs) cmd cfg w =
     (case rh_write h x cmd cfg w of
        ((Inl e, ws), w) \<Rightarrow> ((Inl e, ws), w)
      | ((Inr _, ws), w) \<Rightarrow> let ((r, ws'), w) = invoke_writers h xs cmd cfg w in ((r, ws @ ws'), w))"

text \<open>A command for this graph is written; one for the parent gets the parent's namespace.\<close>

definition handle_command ::
  "('w, 'f) retry_host \<Rightarrow> exec_task \<Rightarrow> val \<Rightarrow> config \<Rightarrow> 'w \<Rightarrow> ((exc + val option) \<times> chan_write list) \<times> 'w" where
  "handle_command h t cmd cfg w = (case conf_index cfg ''checkpoint_ns'' of
       Inl e \<Rightarrow> ((Inl (e, []), []), w)
     | Inr ns \<Rightarrow> (case cmd of
           VCommand g u r goto \<Rightarrow>
             if addresses g ns (tw_name t) then
               (let ((r, ws), w) = invoke_writers h (et_writers t) cmd cfg w
                in ((case r of Inl e \<Rightarrow> Inl e | Inr _ \<Rightarrow> Inr None, ws), w))
             else if g = Some PARENT then
               ((Inl (ParentCommand (VCommand (Some (checkpoint_ns_for_parent_command ns)) u r goto), []), []), w)
             else ((Inl (ParentCommand cmd, []), []), w)
         | _ \<Rightarrow> ((Inl (AttributeError, []), []), w)))"

subsection \<open>The attempts\<close>

text \<open>The attempts that may be made at most, and the log of the retries: how long the task slept, how
  many attempts had failed, and the exception.\<close>

definition attempts_allowed :: "'f retry_policy list \<Rightarrow> int" where
  "attempts_allowed ps = fold max (map rp_max_attempts ps) 1"

type_synonym 'f retry_log = "('f \<times> nat \<times> exc) list"

definition set_writes :: "chan_write list \<Rightarrow> exec_task \<Rightarrow> exec_task" where
  "set_writes ws t = t\<lparr>tw_writes := ws\<rparr>"

lemma matching_policy_member: "matching_policy h ps e = Inr (Some p) \<Longrightarrow> p \<in> set ps \<and> should_retry_on h p e = Inr True"
  by (induction ps) (auto simp: rbind_Inr_iff split: if_split_asm)

lemma fold_max: "x \<in> set xs \<Longrightarrow> x \<le> fold max xs (a :: int)" "a \<le> fold max xs a"
  by (induction xs arbitrary: a) (auto, metis max.bounded_iff, metis max.bounded_iff)

lemma attempts_allowed_ge: "p \<in> set ps \<Longrightarrow> rp_max_attempts p \<le> attempts_allowed ps"
  unfolding attempts_allowed_def by (rule fold_max) simp

text \<open>The handler of plain exceptions: the exception to raise, or the time to sleep.\<close>

definition failed_attempt ::
  "('w, 'f :: linorder) retry_host \<Rightarrow> 'f retry_policy list \<Rightarrow> nat \<Rightarrow> exc \<Rightarrow> 'w \<Rightarrow> (exc + 'f) \<times> 'w" where
  "failed_attempt h ps attempts exc w = (case matching_policy h ps (fst exc) of
       Inl e \<Rightarrow> (Inl (e, []), w)
     | Inr None \<Rightarrow> (Inl exc, w)
     | Inr (Some p) \<Rightarrow>
         if rp_max_attempts p \<le> int (attempts + 1) then (Inl exc, w)
         else (case sleep_time h p (attempts + 1) w of (Inl e, w) \<Rightarrow> (Inl (e, []), w) | (Inr s, w) \<Rightarrow> (Inr s, w)))"

text \<open>One attempt, from clearing the writes on: the task ends, or sleeps after an exception.\<close>

datatype 'f attempt_end = Ends "exc + val option" | Retries 'f exc

definition attempt ::
  "('w, 'f :: linorder) retry_host \<Rightarrow> 'f retry_policy list \<Rightarrow> exec_task \<Rightarrow> nat \<Rightarrow> config \<Rightarrow> 'w \<Rightarrow> 'f attempt_end \<times> exec_task \<times> 'w" where
  "attempt h ps t attempts cfg w =
     (case rh_invoke h (et_proc t) (et_input t) cfg w of
        ((Inr v, ws), w) \<Rightarrow> (Ends (Inr (Some v)), set_writes ws t, w)
      | ((Inl exc, ws), w) \<Rightarrow>
          (case fst exc of
             ParentCommand cmd \<Rightarrow> let ((r, ws'), w) = handle_command h t cmd cfg w in (Ends r, set_writes (ws @ ws') t, w)
           | CancelledError \<Rightarrow> (Ends (Inl (NodeCancelledError, [])), set_writes ws t, w)
           | e \<Rightarrow>
               if bubbles_up e then (Ends (Inl exc), set_writes ws t, w)
               else (case failed_attempt h ps attempts exc w of
                   (Inl exc', w) \<Rightarrow> (Ends (Inl exc'), set_writes ws t, w)
                 | (Inr s, w) \<Rightarrow> (Retries s exc, set_writes ws t, w))))"

lemma attempt_Retries:
  assumes "attempt h ps t attempts cfg w = (Retries s exc, t', w')"
  obtains p ws w1 where "p \<in> set ps" "should_retry_on h p (fst exc) = Inr True" "int (attempts + 1) < rp_max_attempts p"
    "\<not> bubbles_up (fst exc)" "t' = set_writes ws t" "rh_invoke h (et_proc t) (et_input t) cfg w = ((Inl exc, ws), w1)"
proof -
  obtain r ws w1 where i: "rh_invoke h (et_proc t) (et_input t) cfg w = ((r, ws), w1)" by (metis prod.exhaust)
  with assms obtain w2 where e: "r = Inl exc" "failed_attempt h ps attempts exc w1 = (Inr s, w2)" "\<not> bubbles_up (fst exc)" "t' = set_writes ws t"
    by (fastforce simp: attempt_def split: sum.split_asm err.split_asm if_split_asm prod.split_asm)
  then obtain p where "matching_policy h ps (fst exc) = Inr (Some p)" "int (attempts + 1) < rp_max_attempts p"
    by (auto simp: failed_attempt_def split: sum.split_asm option.split_asm if_split_asm)
  with matching_policy_member [of h ps "fst exc" p] that i e show ?thesis by blast
qed

function retry_loop ::
  "('w, 'f :: linorder) retry_host \<Rightarrow> 'f retry_policy list \<Rightarrow> exec_task \<Rightarrow> nat \<Rightarrow> config \<Rightarrow> 'f retry_log \<Rightarrow> 'w \<Rightarrow>
     (exc + val option) \<times> exec_task \<times> 'f retry_log \<times> 'w" where
  "retry_loop h ps t attempts cfg log w =
     (case attempt_config attempts cfg of
        Inl e \<Rightarrow> (Inl (e, []), t, log, w)
      | Inr cfg \<Rightarrow>
          (case attempt h ps t attempts cfg w of
             (Ends r, t, w) \<Rightarrow> (r, t, log, w)
           | (Retries s exc, t, w) \<Rightarrow> retry_loop h ps t (attempts + 1)
               (patch_configurable cfg [(''__pregel_resuming'', CBool True)]) (log @ [(s, attempts + 1, exc)]) w))"
  by pat_completeness auto
termination
proof (relation "measure (\<lambda>(h, ps, t, attempts, cfg, log, w). nat (attempts_allowed ps - int attempts))", goal_cases)
  case 1
  show ?case by simp
next
  case prems: 2
  show ?case using prems
    by (auto simp del: of_nat_add elim!: attempt_Retries dest!: sym [of _ "attempt _ _ _ _ _ _"] attempts_allowed_ge)
qed

declare retry_loop.simps [simp del]

definition run_with_retry ::
  "('w, 'f :: linorder) retry_host \<Rightarrow> nat list \<Rightarrow> exec_task \<Rightarrow> (string, cval) dict option \<Rightarrow> 'w \<Rightarrow>
     (exc + val option) \<times> exec_task \<times> 'f retry_log \<times> 'w" where
  "run_with_retry h retry_policy t configurable w =
     (if et_timeout t \<noteq> VNone then (Inl (ValueError, []), t, [], w)
      else case first_attempt_config h t configurable w of
          Inl e \<Rightarrow> (Inl (e, []), t, [], w)
        | Inr cfg \<Rightarrow> retry_loop h (map (rh_policy h) (or_list (et_retry_policy t) retry_policy)) t 0 cfg [] w)"

text \<open>
  A response of the package \<open>requests\<close> is true if its status is below 400, so the second test never
  sees a client error, and an HTTP error with status 404 is retried.
\<close>

lemma client_errors_are_retried:
  assumes "rh_response h e = (status < 400, status)" "400 \<le> status" "rh_isinstance h e ''requests.HTTPError''"
    and "\<not> rh_isinstance h e ''httpx.HTTPStatusError''"
  shows "default_retry_on h e"
  using assms by (simp add: default_retry_on_def)

section \<open>Properties\<close>

subsection \<open>The retries\<close>

text \<open>\<open>max_interval\<close> bounds the time between two attempts only without jitter, which adds to it.\<close>

lemma retry_interval_bound: "retry_interval h p n = Inr x \<Longrightarrow> x \<le> rp_max_interval p"
  by (auto simp: retry_interval_def rbind_Inr_iff Let_def split: if_split_asm)

text \<open>Every retry follows a failure that a policy covers and that leaves an attempt.\<close>

definition allowed_retry :: "('w, 'f) retry_host \<Rightarrow> 'f retry_policy list \<Rightarrow> nat \<Rightarrow> 'f \<times> nat \<times> exc \<Rightarrow> bool" where
  "allowed_retry h ps n = (\<lambda>(s, k, exc). k = n \<and> \<not> bubbles_up (fst exc) \<and>
     (\<exists>p \<in> set ps. should_retry_on h p (fst exc) = Inr True \<and> int n < rp_max_attempts p))"

text \<open>Induction along the attempts, for a property of the arguments and the result.\<close>

lemma retry_loop_rule [consumes 1, case_names raises ends again]:
  assumes "retry_loop h ps t n cfg log w = res"
    and "\<And>t n cfg log w e. attempt_config n cfg = Inl e \<Longrightarrow> P t n cfg log w (Inl (e, []), t, log, w)"
    and "\<And>t n cfg log w cfg' r t' w'. attempt_config n cfg = Inr cfg' \<Longrightarrow>
      attempt h ps t n cfg' w = (Ends r, t', w') \<Longrightarrow> P t n cfg log w (r, t', log, w')"
    and "\<And>t n cfg log w cfg' s exc t' w' res. attempt_config n cfg = Inr cfg' \<Longrightarrow>
      attempt h ps t n cfg' w = (Retries s exc, t', w') \<Longrightarrow>
      P t' (n + 1) (patch_configurable cfg' [(''__pregel_resuming'', CBool True)]) (log @ [(s, n + 1, exc)]) w' res \<Longrightarrow>
      P t n cfg log w res"
  shows "P t n cfg log w res"
proof -
  note raises = assms(2) and ends = assms(3) and again = assms(4)
  have "h' = h \<Longrightarrow> ps' = ps \<Longrightarrow> retry_loop h' ps' t n cfg log w = res \<Longrightarrow> P t n cfg log w res" for h' ps'
  proof (induction h' ps' t n cfg log w arbitrary: res rule: retry_loop.induct)
    case (1 h' ps' t n cfg log w)
    note run = 1(4) [unfolded 1(2) 1(3) retry_loop.simps [of h ps t n cfg log w]]
    show ?case
    proof (cases "attempt_config n cfg")
      case (Inl e)
      with run raises show ?thesis by auto
    next
      case (Inr cfg')
      obtain a t1 w1 where a: "attempt h ps t n cfg' w = (a, t1, w1)" by (metis prod.exhaust)
      show ?thesis
      proof (cases a)
        case (Ends r)
        with a ends [OF Inr] run Inr show ?thesis by auto
      next
        case (Retries s exc)
        with run Inr a have "retry_loop h ps t1 (n + 1)
            (patch_configurable cfg' [(''__pregel_resuming'', CBool True)]) (log @ [(s, n + 1, exc)]) w1 = res" by simp
        with 1(1) [OF Inr _ Retries refl 1(2) 1(3)] 1(2,3) a show ?thesis
          using again [OF Inr] Retries by metis
      qed
    qed
  qed
  with assms(1) show ?thesis by blast
qed

lemma retry_loop_log:
  "retry_loop h ps t n cfg log w = res \<Longrightarrow>
     \<exists>l. fst (snd (snd res)) = log @ l \<and> (\<forall>i < length l. allowed_retry h ps (n + i + 1) (l ! i))"
proof (induction rule: retry_loop_rule)
  case (again t n cfg log w cfg' s exc t' w' res)
  from again(2) have "allowed_retry h ps (n + 1) (s, n + 1, exc)" by (rule attempt_Retries) (auto simp: allowed_retry_def)
  moreover from again(3) obtain l where
    "fst (snd (snd res)) = (log @ [(s, n + 1, exc)]) @ l" "\<forall>i < length l. allowed_retry h ps (n + 1 + i + 1) (l ! i)" by blast
  ultimately show ?case by (intro exI [of _ "(s, n + 1, exc) # l"]) (auto simp: nth_Cons split: nat.split)
qed simp_all

text \<open>The attempts stay within what the policies allow.\<close>

lemma run_with_retry_log:
  assumes "run_with_retry h dp t conf w = (r, t', log, w')" "i < length log"
  shows "allowed_retry h (map (rh_policy h) (or_list (et_retry_policy t) dp)) (i + 1) (log ! i)"
proof -
  let ?ps = "map (rh_policy h) (or_list (et_retry_policy t) dp)"
  from assms obtain cfg where "retry_loop h ?ps t 0 cfg [] w = (r, t', log, w')"
    by (auto simp: run_with_retry_def Let_def split: if_split_asm sum.split_asm)
  from retry_loop_log [OF this] assms(2) show ?thesis by auto
qed

lemma retries_bounded:
  assumes "run_with_retry h dp t conf w = (r, t', log, w')"
  shows "int (length log) < attempts_allowed (map (rh_policy h) (or_list (et_retry_policy t) dp))"
proof (cases log rule: rev_cases)
  case Nil
  then show ?thesis using fold_max(2) [of 1] by (simp add: attempts_allowed_def int_one_le_iff_zero_less)
next
  case (snoc l x)
  let ?ps = "map (rh_policy h) (or_list (et_retry_policy t) dp)"
  from run_with_retry_log [OF assms, of "length l"] snoc have "allowed_retry h ?ps (length log) x" by simp
  then obtain p where "p \<in> set ?ps" "int (length log) < rp_max_attempts p" by (auto simp: allowed_retry_def)
  with attempts_allowed_ge [of p ?ps] show ?thesis by simp
qed

subsection \<open>The configuration of an attempt\<close>

text \<open>Once the first configuration is made, the runtime has execution info, so that no attempt raises
  before the node runs.\<close>

definition conf_attempt :: "config \<Rightarrow> nat option" where
  "conf_attempt cfg = (case dict_get (cfg_configurable cfg) ''__pregel_runtime'' of
       Some (CRuntime rt) \<Rightarrow> map_option ei_node_attempt (rt_execution_info rt) | _ \<Rightarrow> None)"

definition has_runtime :: "config \<Rightarrow> bool" where
  "has_runtime cfg \<longleftrightarrow> (\<exists>rt. dict_get (cfg_configurable cfg) ''__pregel_runtime'' = Some (CRuntime rt))"

definition runtime_ready :: "config \<Rightarrow> bool" where
  "runtime_ready cfg \<longleftrightarrow> (\<forall>rt. dict_get (cfg_configurable cfg) ''__pregel_runtime'' = Some (CRuntime rt) \<longrightarrow> rt_execution_info rt \<noteq> None)"

lemma conf_get_patch: "dict_get (cfg_configurable (patch_configurable cfg [(k, v)])) k' =
    (if k = k' then Some v else dict_get (cfg_configurable cfg) k')"
  by (auto simp: patch_configurable_def dict_get_update)

lemmas runtime_defs = runtime_ready_def has_runtime_def conf_attempt_def patch_runtime_def patch_execution_info_def

lemma resuming_keeps_runtime [simp]:
  "runtime_ready (patch_configurable cfg [(''__pregel_resuming'', v)]) = runtime_ready cfg"
  "has_runtime (patch_configurable cfg [(''__pregel_resuming'', v)]) = has_runtime cfg"
  by (simp_all add: runtime_ready_def has_runtime_def conf_get_patch)

lemma attempt_config_ready:
  assumes "runtime_ready cfg"
  obtains cfg' where "attempt_config n cfg = Inr cfg'" "runtime_ready cfg'" "has_runtime cfg' = has_runtime cfg"
    "has_runtime cfg \<Longrightarrow> conf_attempt cfg' = Some (n + 1)"
    "dict_get (cfg_configurable cfg') ''__pregel_resuming'' = dict_get (cfg_configurable cfg) ''__pregel_resuming''"
proof (cases "has_runtime cfg")
  case True
  then obtain rt where rt: "dict_get (cfg_configurable cfg) ''__pregel_runtime'' = Some (CRuntime rt)" by (auto simp: has_runtime_def)
  with assms obtain ei where "rt_execution_info rt = Some ei" by (auto simp: runtime_ready_def)
  with rt that show ?thesis by (simp add: attempt_config_def runtime_defs conf_get_patch)
next
  case False
  then have "attempt_config n cfg = Inr cfg"
    by (auto simp: attempt_config_def runtime_defs split: option.split cval.split)
  with False assms that show ?thesis by auto
qed

lemma patch_runtime_has: "patch_runtime f cfg = Inr cfg' \<Longrightarrow> has_runtime cfg' = has_runtime cfg"
  by (auto simp: patch_runtime_def has_runtime_def rbind_Inr_iff conf_get_patch split: option.split_asm cval.split_asm)

lemma first_attempt_config_ready:
  obtains cfg where "first_attempt_config h t conf w = Inr cfg" "runtime_ready cfg"
proof -
  have "\<exists>cfg'. patch_runtime (\<lambda>rt. patch_execution_info f (ensure_execution_info cfg t rt)) cfg = Inr cfg' \<and> runtime_ready cfg'" for f cfg
    by (auto simp: runtime_defs ensure_execution_info_def Let_def conf_get_patch split: option.split cval.split)
  with that show ?thesis unfolding first_attempt_config_def Let_def by blast
qed

subsection \<open>The last attempt\<close>

lemma handle_command_no_value: "handle_command h t cmd cfg w = ((r, ws), w') \<Longrightarrow> r \<noteq> Inr (Some v)"
  by (auto simp: handle_command_def split: sum.split_asm val.split_asm if_split_asm prod.split_asm)

lemma attempt_returns:
  assumes "attempt h ps t n cfg w = (Ends (Inr (Some v)), t', w')"
  shows "\<exists>ws. rh_invoke h (et_proc t) (et_input t) cfg w = ((Inr v, ws), w') \<and> t' = set_writes ws t"
proof -
  obtain r ws w1 where i: "rh_invoke h (et_proc t) (et_input t) cfg w = ((r, ws), w1)" by (metis prod.exhaust)
  with assms show ?thesis
    by (auto simp: attempt_def split: sum.split_asm err.split_asm if_split_asm prod.split_asm
      dest!: handle_command_no_value [of _ _ _ _ _ _ _ _ v])
qed

lemma set_writes_simps [simp]:
  "et_proc (set_writes ws t) = et_proc t" "et_input (set_writes ws t) = et_input t" "et_id (set_writes ws t) = et_id t"
  "tw_writes (set_writes ws t) = ws" "set_writes ws (set_writes ws' t) = set_writes ws t" "set_writes (tw_writes t) t = t"
  by (simp_all add: set_writes_def)

lemma retry_loop_returns:
  "retry_loop h ps t n cfg log w = res \<Longrightarrow> runtime_ready cfg \<Longrightarrow> fst res = Inr (Some v) \<Longrightarrow> n = length log \<Longrightarrow>
     (log \<noteq> [] \<longrightarrow> dict_get (cfg_configurable cfg) ''__pregel_resuming'' = Some (CBool True)) \<Longrightarrow>
     (case res of (r, t', log', w') \<Rightarrow> \<exists>cfg' wn ws. rh_invoke h (et_proc t) (et_input t) cfg' wn = ((Inr v, ws), w') \<and> t' = set_writes ws t \<and>
       (has_runtime cfg \<longrightarrow> conf_attempt cfg' = Some (length log' + 1)) \<and>
       (log' \<noteq> [] \<longrightarrow> dict_get (cfg_configurable cfg') ''__pregel_resuming'' = Some (CBool True)))"
proof (induction rule: retry_loop_rule)
  case (ends t n cfg log w cfg' r t' w')
  from ends(3) obtain c where "attempt_config n cfg = Inr c" "has_runtime cfg \<Longrightarrow> conf_attempt c = Some (n + 1)"
    "dict_get (cfg_configurable c) ''__pregel_resuming'' = dict_get (cfg_configurable cfg) ''__pregel_resuming''"
    by (rule attempt_config_ready [where n = n]) blast
  moreover from ends attempt_returns [of h ps t n cfg' w v t' w'] obtain ws where
    "rh_invoke h (et_proc t) (et_input t) cfg' w = ((Inr v, ws), w')" "t' = set_writes ws t" by auto
  ultimately show ?case using ends(1,5,6) by (auto intro!: exI [of _ cfg'] exI [of _ w] exI [of _ ws])
next
  case (again t n cfg log w cfg' s exc t' w' res)
  from again(4) obtain c where "attempt_config n cfg = Inr c" "runtime_ready c" "has_runtime c = has_runtime cfg"
    by (rule attempt_config_ready [where n = n]) blast
  moreover from again(2) obtain ws where "t' = set_writes ws t" by (rule attempt_Retries)
  ultimately show ?case using again by (auto simp: conf_get_patch)
qed simp

text \<open>An example: a node that fails twice, under a policy of three attempts.\<close>

definition rx_host :: "nat \<Rightarrow> (nat, int) retry_host" where
  "rx_host failures = \<lparr>rh_policy = (\<lambda>_. \<lparr>rp_initial_interval = 1, rp_backoff_factor = 2, rp_max_interval = 3, rp_max_attempts = 3,
       rp_jitter = False, rp_retry_on = RetryClass ''ValueError''\<rparr>),
     rh_isinstance = (\<lambda>e c. e = ValueError \<and> c = ''ValueError''), rh_response = (\<lambda>_. (True, 0)),
     rh_invoke = (\<lambda>_ _ _ w. if w < failures then ((Inl (ValueError, []), [(''a'', VInt (int w))]), w + 1)
                          else ((Inr VNone, [(''b'', VInt (int w))]), w + 1)),
     rh_write = (\<lambda>_ _ _ w. ((Inr (), []), w)), rh_time = (\<lambda>w. w), rh_uniform = (\<lambda>w. (0, w)),
     rh_power = (\<lambda>x n. Inr (x ^ n)), rh_times = (*), rh_plus = (+)\<rparr>"

definition rx_task :: "string \<Rightarrow> exec_task" where
  "rx_task ns = \<lparr>tw_path = [PStr PULL, PStr ''n''], tw_name = ''n'', tw_writes = [], tw_triggers = [], et_id = ''i'', et_input = VNone,
     et_proc = 0, et_config = empty_config\<lparr>cfg_configurable := [(''__pregel_runtime'', CRuntime \<lparr>rt_previous = VNone,
       rt_store = None, rt_execution_info = None\<rparr>), (''checkpoint_ns'', CStr ns)]\<rparr>, et_retry_policy = [0], et_cache_key = None,
     et_writers = [], et_subgraphs = [], et_timeout = VNone\<rparr>"

lemma rx_run: "case run_with_retry (rx_host 2) [] (rx_task []) None 0 of (r, t', log, w') \<Rightarrow>
    r = Inr (Some VNone) \<and> length log = 2 \<and> tw_writes t' = [(''b'', VInt 2)] \<and> w' = 3"
  by code_simp

text \<open>
  C33: A task with retries that returns ends with the writes of its last attempt only: they are what one
  invocation of the node made that returned the value, in a configuration that counts one attempt
  more than there were retries and that signals subgraphs to resume if there was a retry. What the
  attempts before wrote is gone.
\<close>

theorem retry_keeps_last_attempt:
  assumes "run_with_retry h dp t conf w = (Inr (Some v), t', log, w')" "has_runtime (given_config t conf)"
  shows "\<exists>cfg wn. rh_invoke h (et_proc t) (et_input t) cfg wn = ((Inr v, tw_writes t'), w') \<and>
    conf_attempt cfg = Some (length log + 1) \<and>
    (log = [] \<or> dict_get (cfg_configurable cfg) ''__pregel_resuming'' = Some (CBool True))"
proof -
  obtain cfg where c: "first_attempt_config h t conf w = Inr cfg" "runtime_ready cfg" by (rule first_attempt_config_ready)
  with assms(1) have "retry_loop h (map (rh_policy h) (or_list (et_retry_policy t) dp)) t 0 cfg [] w = (Inr (Some v), t', log, w')"
    by (simp add: run_with_retry_def split: if_split_asm)
  from retry_loop_returns [OF this c(2)] obtain cfg' wn ws where
    "rh_invoke h (et_proc t) (et_input t) cfg' wn = ((Inr v, ws), w')" "t' = set_writes ws t"
    "has_runtime cfg \<longrightarrow> conf_attempt cfg' = Some (length log + 1)"
    "log = [] \<or> dict_get (cfg_configurable cfg') ''__pregel_resuming'' = Some (CBool True)" by auto
  moreover have "has_runtime cfg"
    using c(1) assms(2) by (auto simp: first_attempt_config_def Let_def dest: patch_runtime_has)
  ultimately show ?thesis by auto
qed

theorem retry_keeps_last_attempt_witness:
  "\<exists>cfg wn. rh_invoke (rx_host 2) 0 VNone cfg wn = ((Inr VNone, [(''b'', VInt 2)]), 3) \<and> conf_attempt cfg = Some 3 \<and>
     dict_get (cfg_configurable cfg) ''__pregel_resuming'' = Some (CBool True)"
proof -
  obtain t' log where run: "run_with_retry (rx_host 2) [] (rx_task []) None 0 = (Inr (Some VNone), t', log, 3)"
    and l: "length log = 2" and w: "tw_writes t' = [(''b'', VInt 2)]" using rx_run by (auto split: prod.split_asm)
  have "has_runtime (given_config (rx_task []) None)" by (simp add: has_runtime_def given_config_def rx_task_def)
  from retry_keeps_last_attempt [OF run this] l w show ?thesis by (auto simp: rx_task_def numeral_eq_Suc)
qed

lemma retry_loop_exhausts:
  assumes fails: "\<And>cfg w. \<exists>ws w'. rh_invoke h (et_proc t) (et_input t) cfg w = ((Inl (e, ivs), ws), w')"
    and plain: "\<not> bubbles_up e" "e \<noteq> CancelledError"
    and policy: "matching_policy h ps e = Inr (Some p)"
    and sleeps: "\<And>n w. \<exists>s w'. sleep_time h p n w = (Inr s, w')"
  shows "runtime_ready cfg \<Longrightarrow> int (n + 1) \<le> max 1 (rp_max_attempts p) \<Longrightarrow>
    \<exists>ws' log' w'. retry_loop h ps (set_writes ws t) n cfg log w = (Inl (e, ivs), set_writes ws' t, log', w') \<and>
      int (length log') + int n + 1 = int (length log) + max 1 (rp_max_attempts p)"
proof (induction "nat (max 1 (rp_max_attempts p) - int n)" arbitrary: n cfg ws log w)
  case (Suc k)
  from Suc(3) obtain cfg' where cfg': "attempt_config n cfg = Inr cfg'" "runtime_ready cfg'" by (rule attempt_config_ready)
  obtain ws1 w1 where i: "rh_invoke h (et_proc t) (et_input t) cfg' w = ((Inl (e, ivs), ws1), w1)" using fails by blast
  obtain s w2 where s: "sleep_time h p (n + 1) w1 = (Inr s, w2)" using sleeps by blast
  show ?case
  proof (cases "rp_max_attempts p \<le> int (n + 1)")
    case True
    then have "attempt h ps (set_writes ws t) n cfg' w = (Ends (Inl (e, ivs)), set_writes ws1 t, w1)"
      using plain i policy by (cases e) (simp_all add: attempt_def failed_attempt_def bubbles_up_def)
    with True cfg'(1) Suc(4) show ?thesis by (subst retry_loop.simps) auto
  next
    case False
    then have "attempt h ps (set_writes ws t) n cfg' w = (Retries s (e, ivs), set_writes ws1 t, w2)"
      using plain i policy s by (cases e) (simp_all add: attempt_def failed_attempt_def bubbles_up_def)
    with False cfg' Suc(1) [of "n + 1" "patch_configurable cfg' [(''__pregel_resuming'', CBool True)]" ws1 "log @ [(s, n + 1, (e, ivs))]" w2]
      Suc(2) show ?thesis by (subst retry_loop.simps) (auto simp: algebra_simps)
  qed
qed auto

text \<open>
  C34: A node that always fails with an exception that a policy covers is run exactly as often as the
  policy allows (at least once), and then the exception is raised.
\<close>

theorem retry_exhausts:
  assumes "et_timeout t = VNone"
    and "\<And>cfg w. \<exists>ws w'. rh_invoke h (et_proc t) (et_input t) cfg w = ((Inl (e, ivs), ws), w')"
    and "\<not> bubbles_up e" "e \<noteq> CancelledError"
    and "matching_policy h (map (rh_policy h) (or_list (et_retry_policy t) dp)) e = Inr (Some p)"
    and "\<And>n w. \<exists>s w'. sleep_time h p n w = (Inr s, w')"
  shows "\<exists>t' log w'. run_with_retry h dp t conf w = (Inl (e, ivs), t', log, w') \<and>
    int (length log) + 1 = max 1 (rp_max_attempts p)"
proof -
  obtain cfg where c: "first_attempt_config h t conf w = Inr cfg" "runtime_ready cfg" by (rule first_attempt_config_ready)
  from retry_loop_exhausts [where h = h and t = t, OF assms(2-6) c(2), where n = 0 and ws = "tw_writes t" and log = "[]" and w = w] c(1) assms(1)
  show ?thesis by (auto simp: run_with_retry_def)
qed

theorem retry_exhausts_witness:
  "\<exists>t' log w'. run_with_retry ((rx_host 0)\<lparr>rh_invoke := \<lambda>_ _ _ w. ((Inl (ValueError, []), []), w + 1)\<rparr>) [] (rx_task []) None 0 =
     (Inl (ValueError, []), t', log, w') \<and> int (length log) + 1 = 3"
proof -
  let ?h = "(rx_host 0)\<lparr>rh_invoke := \<lambda>_ _ _ w. ((Inl (ValueError, []), []), w + 1)\<rparr>"
  have "matching_policy ?h (map (rh_policy ?h) (or_list (et_retry_policy (rx_task [])) [])) ValueError = Inr (Some (rh_policy ?h 0))"
    by (simp add: rx_task_def or_list_def should_retry_on_def rx_host_def)
  from retry_exhausts [where h = ?h and t = "rx_task []" and e = ValueError and ivs = "[]" and conf = None and w = 0, OF _ _ _ _ this]
  show ?thesis by (auto simp: rx_task_def bubbles_up_def sleep_time_def retry_interval_def rx_host_def Let_def)
qed

subsection \<open>Commands for the parent graph\<close>

lemma split_on_nonempty [simp]: "split_on c s \<noteq> []"
  by (induction s) (auto split: list.split)

lemma split_on_append: "split_on c (x @ c # y) = split_on c x @ split_on c y"
  by (induction x) (auto split: list.split)

lemma split_on_plain: "c \<notin> set x \<Longrightarrow> split_on c x = [x]"
  by (induction x) auto

lemma join_Cons: "xs \<noteq> [] \<Longrightarrow> join sep (x # xs) = x @ sep @ join sep xs"
  by (cases xs) (simp_all add: join_def)

lemma join_split_on: "join [c] (split_on c s) = s"
proof (induction s)
  case (Cons a s)
  then show ?case by (cases "split_on c s") (auto simp: join_Cons, simp add: join_def)
qed (simp add: join_def)

text \<open>The segment of a task, its name and its id, is not a selector.\<close>

lemma colon_no_digit: "\<not> str_isdigit (name @ NS_END @ i)"
  by (auto simp: str_isdigit_def NS_END_def is_digit_def)

lemma digits_are_selector: "str_isdigit (int_str (int n))"
proof -
  have "d < 10" if "d \<in> set (dec_digits n)" for d
    using that by (induction n rule: dec_digits.induct) (subst (asm) dec_digits.simps, auto split: if_split_asm)
  moreover have "dec_digits n \<noteq> []" by (subst dec_digits.simps) simp
  ultimately show ?thesis by (auto simp: str_isdigit_def int_str_def nat_str_def list_all_iff is_digit_char)
qed

lemma task_ns_parts:
  assumes "CHR ''|'' \<notin> set name" "CHR ''|'' \<notin> set i"
  shows "split_on (CHR ''|'') (checkpoint_ns_of env name @ NS_END @ i) =
    (if parent_ns env = [] then [] else split_on (CHR ''|'') (parent_ns env)) @ [name @ NS_END @ i]"
  using assms split_on_append [of "CHR ''|''" "parent_ns env" "name @ NS_END @ i"] split_on_plain [of "CHR ''|''" "name @ NS_END @ i"]
  by (auto simp: checkpoint_ns_of_def NS_SEP_def NS_END_def)

lemma task_ns_nonempty: "checkpoint_ns_of env name @ NS_END @ i \<noteq> []"
  by (simp add: NS_END_def)

lemma task_segments:
  assumes "CHR ''|'' \<notin> set name" "CHR ''|'' \<notin> set i" "CHR ''|'' \<notin> set name'" "CHR ''|'' \<notin> set i'"
    and ns: "ns = checkpoint_ns_of env name @ NS_END @ i"
    and nested: "parent_ns env' = ns \<or> (\<exists>k. parent_ns env' = join NS_SEP [ns, int_str (int k)])"
  shows "\<exists>ps k. split_on (CHR ''|'') ns = ps @ [name @ NS_END @ i] \<and>
    split_on (CHR ''|'') (checkpoint_ns_of env' name' @ NS_END @ i') \<in>
      {ps @ [name @ NS_END @ i, name' @ NS_END @ i'], ps @ [name @ NS_END @ i, int_str (int k), name' @ NS_END @ i']}"
proof -
  obtain ps where ps: "split_on (CHR ''|'') ns = ps @ [name @ NS_END @ i]" using assms(1,2) task_ns_parts ns by blast
  have dig: "CHR ''|'' \<notin> set (int_str (int k))" for k
    using digits_are_selector [of k] by (auto simp: str_isdigit_def list_all_iff is_digit_def)
  have "parent_ns env' \<noteq> []" using nested ns task_ns_nonempty [of env name i] by (auto simp: join_def)
  with assms(3,4) have "split_on (CHR ''|'') (checkpoint_ns_of env' name' @ NS_END @ i') =
      split_on (CHR ''|'') (parent_ns env') @ [name' @ NS_END @ i']" by (simp add: task_ns_parts)
  moreover have "split_on (CHR ''|'') (parent_ns env') = ps @ [name @ NS_END @ i] \<or>
      (\<exists>k. split_on (CHR ''|'') (parent_ns env') = ps @ [name @ NS_END @ i, int_str (int k)])"
    using nested ps split_on_append [of "CHR ''|''" ns] split_on_plain [OF dig] by (auto simp: join_def NS_SEP_def)
  ultimately show ?thesis using ps by auto
qed

text \<open>The namespace of a task is that of the parent of the tasks of its nested graphs, which run in it
  or, when there are several, in selectors of it.\<close>

lemma parent_of_nested_task:
  assumes "CHR ''|'' \<notin> set name" "CHR ''|'' \<notin> set i" "CHR ''|'' \<notin> set name'" "CHR ''|'' \<notin> set i'"
    and ns: "ns = checkpoint_ns_of env name @ NS_END @ i"
    and nested: "parent_ns env' = ns \<or> (\<exists>k. parent_ns env' = join NS_SEP [ns, int_str (int k)])"
  shows "checkpoint_ns_for_parent_command (checkpoint_ns_of env' name' @ NS_END @ i') = ns"
proof -
  obtain ps where "split_on (CHR ''|'') ns = ps @ [name @ NS_END @ i]"
    "checkpoint_ns_for_parent_command (checkpoint_ns_of env' name' @ NS_END @ i') = join NS_SEP (ps @ [name @ NS_END @ i])"
    using task_segments [OF assms]
    by (auto simp: checkpoint_ns_for_parent_command_def drop_selectors_def Let_def colon_no_digit digits_are_selector)
  then show ?thesis using join_split_on [of "CHR ''|''" ns] by (simp add: NS_SEP_def)
qed

lemma nested_ns:
  assumes "init_config lenv cfg = Inr ncfg" "le_is_nested lenv" "conf_index cfg ''checkpoint_ns'' = Inr ns"
  shows "conf_ns ncfg = ns \<or> (\<exists>k. conf_ns ncfg = join NS_SEP [ns, int_str (int k)])"
proof -
  have "conf_ns cfg = ns" using assms(3) by (simp add: conf_index_def conf_ns_def conf_str_def split: option.split_asm cval.split_asm)
  then show ?thesis using assms
    by (auto simp: init_config_def rbind_Inr_iff conf_ns_def conf_str_def conf_get_patch split: option.split_asm if_split_asm)
qed

text \<open>Two segments of tasks stay two segments without their ids.\<close>

lemma recast_two:
  assumes "\<exists>ps x y. filter (\<lambda>p. \<not> str_isdigit p) (split_on (CHR ''|'') ns) = ps @ [x, y]"
  shows "CHR ''|'' \<in> set (recast_checkpoint_ns ns)"
proof -
  have "CHR ''|'' \<in> set (join NS_SEP (qs @ [a, b]))" for qs :: "string list" and a b
    by (induction qs) (simp_all add: join_Cons, simp_all add: join_def NS_SEP_def)
  with assms show ?thesis by (auto simp: recast_checkpoint_ns_def)
qed

lemma nested_not_PARENT:
  assumes "CHR ''|'' \<notin> set name" "CHR ''|'' \<notin> set i" "CHR ''|'' \<notin> set name'" "CHR ''|'' \<notin> set i'"
    and ns: "ns = checkpoint_ns_of env name @ NS_END @ i"
    and nested: "parent_ns env' = ns \<or> (\<exists>k. parent_ns env' = join NS_SEP [ns, int_str (int k)])"
  shows "checkpoint_ns_of env' name' @ NS_END @ i' \<noteq> PARENT \<and> recast_checkpoint_ns (checkpoint_ns_of env' name' @ NS_END @ i') \<noteq> PARENT"
proof -
  have "parent_ns env' \<noteq> []" using nested ns task_ns_nonempty [of env name i] by (auto simp: join_def)
  then have sep: "checkpoint_ns_of env' name' = parent_ns env' @ NS_SEP @ name'" by (simp add: checkpoint_ns_of_def)
  have "CHR ''|'' \<in> set (recast_checkpoint_ns (checkpoint_ns_of env' name' @ NS_END @ i'))"
    by (rule recast_two) (use task_segments [OF assms] in \<open>auto simp: colon_no_digit digits_are_selector\<close>)
  moreover have "CHR ''|'' \<in> set (checkpoint_ns_of env' name' @ NS_END @ i')" using sep by (simp add: NS_SEP_def)
  moreover have "CHR ''|'' \<notin> set PARENT" by (simp add: PARENT_def)
  ultimately show ?thesis by metis
qed

definition plain_segment :: "string \<Rightarrow> bool" where
  "plain_segment s \<longleftrightarrow> CHR ''|'' \<notin> set s"

text \<open>
  C35: A command for the parent graph that the task of a nested graph raises reaches the task of the
  enclosing graph that runs the nested graph: the nested task passes it on addressed to that task's
  namespace, also when the task runs several nested graphs, and the enclosing task then takes it and
  has its writers write it.
\<close>

theorem parent_command_reaches_parent:
  assumes "conf_index cfg ''checkpoint_ns'' = Inr (checkpoint_ns_of env name @ NS_END @ i)"
    and "init_config lenv cfg = Inr ncfg" "le_is_nested lenv"
    and "parent_ns env' = conf_ns ncfg"
    and "conf_index cfg' ''checkpoint_ns'' = Inr (checkpoint_ns_of env' (tw_name t') @ NS_END @ i')"
    and "list_all plain_segment [name, i, tw_name t', i']" "tw_name t' \<noteq> PARENT"
  shows "\<exists>cmd. handle_command h t' (VCommand (Some PARENT) u r goto) cfg' w' = ((Inl (ParentCommand cmd, []), []), w') \<and>
    handle_command h t cmd cfg w = (let ((x, ws), w1) = invoke_writers h (et_writers t) cmd cfg w
      in ((case x of Inl e \<Rightarrow> Inl e | Inr _ \<Rightarrow> Inr None, ws), w1))"
proof -
  let ?ns = "checkpoint_ns_of env name @ NS_END @ i" and ?ns' = "checkpoint_ns_of env' (tw_name t') @ NS_END @ i'"
  have plain: "CHR ''|'' \<notin> set name" "CHR ''|'' \<notin> set i" "CHR ''|'' \<notin> set (tw_name t')" "CHR ''|'' \<notin> set i'"
    using assms(6) by (simp_all add: plain_segment_def)
  have n: "parent_ns env' = ?ns \<or> (\<exists>k. parent_ns env' = join NS_SEP [?ns, int_str (int k)])"
    using nested_ns [OF assms(2,3,1)] assms(4) by simp
  have to: "checkpoint_ns_for_parent_command ?ns' = ?ns"
    by (rule parent_of_nested_task [OF plain refl n])
  have "\<not> addresses (Some PARENT) ?ns' (tw_name t')"
    using assms(7) nested_not_PARENT [OF plain refl n] by (auto simp: addresses_def)
  then have "handle_command h t' (VCommand (Some PARENT) u r goto) cfg' w' =
      ((Inl (ParentCommand (VCommand (Some ?ns) u r goto), []), []), w')"
    using assms(5) to by (simp add: handle_command_def)
  moreover have "addresses (Some ?ns) ?ns (tw_name t)" by (simp add: addresses_def)
  ultimately show ?thesis using assms(1) by (intro exI [of _ "VCommand (Some ?ns) u r goto"]) (simp add: handle_command_def)
qed

definition rx_outer :: config where
  "rx_outer = (et_config (rx_task ''a:1''))\<lparr>cfg_configurable := [(''__pregel_scratchpad'', CScratchpad \<lparr>sp_step = 1, sp_stop = 9,
     sp_call_counter = 0, sp_interrupt_counter = 0, sp_subgraph_counter = 1, sp_resume = [], sp_null_resume = []\<rparr>), (''checkpoint_ns'', CStr ''a:1'')]\<rparr>"

definition rx_nested :: config where
  "rx_nested = projr (init_config (ex_loop_env\<lparr>le_is_nested := True\<rparr>) rx_outer)"

theorem parent_command_reaches_parent_witness:
  "\<exists>cmd. handle_command (rx_host 0) (rx_task ''a:1|1|n:2'') (VCommand (Some PARENT) VNone VNone VNone) (et_config (rx_task ''a:1|1|n:2'')) 0
      = ((Inl (ParentCommand cmd, []), []), 0) \<and>
    handle_command (rx_host 0) (rx_task ''a:1'') cmd rx_outer 0 = (let ((x, ws), w1) = invoke_writers (rx_host 0) [] cmd rx_outer 0
      in ((case x of Inl e \<Rightarrow> Inl e | Inr _ \<Rightarrow> Inr None, ws), w1))"
proof -
  have o: "conf_index rx_outer ''checkpoint_ns'' = Inr (checkpoint_ns_of ex_env ''a'' @ NS_END @ ''1'')" by code_simp
  have "\<not> isl (init_config (ex_loop_env\<lparr>le_is_nested := True\<rparr>) rx_outer)" by code_simp
  then have n: "init_config (ex_loop_env\<lparr>le_is_nested := True\<rparr>) rx_outer = Inr rx_nested" by (simp add: rx_nested_def)
  have e: "parent_ns (ex_env\<lparr>pe_config := rx_nested\<rparr>) = conf_ns rx_nested" by (simp add: parent_ns_def conf_ns_def)
  have i: "conf_index (et_config (rx_task ''a:1|1|n:2'')) ''checkpoint_ns'' =
      Inr (checkpoint_ns_of (ex_env\<lparr>pe_config := rx_nested\<rparr>) (tw_name (rx_task ''a:1|1|n:2'')) @ NS_END @ ''2'')" by code_simp
  have p: "list_all plain_segment [''a'', ''1'', tw_name (rx_task ''a:1|1|n:2''), ''2'']" "tw_name (rx_task ''a:1|1|n:2'') \<noteq> PARENT"
    by (simp_all add: plain_segment_def rx_task_def PARENT_def)
  from parent_command_reaches_parent [OF o n _ e i p, where t = "rx_task ''a:1''"] show ?thesis by (simp add: rx_task_def)
qed

subsection \<open>Retries in a run\<close>

text \<open>What the runner does with a task: it runs it and records the end. A run that retries its tasks
  is a run of the model.\<close>

definition outcome_of :: "(err \<Rightarrow> val) \<Rightarrow> exc + val option \<Rightarrow> outcome" where
  "outcome_of exc_val r = (case r of
       Inr _ \<Rightarrow> Returned
     | Inl (e, is) \<Rightarrow> (if e = CancelledError then Cancelled (exc_val e) else if e = GraphInterrupt then Interrupted is
         else if bubbles_up e then BubbledUp else Failed (exc_val e)))"

definition run_task ::
  "('w, 'f :: linorder) retry_host \<Rightarrow> (err \<Rightarrow> val) \<Rightarrow> loop_env \<Rightarrow> string list \<Rightarrow> string list \<Rightarrow> nat list \<Rightarrow> (string, cval) dict option \<Rightarrow>
     exec_task \<Rightarrow> loop \<Rightarrow> 'w \<Rightarrow> (exc + val option) \<times> loop res \<times> 'w" where
  "run_task h exc_val env error_nodes handled retry_policy configurable t lo w =
     (let (r, t', log, w') = run_with_retry h retry_policy t configurable w
      in (r, commit_task env error_nodes handled t' (outcome_of exc_val r) (set_task_writes (et_id t) (\<lambda>_. tw_writes t') lo), w'))"

lemma retry_loop_task: "retry_loop h ps t n cfg log w = res \<Longrightarrow> \<exists>ws. fst (snd res) = set_writes ws t"
proof (induction rule: retry_loop_rule)
  case (ends t n cfg log w cfg' r t' w')
  then show ?case
    by (auto simp: attempt_def Let_def split: prod.split_asm sum.split_asm err.split_asm if_split_asm)
next
  case (again t n cfg log w cfg' s exc t' w' res)
  from again(2) obtain ws where "t' = set_writes ws t" by (rule attempt_Retries)
  with again(3) show ?case by auto
next
  case (raises t n cfg log w e)
  show ?case by (rule exI [of _ "tw_writes t"]) simp
qed

lemma set_task_writes_replace:
  "set_task_writes i (\<lambda>_. ws) lo = set_task_writes i (\<lambda>old. old @ ws) (set_task_writes i (\<lambda>_. []) lo)"
  by (cases "lo_tasks lo") (auto simp: set_task_writes_def dict_get_set dict_set_twice split: option.split)

lemma run_task_steps:
  assumes "run_task h exc_val env ehs handled dp conf t lo w = (r, Inr lo', w')" "known_task lo t"
  shows "(runner_step env ehs handled cache)\<^sup>*\<^sup>* lo lo'"
proof -
  obtain t' log where run: "run_with_retry h dp t conf w = (r, t', log, w')"
    and commit: "commit_task env ehs handled t' (outcome_of exc_val r) (set_task_writes (et_id t) (\<lambda>_. tw_writes t') lo) = Inr lo'"
    using assms(1) by (auto simp: run_task_def Let_def split: prod.split_asm)
  let ?clear = "set_task_writes (et_id t) (\<lambda>_. []) lo"
  have "et_id t' = et_id t" using run
    by (auto simp: run_with_retry_def Let_def split: if_split_asm sum.split_asm dest!: retry_loop_task)
  then have "known_task (set_task_writes (et_id t) (\<lambda>_. tw_writes t') lo) t'"
    using assms(2) by (auto simp: known_task_def set_task_writes_def in_dict_iff dict_get_set split: option.split_asm option.split)
  moreover have "runner_step env ehs handled cache lo ?clear"
    "runner_step env ehs handled cache ?clear (set_task_writes (et_id t) (\<lambda>_. tw_writes t') lo)"
    using step_clear step_write set_task_writes_replace [of "et_id t" "tw_writes t'" lo] by metis+
  ultimately show ?thesis using step_commit [OF _ commit]
    by (meson rtranclp.rtrancl_refl rtranclp.rtrancl_into_rtrancl)
qed

end
