(* ===== verification/Cache_Memory.thy ===== *)
theory Cache_Memory
  imports Run
begin

section \<open>The in-memory cache, and cached writes of tasks (cache/memory, pregel/_loop.py)\<close>

text \<open>
  \<open>InMemoryCache\<close>: serialized values under a namespace and a key, each with the time when it expires.
  The serializer and the clock are parameters: \<open>'f\<close> are the times and \<open>ch_expiry now ttl\<close> is the
  time a number of seconds after \<open>now\<close>, which can be out of range. The lock makes every operation
  atomic. The loop saves the writes of a task under the cache key of the task, and takes them from there
  instead of running the task.
\<close>

subsection \<open>The cache\<close>

type_synonym full_key = "string list \<times> string"
type_synonym ('b, 'f) cache = "(string list, (string, (string \<times> 'b) \<times> 'f option) dict) dict"

record ('v, 'b, 'f) cache_host =
  ch_dumps :: "'v \<Rightarrow> string \<times> 'b"
  ch_loads :: "string \<times> 'b \<Rightarrow> 'v"
  ch_expiry :: "'f \<Rightarrow> int \<Rightarrow> 'f res"

definition alive :: "'f :: linorder \<Rightarrow> 'f option \<Rightarrow> bool" where
  "alive now expiry \<longleftrightarrow> (case expiry of None \<Rightarrow> True | Some e \<Rightarrow> now < e)"

definition get_entry ::
  "('v, 'b, 'f :: linorder) cache_host \<Rightarrow> 'f \<Rightarrow> full_key \<Rightarrow> (full_key, 'v) dict \<times> ('b, 'f) cache \<Rightarrow> (full_key, 'v) dict \<times> ('b, 'f) cache" where
  "get_entry h now = (\<lambda>(ns, key) (found, cache).
     case dict_get cache ns of
       None \<Rightarrow> (found, cache)
     | Some d \<Rightarrow> (case dict_get d key of
         None \<Rightarrow> (found, cache)
       | Some (enc, expiry) \<Rightarrow>
           if alive now expiry then (dict_set (ns, key) (ch_loads h enc) found, cache)
           else (found, dict_set ns (AList.delete key d) cache)))"

definition cache_get ::
  "('v, 'b, 'f :: linorder) cache_host \<Rightarrow> 'f \<Rightarrow> full_key list \<Rightarrow> ('b, 'f) cache \<Rightarrow> (full_key, 'v) dict \<times> ('b, 'f) cache" where
  "cache_get h now keys cache = fold (get_entry h now) keys ([], cache)"

text \<open>An expiry out of range raises; the pairs before stay.\<close>

fun cache_set ::
  "('v, 'b, 'f :: linorder) cache_host \<Rightarrow> 'f \<Rightarrow> (full_key \<times> 'v \<times> int option) list \<Rightarrow> ('b, 'f) cache \<Rightarrow> unit res \<times> ('b, 'f) cache" where
  "cache_set h now [] cache = (Inr (), cache)"
| "cache_set h now (((ns, key), v, ttl) # pairs) cache =
     (case (case ttl of None \<Rightarrow> Inr None | Some t \<Rightarrow> rbind (ch_expiry h now t) (\<lambda>e. Inr (Some e))) of
        Inl e \<Rightarrow> (Inl e, cache)
      | Inr expiry \<Rightarrow> cache_set h now pairs
          (dict_set ns (dict_set key (ch_dumps h v, expiry) (dict_get_or cache ns [])) cache))"

definition cache_clear :: "string list list option \<Rightarrow> ('b, 'f) cache \<Rightarrow> ('b, 'f) cache" where
  "cache_clear namespaces cache = (case namespaces of
       None \<Rightarrow> []
     | Some nss \<Rightarrow> fold (\<lambda>ns c. if in_dict ns c then AList.delete ns c else c) nss cache)"

subsection \<open>Cached writes\<close>

type_synonym ('b, 'f) write_cache_host = "(chan_write list, 'b, 'f) cache_host"

text \<open>The end of \<open>SyncPregelLoop.put_writes\<close>: the writes of the task, not those that are put.\<close>

definition cache_task_writes ::
  "('b, 'f :: linorder) write_cache_host \<Rightarrow> 'f \<Rightarrow> string \<Rightarrow> chan_write list \<Rightarrow> loop \<Rightarrow> ('b, 'f) cache option \<Rightarrow> ('b, 'f) cache option" where
  "cache_task_writes h now task_id writes lo cache =
     (case cache of
        None \<Rightarrow> None
      | Some c \<Rightarrow>
          if writes = [] then Some c
          else (case Option.bind (lo_tasks lo) (\<lambda>ts. dict_get ts task_id) of
              None \<Rightarrow> Some c
            | Some t \<Rightarrow> (case et_cache_key t of
                None \<Rightarrow> Some c
              | Some ck \<Rightarrow> Some (snd (cache_set h now [((ck_ns ck, ck_key ck), tw_writes t, ck_ttl ck)] c)))))"

text \<open>What \<open>match_cached_writes\<close> of the loop finds in the cache at a time.\<close>

definition cached_at :: "('b, 'f :: linorder) write_cache_host \<Rightarrow> 'f \<Rightarrow> ('b, 'f) cache option \<Rightarrow> write_cache" where
  "cached_at h now cache = map_option (\<lambda>c k. dict_get (fst (cache_get h now [k] c)) k) cache"

section \<open>Properties\<close>

subsection \<open>Entries\<close>

definition entry :: "('b, 'f) cache \<Rightarrow> full_key \<Rightarrow> ((string \<times> 'b) \<times> 'f option) option" where
  "entry c = (\<lambda>(ns, key). Option.bind (dict_get c ns) (\<lambda>d. dict_get d key))"

definition live_entry :: "('v, 'b, 'f :: linorder) cache_host \<Rightarrow> 'f \<Rightarrow> ('b, 'f) cache \<Rightarrow> full_key \<Rightarrow> ('v \<times> 'f option) option" where
  "live_entry h now c k = (case entry c k of
       Some (enc, expiry) \<Rightarrow> if alive now expiry then Some (ch_loads h enc, expiry) else None | None \<Rightarrow> None)"

lemma entry_pair: "entry c (ns, key) = Option.bind (dict_get c ns) (\<lambda>d. dict_get d key)"
  by (simp add: entry_def)

lemma entry_set: "entry (dict_set ns (dict_set key x (dict_get_or c ns [])) c) k = (if k = (ns, key) then Some x else entry c k)"
  by (auto simp: entry_def dict_get_or_def split: prod.split option.split)

lemma entry_delete: "dict_get c ns = Some d \<Longrightarrow>
    entry (dict_set ns (AList.delete key d) c) k = (if k = (ns, key) then None else entry c k)"
  by (auto simp: entry_def delete_conv split: prod.split)

lemma live_later: "now \<le> later \<Longrightarrow> alive later expiry \<Longrightarrow> alive now expiry"
  by (auto simp: alive_def split: option.split_asm)

text \<open>Looking up keys finds the values that are alive and drops nothing that will be.\<close>

lemma get_entry_found:
  assumes "get_entry h now k (found, c) = (found', c')"
  shows "dict_get found' k' = (if k' = k \<and> live_entry h now c k \<noteq> None then map_option fst (live_entry h now c k) else dict_get found k')"
    and "now \<le> later \<Longrightarrow> live_entry h later c' k' = live_entry h later c k'"
proof -
  obtain ns key where k: "k = (ns, key)" by (cases k)
  show "dict_get found' k' = (if k' = k \<and> live_entry h now c k \<noteq> None then map_option fst (live_entry h now c k) else dict_get found k')"
    using assms by (auto simp: k get_entry_def live_entry_def entry_def split: option.split_asm if_split_asm)
  assume "now \<le> later"
  with assms show "live_entry h later c' k' = live_entry h later c k'"
    by (auto simp: k get_entry_def live_entry_def entry_delete entry_pair
      split: option.split_asm if_split_asm option.split) (use live_later in blast)
qed

lemma get_entries_found:
  "fold (get_entry h now) keys (found, c) = (found', c') \<Longrightarrow>
     dict_get found' k = (if k \<in> set keys \<and> live_entry h now c k \<noteq> None then map_option fst (live_entry h now c k) else dict_get found k) \<and>
     (now \<le> later \<longrightarrow> live_entry h later c' k = live_entry h later c k)"
proof (induction keys arbitrary: found c)
  case (Cons x keys)
  obtain f1 c1 where step: "get_entry h now x (found, c) = (f1, c1)" by (metis prod.exhaust)
  with Cons.prems have "fold (get_entry h now) keys (f1, c1) = (found', c')" by simp
  from Cons.IH [OF this] get_entry_found(1) [OF step, of k] get_entry_found(2) [OF step, of now k]
    get_entry_found(2) [OF step, of later k] show ?case by auto
qed simp

lemma cache_get_found:
  assumes "cache_get h now keys c = (found, c')"
  shows "dict_get found k = (if k \<in> set keys then map_option fst (live_entry h now c k) else None)"
    and "now \<le> later \<Longrightarrow> live_entry h later c' k = live_entry h later c k"
proof -
  note get = get_entries_found [OF assms [unfolded cache_get_def], of k]
  from get show "dict_get found k = (if k \<in> set keys then map_option fst (live_entry h now c k) else None)"
    by (cases "live_entry h now c k") auto
  from get show "now \<le> later \<Longrightarrow> live_entry h later c' k = live_entry h later c k" by blast
qed

subsection \<open>The cache keeps what was set last\<close>

text \<open>The contract: a map from keys to values and expiry times, that a look-up does not change. A
  value without an expiry time is always found, another as long as its time has not come.\<close>

datatype ('v) cache_op = CacheGet "full_key list" | CacheSet "(full_key \<times> 'v \<times> int option) list" | CacheClear "string list list option"

definition run_op ::
  "('v, 'b, 'f :: linorder) cache_host \<Rightarrow> 'f \<times> 'v cache_op \<Rightarrow> ('b, 'f) cache \<Rightarrow> (full_key \<rightharpoonup> 'v) \<times> ('b, 'f) cache" where
  "run_op h = (\<lambda>(now, op) c. case op of
       CacheGet keys \<Rightarrow> let (found, c) = cache_get h now keys c in (dict_get found, c)
     | CacheSet pairs \<Rightarrow> (Map.empty, snd (cache_set h now pairs c))
     | CacheClear nss \<Rightarrow> (Map.empty, cache_clear nss c))"

type_synonym ('v, 'f) contract = "full_key \<rightharpoonup> 'v \<times> 'f option"

fun spec_set :: "('f \<Rightarrow> int \<Rightarrow> 'f res) \<Rightarrow> 'f \<Rightarrow> (full_key \<times> 'v \<times> int option) list \<Rightarrow> ('v, 'f) contract \<Rightarrow> ('v, 'f) contract" where
  "spec_set expiry now [] m = m"
| "spec_set expiry now ((k, v, None) # pairs) m = spec_set expiry now pairs (m(k \<mapsto> (v, None)))"
| "spec_set expiry now ((k, v, Some ttl) # pairs) m = (case expiry now ttl of
     Inr e \<Rightarrow> spec_set expiry now pairs (m(k \<mapsto> (v, Some e))) | Inl _ \<Rightarrow> m)"

definition spec_op :: "('f :: linorder \<Rightarrow> int \<Rightarrow> 'f res) \<Rightarrow> 'f \<times> 'v cache_op \<Rightarrow> ('v, 'f) contract \<Rightarrow> (full_key \<rightharpoonup> 'v) \<times> ('v, 'f) contract" where
  "spec_op expiry = (\<lambda>(now, op) m. case op of
       CacheGet keys \<Rightarrow> ((\<lambda>k. if k \<notin> set keys then None else case m k of
           None \<Rightarrow> None | Some (v, None) \<Rightarrow> Some v | Some (v, Some e) \<Rightarrow> if now < e then Some v else None), m)
     | CacheSet pairs \<Rightarrow> (Map.empty, spec_set expiry now pairs m)
     | CacheClear None \<Rightarrow> (Map.empty, Map.empty)
     | CacheClear (Some nss) \<Rightarrow> (Map.empty, \<lambda>k. if fst k \<in> set nss then None else m k))"

fun run_ops :: "('o \<Rightarrow> 's \<Rightarrow> 'r \<times> 's) \<Rightarrow> 'o list \<Rightarrow> 's \<Rightarrow> 'r list" where
  "run_ops step [] s = []"
| "run_ops step (x # xs) s = (let (r, s) = step x s in r # run_ops step xs s)"

text \<open>A cache stands for a map when from now on the same values are alive in both.\<close>

definition stands_for :: "('v, 'b, 'f :: linorder) cache_host \<Rightarrow> 'f \<Rightarrow> ('b, 'f) cache \<Rightarrow> ('v, 'f) contract \<Rightarrow> bool" where
  "stands_for h now c m \<longleftrightarrow> (\<forall>later \<ge> now. \<forall>k. live_entry h later c k =
     (case m k of Some (v, e) \<Rightarrow> if alive later e then Some (v, e) else None | None \<Rightarrow> None))"

definition cache_serde_ok :: "('v, 'b, 'f) cache_host \<Rightarrow> bool" where
  "cache_serde_ok h \<longleftrightarrow> (\<forall>v. ch_loads h (ch_dumps h v) = v)"

lemma stands_for_set:
  "cache_serde_ok h \<Longrightarrow> stands_for h now c m \<Longrightarrow> stands_for h now (snd (cache_set h now pairs c)) (spec_set (ch_expiry h) now pairs m)"
proof (induction pairs arbitrary: c m)
  case (Cons p pairs)
  obtain ns key v ttl where p: "p = ((ns, key), v, ttl)" by (metis prod.exhaust)
  have set: "stands_for h now (dict_set ns (dict_set key (ch_dumps h v, e) (dict_get_or c ns [])) c) (m((ns, key) \<mapsto> (v, e)))" for e
    using Cons.prems by (auto simp: stands_for_def live_entry_def entry_set cache_serde_ok_def)
  show ?case
  proof (cases ttl)
    case None
    with Cons.IH [OF Cons.prems(1) set [of None]] p show ?thesis by (simp del: fun_upd_apply)
  next
    case (Some t)
    with Cons.IH [OF Cons.prems(1) set [of "Some (projr (ch_expiry h now t))"]] p Cons.prems(2)
    show ?thesis by (cases "ch_expiry h now t") (simp_all del: fun_upd_apply)
  qed
qed simp

lemma entry_clear: "entry (fold (\<lambda>ns c. if in_dict ns c then AList.delete ns c else c) nss c) k = (if fst k \<in> set nss then None else entry c k)"
proof (induction nss arbitrary: c)
  case (Cons ns nss)
  have "entry (if in_dict ns c then AList.delete ns c else c) k = (if fst k = ns then None else entry c k)"
    by (cases k) (auto simp: entry_pair delete_conv)
  with Cons show ?case by auto
qed simp

lemma entry_cache_clear: "entry (cache_clear nss c) k = (if nss = None \<or> fst k \<in> set (the nss) then None else entry c k)"
proof (cases nss)
  case None
  then show ?thesis by (simp add: cache_clear_def entry_def split_beta)
next
  case (Some l)
  then show ?thesis unfolding cache_clear_def Some option.case entry_clear by simp
qed

lemma stands_for_step:
  assumes "cache_serde_ok h" "stands_for h now c m" "run_op h (now, op) c = (r, c')" "spec_op (ch_expiry h) (now, op) m = (r', m')"
  shows "r = r' \<and> stands_for h now c' m'"
proof (cases op)
  case (CacheGet keys)
  obtain found where g: "cache_get h now keys c = (found, c')" "r = dict_get found"
    using assms(3) CacheGet by (auto simp: run_op_def split: prod.split_asm)
  have "stands_for h now c' m" using assms(2) cache_get_found(2) [OF g(1)] by (simp add: stands_for_def)
  moreover have "dict_get found = r'"
  proof
    fix k
    have r': "r' = (\<lambda>k. if k \<notin> set keys then None else case m k of
        None \<Rightarrow> None | Some (v, None) \<Rightarrow> Some v | Some (v, Some e) \<Rightarrow> if now < e then Some v else None)"
      using assms(4) by (simp add: CacheGet spec_op_def)
    have "live_entry h now c k = (case m k of Some (v, e) \<Rightarrow> if alive now e then Some (v, e) else None | None \<Rightarrow> None)"
      using assms(2) unfolding stands_for_def by blast
    then show "dict_get found k = r' k" unfolding cache_get_found(1) [OF g(1)] r'
      by (auto simp: alive_def split: option.split)
  qed
  ultimately show ?thesis using g(2) assms(4) CacheGet by (simp add: spec_op_def)
next
  case (CacheSet pairs)
  then show ?thesis using assms stands_for_set by (auto simp: run_op_def spec_op_def)
next
  case (CacheClear nss)
  have "live_entry h later (cache_clear nss c) k = (if nss = None \<or> fst k \<in> set (the nss) then None else live_entry h later c k)" for later k
    by (simp add: live_entry_def entry_cache_clear)
  with assms(2-4) CacheClear show ?thesis
    by (cases nss) (auto simp: run_op_def spec_op_def stands_for_def)
qed

lemma run_ops_refine:
  "cache_serde_ok h \<Longrightarrow> sorted (map fst ops) \<Longrightarrow> (\<forall>x \<in> set ops. now \<le> fst x) \<Longrightarrow> stands_for h now c m \<Longrightarrow>
     run_ops (run_op h) ops c = run_ops (spec_op (ch_expiry h)) ops m"
proof (induction ops arbitrary: now c m)
  case (Cons x ops)
  obtain t op where x: "x = (t, op)" by (cases x)
  with Cons.prems have "stands_for h t c m" by (auto simp: stands_for_def)
  moreover obtain r c' where r: "run_op h (t, op) c = (r, c')" by (metis prod.exhaust)
  moreover obtain r' m' where r': "spec_op (ch_expiry h) (t, op) m = (r', m')" by (metis prod.exhaust)
  ultimately have "r = r'" "stands_for h t c' m'" using stands_for_step [OF Cons.prems(1)] by blast+
  with Cons.IH [OF Cons.prems(1) _ _ this(2)] Cons.prems(2) show ?case by (simp add: x r r')
qed simp

text \<open>
  C36: The cache is a map with expiry times: whatever look-ups, settings and clearings are done at
  times that do not decrease, every look-up finds exactly the keys it names whose last value has not
  been cleared and either has no time to live or is looked up strictly before its expiry time, with
  that value. The entries that look-ups delete change nothing. (The encoding of values loads what it
  dumps; a time to live out of range ends the setting where it stands.)
\<close>

theorem cache_refines:
  assumes "cache_serde_ok h" "sorted (map fst ops)"
  shows "run_ops (run_op h) ops [] = run_ops (spec_op (ch_expiry h)) ops Map.empty"
proof (cases ops)
  case (Cons x xs)
  have "stands_for h (fst x) [] Map.empty" by (simp add: stands_for_def live_entry_def entry_def)
  with assms show ?thesis by (intro run_ops_refine [where now = "fst x"]) (auto simp: Cons)
qed simp

definition cx_host :: "(nat, nat, int) cache_host" where
  "cx_host = \<lparr>ch_dumps = (\<lambda>v. (''int'', v + 1)), ch_loads = (\<lambda>(t, b). b - 1), ch_expiry = (\<lambda>now ttl. Inr (now + ttl))\<rparr>"

definition cx_ops :: "(int \<times> nat cache_op) list" where
  "cx_ops = [(0, CacheSet [(([''a''], ''k''), 5, Some 10), (([''b''], ''k''), 6, None)]), (5, CacheGet [([''a''], ''k'')]),
     (10, CacheGet [([''a''], ''k''), ([''b''], ''k'')]), (11, CacheClear (Some [[''b'']])), (12, CacheGet [([''b''], ''k'')])]"

theorem cache_refines_witness:
  "map (\<lambda>r. (r ([''a''], ''k''), r ([''b''], ''k''))) (run_ops (run_op cx_host) cx_ops []) =
     [(None, None), (Some 5, None), (None, Some 6), (None, None), (None, None)]"
proof -
  have "cache_serde_ok cx_host" by (simp add: cache_serde_ok_def cx_host_def)
  moreover have "sorted (map fst cx_ops)" by (simp add: cx_ops_def)
  ultimately have "run_ops (run_op cx_host) cx_ops [] = run_ops (spec_op (ch_expiry cx_host)) cx_ops Map.empty" by (rule cache_refines)
  then show ?thesis by (simp only:) (simp add: cx_ops_def cx_host_def spec_op_def)
qed

subsection \<open>Cached writes are replayed\<close>

lemma cached_at_live: "cached_at h now (Some c) = Some (\<lambda>k. map_option fst (live_entry h now c k))"
proof -
  have "dict_get (fst (cache_get h now [k] c)) k = map_option fst (live_entry h now c k)" for k
    using cache_get_found(1) [of h now "[k]" c _ _ k] by (cases "cache_get h now [k] c") auto
  then show ?thesis by (simp add: cached_at_def)
qed

definition task_key :: "exec_task \<Rightarrow> full_key option" where
  "task_key t = map_option (\<lambda>ck. (ck_ns ck, ck_key ck)) (et_cache_key t)"

definition replay_step :: "(full_key \<Rightarrow> chan_write list option) \<Rightarrow> full_key \<times> string \<Rightarrow> loop \<Rightarrow> loop" where
  "replay_step cached = (\<lambda>(key, t) lo. case cached key of Some ws \<Rightarrow> set_task_writes t (\<lambda>old. old @ ws) lo | None \<Rightarrow> lo)"

definition cached_tasks :: "exec_task list \<Rightarrow> (full_key, string) dict" where
  "cached_tasks ts = dict_of (List.map_filter (\<lambda>t. case et_cache_key t of
     Some ck \<Rightarrow> if tw_writes t = [] then Some ((ck_ns ck, ck_key ck), et_id t) else None | None \<Rightarrow> None) ts)"

lemma match_cached_steps: "match_cached_writes (Some cached) lo = fold (replay_step cached) (cached_tasks (loop_tasks lo)) lo"
  by (simp add: match_cached_writes_def replay_step_def cached_tasks_def)

definition task_at :: "loop \<Rightarrow> string \<Rightarrow> exec_task option" where
  "task_at lo i = Option.bind (lo_tasks lo) (\<lambda>ts. dict_get ts i)"

definition replayed :: "(full_key \<Rightarrow> chan_write list option) \<Rightarrow> string \<Rightarrow> full_key \<times> string \<Rightarrow> chan_write list" where
  "replayed cached i = (\<lambda>(key, j). if j = i then (case cached key of Some ws \<Rightarrow> ws | None \<Rightarrow> []) else [])"

lemma task_at_set: "task_at (set_task_writes j f lo) i = (if j = i then map_option (\<lambda>t. t\<lparr>tw_writes := f (tw_writes t)\<rparr>) (task_at lo i) else task_at lo i)"
  by (cases "lo_tasks lo") (auto simp: task_at_def set_task_writes_def split: option.split)

lemma task_at_replay:
  "task_at (fold (replay_step cached) ps lo) i =
     map_option (\<lambda>t. t\<lparr>tw_writes := tw_writes t @ concat (map (replayed cached i) ps)\<rparr>) (task_at lo i)"
proof (induction ps arbitrary: lo)
  case (Cons p ps)
  have "task_at (replay_step cached p lo) i = map_option (\<lambda>t. t\<lparr>tw_writes := tw_writes t @ replayed cached i p\<rparr>) (task_at lo i)"
    by (cases "task_at lo i"; cases p) (auto simp: replay_step_def replayed_def task_at_set split: option.split)
  with Cons show ?case by (cases "task_at lo i") simp_all
qed (simp add: option.map_ident)

lemma replay_once:
  assumes "wf_dict d" "dict_get d k = Some i" "\<forall>(k', j) \<in> set d. j = i \<longrightarrow> k' = k"
  shows "concat (map (replayed cached i) d) = (case cached k of Some ws \<Rightarrow> ws | None \<Rightarrow> [])"
  using assms
proof (induction d)
  case (Cons p d)
  obtain k' j where p: "p = (k', j)" by (cases p)
  show ?case
  proof (cases "k' = k")
    case True
    have "concat (map (replayed cached i) d) = []"
      using Cons.prems True p by (force simp: replayed_def)
    with True p Cons.prems(2) show ?thesis by (simp add: replayed_def)
  next
    case False
    with Cons p show ?thesis by (auto simp: replayed_def)
  qed
qed simp

text \<open>The tasks of a superstep, by their ids.\<close>

definition keyed_tasks :: "loop \<Rightarrow> bool" where
  "keyed_tasks lo \<longleftrightarrow> (case lo_tasks lo of Some ts \<Rightarrow> wf_dict ts \<and> list_all (\<lambda>(i, t). et_id t = i) ts | None \<Rightarrow> True)"

text \<open>Of the tasks with a key and no writes, the last one gets the cached writes.\<close>

definition last_keyed :: "loop \<Rightarrow> full_key \<Rightarrow> exec_task \<Rightarrow> bool" where
  "last_keyed lo k t \<longleftrightarrow> List.last (filter (\<lambda>u. task_key u = Some k \<and> tw_writes u = []) (loop_tasks lo)) = t"

lemma map_of_rev_last:
  "filter (\<lambda>p. fst p = k) ps \<noteq> [] \<Longrightarrow> map_of (rev ps) k = Some (snd (List.last (filter (\<lambda>p. fst p = k) ps)))"
proof (induction ps)
  case (Cons p ps)
  show ?case
  proof (cases "filter (\<lambda>p. fst p = k) ps = []")
    case True
    then have "map_of (rev ps) k = None" by (auto simp: map_of_eq_None_iff filter_empty_conv)
    with Cons.prems True show ?thesis by (auto simp: map_add_def split: if_splits)
  qed (use Cons in \<open>auto simp: map_add_def\<close>)
qed simp

lemma keyed_pairs:
  "filter (\<lambda>p. fst p = k) (List.map_filter (\<lambda>t. case et_cache_key t of
       Some ck \<Rightarrow> if tw_writes t = [] then Some ((ck_ns ck, ck_key ck), et_id t) else None | None \<Rightarrow> None) ts)
     = map (\<lambda>t. (k, et_id t)) (filter (\<lambda>u. task_key u = Some k \<and> tw_writes u = []) ts)"
  by (induction ts) (auto simp: List.map_filter_simps task_key_def split: option.split)

lemma cached_task_once:
  assumes "keyed_tasks lo" "task_at lo i = Some t" "task_key t = Some k" "tw_writes t = []" "last_keyed lo k t"
  shows "concat (map (replayed cached i) (cached_tasks (loop_tasks lo))) = (case cached k of Some ws \<Rightarrow> ws | None \<Rightarrow> [])"
proof -
  obtain ts where ts: "lo_tasks lo = Some ts" "dict_get ts i = Some t" using assms(2) by (auto simp: task_at_def bind_eq_Some_conv)
  define ps where "ps = List.map_filter (\<lambda>t. case et_cache_key t of
     Some ck \<Rightarrow> if tw_writes t = [] then Some ((ck_ns ck, ck_key ck), et_id t) else None | None \<Rightarrow> None) (loop_tasks lo)"
  have mem: "(k', j) \<in> set ps \<longleftrightarrow> (\<exists>u \<in> set (loop_tasks lo). task_key u = Some k' \<and> tw_writes u = [] \<and> et_id u = j)" for k' j
    by (cases k') (force simp: ps_def List.map_filter_def task_key_def split: option.split_asm if_split_asm option.split)
  have d: "dict_get (dict_of ps) k' = dict_get (rev ps) k'" for k' by (simp add: dict_of_def dict_get_update split: option.split)
  have wf: "wf_dict (dict_of ps)" by (simp add: dict_of_def wf_dict_update)
  have t: "t \<in> set (loop_tasks lo)" "et_id t = i" using ts assms(1) map_of_SomeD [OF ts(2)] by (force simp: keyed_tasks_def list_all_iff)+
  let ?us = "filter (\<lambda>u. task_key u = Some k \<and> tw_writes u = []) (loop_tasks lo)"
  have us: "filter (\<lambda>p. fst p = k) ps = map (\<lambda>t. (k, et_id t)) ?us" unfolding ps_def by (rule keyed_pairs)
  have "t \<in> set ?us" using t(1) assms(3,4) by simp
  then have ne: "?us \<noteq> []" by (metis empty_iff empty_set)
  have "dict_get (rev ps) k = Some (snd (List.last (map (\<lambda>t. (k, et_id t)) ?us)))"
    using map_of_rev_last [of k ps] ne unfolding us by (simp del: map_of.simps)
  then have got: "dict_get (dict_of ps) k = Some i"
    unfolding d using ne assms(5) t(2) by (simp add: last_map last_keyed_def)
  have only: "\<forall>(k', j) \<in> set (dict_of ps). j = i \<longrightarrow> k' = k"
  proof (clarify, rule ccontr)
    fix k' assume "(k', i) \<in> set (dict_of ps)" "k' \<noteq> k"
    then have "(k', i) \<in> set ps" using d map_of_is_SomeI [OF wf] map_of_SomeD by (metis set_rev)
    then obtain u where "u \<in> set (loop_tasks lo)" "task_key u = Some k'" "et_id u = i" using mem [THEN iffD1] by metis
    moreover from this have "u = t" using ts assms(1) map_of_is_SomeI [of ts i u] by (auto simp: keyed_tasks_def list_all_iff)
    ultimately show False using assms(3) \<open>k' \<noteq> k\<close> by simp
  qed
  from replay_once [OF wf got only] show ?thesis unfolding cached_tasks_def ps_def .
qed

text \<open>Operations in between: look-ups of anything, settings of other keys, clearings of other
  namespaces.\<close>

fun spares :: "full_key \<Rightarrow> 'v cache_op \<Rightarrow> bool" where
  "spares k (CacheGet keys) = True"
| "spares k (CacheSet pairs) = (k \<notin> fst ` set pairs)"
| "spares k (CacheClear None) = False"
| "spares k (CacheClear (Some nss)) = (fst k \<notin> set nss)"

definition cache_after :: "('v, 'b, 'f :: linorder) cache_host \<Rightarrow> ('f \<times> 'v cache_op) list \<Rightarrow> ('b, 'f) cache \<Rightarrow> ('b, 'f) cache" where
  "cache_after h ops c = fold (\<lambda>x c. snd (run_op h x c)) ops c"

lemma entry_cache_set: "k \<notin> fst ` set pairs \<Longrightarrow> entry (snd (cache_set h now pairs c)) k = entry c k"
  by (induction h now pairs c rule: cache_set.induct) (auto simp: entry_set split: sum.split)

lemma spared_live:
  assumes "spares k op" "now \<le> later"
  shows "live_entry h later (snd (run_op h (now, op) c)) k = live_entry h later c k"
proof (cases op)
  case (CacheGet keys)
  obtain found c' where "cache_get h now keys c = (found, c')" by (metis prod.exhaust)
  with cache_get_found(2) [OF this assms(2)] show ?thesis by (simp add: run_op_def CacheGet)
next
  case (CacheSet pairs)
  then show ?thesis using assms(1) by (simp add: run_op_def live_entry_def entry_cache_set)
next
  case (CacheClear nss)
  then show ?thesis using assms(1) by (cases nss) (simp_all add: run_op_def live_entry_def entry_cache_clear)
qed

lemma spared_after:
  "(\<forall>(now, op) \<in> set ops. now \<le> later \<and> spares k op) \<Longrightarrow> live_entry h later (cache_after h ops c) k = live_entry h later c k"
  by (induction ops arbitrary: c) (auto simp: cache_after_def spared_live)

text \<open>
  C37: The writes that a task leaves are replayed for a later task with the same cache key. What a run
  has cached for a task that wrote, with the time to live of its policy, is what the look-up puts
  into a task of another superstep or run before it runs, as its only writes, if that is the last task
  of its superstep that has the key and no writes yet (with several, as two packets with equal
  arguments, only the last is served), the look-up is strictly before the expiry time, and what is done
  to the cache in between, at times up to that of the look-up, looks up anything, but sets other keys only and clears
  other namespaces only. (The encoding of values loads what it dumps; tasks are stored under their ids.)
\<close>

theorem cached_writes_replayed:
  assumes "cache_serde_ok h" "cache_task_writes h now i ws lo (Some c) = Some c'" "ws \<noteq> []"
    and "task_at lo i = Some t" "et_cache_key t = Some ck"
    and "case ck_ttl ck of None \<Rightarrow> True | Some ttl \<Rightarrow> (case ch_expiry h now ttl of Inr e \<Rightarrow> later < e | Inl _ \<Rightarrow> False)"
    and "\<forall>(at, op) \<in> set ops. at \<le> later \<and> spares (ck_ns ck, ck_key ck) op"
    and "keyed_tasks lo'" "task_at lo' i' = Some t'" "task_key t' = Some (ck_ns ck, ck_key ck)" "tw_writes t' = []"
    and "last_keyed lo' (ck_ns ck, ck_key ck) t'"
  shows "task_at (match_cached_writes (cached_at h later (Some (cache_after h ops c'))) lo') i' = Some (t'\<lparr>tw_writes := tw_writes t\<rparr>)"
proof -
  let ?k = "(ck_ns ck, ck_key ck)"
  have e: "entry c' ?k = Some (ch_dumps h (tw_writes t), map_option (\<lambda>ttl. projr (ch_expiry h now ttl)) (ck_ttl ck))"
    using assms(2-6) by (auto simp: cache_task_writes_def task_at_def entry_set split: option.split_asm sum.split_asm)
  have "live_entry h later (cache_after h ops c') ?k = live_entry h later c' ?k" by (rule spared_after [OF assms(7)])
  moreover have "map_option fst (live_entry h later c' ?k) = Some (tw_writes t)"
    using e assms(1,6) by (auto simp: live_entry_def alive_def cache_serde_ok_def split: option.split_asm sum.split_asm)
  ultimately obtain x where "live_entry h later (cache_after h ops c') ?k = Some (tw_writes t, x)" by auto
  then show ?thesis
    using cached_task_once [OF assms(8-12), of "\<lambda>k. map_option fst (live_entry h later (cache_after h ops c') k)"] assms(9,11)
    by (simp add: cached_at_live match_cached_steps task_at_replay)
qed

definition cx_task :: "chan_write list \<Rightarrow> exec_task" where
  "cx_task ws = \<lparr>tw_path = [PStr PULL, PStr ''n1''], tw_name = ''n1'', tw_writes = ws, tw_triggers = [], et_id = ''i'', et_input = VNone,
     et_proc = 0, et_config = empty_config, et_retry_policy = [],
     et_cache_key = Some \<lparr>ck_ns = [''c''], ck_key = ''k'', ck_ttl = Some 10\<rparr>, et_writers = [], et_subgraphs = [], et_timeout = VNone\<rparr>"

definition cx_loop :: "chan_write list \<Rightarrow> loop" where
  "cx_loop ws = ex_entered\<lparr>lo_tasks := Some [(''i'', cx_task ws)]\<rparr>"

definition cx_writes_host :: "(chan_write list, int) write_cache_host" where
  "cx_writes_host = \<lparr>ch_dumps = (\<lambda>v. (''writes'', v)), ch_loads = snd, ch_expiry = (\<lambda>now ttl. Inr (now + ttl))\<rparr>"

text \<open>Two tasks with the key; in between another key is set and the key looked up.\<close>

definition cx_two_tasks :: loop where
  "cx_two_tasks = ex_entered\<lparr>lo_tasks := Some [(''h'', (cx_task [])\<lparr>et_id := ''h''\<rparr>), (''i'', cx_task [])]\<rparr>"

definition cx_between :: "(int \<times> chan_write list cache_op) list" where
  "cx_between = [(3, CacheSet [(([''c''], ''l''), [(''b'', VInt 2)], None)]), (5, CacheGet [([''c''], ''k'')])]"

theorem cached_writes_replayed_witness:
  "\<exists>c'. cache_task_writes cx_writes_host 0 ''i'' [(''a'', VInt 1)] (cx_loop [(''a'', VInt 1)]) (Some []) = Some c'
     \<and> task_at (match_cached_writes (cached_at cx_writes_host 9 (Some (cache_after cx_writes_host cx_between c'))) cx_two_tasks) ''i''
         = Some (cx_task [(''a'', VInt 1)])"
proof -
  have c': "cache_task_writes cx_writes_host 0 ''i'' [(''a'', VInt 1)] (cx_loop [(''a'', VInt 1)]) (Some [])
      = Some [([''c''], [(''k'', (''writes'', [(''a'', VInt 1)]), Some 10)])]" (is "_ = Some ?c")
    by (simp add: cache_task_writes_def cx_writes_host_def cx_loop_def cx_task_def)
  have "task_at (match_cached_writes (cached_at cx_writes_host 9 (Some (cache_after cx_writes_host cx_between ?c))) cx_two_tasks) ''i''
      = Some ((cx_task [])\<lparr>tw_writes := tw_writes (cx_task [(''a'', VInt 1)])\<rparr>)"
    by (rule cached_writes_replayed [where ck = "\<lparr>ck_ns = [''c''], ck_key = ''k'', ck_ttl = Some 10\<rparr>", OF _ c'])
      (simp_all add: cache_serde_ok_def cx_writes_host_def cx_loop_def cx_two_tasks_def cx_between_def task_at_def cx_task_def keyed_tasks_def
        task_key_def last_keyed_def)
  then show ?thesis using c' by (auto simp: cx_task_def)
qed

text \<open>
  The writes of a task that failed, with its error, are cached as well: the next run with the same
  input finds them, takes the task for done, and the failure disappears.
\<close>

definition cx_failed :: loop where
  "cx_failed = projr (commit_task ex_loop_env [] [] (cx_task []) (Failed (VStr ''boom'')) (cx_loop []))"

lemma failed_writes_are_cached:
  "map_option tw_writes (task_at (match_cached_writes (cached_at cx_writes_host 9
     (cache_task_writes cx_writes_host 0 ''i'' [(ERROR, VStr ''boom'')] cx_failed (Some []))) (cx_loop [])) ''i'') = Some [(ERROR, VStr ''boom'')]"
  by code_simp

end
