(* ===== verification/Subgraphs.thy ===== *)
theory Subgraphs
  imports Retry "HOL-Library.Sublist"
begin

section \<open>Finding a subgraph by its namespace (pregel/main.py)\<close>

text \<open>
  The tree of a graph's subgraphs and the search in it, with which the state api finds the graph
  that a namespace names. A graph that is no \<open>Pregel\<close>, as a remote graph, is not searched. The
  generator gives the list of what it yields; the state api takes the first.
\<close>

datatype pregel_graph = Pregel nat "(string \<times> pregel_graph option) list" | OtherGraph nat

text \<open>\<open>namespace\<close> is assigned in the loop, so what a node leaves is what the next one is compared with.\<close>

fun get_subgraphs :: "bool \<Rightarrow> string option \<Rightarrow> (string \<times> pregel_graph option) list \<Rightarrow> (string \<times> pregel_graph) list" where
  "get_subgraphs recurse ns [] = []"
| "get_subgraphs recurse ns ((name, None) # nodes) = get_subgraphs recurse ns nodes"
| "get_subgraphs recurse ns ((name, Some g) # nodes) =
     (if ns \<noteq> None \<and> \<not> prefix name (the ns) then get_subgraphs recurse ns nodes
      else if ns = Some name then [(name, g)]
      else (if ns = None then [(name, g)] else []) @
        (case g of
           OtherGraph i \<Rightarrow> get_subgraphs recurse ns nodes
         | Pregel i sub \<Rightarrow>
             if recurse then
               (let ns = map_option (drop (length name + 1)) ns
                in map (\<lambda>(n, s). (name @ NS_SEP @ n, s)) (get_subgraphs recurse ns sub) @ get_subgraphs recurse ns nodes)
             else get_subgraphs recurse ns nodes))"

text \<open>The graph that a configuration with a namespace is delegated to, \<open>None\<close> if there is none.\<close>

definition find_subgraph :: "(string \<times> pregel_graph option) list \<Rightarrow> string \<Rightarrow> pregel_graph option" where
  "find_subgraph nodes ns = (case get_subgraphs True (Some (recast_checkpoint_ns ns)) nodes of [] \<Rightarrow> None | (_, g) # _ \<Rightarrow> Some g)"

section \<open>Properties\<close>

fun graph_at :: "(string \<times> pregel_graph option) list \<Rightarrow> string list \<Rightarrow> pregel_graph option" where
  "graph_at nodes [] = None"
| "graph_at nodes [n] = (case dict_get nodes n of Some g \<Rightarrow> g | None \<Rightarrow> None)"
| "graph_at nodes (n # m # p) = (case dict_get nodes n of Some (Some (Pregel i sub)) \<Rightarrow> graph_at sub (m # p) | _ \<Rightarrow> None)"

text \<open>On the way, no node with a subgraph has a name that the name of the node to take begins with.\<close>

fun clear_path :: "(string \<times> pregel_graph option) list \<Rightarrow> string list \<Rightarrow> bool" where
  "clear_path nodes [] = True"
| "clear_path nodes (n # p) = ((\<forall>(m, g) \<in> set nodes. g \<noteq> None \<longrightarrow> m \<noteq> n \<longrightarrow> \<not> prefix m n)
     \<and> list_all (\<lambda>(m, g). CHR ''|'' \<notin> set m) nodes
     \<and> (case dict_get nodes n of Some (Some (Pregel i sub)) \<Rightarrow> clear_path sub p | _ \<Rightarrow> True))"

lemma prefix_name:
  assumes "prefix m (n @ CHR ''|'' # s)" "CHR ''|'' \<notin> set m"
  shows "prefix m n"
proof -
  obtain z where z: "n @ CHR ''|'' # s = m @ z" using assms(1) by (auto simp: prefix_def)
  then have "length m \<le> length n"
  proof (rule_tac ccontr)
    assume "\<not> length m \<le> length n"
    then have "m ! length n = CHR ''|''" using z by (metis linorder_not_le nth_append nth_append_length)
    then show False using assms(2) \<open>\<not> length m \<le> length n\<close> by (metis linorder_not_le nth_mem)
  qed
  then show ?thesis using z by (metis append_eq_append_conv_if prefixI append_take_drop_id)
qed

text \<open>Nodes before the one that is looked for are passed over.\<close>

lemma skip_nodes:
  assumes "\<forall>(m, g) \<in> set before. g \<noteq> None \<longrightarrow> \<not> prefix m ns"
  shows "get_subgraphs True (Some ns) (before @ nodes) = get_subgraphs True (Some ns) nodes"
  using assms
proof (induction before)
  case (Cons x xs)
  then show ?case by (cases x; cases "snd x") auto
qed simp

lemma split_node: "dict_get nodes n = Some g \<Longrightarrow> \<exists>xs ys. nodes = xs @ (n, g) # ys \<and> (\<forall>(m, h) \<in> set xs. m \<noteq> n)"
proof (induction nodes)
  case (Cons x nodes)
  show ?case
  proof (cases "fst x = n")
    case True
    then show ?thesis using Cons.prems by (intro exI [of _ "[]"] exI [of _ nodes]) (cases x, simp)
  next
    case False
    then obtain xs ys where "nodes = xs @ (n, g) # ys" "\<forall>(m, h) \<in> set xs. m \<noteq> n" using Cons by (cases x) auto
    then show ?thesis using False by (intro exI [of _ "x # xs"] exI [of _ ys]) (cases x, simp)
  qed
qed simp

lemma subgraph_first:
  assumes "graph_at nodes p = Some g" "clear_path nodes p"
  shows "\<exists>rest. get_subgraphs True (Some (join NS_SEP p)) nodes = (join NS_SEP p, g) # rest"
  using assms
proof (induction nodes p rule: graph_at.induct)
  case (2 nodes n)
  then obtain xs ys where nodes: "nodes = xs @ (n, Some g) # ys" "\<forall>(m, h) \<in> set xs. m \<noteq> n"
    using split_node [of nodes n "Some g"] by (auto split: option.splits)
  have clear: "\<forall>(m, h) \<in> set nodes. h \<noteq> None \<longrightarrow> m \<noteq> n \<longrightarrow> \<not> prefix m n" using "2.prems"(2) by simp
  have "\<not> prefix k n" if "(k, h) \<in> set xs" "h \<noteq> None" for k h
    using bspec [OF clear, of "(k, h)"] bspec [OF nodes(2) that(1)] that nodes(1) by auto
  then have "\<forall>(m, h) \<in> set xs. h \<noteq> None \<longrightarrow> \<not> prefix m n" by blast
  then show ?case using skip_nodes [of xs n "(n, Some g) # ys"] nodes(1) by (simp add: join_def)
next
  case (3 nodes n m p)
  then obtain i sub where sub: "dict_get nodes n = Some (Some (Pregel i sub))" "graph_at sub (m # p) = Some g"
    by (auto split: option.splits pregel_graph.splits)
  obtain xs ys where nodes: "nodes = xs @ (n, Some (Pregel i sub)) # ys" "\<forall>(m, h) \<in> set xs. m \<noteq> n"
    using split_node [OF sub(1)] by blast
  let ?ns = "join NS_SEP (n # m # p)" and ?sub = "join NS_SEP (m # p)"
  have ns: "?ns = n @ CHR ''|'' # ?sub" by (simp add: join_Cons NS_SEP_def)
  obtain rest where rest: "get_subgraphs True (Some ?sub) sub = (?sub, g) # rest"
    using "3.IH" [OF sub(1) refl refl sub(2)] sub(1) "3.prems"(2) by auto
  have clear: "\<forall>(k, h) \<in> set nodes. h \<noteq> None \<longrightarrow> k \<noteq> n \<longrightarrow> \<not> prefix k n" "\<forall>(k, h) \<in> set nodes. CHR ''|'' \<notin> set k"
    using "3.prems"(2) by (simp_all add: list_all_iff)
  have "\<not> prefix k ?ns" if "(k, h) \<in> set xs" "h \<noteq> None" for k h
    using prefix_name [of k n ?sub] bspec [OF clear(1), of "(k, h)"] bspec [OF clear(2), of "(k, h)"]
      bspec [OF nodes(2) that(1)] that nodes(1) unfolding ns by auto
  then have "get_subgraphs True (Some ?ns) nodes = get_subgraphs True (Some ?ns) ((n, Some (Pregel i sub)) # ys)"
    unfolding nodes(1) by (intro skip_nodes) auto
  also have "\<dots> = map (\<lambda>(k, s). (n @ NS_SEP @ k, s)) (get_subgraphs True (Some ?sub) sub) @ get_subgraphs True (Some ?sub) ys"
    by (simp add: ns Let_def)
  finally show ?case using rest ns by (simp add: NS_SEP_def)
qed simp

text \<open>The namespace of a subgraph's task, without the ids of the tasks, leads to the subgraph.\<close>

lemma recast_tasks:
  assumes "ps \<noteq> []" "\<forall>(n, i) \<in> set ps. CHR ''|'' \<notin> set n \<and> CHR '':'' \<notin> set n \<and> CHR ''|'' \<notin> set i"
  shows "recast_checkpoint_ns (join NS_SEP (map (\<lambda>(n, i). n @ NS_END @ i) ps)) = join NS_SEP (map fst ps)"
proof -
  have "split_on (CHR ''|'') (join NS_SEP (map (\<lambda>(n, i). n @ NS_END @ i) ps)) = map (\<lambda>(n, i). n @ NS_END @ i) ps"
    using assms
  proof (induction ps)
    case (Cons x ps)
    then have plain: "CHR ''|'' \<notin> set (fst x @ NS_END @ snd x)" by (auto simp: NS_END_def)
    show ?case
      using Cons plain split_on_append [of "CHR ''|''" "fst x @ NS_END @ snd x"] split_on_plain [OF plain]
      by (cases ps; cases x) (simp_all add: join_def [of _ "[_]"] join_Cons NS_SEP_def)
  qed simp
  moreover have "\<not> str_isdigit (n @ NS_END @ i)" for n i
    by (auto simp: str_isdigit_def NS_END_def is_digit_def)
  moreover have "hd (split_on (CHR '':'') (n @ NS_END @ i)) = n" if "CHR '':'' \<notin> set n" for n i
    using split_on_append [of "CHR '':''" n i] split_on_plain [OF that] by (simp add: NS_END_def)
  ultimately show ?thesis using assms(2)
    by (auto simp: recast_checkpoint_ns_def filter_map o_def split_def filter_id_conv intro!: arg_cong [where f = "join NS_SEP"] map_cong)
qed

theorem subgraph_found:
  assumes "ps \<noteq> []" "\<forall>(n, i) \<in> set ps. CHR ''|'' \<notin> set n \<and> CHR '':'' \<notin> set n \<and> CHR ''|'' \<notin> set i"
    and "graph_at nodes (map fst ps) = Some g" "clear_path nodes (map fst ps)"
  shows "find_subgraph nodes (join NS_SEP (map (\<lambda>(n, i). n @ NS_END @ i) ps)) = Some g"
  using subgraph_first [OF assms(3,4)] recast_tasks [OF assms(1,2)] by (auto simp: find_subgraph_def)

text \<open>A node whose name begins with the name of another one hides behind it: the comparison with the
  first node cuts the namespace, and the second node is not found.\<close>

lemma subgraph_hidden:
  "find_subgraph [(''agent'', Some (Pregel 1 [])), (''agent2'', Some (Pregel 2 []))] ''agent2:t'' = None"
  "find_subgraph [(''agent2'', Some (Pregel 2 [])), (''agent'', Some (Pregel 1 []))] ''agent2:t'' = Some (Pregel 2 [])"
  by code_simp+

end
