(* ===== verification/State_Api.thy ===== *)
theory State_Api
  imports Persistence Writers
begin

section \<open>Reading and updating the state of a thread (pregel/main.py, pregel/debug.py)\<close>

text \<open>
  \<open>get_state\<close>, \<open>get_state_history\<close>, \<open>bulk_update_state\<close> and \<open>update_state\<close> of a compiled graph, over
  the in-memory saver. An operation is an action: it returns a value or an exception together with
  the saver, because an exception leaves what was saved before it. The configuration is what
  \<open>ensure_config\<close> and \<open>merge_configs\<close> return, thread ids are strings or integers, and the
  checkpointer is the graph's. Subgraphs are known by the name of their node: their states are not
  read, and requests that name a subgraph's namespace are not delegated. The asynchronous methods
  do the same in a coroutine. \<open>_migrate_checkpoint\<close> changes nothing in a checkpoint of version 4.
\<close>

subsection \<open>Actions\<close>

record 'b api =
  api_saver :: "'b saver"
  api_drawn :: nat

type_synonym ('b, 'a) action = "'b api \<Rightarrow> 'a res \<times> 'b api"

definition aret :: "'a \<Rightarrow> ('b, 'a) action" where "aret x = (\<lambda>s. (Inr x, s))"

definition alift :: "'a res \<Rightarrow> ('b, 'a) action" where "alift r = (\<lambda>s. (r, s))"

definition abind :: "('b, 'a) action \<Rightarrow> ('a \<Rightarrow> ('b, 'c) action) \<Rightarrow> ('b, 'c) action" where
  "abind m f = (\<lambda>s. case m s of (Inl e, s) \<Rightarrow> (Inl e, s) | (Inr x, s) \<Rightarrow> f x s)"

fun aeach :: "('x \<Rightarrow> ('b, unit) action) \<Rightarrow> 'x list \<Rightarrow> ('b, unit) action" where
  "aeach f [] = aret ()"
| "aeach f (x # xs) = abind (f x) (\<lambda>_. aeach f xs)"

lemma abind_Inr: "abind m f s = (Inr y, s') \<longleftrightarrow> (\<exists>x s1. m s = (Inr x, s1) \<and> f x s1 = (Inr y, s'))"
  by (auto simp: abind_def split: prod.splits sum.splits)

lemma alift_Inr [simp]: "alift r s = (Inr y, s') \<longleftrightarrow> r = Inr y \<and> s' = s"
  by (auto simp: alift_def)

lemma aret_Inr [simp]: "aret x s = (Inr y, s') \<longleftrightarrow> y = x \<and> s' = s"
  by (auto simp: aret_def)

subsection \<open>The graph and its saver\<close>

text \<open>\<open>ae_history\<close> is \<open>get_delta_channel_history\<close> of the saver, \<open>ae_writers\<close> gives the writers of a
  node, \<open>ae_stream\<close> is \<open>stream_channels_asis\<close>, \<open>ae_subgraphs\<close> are the nodes that have a subgraph.\<close>

record 'b api_env =
  ae_loop :: loop_env
  ae_serde :: "'b serde"
  ae_history :: "config \<Rightarrow> string list \<Rightarrow> 'b saver \<Rightarrow> (string, history) dict res"
  ae_writers :: "string \<Rightarrow> writer list"
  ae_stream :: select
  ae_subgraphs :: "string list"

abbreviation ae_next :: "'b api_env \<Rightarrow> version option \<Rightarrow> version res" where
  "ae_next env \<equiv> le_get_next_version (ae_loop env)"

definition saver_get :: "'b api_env \<Rightarrow> config \<Rightarrow> ('b, checkpoint_tuple option) action" where
  "saver_get env cfg = (\<lambda>s. case mem_get_tuple (ae_serde env) cfg (api_saver s) of
       Inl e \<Rightarrow> (Inl e, s) | Inr (t, sv) \<Rightarrow> (Inr t, s\<lparr>api_saver := sv\<rparr>))"

definition saver_put :: "'b api_env \<Rightarrow> config \<Rightarrow> checkpoint \<Rightarrow> metadata \<Rightarrow> versions \<Rightarrow> ('b, config) action" where
  "saver_put env cfg cp md nv = (\<lambda>s. case mem_put (ae_serde env) cfg cp md nv (api_saver s) of
       Inl e \<Rightarrow> (Inl e, s) | Inr (c, sv) \<Rightarrow> (Inr c, s\<lparr>api_saver := sv\<rparr>))"

definition saver_put_writes :: "'b api_env \<Rightarrow> config \<Rightarrow> chan_write list \<Rightarrow> string \<Rightarrow> ('b, unit) action" where
  "saver_put_writes env cfg ws task_id = (\<lambda>s. case mem_put_writes (ae_serde env) cfg ws task_id [] (api_saver s) of
       Inl e \<Rightarrow> (Inl e, s) | Inr sv \<Rightarrow> (Inr (), s\<lparr>api_saver := sv\<rparr>))"

text \<open>\<open>empty_checkpoint\<close> and \<open>create_checkpoint\<close> draw an id and a time.\<close>

definition fresh_checkpoint :: "'b api_env \<Rightarrow> (string \<Rightarrow> string \<Rightarrow> checkpoint res) \<Rightarrow> ('b, checkpoint) action" where
  "fresh_checkpoint env mk = (\<lambda>s. (mk (le_uuid (ae_loop env) (api_drawn s)) (le_now (ae_loop env) (api_drawn s)),
       s\<lparr>api_drawn := api_drawn s + 1\<rparr>))"

lemma fresh_checkpoint_Inr: "fresh_checkpoint env mk s = (Inr cp, s') \<longleftrightarrow>
    mk (le_uuid (ae_loop env) (api_drawn s)) (le_now (ae_loop env) (api_drawn s)) = Inr cp
    \<and> s' = s\<lparr>api_drawn := api_drawn s + 1\<rparr>"
  by (auto simp: fresh_checkpoint_def)

lemma saver_Inr:
  "saver_get env cfg s = (Inr t, s') \<longleftrightarrow>
     (\<exists>sv. mem_get_tuple (ae_serde env) cfg (api_saver s) = Inr (t, sv) \<and> s' = s\<lparr>api_saver := sv\<rparr>)"
  "saver_put env cfg cp md nv s = (Inr c, s') \<longleftrightarrow>
     (\<exists>sv. mem_put (ae_serde env) cfg cp md nv (api_saver s) = Inr (c, sv) \<and> s' = s\<lparr>api_saver := sv\<rparr>)"
  "saver_put_writes env cfg ws task_id s = (Inr u, s') \<longleftrightarrow>
     (\<exists>sv. mem_put_writes (ae_serde env) cfg ws task_id [] (api_saver s) = Inr sv \<and> s' = s\<lparr>api_saver := sv\<rparr>)"
  by (auto simp: saver_get_def saver_put_def saver_put_writes_def split: sum.splits)

subsection \<open>Configurations (_internal/_config.py)\<close>

fun str_items :: "(string, val) dict \<Rightarrow> (string, string) dict" where
  "str_items [] = []"
| "str_items ((k, VStr s) # d) = (k, s) # str_items d"
| "str_items (_ # d) = str_items d"

definition metadata_parents :: "metadata \<Rightarrow> (string, val) dict" where
  "metadata_parents md = (case dict_get md ''parents'' of Some (VDict d) \<Rightarrow> d | _ \<Rightarrow> [])"

definition patch_checkpoint_map :: "config \<Rightarrow> metadata option \<Rightarrow> config res" where
  "patch_checkpoint_map cfg md =
     (case (case md of Some m \<Rightarrow> metadata_parents m | None \<Rightarrow> []) of
        [] \<Rightarrow> Inr cfg
      | p # ps \<Rightarrow> rbind (conf_index cfg ''checkpoint_ns'') (\<lambda>ns. rbind (conf_index cfg ''checkpoint_id'') (\<lambda>i.
          Inr (patch_configurable cfg [(''checkpoint_map'', CMap (dict_set ns i (str_items (p # ps))))]))))"

text \<open>\<open>str(config["configurable"]["thread_id"])\<close>\<close>

definition thread_str :: "config \<Rightarrow> string res" where
  "thread_str cfg = (case dict_get (cfg_configurable cfg) ''thread_id'' of
       Some (CStr s) \<Rightarrow> Inr s | Some (CInt i) \<Rightarrow> Inr (int_str i) | Some _ \<Rightarrow> Inl TypeError | None \<Rightarrow> Inl KeyError)"

subsection \<open>What a superstep of updates starts from\<close>

text \<open>\<open>metadata.get("step", -1)\<close>\<close>

definition saved_step :: "metadata \<Rightarrow> int res" where
  "saved_step md = (case dict_get md ''step'' of Some (VInt i) \<Rightarrow> Inr i | Some _ \<Rightarrow> Inl TypeError | None \<Rightarrow> Inr (- 1))"

record base =
  ba_config :: config
  ba_saved :: "checkpoint_tuple option"
  ba_checkpoint :: checkpoint
  ba_checkpoint_config :: config
  ba_step :: int
  ba_channels :: channels
  ba_managed :: managed_map

definition base_metadata :: "base \<Rightarrow> metadata" where
  "base_metadata b = (case ba_saved b of Some t \<Rightarrow> ct_metadata t | None \<Rightarrow> [])"

definition base_versions :: "base \<Rightarrow> versions" where
  "base_versions b = (case ba_saved b of Some t \<Rightarrow> cp_channel_versions (ct_checkpoint t) | None \<Rightarrow> [])"

definition load_base :: "'b api_env \<Rightarrow> config \<Rightarrow> ('b, base) action" where
  "load_base env cfg =
     abind (saver_get env cfg) (\<lambda>saved.
     abind (case saved of Some t \<Rightarrow> aret (copy_checkpoint (ct_checkpoint t))
            | None \<Rightarrow> fresh_checkpoint env (\<lambda>i ts. Inr (empty_checkpoint i ts))) (\<lambda>cp.
     abind (alift (case saved of Some t \<Rightarrow> saved_step (ct_metadata t) | None \<Rightarrow> Inr (- 1))) (\<lambda>step.
     abind (\<lambda>s. (channels_from_checkpoint (le_specs (ae_loop env)) cp
              (map_option (\<lambda>t ks. ae_history env (ct_config t) ks (api_saver s)) saved), s)) (\<lambda>(chs, managed).
     aret \<lparr>ba_config = cfg, ba_saved = saved, ba_checkpoint = cp,
           ba_checkpoint_config = patch_configurable cfg (case saved of
               Some t \<Rightarrow> cfg_configurable (ct_config t) | None \<Rightarrow> [(''checkpoint_ns'', CStr (conf_ns cfg))]),
           ba_step = step, ba_channels = chs, ba_managed = managed\<rparr>))))"

text \<open>The tasks that are due at a checkpoint, prepared as the state api does: no manager, no
  policies, all nodes are candidates. Writes that preparing adds to an empty list are lost.\<close>

definition api_prep_env :: "loop_env \<Rightarrow> checkpoint \<Rightarrow> channels \<Rightarrow> managed_map \<Rightarrow> config \<Rightarrow> int \<Rightarrow> prep_env" where
  "api_prep_env env cp chs managed cfg step =
     \<lparr>pe_sha1 = le_sha1 env, pe_xxh3 = le_xxh3 env, pe_checkpoint = cp, pe_processes = le_nodes env,
      pe_channels = chs, pe_managed = managed, pe_config = cfg, pe_step = step,
      pe_stop = step + 2, pe_for_execution = True, pe_store = le_store env, pe_checkpointer = le_checkpointer env,
      pe_manager = None, pe_cache_policy = None, pe_retry_policy = []\<rparr>"

definition due_tasks ::
  "loop_env \<Rightarrow> checkpoint \<Rightarrow> channels \<Rightarrow> managed_map \<Rightarrow> config \<Rightarrow> int \<Rightarrow> pending_write list
     \<Rightarrow> ((string, exec_task) dict \<times> pending_write list) res" where
  "due_tasks env cp chs managed cfg step pws =
     rbind (prepare_next_tasks (api_prep_env env cp chs managed cfg step) None None pws)
       (\<lambda>(ts, pws'). Inr (exec_tasks ts, if pws = [] then [] else pws'))"

definition null_writes :: "pending_write list \<Rightarrow> chan_write list" where
  "null_writes pws = map snd (filter (\<lambda>(t, _). t = NULL_TASK_ID) pws)"

definition with_null_writes ::
  "(version option \<Rightarrow> version res) option \<Rightarrow> (string, string list) dict \<Rightarrow> pending_write list
     \<Rightarrow> checkpoint \<times> channels \<Rightarrow> (checkpoint \<times> channels) res" where
  "with_null_writes gnv ttn pws = (\<lambda>(cp, chs).
     if null_writes pws = [] then Inr (cp, chs)
     else rbind (apply_writes cp chs [input_task (null_writes pws)] gnv ttn) (\<lambda>(cp, chs, _). Inr (cp, chs)))"

text \<open>The writes of tasks that already ran.\<close>

definition add_task_write :: "pending_write \<Rightarrow> (string, exec_task) dict \<Rightarrow> (string, exec_task) dict" where
  "add_task_write = (\<lambda>(t, c, v) ts.
     if c = ERROR \<or> c = INTERRUPT then ts
     else case dict_get ts t of None \<Rightarrow> ts | Some x \<Rightarrow> dict_set t (x\<lparr>tw_writes := tw_writes x @ [(c, v)]\<rparr>) ts)"

definition ran_tasks :: "pending_write list \<Rightarrow> (string, exec_task) dict \<Rightarrow> (string, exec_task) dict" where
  "ran_tasks pws ts = fold add_task_write pws ts"

subsection \<open>Updates (types.py)\<close>

record state_update =
  su_values :: val
  su_as_node :: val
  su_task_id :: "string option"

definition no_checkpoint_config :: "config \<Rightarrow> config" where
  "no_checkpoint_config cfg = patch_configurable cfg [(''checkpoint_id'', CNone)]"

definition update_metadata :: "string \<Rightarrow> int \<Rightarrow> base \<Rightarrow> metadata" where
  "update_metadata source step b =
     [(''source'', VStr source), (''step'', VInt step), (''parents'', VDict (metadata_parents (base_metadata b)))]"

definition finish_update :: "base \<Rightarrow> config \<Rightarrow> ('b, config) action" where
  "finish_update b cfg = alift (patch_checkpoint_map cfg (map_option ct_metadata (ba_saved b)))"

text \<open>\<open>str(uuid5(UUID(checkpoint["id"]), name))\<close>\<close>

definition update_task_id :: "loop_env \<Rightarrow> checkpoint \<Rightarrow> string \<Rightarrow> string res" where
  "update_task_id env cp name =
     rbind (uuid_str (cp_id cp)) (\<lambda>_. rbind (checkpoint_id_bytes cp) (\<lambda>b. Inr (uuid5_str (le_sha1 env) b [name])))"

subsection \<open>Clearing all tasks\<close>

definition cleared :: "loop_env \<Rightarrow> base \<Rightarrow> checkpoint_tuple \<Rightarrow> (checkpoint \<times> channels) res" where
  "cleared env b t =
     rbind (due_tasks env (ba_checkpoint b) (ba_channels b) (ba_managed b) (ct_config t) (ba_step b + 1) (ct_pending_writes t))
     (\<lambda>(ts, pws). rbind (with_null_writes (Some (le_get_next_version env)) (le_trigger_to_nodes env) pws
         (ba_checkpoint b, ba_channels b))
     (\<lambda>(cp, chs). rbind (apply_writes cp chs (map snd (ran_tasks pws ts)) (Some (le_get_next_version env)) (le_trigger_to_nodes env))
     (\<lambda>(cp, chs, _). Inr (cp, chs))))"

definition clear_update :: "'b api_env \<Rightarrow> base \<Rightarrow> ('b, config) action" where
  "clear_update env b =
     abind (alift (case ba_saved b of None \<Rightarrow> Inr (ba_checkpoint b, ba_channels b) | Some t \<Rightarrow> cleared (ae_loop env) b t))
     (\<lambda>(cp, chs). abind (fresh_checkpoint env (create_checkpoint cp (Some chs) None None None []))
     (\<lambda>cp'. abind (saver_put env (ba_checkpoint_config b) cp' (update_metadata ''update'' (ba_step b + 1) b)
              (get_new_channel_versions (base_versions b) (cp_channel_versions cp)))
     (finish_update b)))"

subsection \<open>Acting as an input\<close>

definition input_step_of :: "base \<Rightarrow> int" where
  "input_step_of b = (if in_dict ''step'' (base_metadata b) then ba_step b + 1 else - 1)"

definition input_update :: "'b api_env \<Rightarrow> base \<Rightarrow> val \<Rightarrow> ('b, config) action" where
  "input_update env b values =
     abind (alift (map_input (le_input_keys (ae_loop env)) values)) (\<lambda>ws.
     if ws = [] then alift (Inl InvalidUpdateError)
     else abind (alift (apply_writes (ba_checkpoint b) (ba_channels b) [input_task ws] (Some (ae_next env)) (le_trigger_to_nodes (ae_loop env))))
     (\<lambda>(cp, chs, _). abind (fresh_checkpoint env (create_checkpoint cp (Some chs) None None None []))
     (\<lambda>cp'. abind (saver_put env (ba_checkpoint_config b) cp' (update_metadata ''input'' (input_step_of b) b)
              (get_new_channel_versions (base_versions b) (cp_channel_versions cp)))
     (\<lambda>cfg. abind (alift (update_task_id (ae_loop env) cp INPUT))
     (\<lambda>i. abind (saver_put_writes env cfg ws i) (\<lambda>_. finish_update b cfg))))))"

subsection \<open>Copying a checkpoint\<close>

text \<open>The items of a list of updates are pairs; \<open>item[:2]\<close> of anything else that is a sequence and long
  enough is taken for one.\<close>

fun item_pair :: "val \<Rightarrow> (val \<times> val) res" where
  "item_pair (VTuple (v # n # _)) = Inr (v, n)"
| "item_pair (VList (v # n # _)) = Inr (v, n)"
| "item_pair (VStr (c # d # _)) = Inr (VStr [c], VStr [d])"
| "item_pair (VTuple _) = Inl ValueError"
| "item_pair (VList _) = Inl ValueError"
| "item_pair (VStr _) = Inl ValueError"
| "item_pair _ = Inl InvalidUpdateError"

definition task_ids_by_name :: "(string, exec_task) dict \<Rightarrow> (string, string list) dict" where
  "task_ids_by_name ts = fold (\<lambda>(_, t). dict_append (tw_name t) (et_id t)) ts []"

definition group_item :: "(string, string list) dict \<Rightarrow> val \<Rightarrow> (val, state_update list) dict \<Rightarrow> (val, state_update list) dict res" where
  "group_item ids item groups =
     rbind (item_pair item) (\<lambda>(v, n).
       if \<not> hashable n then Inl TypeError
       else let idx = length (dict_get_or groups n []);
                is = (case n of VStr s \<Rightarrow> dict_get_or ids s [] | _ \<Rightarrow> [])
            in Inr (dict_append n \<lparr>su_values = v, su_as_node = n,
                      su_task_id = (if idx < length is then Some (is ! idx) else None)\<rparr> groups))"

definition copied_updates :: "(string, exec_task) dict \<Rightarrow> val list \<Rightarrow> state_update list res" where
  "copied_updates ts items =
     rbind (rfold (group_item (task_ids_by_name ts)) items []) (\<lambda>groups. Inr (concat (map snd groups)))"

text \<open>A superstep is finished, or asks for another one: a copy with updates.\<close>

datatype superstep_result = Finished config | Again config "state_update list"

definition copy_follow :: "'b api_env \<Rightarrow> base \<Rightarrow> val \<Rightarrow> checkpoint_tuple \<Rightarrow> checkpoint \<Rightarrow> config \<Rightarrow> ('b, superstep_result) action" where
  "copy_follow env b values t cp cfg = (case values of
       VList (v # vs) \<Rightarrow>
         abind (alift (due_tasks (ae_loop env) cp (ba_channels b) (ba_managed b) cfg (ba_step b + 2) (ct_pending_writes t)))
         (\<lambda>(ts, _). abind (alift (copied_updates ts (v # vs)))
         (\<lambda>us. abind (finish_update b cfg) (\<lambda>c. aret (Again c us))))
     | _ \<Rightarrow> abind (finish_update b cfg) (\<lambda>c. aret (Finished c)))"

definition copy_update :: "'b api_env \<Rightarrow> base \<Rightarrow> val \<Rightarrow> ('b, superstep_result) action" where
  "copy_update env b values = (case ba_saved b of
       None \<Rightarrow> alift (Inl InvalidUpdateError)
     | Some t \<Rightarrow>
         abind (fresh_checkpoint env (create_checkpoint (ba_checkpoint b) None None None None []))
         (\<lambda>cp. abind (saver_put env (case ct_parent_config t of Some c \<Rightarrow> c | None \<Rightarrow> no_checkpoint_config (ct_config t)) cp
                  (update_metadata ''fork'' (ba_step b + 1) b) [])
         (copy_follow env b values t cp)))"

subsection \<open>Updates as nodes\<close>

definition truthy_version :: "version \<Rightarrow> bool" where
  "truthy_version v \<longleftrightarrow> v \<noteq> null_of v"

definition seen_list :: "loop_env \<Rightarrow> checkpoint \<Rightarrow> (version \<times> string) list" where
  "seen_list env cp = concat (map (\<lambda>(n, seen). if in_dict n (le_nodes env) then map (\<lambda>(_, v). (v, n)) seen else [])
     (cp_versions_seen cp))"

text \<open>The node that updated the state last, if there is only one.\<close>

definition infer_node :: "loop_env \<Rightarrow> checkpoint \<Rightarrow> string option" where
  "infer_node env cp =
     (if length (le_nodes env) = 1 then Some (fst (hd (le_nodes env)))
      else if \<not> (\<exists>(_, seen) \<in> set (cp_versions_seen cp). \<exists>(_, v) \<in> set seen. truthy_version v)
      then (case le_input_keys env of One c \<Rightarrow> if in_dict c (le_nodes env) then Some c else None | Many _ \<Rightarrow> None)
      else (case rev (sort (seen_list env cp)) of
          [] \<Rightarrow> None
        | [(_, n)] \<Rightarrow> Some n
        | (v, n) # (w, _) # _ \<Rightarrow> if v \<noteq> w then Some n else None))"

definition known_node :: "loop_env \<Rightarrow> val \<Rightarrow> string res" where
  "known_node env n = (case n of
       VStr s \<Rightarrow> if in_dict s (le_nodes env) then Inr s else Inl InvalidUpdateError
     | _ \<Rightarrow> if hashable n then Inl InvalidUpdateError else Inl TypeError)"

definition given_node :: "loop_env \<Rightarrow> state_update \<Rightarrow> (string \<times> val \<times> string option) res" where
  "given_node env u = rbind (known_node env (su_as_node u)) (\<lambda>n. Inr (n, su_values u, su_task_id u))"

definition valid_updates :: "loop_env \<Rightarrow> checkpoint \<Rightarrow> state_update list \<Rightarrow> (string \<times> val \<times> string option) list res" where
  "valid_updates env cp us = (case us of
       [u] \<Rightarrow> rbind (given_node env (if su_as_node u \<noteq> VNone then u
                else u\<lparr>su_as_node := (case infer_node env cp of Some n \<Rightarrow> VStr n | None \<Rightarrow> VNone)\<rparr>)) (\<lambda>x. Inr [x])
     | _ \<Rightarrow> rmap (given_node env) us)"

definition reusable_ids :: "loop_env \<Rightarrow> base \<Rightarrow> (string, string list) dict res" where
  "reusable_ids env b = (case ba_saved b of
       None \<Rightarrow> Inr []
     | Some t \<Rightarrow> rbind (due_tasks env (ba_checkpoint b) (ba_channels b) (ba_managed b) (ct_config t) (ba_step b + 1) (ct_pending_writes t))
         (\<lambda>(ts, _). Inr (task_ids_by_name ts)))"

definition update_task :: "string \<Rightarrow> chan_write list \<Rightarrow> task_writes" where
  "update_task n ws = \<lparr>tw_path = [], tw_name = n, tw_writes = ws, tw_triggers = [INTERRUPT]\<rparr>"

definition update_reader :: "base \<Rightarrow> string \<Rightarrow> reader" where
  "update_reader b n = (\<lambda>sent. local_read \<lparr>sp_step = ba_step b, sp_stop = ba_step b + 2\<rparr>
     (ba_channels b) (ba_managed b) (update_task n sent))"

definition take_task_id ::
  "loop_env \<Rightarrow> base \<Rightarrow> string \<Rightarrow> string option \<Rightarrow> (string, string list) dict \<Rightarrow> (string \<times> (string, string list) dict) res" where
  "take_task_id env b n provided ids = (case provided of
       Some (c # i) \<Rightarrow> Inr (c # i, ids)
     | _ \<Rightarrow> (case dict_get_or ids n [] of
           i # is \<Rightarrow> Inr (i, dict_set n is ids)
         | [] \<Rightarrow> rbind (update_task_id env (ba_checkpoint b) INTERRUPT) (\<lambda>i. Inr (i, ids))))"

definition run_update ::
  "'b api_env \<Rightarrow> base \<Rightarrow> string \<times> val \<times> string option
     \<Rightarrow> (string \<times> task_writes) list \<times> (string, string list) dict
     \<Rightarrow> ((string \<times> task_writes) list \<times> (string, string list) dict) res" where
  "run_update env b = (\<lambda>(n, values, provided) (rts, ids).
     let ws = flat_writers (ae_writers env n)
     in if ws = [] then Inl InvalidUpdateError
        else rbind (take_task_id (ae_loop env) b n provided ids) (\<lambda>(i, ids).
          case run_writers (Some (update_reader b n)) ws values [] of
            (Inl e, _) \<Rightarrow> Inl e
          | (Inr _, sent) \<Rightarrow> Inr (rts @ [(i, update_task n sent)], ids)))"

definition run_updates :: "'b api_env \<Rightarrow> base \<Rightarrow> state_update list \<Rightarrow> (string \<times> task_writes) list res" where
  "run_updates env b us =
     rbind (reusable_ids (ae_loop env) b) (\<lambda>ids.
     rbind (valid_updates (ae_loop env) (ba_checkpoint b) us) (\<lambda>valid.
     rbind (rfold (run_update env b) valid ([], ids)) (\<lambda>(rts, _). Inr rts)))"

text \<open>The writes of a task that go to a configuration, if there are any.\<close>

definition put_task_writes :: "'b api_env \<Rightarrow> config \<Rightarrow> (chan_write \<Rightarrow> bool) \<Rightarrow> string \<times> task_writes \<Rightarrow> ('b, unit) action" where
  "put_task_writes env cfg sel = (\<lambda>(i, t).
     let ws = filter sel (tw_writes t) in if ws = [] then aret () else saver_put_writes env cfg ws i)"

definition put_channel_writes :: "'b api_env \<Rightarrow> base \<Rightarrow> (string \<times> task_writes) list \<Rightarrow> ('b, unit) action" where
  "put_channel_writes env b rts = (if ba_saved b = None then aret ()
     else aeach (put_task_writes env (ba_checkpoint_config b) (\<lambda>(c, _). c \<noteq> PUSH)) rts)"

definition update_plan :: "loop_env \<Rightarrow> base \<Rightarrow> channels \<Rightarrow> string list \<Rightarrow> string list \<times> metadata" where
  "update_plan env b chs updated = create_checkpoint_plan_for_update_state_api (le_snapshot_bound env) chs updated
     (ba_step b + 1) (metadata_parents (base_metadata b)) (base_metadata b) (ba_saved b = None)"

definition save_update :: "'b api_env \<Rightarrow> base \<Rightarrow> (string \<times> task_writes) list \<Rightarrow> checkpoint \<times> channels \<Rightarrow> ('b, config) action" where
  "save_update env b rts = (\<lambda>(cp, chs).
     let updated = get_updated_channels_from_tasks (map snd rts);
         (snaps, md) = update_plan (ae_loop env) b chs updated
     in abind (fresh_checkpoint env (create_checkpoint cp (Some chs) None
            (if snaps \<noteq> [] then Some updated else None) (if snaps \<noteq> [] then Some (ae_next env) else None) snaps))
        (\<lambda>cp'. abind (saver_put env (ba_checkpoint_config b) cp' md
                 (get_new_channel_versions (base_versions b) (cp_channel_versions cp')))
        (\<lambda>cfg. abind (aeach (put_task_writes env cfg (\<lambda>(c, _). c = PUSH)) rts)
        (\<lambda>_. finish_update b cfg))))"

definition node_update :: "'b api_env \<Rightarrow> base \<Rightarrow> state_update list \<Rightarrow> ('b, config) action" where
  "node_update env b us =
     abind (alift (run_updates env b us)) (\<lambda>rts.
     abind (put_channel_writes env b rts) (\<lambda>_.
     abind (alift (apply_writes (ba_checkpoint b) (ba_channels b) (map snd rts) (Some (ae_next env)) (le_trigger_to_nodes (ae_loop env))))
     (\<lambda>(cp, chs, _). save_update env b rts (cp, chs))))"

subsection \<open>Supersteps of updates\<close>

definition finished :: "('b, config) action \<Rightarrow> ('b, superstep_result) action" where
  "finished m = abind m (\<lambda>c. aret (Finished c))"

definition COPY :: string where "COPY = ''__copy__''"

definition superstep_once :: "'b api_env \<Rightarrow> config \<Rightarrow> state_update list \<Rightarrow> ('b, superstep_result) action" where
  "superstep_once env cfg us =
     abind (load_base env cfg) (\<lambda>b. case us of
         [] \<Rightarrow> alift (Inl IndexError)
       | u # rest \<Rightarrow>
           if su_as_node u = VStr END \<and> su_values u = VNone then
             (if rest \<noteq> [] then alift (Inl InvalidUpdateError) else finished (clear_update env b))
           else if su_as_node u = VStr INPUT then
             (if rest \<noteq> [] then alift (Inl InvalidUpdateError) else finished (input_update env b (su_values u)))
           else if su_as_node u = VStr COPY then
             (if rest \<noteq> [] then alift (Inl InvalidUpdateError) else copy_update env b (su_values u))
           else finished (node_update env b us))"

text \<open>A copy may contain a copy; the values of its updates are parts of its own.\<close>

definition update_size :: "state_update list \<Rightarrow> nat" where
  "update_size us = sum_list (map (\<lambda>u. size (su_values u)) us)"

lemma item_pair_size: "item_pair x = Inr (v, n) \<Longrightarrow> size v \<le> size x"
  by (cases x rule: item_pair.cases) auto

lemma update_size_append: "update_size (concat (map snd (dict_append k u groups))) = update_size (concat (map snd groups)) + size (su_values u)"
proof -
  have "update_size (concat (map snd (dict_set k (dict_get_or groups k [] @ [u]) groups)))
      = update_size (concat (map snd groups)) + size (su_values u)"
    by (induction groups) (auto simp: dict_get_or_def update_size_def)
  then show ?thesis by (simp add: dict_append_def)
qed

lemma group_item_size:
  assumes "group_item ids x groups = Inr g"
  shows "update_size (concat (map snd g)) \<le> update_size (concat (map snd groups)) + size x"
proof -
  from assms obtain v n where p: "item_pair x = Inr (v, n)"
    and g: "\<exists>i. g = dict_append n \<lparr>su_values = v, su_as_node = n, su_task_id = i\<rparr> groups"
    unfolding group_item_def rbind_Inr_iff Let_def by (auto split: if_split_asm)
  then show ?thesis using item_pair_size [OF p] by (auto simp: update_size_append)
qed

lemma copied_updates_size: "copied_updates ts items = Inr us \<Longrightarrow> update_size us \<le> size_list size items"
proof -
  have "rfold (group_item ids) xs groups = Inr groups' \<Longrightarrow>
      update_size (concat (map snd groups')) \<le> update_size (concat (map snd groups)) + size_list size xs" for ids xs groups groups'
  proof (induction xs arbitrary: groups)
    case (Cons x xs)
    then obtain g where g: "group_item ids x groups = Inr g" "rfold (group_item ids) xs g = Inr groups'"
      by (auto simp: rbind_Inr_iff)
    then show ?case using Cons.IH [OF g(2)] group_item_size [OF g(1)] by simp
  qed simp
  from this [of _ items "[]"] show "copied_updates ts items = Inr us \<Longrightarrow> update_size us \<le> size_list size items"
    by (force simp: copied_updates_def rbind_Inr_iff update_size_def)
qed

lemma again_smaller:
  fixes env :: "'b api_env"
  assumes "superstep_once env cfg us s = (Inr (Again c us'), s')"
  shows "update_size us' < update_size us"
proof -
  have fin: "finished m a \<noteq> (Inr (Again c us'), b)" for m :: "('b, config) action" and a b
    by (auto simp: finished_def abind_Inr)
  have "copy_follow env b v t cp cfg a = (Inr (Again c us'), a') \<Longrightarrow> update_size us' < size v" for b v t cp cfg a a'
    by (cases v; cases "case v of VList xs \<Rightarrow> xs | _ \<Rightarrow> []")
      (auto simp: copy_follow_def abind_Inr dest!: copied_updates_size)
  then have copy: "copy_update env b v a = (Inr (Again c us'), a') \<Longrightarrow> update_size us' < size v" for b v a a'
    by (cases "ba_saved b") (auto simp: copy_update_def abind_Inr alift_def)
  have err: "alift (Inl e) a \<noteq> (Inr (Again c us'), b)" for e and a b :: "'b api" by simp
  from assms obtain b u rest s1 where us: "us = u # rest" and s: "(if su_as_node u = VStr END \<and> su_values u = VNone then
             (if rest \<noteq> [] then alift (Inl InvalidUpdateError) else finished (clear_update env b))
           else if su_as_node u = VStr INPUT then
             (if rest \<noteq> [] then alift (Inl InvalidUpdateError) else finished (input_update env b (su_values u)))
           else if su_as_node u = VStr COPY then
             (if rest \<noteq> [] then alift (Inl InvalidUpdateError) else copy_update env b (su_values u))
           else finished (node_update env b us)) s1 = (Inr (Again c us'), s')"
    unfolding superstep_once_def abind_Inr by (cases us) auto
  from s have "\<exists>a a'. copy_update env b (su_values u) a = (Inr (Again c us'), a')"
    using fin err by (auto split: if_split_asm)
  then show ?thesis using copy us by (auto simp: update_size_def trans_less_add1)
qed

function perform_superstep :: "'b api_env \<Rightarrow> config \<Rightarrow> state_update list \<Rightarrow> ('b, config) action" where
  "perform_superstep env cfg us s =
     (case superstep_once env cfg us s of
        (Inl e, s) \<Rightarrow> (Inl e, s)
      | (Inr (Finished c), s) \<Rightarrow> (Inr c, s)
      | (Inr (Again c us'), s) \<Rightarrow> perform_superstep env c us' s)"
  by pat_completeness auto

termination
  by (relation "measure (\<lambda>(env, cfg, us, s). update_size us)") (auto intro: again_smaller [OF sym])

declare perform_superstep.simps [simp del]

text \<open>The configuration of each superstep is the result of the one before.\<close>

fun perform_supersteps :: "'b api_env \<Rightarrow> state_update list list \<Rightarrow> config \<Rightarrow> ('b, config) action" where
  "perform_supersteps env [] cfg = aret cfg"
| "perform_supersteps env (us # uss) cfg = abind (perform_superstep env cfg us) (perform_supersteps env uss)"

definition bulk_update_state :: "'b api_env \<Rightarrow> config \<Rightarrow> state_update list list \<Rightarrow> ('b, config) action" where
  "bulk_update_state env cfg supersteps =
     (if le_checkpointer (ae_loop env) = None \<or> supersteps = [] \<or> [] \<in> set supersteps then alift (Inl ValueError)
      else abind (alift (thread_str cfg)) (\<lambda>t.
        perform_supersteps env supersteps (patch_configurable cfg [(''thread_id'', CStr t)])))"

definition update_state :: "'b api_env \<Rightarrow> config \<Rightarrow> val \<Rightarrow> val \<Rightarrow> string option \<Rightarrow> ('b, config) action" where
  "update_state env cfg values as_node task_id =
     bulk_update_state env cfg [[\<lparr>su_values = values, su_as_node = as_node, su_task_id = task_id\<rparr>]]"

subsection \<open>Task results (pregel/debug.py)\<close>

definition is_multiple_channel_write :: "val \<Rightarrow> val list option" where
  "is_multiple_channel_write v = (case v of
       VDict d \<Rightarrow> (case dict_get d ''$writes'' of Some (VList xs) \<Rightarrow> Some xs | _ \<Rightarrow> None)
     | _ \<Rightarrow> None)"

definition add_result :: "chan_write \<Rightarrow> (string, val) dict \<Rightarrow> (string, val) dict" where
  "add_result = (\<lambda>(c, v) result.
     case dict_get_or result c VNone of
       VNone \<Rightarrow> dict_set c v result
     | e \<Rightarrow> dict_set c (VDict [(''$writes'', VList ((case is_multiple_channel_write e of Some xs \<Rightarrow> xs | None \<Rightarrow> [e]) @ [v]))]) result)"

definition map_task_result_writes :: "chan_write list \<Rightarrow> (string, val) dict" where
  "map_task_result_writes ws = fold add_result ws []"

record task_state =
  pt_id :: string
  pt_name :: string
  pt_path :: "path list"
  pt_error :: "val option"
  pt_interrupts :: "val list"
  pt_state :: "config option"
  pt_result :: "val option"

text \<open>A string is a sequence too, of its characters.\<close>

fun interrupt_items :: "val \<Rightarrow> val list" where
  "interrupt_items (VList xs) = xs"
| "interrupt_items (VTuple xs) = xs"
| "interrupt_items (VStr s) = map (\<lambda>c. VStr [c]) s"
| "interrupt_items v = [v]"

definition find_write :: "string \<Rightarrow> string \<Rightarrow> pending_write list \<Rightarrow> val option" where
  "find_write task_id chan pws = map_option (snd \<circ> snd) (find (\<lambda>(t, c, _). t = task_id \<and> c = chan) pws)"

text \<open>The result of a task: what it returned, or its writes to the output channels.\<close>

definition task_result :: "select \<Rightarrow> string \<Rightarrow> pending_write list \<Rightarrow> val" where
  "task_result out task_id pws = (case find_write task_id RETURN pws of
       Some v \<Rightarrow> v
     | None \<Rightarrow>
         let ws = map snd (filter (\<lambda>(t, c, _). t = task_id \<and> c \<notin> {ERROR, INTERRUPT, RETURN}) pws)
         in case out of
              One k \<Rightarrow> dict_get_or (map_task_result_writes (filter (\<lambda>(c, _). c = k) ws)) k VNone
            | Many ks \<Rightarrow> VDict (map_task_result_writes (filter (\<lambda>(c, _). c \<in> set ks) ws)))"

definition task_with_writes :: "pending_write list \<Rightarrow> (string, config) dict \<Rightarrow> select \<Rightarrow> exec_task \<Rightarrow> task_state" where
  "task_with_writes pws states out t =
     \<lparr>pt_id = et_id t, pt_name = tw_name t, pt_path = tw_path t,
      pt_error = find_write (et_id t) ERROR pws,
      pt_interrupts = concat (map (\<lambda>(_, _, v). interrupt_items v) (filter (\<lambda>(i, c, _). i = et_id t \<and> c = INTERRUPT) pws)),
      pt_state = dict_get states (et_id t),
      pt_result = (if find_write (et_id t) RETURN pws \<noteq> None \<or> (\<exists>(i, c, _) \<in> set pws. i = et_id t \<and> c \<noteq> ERROR \<and> c \<noteq> INTERRUPT)
                   then Some (task_result out (et_id t) pws) else None)\<rparr>"

definition tasks_w_writes :: "exec_task list \<Rightarrow> pending_write list \<Rightarrow> (string, config) dict \<Rightarrow> select \<Rightarrow> task_state list" where
  "tasks_w_writes ts pws states out = map (task_with_writes pws states out) ts"

subsection \<open>Snapshots\<close>

record state_snapshot =
  sn_values :: val
  sn_next :: "string list"
  sn_config :: config
  sn_metadata :: "metadata option"
  sn_created_at :: "string option"
  sn_parent_config :: "config option"
  sn_tasks :: "task_state list"
  sn_interrupts :: "val list"

text \<open>The configurations that say where the checkpoints of the tasks' subgraphs are.\<close>

definition subgraph_config :: "config \<Rightarrow> exec_task \<Rightarrow> config res" where
  "subgraph_config cfg t =
     (let task_ns = tw_name t @ NS_END @ et_id t;
          ns = (if conf_ns cfg \<noteq> [] then conf_ns cfg @ NS_SEP @ task_ns else task_ns)
      in rbind (dict_index (cfg_configurable cfg) ''thread_id'') (\<lambda>th.
           Inr (empty_config\<lparr>cfg_configurable := [(''thread_id'', th), (''checkpoint_ns'', CStr ns)]\<rparr>)))"

definition task_states :: "string list \<Rightarrow> config \<Rightarrow> exec_task list \<Rightarrow> (string, config) dict res" where
  "task_states subgraphs cfg ts =
     rbind (rmap (\<lambda>t. rbind (subgraph_config cfg t) (\<lambda>c. Inr (et_id t, c))) (filter (\<lambda>t. tw_name t \<in> set subgraphs) ts))
       (\<lambda>cs. Inr (dict_of cs))"

definition opt_res :: "'a res option \<Rightarrow> 'a option res" where
  "opt_res x = (case x of None \<Rightarrow> Inr None | Some r \<Rightarrow> rbind r (\<lambda>v. Inr (Some v)))"

text \<open>The pending writes are applied if the newest checkpoint was asked for.\<close>

definition snapshot_channels ::
  "loop_env \<Rightarrow> bool \<Rightarrow> pending_write list \<Rightarrow> (string, exec_task) dict \<Rightarrow> checkpoint \<times> channels
     \<Rightarrow> ((string, exec_task) dict \<times> channels) res" where
  "snapshot_channels env apply_pending pws ts start =
     rbind (with_null_writes None (le_trigger_to_nodes env) pws start) (\<lambda>(cp, chs).
       let ts = (if apply_pending then ran_tasks pws ts else ts);
           active = filter (\<lambda>t. tw_writes t \<noteq> []) (map snd ts)
       in if apply_pending \<and> pws \<noteq> [] \<and> active \<noteq> []
          then rbind (apply_writes cp chs active None (le_trigger_to_nodes env)) (\<lambda>(_, chs, _). Inr (ts, chs))
          else Inr (ts, chs))"

definition saved_snapshot :: "'b api_env \<Rightarrow> 'b saver \<Rightarrow> checkpoint_tuple \<Rightarrow> bool \<Rightarrow> state_snapshot res" where
  "saved_snapshot env sv t apply_pending =
     rbind (saved_step (ct_metadata t)) (\<lambda>step.
     rbind (channels_from_checkpoint (le_specs (ae_loop env)) (ct_checkpoint t)
              (Some (\<lambda>ks. ae_history env (ct_config t) ks sv))) (\<lambda>(chs, managed).
     rbind (due_tasks (ae_loop env) (ct_checkpoint t) chs managed (ct_config t) (step + 1) (ct_pending_writes t)) (\<lambda>(ts, pws).
     rbind (task_states (ae_subgraphs env) (ct_config t) (map snd ts)) (\<lambda>states.
     rbind (snapshot_channels (ae_loop env) apply_pending pws ts (ct_checkpoint t, chs)) (\<lambda>(ts, chs).
       let tasks = tasks_w_writes (map snd ts) pws states (ae_stream env)
       in rbind (read_channels chs (ae_stream env) True) (\<lambda>vals.
          rbind (patch_checkpoint_map (ct_config t) (Some (ct_metadata t))) (\<lambda>cfg.
          rbind (opt_res (map_option (\<lambda>c. patch_checkpoint_map c (Some (ct_metadata t))) (ct_parent_config t))) (\<lambda>parent.
            Inr \<lparr>sn_values = vals, sn_next = map tw_name (filter (\<lambda>t. tw_writes t = []) (map snd ts)),
                 sn_config = cfg, sn_metadata = Some (ct_metadata t), sn_created_at = Some (cp_ts (ct_checkpoint t)),
                 sn_parent_config = parent, sn_tasks = tasks,
                 sn_interrupts = concat (map pt_interrupts tasks)\<rparr>))))))))"

definition prepare_state_snapshot ::
  "'b api_env \<Rightarrow> config \<Rightarrow> checkpoint_tuple option \<Rightarrow> bool \<Rightarrow> 'b saver \<Rightarrow> state_snapshot res" where
  "prepare_state_snapshot env cfg saved apply_pending sv = (case saved of
       None \<Rightarrow> Inr \<lparr>sn_values = VDict [], sn_next = [], sn_config = cfg, sn_metadata = None, sn_created_at = None,
                    sn_parent_config = None, sn_tasks = [], sn_interrupts = []\<rparr>
     | Some t \<Rightarrow> saved_snapshot env sv t apply_pending)"

subsection \<open>\<open>get_state\<close> and \<open>get_state_history\<close>\<close>

definition get_state :: "'b api_env \<Rightarrow> config \<Rightarrow> ('b, state_snapshot) action" where
  "get_state env cfg =
     (if le_checkpointer (ae_loop env) = None then alift (Inl ValueError)
      else abind (alift (thread_str cfg)) (\<lambda>t.
        let cfg = patch_configurable cfg [(''thread_id'', CStr t)]
        in abind (saver_get env cfg) (\<lambda>saved s.
             (prepare_state_snapshot env cfg saved (\<not> in_dict ''checkpoint_id'' (cfg_configurable cfg)) (api_saver s), s))))"

definition get_state_history ::
  "'b api_env \<Rightarrow> config \<Rightarrow> metadata \<Rightarrow> config option \<Rightarrow> int option \<Rightarrow> ('b, state_snapshot list) action" where
  "get_state_history env cfg query before limit =
     (if le_checkpointer (ae_loop env) = None then alift (Inl ValueError)
      else abind (alift (thread_str cfg)) (\<lambda>t.
        let cfg = patch_configurable cfg [(''checkpoint_ns'', CStr (conf_ns cfg)), (''thread_id'', CStr t)]
        in abind (\<lambda>s. case mem_list (ae_serde env) (Some cfg) query before limit (api_saver s) of
               Inl e \<Rightarrow> (Inl e, s) | Inr (ts, sv) \<Rightarrow> (Inr ts, s\<lparr>api_saver := sv\<rparr>))
             (\<lambda>ts s. (rmap (\<lambda>t. prepare_state_snapshot env (ct_config t) (Some t) False (api_saver s)) ts, s))))"

end
