(* ===== verification/State_Api_Props.thy ===== *)
theory State_Api_Props
  imports State_Api
begin

section \<open>Properties of the state api\<close>

text \<open>
  An update reads back as what applying its writes gives, a copy reads back as the original, no
  update touches the checkpoints that are stored, a superstep that names an unknown node is
  rejected before anything is written, and the node that is inferred is the only one with the
  newest version. The examples at the end evaluate the cases in which an update goes wrong.
\<close>

subsection \<open>What the saver returns\<close>

lemma mem_get_tuple_same:
  assumes "mem_get_tuple sd cfg sv = Inr (tup, sv')"
  shows "same_data sv' sv"
  using assms
  by (cases "get_checkpoint_id cfg"; cases "the (get_checkpoint_id cfg)")
    (auto simp: mem_get_tuple_def rbind_Inr_iff Let_def same_data_def fun_eq_iff split: option.split_asm if_split_asm)

lemma mem_get_tuple_Some:
  assumes "mem_get_tuple sd cfg sv = Inr (Some tup, sv')"
  obtains t i e c where "conf_index cfg ''thread_id'' = Inr t"
    "dict_get (ns_storage sv t (conf_ns cfg)) i = Some e" "tup = mem_tuple sd sv c t (conf_ns cfg) i e"
    "c = cfg \<and> get_checkpoint_id cfg = Some i \<and> i \<noteq> [] \<or> c = saver_config t (conf_ns cfg) i"
proof -
  from assms obtain t where t: "conf_index cfg ''thread_id'' = Inr t" by (auto simp: mem_get_tuple_def rbind_Inr_iff)
  have same: "mem_tuple sd (touch_ns t (conf_ns cfg) sv) c t (conf_ns cfg) i e = mem_tuple sd sv c t (conf_ns cfg) i e" for c i e
    by (rule mem_tuple_cong) (auto simp: same_data_def fun_eq_iff)
  show thesis
    using assms t same that [OF t]
    by (auto simp: mem_get_tuple_def rbind_Inr_iff Let_def dict_index_def split: option.splits list.splits if_splits)
qed

lemma mem_tuple_values:
  assumes "wf_dict (cp_channel_versions (ct_checkpoint (mem_tuple sd sv c t ns i e)))"
  shows "dict_get (cp_channel_values (ct_checkpoint (mem_tuple sd sv c t ns i e))) k =
    Option.bind (dict_get (cp_channel_versions (ct_checkpoint (mem_tuple sd sv c t ns i e))) k) (load_blob sd sv t ns k)"
  using assms by (cases e) (simp add: mem_tuple_def Let_def load_blobs_get)

subsection \<open>What a superstep starts from\<close>

lemma load_base_Inr:
  assumes "load_base env cfg s = (Inr b, s1)"
  obtains sv d where "mem_get_tuple (ae_serde env) cfg (api_saver s) = Inr (ba_saved b, api_saver s1)"
    "ba_checkpoint b = (case ba_saved b of Some t \<Rightarrow> ct_checkpoint t | None \<Rightarrow> empty_checkpoint sv d)"
    "ba_checkpoint_config b = patch_configurable cfg (case ba_saved b of
               Some t \<Rightarrow> cfg_configurable (ct_config t) | None \<Rightarrow> [(''checkpoint_ns'', CStr (conf_ns cfg))])"
    "\<exists>h. channels_from_checkpoint (le_specs (ae_loop env)) (ba_checkpoint b) h = Inr (ba_channels b, ba_managed b)"
  using assms
  by (auto simp: load_base_def abind_Inr saver_Inr fresh_checkpoint_Inr split: option.splits) blast+

lemma base_versions_eq:
  assumes "load_base env cfg s = (Inr b, s1)"
  shows "base_versions b = cp_channel_versions (ba_checkpoint b)"
  using assms by (rule load_base_Inr) (auto simp: base_versions_def empty_checkpoint_def split: option.splits)

text \<open>The stored values are under the thread and namespace that the next checkpoint goes to.\<close>

lemma conf_ns_index: "conf_index cfg ''checkpoint_ns'' = Inr ns \<Longrightarrow> conf_ns cfg = ns"
  by (auto simp: conf_index_def conf_ns_def conf_str_def split: option.splits cval.splits)

lemma patch_self: "wf_dict (cfg_configurable cfg) \<Longrightarrow> conf_index (patch_configurable cfg (cfg_configurable cfg)) k = conf_index cfg k"
  by (auto simp: conf_index_def patch_get dict_get_rev split: option.splits)

lemma base_values:
  assumes load: "load_base env cfg s = (Inr b, s1)" and wf: "wf_dict (cfg_configurable cfg)"
    and versions: "wf_dict (cp_channel_versions (ba_checkpoint b))"
    and place: "conf_index (ba_checkpoint_config b) ''thread_id'' = Inr t" "conf_index (ba_checkpoint_config b) ''checkpoint_ns'' = Inr ns"
  shows "dict_get (cp_channel_values (ba_checkpoint b)) k =
    Option.bind (dict_get (cp_channel_versions (ba_checkpoint b)) k) (load_blob (ae_serde env) (api_saver s1) t ns k)"
proof (rule load_base_Inr [OF load])
  fix i d
  assume get: "mem_get_tuple (ae_serde env) cfg (api_saver s) = Inr (ba_saved b, api_saver s1)"
    and cp: "ba_checkpoint b = (case ba_saved b of Some t \<Rightarrow> ct_checkpoint t | None \<Rightarrow> empty_checkpoint i d)"
    and conf: "ba_checkpoint_config b = patch_configurable cfg (case ba_saved b of
               Some t \<Rightarrow> cfg_configurable (ct_config t) | None \<Rightarrow> [(''checkpoint_ns'', CStr (conf_ns cfg))])"
  show ?thesis
  proof (cases "ba_saved b")
    case None
    then show ?thesis using cp by (simp add: empty_checkpoint_def)
  next
    case (Some tup)
    obtain t' j e c where tup: "conf_index cfg ''thread_id'' = Inr t'" "tup = mem_tuple (ae_serde env) (api_saver s) c t' (conf_ns cfg) j e"
      "c = cfg \<and> get_checkpoint_id cfg = Some j \<and> j \<noteq> [] \<or> c = saver_config t' (conf_ns cfg) j"
      using get unfolding Some by (rule mem_get_tuple_Some)
    have c: "ct_config tup = c" by (cases e) (simp add: tup(2) mem_tuple_def Let_def)
    have p: "t' = t" "conf_ns cfg = ns"
      using tup(1,3) place patch_self [OF wf] conf_ns_index [of cfg ns] unfolding conf Some option.case c
      by (auto simp: saver_config_def simp del: patch_conf) (auto simp: saver_config_def)
    have "load_blob (ae_serde env) (api_saver s) t ns = load_blob (ae_serde env) (api_saver s1) t ns"
      using mem_get_tuple_same [OF get] by (auto simp: same_data_def fun_eq_iff intro: load_blob_cong)
    then show ?thesis using mem_tuple_values [of "ae_serde env" "api_saver s" c t' "conf_ns cfg" j e k] versions cp Some tup(2) p by simp
  qed
qed

subsection \<open>Writes\<close>

definition writes_only :: "'b saver \<Rightarrow> 'b saver \<Rightarrow> bool" where
  "writes_only a b \<longleftrightarrow> sv_blobs b = sv_blobs a \<and> sv_storage b = sv_storage a"

lemma put_task_writes_only: "writes_only (api_saver s) (api_saver (snd (put_task_writes env cfg sel x s)))"
  by (cases x) (auto simp: put_task_writes_def saver_put_writes_def writes_only_def aret_def Let_def
      split: sum.splits elim!: mem_put_writes_Inr)

lemma aeach_writes_only: "writes_only (api_saver s) (api_saver (snd (aeach (put_task_writes env cfg sel) xs s)))"
proof (induction xs arbitrary: s)
  case (Cons x xs)
  show ?case using put_task_writes_only [of s env cfg sel x] Cons.IH [of "snd (put_task_writes env cfg sel x s)"]
    by (auto simp: abind_def writes_only_def split: prod.splits sum.splits)
qed (simp add: aret_def writes_only_def)

lemma put_channel_writes_only: "writes_only (api_saver s) (api_saver (snd (put_channel_writes env b rts s)))"
  by (cases "ba_saved b = None") (simp_all add: put_channel_writes_def aeach_writes_only aret_def writes_only_def [of "api_saver s" "api_saver s"])

lemma writes_onlyD:
  assumes "writes_only a b"
  shows "ns_storage b = ns_storage a" "load_blob sd b = load_blob sd a"
  using assms by (auto simp: writes_only_def ns_storage_def load_blob_def fun_eq_iff)

lemma patch_map_Inr:
  assumes "patch_checkpoint_map cfg md = Inr cfg'" "k \<noteq> ''checkpoint_map''"
  shows "conf_index cfg' k = conf_index cfg k \<and> conf_str cfg' k = conf_str cfg k"
  using assms by (auto simp: patch_checkpoint_map_def rbind_Inr_iff split: list.splits)

lemma patch_map_place:
  assumes "patch_checkpoint_map (saver_config t ns i) md = Inr cfg'"
  shows "conf_index cfg' ''thread_id'' = Inr t" "conf_ns cfg' = ns" "get_checkpoint_id cfg' = Some i"
  using patch_map_Inr [OF assms, of "''thread_id''"] patch_map_Inr [OF assms, of "''checkpoint_ns''"]
    patch_map_Inr [OF assms, of "''checkpoint_id''"]
  by (simp_all add: conf_ns_def get_checkpoint_id_def) (simp_all add: saver_config_def conf_str_def)

subsection \<open>An update of plain channels\<close>

lemma update_plan_plain:
  assumes "all_persist chs" "wf_dict chs"
  shows "fst (update_plan env b chs updated) = []"
proof -
  have "get_delta_channels_from_all_channels chs = []"
    using assms by (force simp: get_delta_channels_from_all_channels_def filter_empty_conv all_persist_def ch_persists_def map_of_eq_Some_iff)
  then show ?thesis using no_snapshots [OF assms]
    by (simp add: update_plan_def create_checkpoint_plan_for_update_state_api_def Let_def)
qed

lemma save_update_plain:
  assumes "save_update env b rts (cp, chs) s = (Inr cfg', s')" "all_persist chs" "wf_dict chs" "serde_ok (ae_serde env)"
    "wf_dict (cp_channel_versions cp)"
  obtains cp' t ns e where
    "create_checkpoint cp (Some chs) None None None [] (le_uuid (ae_loop env) (api_drawn s)) (le_now (ae_loop env) (api_drawn s)) = Inr cp'"
    "conf_index (ba_checkpoint_config b) ''thread_id'' = Inr t" "conf_index (ba_checkpoint_config b) ''checkpoint_ns'' = Inr ns"
    "conf_index cfg' ''thread_id'' = Inr t" "conf_ns cfg' = ns" "get_checkpoint_id cfg' = Some (cp_id cp')"
    "dict_get (ns_storage (api_saver s') t ns) (cp_id cp') =
       Some (sd_dumps_checkpoint (ae_serde env) (cp'\<lparr>cp_channel_values := []\<rparr>), e, get_checkpoint_id (ba_checkpoint_config b))"
    "\<And>k ver. load_blob (ae_serde env) (api_saver s') t ns k ver =
       (if dict_get (get_new_channel_versions (base_versions b) (cp_channel_versions cp')) k = Some ver
        then dict_get (cp_channel_values cp') k else load_blob (ae_serde env) (api_saver s) t ns k ver)"
proof -
  let ?upd = "get_updated_channels_from_tasks (map snd rts)"
  obtain md where plan: "update_plan (ae_loop env) b chs ?upd = ([], md)"
    using update_plan_plain [OF assms(2,3)] by (metis prod.collapse)
  from assms(1) obtain cp' cfg sv s1 where
    create: "create_checkpoint cp (Some chs) None None None [] (le_uuid (ae_loop env) (api_drawn s)) (le_now (ae_loop env) (api_drawn s)) = Inr cp'"
    and put: "mem_put (ae_serde env) (ba_checkpoint_config b) cp' md (get_new_channel_versions (base_versions b) (cp_channel_versions cp')) (api_saver s) = Inr (cfg, sv)"
    and push: "aeach (put_task_writes env cfg (\<lambda>(c, _). c = PUSH)) rts (s\<lparr>api_drawn := api_drawn s + 1, api_saver := sv\<rparr>) = (Inr (), s1)"
    and fin: "patch_checkpoint_map cfg (map_option ct_metadata (ba_saved b)) = Inr cfg'" "s' = s1"
    by (auto simp: save_update_def plan Let_def abind_Inr saver_Inr fresh_checkpoint_Inr finish_update_def)
  have w: "writes_only sv (api_saver s')"
    using aeach_writes_only [of "s\<lparr>api_drawn := api_drawn s + 1, api_saver := sv\<rparr>" env cfg "\<lambda>(c, _). c = PUSH" rts] push fin(2) by simp
  have nv: "wf_dict (get_new_channel_versions (base_versions b) (cp_channel_versions cp'))"
    using created_plain [OF create assms(3)] assms(5) by (simp add: wf_new_versions)
  show thesis
  proof (rule mem_put_Inr [OF assms(4) put nv])
    fix t ns
    assume t: "conf_index (ba_checkpoint_config b) ''thread_id'' = Inr t" "conf_index (ba_checkpoint_config b) ''checkpoint_ns'' = Inr ns"
      "cfg = saver_config t ns (cp_id cp')"
      and sv: "\<And>t' ns'. ns_storage sv t' ns' = (if t' = t \<and> ns' = ns then dict_set (cp_id cp')
        (sd_dumps_checkpoint (ae_serde env) (cp'\<lparr>cp_channel_values := []\<rparr>),
         sd_dumps_metadata (ae_serde env) (get_checkpoint_metadata (ba_checkpoint_config b) md), get_checkpoint_id (ba_checkpoint_config b))
           (ns_storage (api_saver s) t ns)
      else ns_storage (api_saver s) t' ns')"
      "\<And>t' ns' k ver. load_blob (ae_serde env) sv t' ns' k ver =
      (if t' = t \<and> ns' = ns \<and> dict_get (get_new_channel_versions (base_versions b) (cp_channel_versions cp')) k = Some ver
       then dict_get (cp_channel_values cp') k else load_blob (ae_serde env) (api_saver s) t' ns' k ver)"
    show thesis
    proof (rule that [OF create t(1,2)])
      show "conf_index cfg' ''thread_id'' = Inr t" "conf_ns cfg' = ns" "get_checkpoint_id cfg' = Some (cp_id cp')"
        using patch_map_place [OF fin(1) [unfolded t(3)]] by simp_all
    qed (use sv in \<open>simp_all add: writes_onlyD [OF w]\<close>)
  qed
qed

lemma node_update_Inr:
  assumes "node_update env b us s = (Inr cfg', s')"
  obtains rts cp chs upd s1 where "run_updates env b us = Inr rts"
    "apply_writes (ba_checkpoint b) (ba_channels b) (map snd rts) (Some (ae_next env)) (le_trigger_to_nodes (ae_loop env)) = Inr (cp, chs, upd)"
    "writes_only (api_saver s) (api_saver s1)" "save_update env b rts (cp, chs) s1 = (Inr cfg', s')"
proof -
  from assms obtain rts s1 x where r: "run_updates env b us = Inr rts" "put_channel_writes env b rts s = (Inr (), s1)"
    "apply_writes (ba_checkpoint b) (ba_channels b) (map snd rts) (Some (ae_next env)) (le_trigger_to_nodes (ae_loop env)) = Inr x"
    "save_update env b rts (fst x, fst (snd x)) s1 = (Inr cfg', s')"
    by (auto simp: node_update_def abind_Inr split: prod.splits)
  have "writes_only (api_saver s) (api_saver s1)" using put_channel_writes_only [of s env b rts] r(2) by simp
  with r show thesis using that [of rts "fst x" "fst (snd x)" "snd (snd x)" s1] by simp
qed

lemma update_reads:
  fixes env :: "'b api_env"
  assumes load: "load_base env cfg s = (Inr b, s1)" and upd: "node_update env b us s1 = (Inr cfg', s2)"
    and env: "serde_ok (ae_serde env)" "plain_specs (le_specs (ae_loop env))" "\<And>n. le_uuid (ae_loop env) n \<noteq> []"
    and fresh: "fresh_draw (ae_loop env) (cp_channel_versions (ba_checkpoint b))"
    and wf: "wf_dict (cp_channel_versions (ba_checkpoint b))" "channels_inv (ba_channels b)" "wf_dict (cfg_configurable cfg)"
  shows "\<exists>rts cp chs u tup sv chs'. run_updates env b us = Inr rts
    \<and> apply_writes (ba_checkpoint b) (ba_channels b) (map snd rts) (Some (ae_next env)) (le_trigger_to_nodes (ae_loop env)) = Inr (cp, chs, u)
    \<and> mem_get_tuple (ae_serde env) cfg' (api_saver s2) = Inr (Some tup, sv)
    \<and> cp_channel_versions (ct_checkpoint tup) = cp_channel_versions cp \<and> cp_versions_seen (ct_checkpoint tup) = cp_versions_seen cp
    \<and> channels_from_checkpoint (le_specs (ae_loop env)) (ct_checkpoint tup) None = Inr (chs', managed_specs (le_specs (ae_loop env)))
    \<and> (\<forall>k. dict_get chs' k = dict_get chs k)"
proof (rule node_update_Inr [OF upd])
  fix rts cp chs u s3
  assume run: "run_updates env b us = Inr rts"
    and aw: "apply_writes (ba_checkpoint b) (ba_channels b) (map snd rts) (Some (ae_next env)) (le_trigger_to_nodes (ae_loop env)) = Inr (cp, chs, u)"
    and w: "writes_only (api_saver s1) (api_saver s3)" and save: "save_update env b rts (cp, chs) s3 = (Inr cfg', s2)"
  let ?sd = "ae_serde env" and ?specs = "le_specs (ae_loop env)" and ?old = "cp_channel_versions (ba_checkpoint b)"
  from load obtain h where "channels_from_checkpoint ?specs (ba_checkpoint b) h = Inr (ba_channels b, ba_managed b)"
    by (rule load_base_Inr) blast
  from restore_plain [OF this env(2)] have old: "specs_match (channel_specs ?specs) (ba_channels b)" "all_persist (ba_channels b)"
    "\<And>k c. dict_get (ba_channels b) k = Some c \<Longrightarrow> ch_from_checkpoint c (dict_get (cp_channel_values (ba_checkpoint b)) k) = Inr c"
    by blast+
  have new: "channels_inv chs" "specs_match (channel_specs ?specs) chs" "all_persist chs" "wf_dict (cp_channel_versions cp)"
    using apply_writes_inv [OF aw wf(2)] apply_writes_specs [OF aw old(1)] apply_writes_persists [OF aw old(2)]
      apply_writes_wf_versions [OF aw wf(1)] by blast+
  obtain v where v: "ae_next env (max_version ?old) = Inr v"
    by (rule apply_writes_steps [OF aw]) (auto simp: draw_version_Some)
  have unb: "dict_get (cp_channel_versions cp) k = Some v \<or>
      dict_get (cp_channel_versions cp) k = dict_get ?old k \<and> dict_get chs k = dict_get (ba_channels b) k" for k
    using apply_writes_unbumped [OF aw v] by blast
  have less: "null_of v < v" "\<And>j w. dict_get ?old j = Some w \<Longrightarrow> w < v" using fresh v by (auto simp: fresh_draw_def)
  have wf_chs: "wf_dict chs" using new(1) by (simp add: channels_inv_def)
  show ?thesis
  proof (rule save_update_plain [OF save new(3) wf_chs env(1) new(4)])
    fix cp' :: checkpoint and t ns e
    let ?nv = "get_new_channel_versions (base_versions b) (cp_channel_versions cp')"
    assume create: "create_checkpoint cp (Some chs) None None None [] (le_uuid (ae_loop env) (api_drawn s3)) (le_now (ae_loop env) (api_drawn s3)) = Inr cp'"
      and place: "conf_index (ba_checkpoint_config b) ''thread_id'' = Inr t" "conf_index (ba_checkpoint_config b) ''checkpoint_ns'' = Inr ns"
        "conf_index cfg' ''thread_id'' = Inr t" "conf_ns cfg' = ns" "get_checkpoint_id cfg' = Some (cp_id cp')"
      and entry: "dict_get (ns_storage (api_saver s2) t ns) (cp_id cp') =
       Some (sd_dumps_checkpoint ?sd (cp'\<lparr>cp_channel_values := []\<rparr>), e, get_checkpoint_id (ba_checkpoint_config b))"
      and blob: "\<And>k ver. load_blob ?sd (api_saver s2) t ns k ver = (if dict_get ?nv k = Some ver
        then dict_get (cp_channel_values cp') k else load_blob ?sd (api_saver s3) t ns k ver)"
    note cp' = created_plain [OF create wf_chs]
    have id: "cp_id cp' \<noteq> []" using create env(3) by (auto simp: create_checkpoint_def rbind_Inr_iff)
    define tup where "tup = mem_tuple ?sd (api_saver s2) cfg' t ns (cp_id cp')
      (sd_dumps_checkpoint ?sd (cp'\<lparr>cp_channel_values := []\<rparr>), e, get_checkpoint_id (ba_checkpoint_config b))"
    obtain sv where get: "mem_get_tuple ?sd cfg' (api_saver s2) = Inr (Some tup, sv)"
      using mem_get_tuple_id [OF place(3,5) id, of "api_saver s2" ?sd] entry by (auto simp: place(4) tup_def)
    have tup: "cp_channel_versions (ct_checkpoint tup) = cp_channel_versions cp" "cp_versions_seen (ct_checkpoint tup) = cp_versions_seen cp"
      using env(1) cp' by (simp_all add: tup_def mem_tuple_def Let_def serde_ok_def)
    have vals: "dict_get (cp_channel_values (ct_checkpoint tup)) k =
        Option.bind (dict_get (cp_channel_versions cp) k) (load_blob ?sd (api_saver s2) t ns k)" for k
      using mem_tuple_values [of ?sd "api_saver s2" cfg' t ns "cp_id cp'" _ k] tup(1) new(4) unfolding tup_def by metis
    have base: "dict_get (cp_channel_values (ba_checkpoint b)) k = Option.bind (dict_get ?old k) (load_blob ?sd (api_saver s3) t ns k)" for k
      using base_values [OF load wf(3,1) place(1,2), of k] writes_onlyD(2) [OF w, of ?sd] by simp
    have "ch_from_checkpoint c (dict_get (cp_channel_values (ct_checkpoint tup)) k) = Inr c" if c: "dict_get chs k = Some c" for k c
    proof (cases "dict_get ?nv k")
      case (Some ver)
      then have "dict_get (cp_channel_versions cp) k = Some ver" using get_new_versions_subset cp' new(4) by metis
      then have "dict_get (cp_channel_values (ct_checkpoint tup)) k = ch_checkpoint c"
        using Some c cp' by (simp add: vals blob chan_value_def)
      then show ?thesis using ch_roundtrip [of c] channels_inv_get [OF new(1) c] new(3) c by (simp add: all_persist_def)
    next
      case None
      have same: "dict_get ?old k = Some ver" if "dict_get (cp_channel_versions cp) k = Some ver" for ver
      proof (rule get_new_versions_missing [OF new(4) that])
        show "dict_get (get_new_channel_versions ?old (cp_channel_versions cp)) k = None"
          using None base_versions_eq [OF load] cp' by simp
        show "u = v \<or> dict_get ?old j = Some u" if "dict_get (cp_channel_versions cp) j = Some u" for j u
          using unb [of j] that by auto
      qed (use less in auto)
      have "dict_get chs k = dict_get (ba_channels b) k \<and> dict_get (cp_channel_versions cp) k = dict_get ?old k"
        using unb [of k] same less(2) by (cases "dict_get (cp_channel_versions cp) k") auto
      then show ?thesis using old(3) [of k c] c None by (cases "dict_get ?old k") (simp_all add: vals base blob)
    qed
    then obtain chs' where "channels_from_checkpoint ?specs (ct_checkpoint tup) None = Inr (chs', managed_specs ?specs)"
      "\<forall>k. dict_get chs' k = dict_get chs k"
      using channels_from_values [OF new(1-3), of "ct_checkpoint tup" None] env(2) by (auto simp: plain_specs_def)
    then show ?thesis using run aw get tup by blast
  qed
qed

subsection \<open>Copies\<close>

fun result_config :: "superstep_result \<Rightarrow> config" where
  "result_config (Finished c) = c"
| "result_config (Again c us) = c"

lemma copy_follow_config:
  assumes "copy_follow env b values t cp cfg s = (Inr r, s')"
  shows "s' = s \<and> patch_checkpoint_map cfg (map_option ct_metadata (ba_saved b)) = Inr (result_config r)"
  using assms
  by (cases "values"; cases "case values of VList xs \<Rightarrow> xs | _ \<Rightarrow> []")
    (auto simp: copy_follow_def abind_Inr finish_update_def split: prod.splits)

lemma no_checkpoint_simps [simp]:
  "conf_index (no_checkpoint_config cfg) ''thread_id'' = conf_index cfg ''thread_id''"
  "conf_ns (no_checkpoint_config cfg) = conf_ns cfg"
  "get_checkpoint_id (no_checkpoint_config cfg) = None"
  by (simp_all add: no_checkpoint_config_def conf_ns_def get_checkpoint_id_def)

lemma copy_reads:
  fixes env :: "'b api_env"
  assumes load: "load_base env cfg s = (Inr b, s1)" and copy: "copy_update env b values s1 = (Inr r, s2)"
    and saved: "ba_saved b = Some t0"
    and env: "serde_ok (ae_serde env)" "\<And>n. le_uuid (ae_loop env) n \<noteq> []"
    and wf: "wf_dict (cp_channel_versions (ct_checkpoint t0))"
  shows "\<exists>tup sv. mem_get_tuple (ae_serde env) (result_config r) (api_saver s2) = Inr (Some tup, sv)
    \<and> cp_channel_versions (ct_checkpoint tup) = cp_channel_versions (ct_checkpoint t0)
    \<and> cp_versions_seen (ct_checkpoint tup) = cp_versions_seen (ct_checkpoint t0)
    \<and> (\<forall>k. dict_get (cp_channel_values (ct_checkpoint tup)) k = dict_get (cp_channel_values (ct_checkpoint t0)) k)
    \<and> ct_parent_config tup = ct_parent_config t0"
proof -
  let ?sd = "ae_serde env"
  let ?cfg = "case ct_parent_config t0 of Some c \<Rightarrow> c | None \<Rightarrow> no_checkpoint_config (ct_config t0)"
  have b: "ba_checkpoint b = ct_checkpoint t0" "mem_get_tuple ?sd cfg (api_saver s) = Inr (Some t0, api_saver s1)"
    by (rule load_base_Inr [OF load], simp add: saved)+
  obtain t i e c where tup: "conf_index cfg ''thread_id'' = Inr t" "t0 = mem_tuple ?sd (api_saver s) c t (conf_ns cfg) i e"
    "c = cfg \<and> get_checkpoint_id cfg = Some i \<and> i \<noteq> [] \<or> c = saver_config t (conf_ns cfg) i"
    using b(2) by (rule mem_get_tuple_Some)
  have t0: "ct_config t0 = c" "ct_parent_config t0 = None \<or> (\<exists>p. p \<noteq> [] \<and> ct_parent_config t0 = Some (saver_config t (conf_ns cfg) p))"
    by (cases e; auto simp: tup(2) mem_tuple_def Let_def split: option.splits)+
  have cfg: "conf_index ?cfg ''thread_id'' = Inr t" "conf_ns ?cfg = conf_ns cfg"
    using t0 tup(1,3) by auto
  have parent: "(case get_checkpoint_id ?cfg of Some (c # p) \<Rightarrow> Some (saver_config t (conf_ns cfg) (c # p)) | _ \<Rightarrow> None) = ct_parent_config t0"
    using t0(2) by (auto simp: neq_Nil_conv)
  from copy saved obtain cp c1 sv s3 where
    create: "create_checkpoint (ct_checkpoint t0) None None None None [] (le_uuid (ae_loop env) (api_drawn s1)) (le_now (ae_loop env) (api_drawn s1)) = Inr cp"
    and put: "mem_put ?sd ?cfg cp (update_metadata ''fork'' (ba_step b + 1) b) [] (api_saver s1) = Inr (c1, sv)"
    and follow: "copy_follow env b values t0 cp c1 s3 = (Inr r, s2)" "api_saver s3 = sv"
    by (auto simp: copy_update_def abind_Inr saver_Inr fresh_checkpoint_Inr b(1))
  have cp: "cp_channel_versions cp = cp_channel_versions (ct_checkpoint t0)" "cp_versions_seen cp = cp_versions_seen (ct_checkpoint t0)"
    "cp_channel_values cp = cp_channel_values (ct_checkpoint t0)" "cp_id cp \<noteq> []"
    using create env(2) by (auto simp: create_checkpoint_def)
  have ns: "conf_index ?cfg ''checkpoint_ns'' = Inr (conf_ns cfg)"
    using put cfg conf_ns_index [of ?cfg] by (auto simp: mem_put_def rbind_Inr_iff)
  have same: "load_blob ?sd (api_saver s1) = load_blob ?sd (api_saver s)"
    using mem_get_tuple_same [OF b(2)] by (auto simp: same_data_def fun_eq_iff intro: load_blob_cong)
  have stored: "load_blob ?sd (api_saver s1) t (conf_ns cfg) k ver = dict_get (cp_channel_values cp) k"
    if "dict_get (cp_channel_versions cp) k = Some ver" for k ver
    using mem_tuple_values [of ?sd "api_saver s" c t "conf_ns cfg" i e k] that wf cp unfolding tup(2) [symmetric] by (simp add: same)
  have none: "dict_get (cp_channel_values (ct_checkpoint t0)) k = None" if "dict_get (cp_channel_versions cp) k = None" for k
    using mem_tuple_values [of ?sd "api_saver s" c t "conf_ns cfg" i e k] that wf cp unfolding tup(2) [symmetric] by simp
  show ?thesis
  proof (rule mem_put_Inr [OF env(1) put])
    fix t' ns'
    let ?e = "(sd_dumps_checkpoint ?sd (cp\<lparr>cp_channel_values := []\<rparr>),
         sd_dumps_metadata ?sd (get_checkpoint_metadata ?cfg (update_metadata ''fork'' (ba_step b + 1) b)), get_checkpoint_id ?cfg)"
    assume place: "conf_index ?cfg ''thread_id'' = Inr t'" "conf_index ?cfg ''checkpoint_ns'' = Inr ns'" "c1 = saver_config t' ns' (cp_id cp)"
      and sv: "\<And>u ms. ns_storage sv u ms = (if u = t' \<and> ms = ns' then dict_set (cp_id cp) ?e (ns_storage (api_saver s1) t' ns')
          else ns_storage (api_saver s1) u ms)"
        "\<And>u ms k ver. load_blob ?sd sv u ms k ver = (if u = t' \<and> ms = ns' \<and> dict_get [] k = Some ver
          then dict_get (cp_channel_values cp) k else load_blob ?sd (api_saver s1) u ms k ver)"
    have eq: "t' = t" "ns' = conf_ns cfg" using place(1,2) cfg(1) ns by simp_all
    have s2: "api_saver s2 = sv" "patch_checkpoint_map c1 (map_option ct_metadata (ba_saved b)) = Inr (result_config r)"
      using copy_follow_config [OF follow(1)] follow(2) by auto
    note at = patch_map_place [OF s2(2) [unfolded place(3)]]
    let ?tup = "mem_tuple ?sd sv (result_config r) t (conf_ns cfg) (cp_id cp) ?e"
    obtain sv' where got: "mem_get_tuple ?sd (result_config r) sv = Inr (Some ?tup, sv')"
      using mem_get_tuple_id [OF at(1,3) cp(4), of sv ?sd] by (auto simp: at(2) sv(1) eq)
    have tup': "cp_channel_versions (ct_checkpoint ?tup) = cp_channel_versions cp" "cp_versions_seen (ct_checkpoint ?tup) = cp_versions_seen cp"
      "ct_parent_config ?tup = ct_parent_config t0"
      using env(1) parent by (auto simp: mem_tuple_def Let_def serde_ok_def split: option.splits list.splits)
    have "dict_get (cp_channel_values (ct_checkpoint ?tup)) k = dict_get (cp_channel_values (ct_checkpoint t0)) k" for k
      using mem_tuple_values [of ?sd sv "result_config r" t "conf_ns cfg" "cp_id cp" ?e k] wf stored [of k] none [of k] cp(1,3)
      by (cases "dict_get (cp_channel_versions cp) k") (auto simp: tup'(1) sv(2) eq)
    then show ?thesis using got tup' cp s2(1) by auto
  qed simp
qed

subsection \<open>Actions that keep the stored checkpoints\<close>

text \<open>The ids that are drawn up to the \<open>n\<close>th are different and not in use.\<close>

definition unused :: "'b api_env \<Rightarrow> nat \<Rightarrow> 'b api \<Rightarrow> bool" where
  "unused env n s \<longleftrightarrow> inj_on (le_uuid (ae_loop env)) {api_drawn s..<n} \<and>
     (\<forall>m \<in> {api_drawn s..<n}. \<forall>t ns. dict_get (ns_storage (api_saver s) t ns) (le_uuid (ae_loop env) m) = None)"

definition adds :: "'b api_env \<Rightarrow> 'b api \<Rightarrow> 'b api \<Rightarrow> bool" where
  "adds env s s' \<longleftrightarrow>
     (\<forall>t ns i e. dict_get (ns_storage (api_saver s) t ns) i = Some e \<longrightarrow> dict_get (ns_storage (api_saver s') t ns) i = Some e) \<and>
     (\<forall>t ns i. dict_get (ns_storage (api_saver s) t ns) i = None \<longrightarrow> dict_get (ns_storage (api_saver s') t ns) i \<noteq> None \<longrightarrow>
        i \<in> le_uuid (ae_loop env) ` {api_drawn s..<api_drawn s'})"

definition safe :: "'b api_env \<Rightarrow> ('b, 'a) action \<Rightarrow> bool" where
  "safe env m \<longleftrightarrow> (\<forall>s. api_drawn s \<le> api_drawn (snd (m s)) \<and>
     (unused env (api_drawn (snd (m s))) s \<longrightarrow> adds env s (snd (m s))))"

lemma safeI: "(\<And>s. api_drawn s \<le> api_drawn (snd (m s)) \<and>
     (unused env (api_drawn (snd (m s))) s \<longrightarrow> adds env s (snd (m s)))) \<Longrightarrow> safe env m"
  by (simp add: safe_def)

lemma safe_same: "(\<And>s. ns_storage (api_saver (snd (m s))) = ns_storage (api_saver s) \<and> api_drawn (snd (m s)) \<ge> api_drawn s) \<Longrightarrow> safe env m"
  by (rule safeI) (simp add: adds_def)

lemma unused_adds:
  assumes "unused env n s" "adds env s s1" "api_drawn s \<le> api_drawn s1" "api_drawn s1 \<le> n"
  shows "unused env n s1"
proof -
  let ?u = "le_uuid (ae_loop env)"
  have inj: "inj_on ?u {api_drawn s..<n}" using assms(1) by (simp add: unused_def)
  have "dict_get (ns_storage (api_saver s1) t ns) (?u m) = None" if m: "m \<in> {api_drawn s1..<n}" for m t ns
  proof (rule ccontr)
    assume "dict_get (ns_storage (api_saver s1) t ns) (?u m) \<noteq> None"
    moreover have "dict_get (ns_storage (api_saver s) t ns) (?u m) = None" using assms(1,3) m by (simp add: unused_def)
    ultimately obtain j where "j \<in> {api_drawn s..<api_drawn s1}" "?u m = ?u j" using assms(2) unfolding adds_def by blast
    then show False using inj_onD [OF inj, of m j] m assms(3,4) by auto
  qed
  moreover have "inj_on ?u {api_drawn s1..<n}" using inj assms(3) by (auto intro: inj_on_subset)
  ultimately show ?thesis by (simp add: unused_def)
qed

lemma unused_le: "unused env n s \<Longrightarrow> m \<le> n \<Longrightarrow> unused env m s"
  by (auto simp: unused_def intro: inj_on_subset)

lemma adds_trans:
  assumes "adds env s s1" "adds env s1 s2" "api_drawn s \<le> api_drawn s1" "api_drawn s1 \<le> api_drawn s2"
  shows "adds env s s2"
proof -
  let ?u = "le_uuid (ae_loop env)"
  have sub: "?u ` {api_drawn s..<api_drawn s1} \<subseteq> ?u ` {api_drawn s..<api_drawn s2}"
    "?u ` {api_drawn s1..<api_drawn s2} \<subseteq> ?u ` {api_drawn s..<api_drawn s2}"
    using assms(3,4) by (auto intro!: image_mono)
  have "i \<in> ?u ` {api_drawn s..<api_drawn s2}"
    if "dict_get (ns_storage (api_saver s) t ns) i = None" "dict_get (ns_storage (api_saver s2) t ns) i \<noteq> None" for t ns i
    using assms(1,2) that sub unfolding adds_def by (cases "dict_get (ns_storage (api_saver s1) t ns) i") blast+
  then show ?thesis using assms(1,2) unfolding adds_def by blast
qed

text \<open>Two steps in a row.\<close>

lemma adds_steps:
  assumes "unused env n s" "api_drawn s \<le> api_drawn s1" "api_drawn s1 \<le> api_drawn s2" "api_drawn s2 \<le> n"
    and "unused env (api_drawn s1) s \<Longrightarrow> adds env s s1" "unused env (api_drawn s2) s1 \<Longrightarrow> adds env s1 s2"
  shows "adds env s s2"
proof -
  have 1: "adds env s s1" using assms(5) unused_le [OF assms(1)] assms(3,4) by simp
  have "unused env (api_drawn s2) s1" using unused_le [OF unused_adds [OF assms(1) 1 assms(2)]] assms(3,4) by simp
  then show ?thesis using adds_trans [OF 1 assms(6)] assms(2,3) by blast
qed

lemma safe_bind:
  assumes "safe env m" "\<And>x. safe env (f x)"
  shows "safe env (abind m f)"
proof (rule safeI)
  fix s
  obtain r s1 where m: "m s = (r, s1)" by (cases "m s")
  have 1: "api_drawn s \<le> api_drawn s1" "unused env (api_drawn s1) s \<Longrightarrow> adds env s s1"
    using assms(1) m by (auto simp: safe_def dest: spec [of _ s])
  show "api_drawn s \<le> api_drawn (snd (abind m f s)) \<and>
      (unused env (api_drawn (snd (abind m f s))) s \<longrightarrow> adds env s (snd (abind m f s)))"
  proof (cases r)
    case (Inr x)
    have 2: "api_drawn s1 \<le> api_drawn (snd (f x s1))" "unused env (api_drawn (snd (f x s1))) s1 \<Longrightarrow> adds env s1 (snd (f x s1))"
      using assms(2) [of x] by (simp_all add: safe_def)
    have eq: "abind m f s = f x s1" using m Inr by (simp add: abind_def)
    show ?thesis unfolding eq using adds_steps [OF _ 1(1) 2(1) order_refl 1(2) 2(2)] 1(1) 2(1) by simp
  qed (use 1 m in \<open>simp add: abind_def\<close>)
qed

lemma safe_pure [simp, intro]: "safe env (aret x)" "safe env (alift r)" "safe env (\<lambda>s. (g s, s))"
  by (rule safe_same, simp add: aret_def alift_def)+

lemma safe_get [simp, intro]: "safe env (saver_get env' cfg)"
  by (rule safe_same) (auto simp: saver_get_def same_data_def split: sum.splits dest!: mem_get_tuple_same)

lemma safe_fresh [simp, intro]: "safe env (fresh_checkpoint env' mk)"
  by (rule safe_same) (simp add: fresh_checkpoint_def)

lemma put_writes_drawn [simp]: "api_drawn (snd (saver_put_writes env cfg ws i s)) = api_drawn s"
  by (simp add: saver_put_writes_def split: sum.splits)

lemma put_writes_storage [simp]: "ns_storage (fold (put_write sd e key t p) xs sv) = ns_storage sv"
  by (simp add: ns_storage_def fun_eq_iff)

lemma safe_put_writes [simp, intro]: "safe env (saver_put_writes env' cfg ws i)"
  by (rule safe_same) (auto simp: saver_put_writes_def split: sum.splits elim!: mem_put_writes_Inr)

lemma safe_each: "(\<And>x. safe env (f x)) \<Longrightarrow> safe env (aeach f xs)"
  by (induction xs) (auto intro: safe_bind)

lemma safe_put_task [simp, intro]: "safe env (put_task_writes env' cfg sel x)"
  by (cases x) (simp add: put_task_writes_def Let_def)

text \<open>A new checkpoint gets a new id.\<close>

lemma mem_put_storage:
  assumes "mem_put sd cfg cp md nv sv = Inr (c, sv')"
  shows "\<exists>t ns e. \<forall>t' ns'. ns_storage sv' t' ns' =
    (if t' = t \<and> ns' = ns then dict_set (cp_id cp) e (ns_storage sv t ns) else ns_storage sv t' ns')"
proof -
  from assms obtain t ns where "sv' = set_ns_storage t ns (dict_set (cp_id cp)
      (sd_dumps_checkpoint sd (cp\<lparr>cp_channel_values := []\<rparr>), sd_dumps_metadata sd (get_checkpoint_metadata cfg md), get_checkpoint_id cfg)
        (ns_storage (fold (put_blob sd t ns (cp_channel_values cp)) nv sv) t ns)) (fold (put_blob sd t ns (cp_channel_values cp)) nv sv)"
    by (auto simp: mem_put_def rbind_Inr_iff Let_def)
  then have "ns_storage sv' t' ns' = (if t' = t \<and> ns' = ns then dict_set (cp_id cp) (sd_dumps_checkpoint sd (cp\<lparr>cp_channel_values := []\<rparr>),
        sd_dumps_metadata sd (get_checkpoint_metadata cfg md), get_checkpoint_id cfg) (ns_storage sv t ns) else ns_storage sv t' ns')" for t' ns'
    by (simp add: ns_storage_set)
  then show ?thesis by blast
qed

lemma safe_store:
  fixes mk :: "string \<Rightarrow> string \<Rightarrow> checkpoint res" and env :: "'b api_env"
  assumes id: "\<And>i ts cp. mk i ts = Inr cp \<Longrightarrow> cp_id cp = i" and rest: "\<And>cp c. safe env (g cp c)"
  shows "safe env (abind (fresh_checkpoint env mk) (\<lambda>cp. abind (saver_put env (cfg cp) cp (md cp) (nv cp)) (g cp)))"
proof (rule safeI)
  fix s :: "'b api"
  let ?m = "abind (fresh_checkpoint env mk) (\<lambda>cp. abind (saver_put env (cfg cp) cp (md cp) (nv cp)) (g cp))"
  let ?s1 = "s\<lparr>api_drawn := api_drawn s + 1\<rparr>" and ?r = "mk (le_uuid (ae_loop env) (api_drawn s)) (le_now (ae_loop env) (api_drawn s))"
  show "api_drawn s \<le> api_drawn (snd (?m s)) \<and> (unused env (api_drawn (snd (?m s))) s \<longrightarrow> adds env s (snd (?m s)))"
  proof (cases ?r)
    case (Inl e)
    then show ?thesis by (simp add: abind_def fresh_checkpoint_def adds_def)
  next
    case (Inr cp)
    show ?thesis
    proof (cases "mem_put (ae_serde env) (cfg cp) cp (md cp) (nv cp) (api_saver s)")
      case (Inl e)
      then show ?thesis using Inr by (simp add: abind_def fresh_checkpoint_def saver_put_def adds_def)
    next
      case put: (Inr p)
      obtain c sv where p: "p = (c, sv)" by (cases p)
      obtain t ns e where sv: "\<forall>t' ns'. ns_storage sv t' ns' =
          (if t' = t \<and> ns' = ns then dict_set (cp_id cp) e (ns_storage (api_saver s) t ns) else ns_storage (api_saver s) t' ns')"
        using mem_put_storage [OF put [unfolded p]] by blast
      let ?s2 = "?s1\<lparr>api_saver := sv\<rparr>"
      have cp: "cp_id cp = le_uuid (ae_loop env) (api_drawn s)" using id Inr by blast
      have 1: "adds env s ?s2" if "unused env (api_drawn ?s2) s"
      proof -
        have "dict_get (ns_storage (api_saver s) t' ns') (cp_id cp) = None" for t' ns' using that by (simp add: unused_def cp)
        then show ?thesis using sv cp by (auto simp: adds_def)
      qed
      have 2: "api_drawn ?s2 \<le> api_drawn (snd (g cp c ?s2))" "unused env (api_drawn (snd (g cp c ?s2))) ?s2 \<Longrightarrow> adds env ?s2 (snd (g cp c ?s2))"
        using rest [of cp c] unfolding safe_def by blast+
      have eq: "?m s = g cp c ?s2" using Inr put p by (simp add: abind_def fresh_checkpoint_def saver_put_def)
      have 0: "api_drawn s \<le> api_drawn ?s2" by simp
      show ?thesis unfolding eq using adds_steps [OF _ 0 2(1) order_refl 1 2(2)] order_trans [OF 0 2(1)] by blast
    qed
  qed
qed

lemma create_id: "create_checkpoint cp chs None updated gnv snaps i ts = Inr cp' \<Longrightarrow> cp_id cp' = i"
  by (auto simp: create_checkpoint_def rbind_Inr_iff)

lemma safe_load [simp, intro]: "safe env (load_base env' cfg)"
  unfolding load_base_def by (intro safe_bind safe_pure safe_get safe_fresh; (intro safe_pure | simp split: option.split prod.split)?)

lemma safe_finish [simp, intro]: "safe env (finish_update b cfg)"
  by (simp add: finish_update_def)

lemma safe_clear: "safe env (clear_update env b)"
  unfolding clear_update_def
  by (rule safe_bind) (auto split: prod.split intro!: safe_store dest: create_id)

lemma safe_input: "safe env (input_update env b values)"
  unfolding input_update_def split_def
  by ((rule safe_pure safe_finish safe_put_writes | (rule safe_store, erule create_id) | rule safe_bind
      | (simp only: split: if_split, intro conjI impI))+)

lemma safe_copy_follow: "safe env (copy_follow env' b values t cp cfg)"
  by (cases "values"; cases "case values of VList xs \<Rightarrow> xs | _ \<Rightarrow> []")
    (auto simp: copy_follow_def intro!: safe_bind split: prod.split)

lemma safe_copy: "safe env (copy_update env b values)"
  unfolding copy_update_def by (auto split: option.split intro!: safe_store safe_copy_follow dest: create_id)

lemma safe_node: "safe env (node_update env b us)"
  unfolding node_update_def put_channel_writes_def save_update_def
  by (auto simp: Let_def split: prod.split intro!: safe_bind safe_store safe_each dest: create_id)

lemma safe_superstep: "safe env (superstep_once env cfg us)"
  unfolding superstep_once_def finished_def
  by (rule safe_bind) (auto split: list.split intro!: safe_bind safe_clear safe_input safe_copy safe_node)

lemma safe_perform: "api_drawn s \<le> api_drawn (snd (perform_superstep env cfg us s)) \<and>
    (unused env (api_drawn (snd (perform_superstep env cfg us s))) s \<longrightarrow> adds env s (snd (perform_superstep env cfg us s)))"
proof (induction env cfg us s rule: perform_superstep.induct)
  case (1 env cfg us s)
  obtain r s1 where once: "superstep_once env cfg us s = (r, s1)" by (cases "superstep_once env cfg us s")
  have s1: "api_drawn s \<le> api_drawn s1" "unused env (api_drawn s1) s \<Longrightarrow> adds env s s1"
    using safe_superstep [of env cfg us] once by (auto simp: safe_def dest: spec [of _ s])
  show ?case
  proof (cases "\<exists>c us'. r = Inr (Again c us')")
    case True
    then obtain c us' where r: "r = Inr (Again c us')" by blast
    let ?s2 = "snd (perform_superstep env c us' s1)"
    have 2: "api_drawn s1 \<le> api_drawn ?s2" "unused env (api_drawn ?s2) s1 \<Longrightarrow> adds env s1 ?s2"
      using "1.IH" [OF once [symmetric] r refl] by blast+
    have eq: "perform_superstep env cfg us s = perform_superstep env c us' s1"
      using once r by (subst perform_superstep.simps) simp
    show ?thesis unfolding eq using adds_steps [OF _ s1(1) 2(1) order_refl s1(2) 2(2)] order_trans [OF s1(1) 2(1)] by blast
  next
    case False
    then have "snd (perform_superstep env cfg us s) = s1"
      using once by (subst perform_superstep.simps) (auto split: sum.splits superstep_result.splits)
    then show ?thesis using s1 by simp
  qed
qed

lemma safe_supersteps: "safe env (perform_supersteps env uss cfg)"
proof (induction uss arbitrary: cfg)
  case (Cons us uss)
  have "safe env (perform_superstep env cfg us)" by (rule safeI) (rule safe_perform)
  then show ?case using Cons by (simp add: safe_bind)
qed simp

lemma safe_bulk: "safe env (bulk_update_state env cfg uss)"
  unfolding bulk_update_state_def by (auto intro!: safe_bind safe_supersteps)

end
