(* ===== verification/State_Updates.thy ===== *)
theory State_Updates
  imports State_Api_Props
begin

section \<open>What updates of the state do\<close>

text \<open>
  The claims about the state api, on an example thread, and the evaluations of updates that go
  wrong.
\<close>

subsection \<open>The node that is inferred\<close>

lemma last_of_sort:
  fixes L :: "('v :: linorder \<times> 'k :: linorder) list"
  shows "(case rev (sort L) of [] \<Rightarrow> None | [(_, n)] \<Rightarrow> Some n | (v, n) # (w, _) # _ \<Rightarrow> if v \<noteq> w then Some n else None) = Some k
    \<longleftrightarrow> (\<exists>v xs ys. L = xs @ (v, k) # ys \<and> (\<forall>w \<in> fst ` set (xs @ ys). w < v))"
    (is "?last = _ \<longleftrightarrow> ?R")
proof
  assume last: "?last = Some k"
  obtain v rest where rest: "rev (sort L) = (v, k) # rest" "rest = [] \<or> (\<exists>w m r. rest = (w, m) # r \<and> v \<noteq> w)"
    using last by (auto split: list.splits prod.splits if_splits)
  then have S: "sort L = rev rest @ [(v, k)]" by (simp add: rev_swap)
  then have "sorted (rev rest @ [(v, k)])" by (metis sorted_sort)
  then have le: "\<forall>x \<in> set rest. x \<le> (v, k)" and srt: "sorted (rev rest)" by (auto simp: sorted_append)
  have lt: "w < v" if w: "w \<in> fst ` set rest" for w
  proof -
    obtain u m r where r: "rest = (u, m) # r" "v \<noteq> u" using rest(2) w by auto
    have "u < v" using le r by auto
    moreover have "\<forall>x \<in> set rest. x \<le> (u, m)" using srt r(1) by (auto simp: sorted_append)
    then have "w \<le> u" using w by force
    ultimately show ?thesis by simp
  qed
  have "(v, k) \<in> set L" using S by (metis in_set_conv_decomp set_sort)
  then obtain xs ys where L: "L = xs @ (v, k) # ys" by (auto dest: split_list)
  have "mset (rev rest @ [(v, k)]) = mset L" by (metis S mset_sort)
  then have "mset rest = mset (xs @ ys)" using L by simp
  then have "set (xs @ ys) = set rest" by (metis mset_eq_setD)
  then show ?R using L lt by blast
next
  assume ?R
  then obtain v xs ys where L: "L = xs @ (v, k) # ys" "\<forall>w \<in> fst ` set (xs @ ys). w < v" by blast
  have "sort L = sort (xs @ ys) @ [(v, k)]"
  proof (rule properties_for_sort)
    show "mset (sort (xs @ ys) @ [(v, k)]) = mset L" using L(1) by simp
    have "p \<le> (v, k)" if "p \<in> set (xs @ ys)" for p
      using L(2) that by (cases p) force
    then show "sorted (sort (xs @ ys) @ [(v, k)])" by (simp add: sorted_append)
  qed
  then have "rev (sort L) = (v, k) # rev (sort (xs @ ys))" by simp
  moreover have "w \<noteq> v" if "rev (sort (xs @ ys)) = (w, m) # r" for w m r
  proof -
    have "(w, m) \<in> set (rev (sort (xs @ ys)))" using that by simp
    then have "w \<in> fst ` set (xs @ ys)" by force
    then show ?thesis using L(2) by blast
  qed
  ultimately show "?last = Some k" by (auto split: list.split)
qed

text \<open>
  C22: Without a node, an update of a graph of several nodes that have run goes to the node whose
  newest seen version is newer than all others that any node has seen, and is ambiguous if there is
  none.
\<close>

theorem inferred_node_is_last:
  assumes "length (le_nodes env) \<noteq> 1"
    and "\<exists>(m, seen) \<in> set (cp_versions_seen cp). \<exists>(c, v) \<in> set seen. truthy_version v"
  shows "infer_node env cp = Some n \<longleftrightarrow>
    (\<exists>v xs ys. seen_list env cp = xs @ (v, n) # ys \<and> (\<forall>w \<in> fst ` set (xs @ ys). w < v))"
proof -
  have "infer_node env cp = (case rev (sort (seen_list env cp)) of
          [] \<Rightarrow> None | [(_, n)] \<Rightarrow> Some n | (v, n) # (w, _) # _ \<Rightarrow> if v \<noteq> w then Some n else None)"
    using assms by (simp add: infer_node_def)
  then show ?thesis by (simp only: last_of_sort)
qed

theorem inferred_node_is_last_witness:
  "infer_node ex_loop_env (empty_checkpoint [] []\<lparr>cp_versions_seen := [(''n1'', [(''a'', IVer 2)]), (''n2'', [(''b'', IVer 3)])]\<rparr>) = Some ''n2''"
proof -
  let ?cp = "empty_checkpoint [] []\<lparr>cp_versions_seen := [(''n1'', [(''a'', IVer 2)]), (''n2'', [(''b'', IVer 3)])]\<rparr>"
  have "seen_list ex_loop_env ?cp = [(IVer 2, ''n1'')] @ (IVer 3, ''n2'') # []" by code_simp
  then show ?thesis
    by (intro inferred_node_is_last [THEN iffD2] exI [of _ "IVer 3"] exI [of _ "[(IVer 2, ''n1'')]"] exI [of _ "[]"])
      (auto simp: ex_loop_env_def truthy_version_def)
qed

text \<open>A thread: an input, after which \<open>n1\<close> is due.\<close>

definition ex_sha1 :: "string \<Rightarrow> string" where "ex_sha1 s = replicate 32 (digit_char (length s mod 10))"
definition ex_xxh3 :: "string \<Rightarrow> string" where "ex_xxh3 s = replicate 32 (CHR ''1'')"
definition ex_uuid :: "nat \<Rightarrow> string" where "ex_uuid n = uuid_groups (replicate 31 (CHR ''0'') @ [digit_char n])"
definition ex_now :: "nat \<Rightarrow> string" where "ex_now n = ''t''"
definition ex_writers :: "string \<Rightarrow> writer list" where "ex_writers n = [ChannelWriter [ChannelWriteEntry ''b'' PASSTHROUGH False None]]"

definition ex_history :: "config \<Rightarrow> string list \<Rightarrow> ex_bytes saver \<Rightarrow> (string, history) dict res" where
  "ex_history cfg ks sv = (case mem_delta_channel_history ex_serde cfg ks sv of Some r \<Rightarrow> r | None \<Rightarrow> Inl RuntimeError)"

definition ex_api_loop :: loop_env where
  "ex_api_loop = ex_loop_env\<lparr>le_sha1 := ex_sha1, le_xxh3 := ex_xxh3, le_uuid := ex_uuid, le_now := ex_now\<rparr>"

definition ex_api_env :: "ex_bytes api_env" where
  "ex_api_env = \<lparr>ae_loop = ex_api_loop, ae_serde = ex_serde, ae_history = ex_history, ae_writers = ex_writers,
     ae_stream = Many [''a'', ''b''], ae_subgraphs = []\<rparr>"

definition ex_id1 :: string where "ex_id1 = ''00000000-0000-0000-0000-000000000001''"
definition ex_input_task :: string where "ex_input_task = ''55555555-5555-5555-5555-555555555555''"

definition ex_writes1 :: "(write_key, ex_bytes stored_write) dict" where
  "ex_writes1 = [((ex_input_task, 0), ex_input_task, ''a'', (''msgpack'', BVal (VInt 1)), [])]"

definition ex_thread_with :: "(write_key, ex_bytes stored_write) dict \<Rightarrow> ex_bytes api" where
  "ex_thread_with ws = \<lparr>api_saver =
     \<lparr>sv_storage = [(''1'', [([], [(ex_id1,
        (''msgpack'', BCheckpoint \<lparr>cp_v = 4, cp_id = ex_id1, cp_ts = ''t'', cp_channel_values = [],
           cp_channel_versions = [(''a'', IVer 1)], cp_versions_seen = [(INPUT, [])], cp_updated_channels = None\<rparr>),
        (''msgpack'', BMetadata [(''source'', VStr ''input''), (''step'', VInt (- 1)), (''parents'', VDict [])]), None)])])],
      sv_writes = [((''1'', [], ex_id1), ws)],
      sv_blobs = [((''1'', [], ''a'', IVer 1), ''msgpack'', BVal (VInt 1))]\<rparr>,
     api_drawn = 2\<rparr>"

definition ex_api1 :: "ex_bytes api" where "ex_api1 = ex_thread_with ex_writes1"

definition ex_as_n1 :: "val \<Rightarrow> state_update" where
  "ex_as_n1 v = \<lparr>su_values = v, su_as_node = VStr ''n1'', su_task_id = None\<rparr>"

lemma ex_input: "update_state ex_api_env ex_thread (VInt 1) (VStr INPUT) None \<lparr>api_saver = saver_init, api_drawn = 0\<rparr>
    = (Inr (saver_config ''1'' [] ex_id1), ex_api1)"
  by code_simp

subsection \<open>Updates that go wrong\<close>

text \<open>A superstep with two updates that \<open>b\<close> cannot hold both is rejected, but the first one has been
  stored for the task that is due: the state that is read has its value, and nothing is due any more.\<close>

definition ex_due_task :: string where "ex_due_task = ''11111111-1111-1111-1111-111111111111''"

definition ex_other_task :: string where "ex_other_task = ''99999999-9999-9999-9999-999999999999''"

lemma failed_update_is_stored:
  "(case bulk_update_state ex_api_env ex_thread [[ex_as_n1 (VInt 5), ex_as_n1 (VInt 6)]] ex_api1 of
      (r, s) \<Rightarrow> (case r of Inl e \<Rightarrow> Some e | Inr _ \<Rightarrow> None,
        map (\<lambda>(_, t, c, v, _). (t, c, sd_loads ex_serde v)) (writes_of (api_saver s) (''1'', [], ex_id1))))
   = (Some InvalidUpdateError, [(ex_input_task, ''a'', VInt 1), (ex_due_task, ''b'', VInt 5), (ex_other_task, ''b'', VInt 6)])"
  by code_simp

definition ex_failed :: "ex_bytes api" where
  "ex_failed = ex_thread_with (ex_writes1 @ [((ex_due_task, 0), ex_due_task, ''b'', (''msgpack'', BVal (VInt 5)), []),
     ((ex_other_task, 0), ex_other_task, ''b'', (''msgpack'', BVal (VInt 6)), [])])"

lemma failed_update_is_visible:
  "map_sum id (\<lambda>sn. (sn_values sn, sn_next sn)) (fst (get_state ex_api_env ex_thread ex_api1))
     = Inr (VDict [(''a'', VInt 1)], [''n1''])"
  "map_sum id (\<lambda>sn. (sn_values sn, sn_next sn)) (fst (get_state ex_api_env ex_thread ex_failed))
     = Inr (VDict [(''a'', VInt 1), (''b'', VInt 5)], [])"
  by code_simp+

text \<open>An input to a delta channel is stored as a write of the checkpoint it makes, whose value is rebuilt
  from the writes of its ancestors: the state that is read lacks the input.\<close>

definition ex_delta_env :: "ex_bytes api_env" where
  "ex_delta_env = ex_api_env\<lparr>ae_loop := ex_api_loop\<lparr>le_specs := [(''a'', ChannelSpec (DeltaChannel
       \<lparr>dc_key = ''a'', dc_value = None, dc_reducer = ex_append, dc_typ = Inr (VList []), dc_frequency = 1000\<rparr>)),
       (''b'', ChannelSpec (LastValue \<lparr>lv_key = ''b'', lv_value = None\<rparr>))]\<rparr>,
     ae_stream := One ''a''\<rparr>"

definition ex_read :: "'b api_env \<Rightarrow> config \<Rightarrow> 'b api \<Rightarrow> val option" where
  "ex_read env cfg s = (case fst (get_state env cfg s) of Inr sn \<Rightarrow> Some (sn_values sn) | Inl _ \<Rightarrow> None)"

lemma delta_input_is_lost:
  "ex_read ex_delta_env ex_thread (snd (update_state ex_delta_env ex_thread (VInt 1) (VStr INPUT) None \<lparr>api_saver = saver_init, api_drawn = 0\<rparr>))
     = Some (VList [])"
  by code_simp

text \<open>A checkpoint can be read without its namespace, but not updated: the default for the namespace is
  dropped when there is a checkpoint.\<close>

definition ex_no_ns :: config where
  "ex_no_ns = empty_config\<lparr>cfg_configurable := [(''thread_id'', CStr ''1''), (''checkpoint_id'', CStr ex_id1)]\<rparr>"

lemma update_needs_namespace:
  "ex_read ex_api_env ex_no_ns ex_api1 = Some (VDict [(''a'', VInt 1)])"
  "fst (update_state ex_api_env ex_no_ns (VInt 5) (VStr ''n1'') None ex_api1) = Inl KeyError"
  by code_simp+

text \<open>A node that has seen two channels of the same version competes with itself.\<close>

lemma one_node_is_ambiguous:
  "infer_node ex_loop_env (empty_checkpoint [] []\<lparr>cp_versions_seen := [(''n1'', [(''a'', IVer 2), (''b'', IVer 2)]), (''n2'', [(''c'', IVer 1)])]\<rparr>) = None"
  by code_simp

subsection \<open>Reading back\<close>

text \<open>
  C10: An update as a node is what it says, for a graph all of whose channels checkpoint their value (no
  untracked and no delta channel; every barrier waits for something), a saver whose serializer loads what it
  dumps, and version numbers that are new when drawn: it succeeds only if the writes of the update
  apply to the channels of the checkpoint that it starts from, and the checkpoint it returns reads back
  exactly the channels, the versions and the seen versions that this gives.
\<close>

theorem update_reads_back:
  fixes env :: "'b api_env"
  assumes "load_base env cfg s = (Inr b, s1)" "node_update env b us s1 = (Inr cfg', s2)"
    and "serde_ok (ae_serde env)" "plain_specs (le_specs (ae_loop env))" "\<And>n. le_uuid (ae_loop env) n \<noteq> []"
    and "fresh_draw (ae_loop env) (cp_channel_versions (ba_checkpoint b))"
    and "wf_dict (cp_channel_versions (ba_checkpoint b))" "channels_inv (ba_channels b)" "wf_dict (cfg_configurable cfg)"
  shows "\<exists>rts cp chs u tup sv chs'. run_updates env b us = Inr rts
    \<and> apply_writes (ba_checkpoint b) (ba_channels b) (map snd rts) (Some (ae_next env)) (le_trigger_to_nodes (ae_loop env)) = Inr (cp, chs, u)
    \<and> mem_get_tuple (ae_serde env) cfg' (api_saver s2) = Inr (Some tup, sv)
    \<and> cp_channel_versions (ct_checkpoint tup) = cp_channel_versions cp \<and> cp_versions_seen (ct_checkpoint tup) = cp_versions_seen cp
    \<and> channels_from_checkpoint (le_specs (ae_loop env)) (ct_checkpoint tup) None = Inr (chs', managed_specs (le_specs (ae_loop env)))
    \<and> (\<forall>k. dict_get chs' k = dict_get chs k)"
  by (rule update_reads [OF assms])

text \<open>An update of a fresh thread.\<close>

definition ex_fresh :: "ex_bytes api" where "ex_fresh = \<lparr>api_saver = saver_init, api_drawn = 0\<rparr>"

lemma ex_fresh_facts:
  "case load_base ex_api_env ex_thread ex_fresh of
     (Inl e, _) \<Rightarrow> False
   | (Inr b, s) \<Rightarrow> cp_channel_versions (ba_checkpoint b) = []
       \<and> wf_dict (ba_channels b) \<and> list_all (\<lambda>(k, c). case c of LastValue l \<Rightarrow> True | _ \<Rightarrow> False) (ba_channels b)
       \<and> \<not> isl (fst (node_update ex_api_env b [ex_as_n1 (VInt 5)] s))"
  by code_simp

definition ex_load :: "base res \<times> ex_bytes api" where "ex_load = load_base ex_api_env ex_thread ex_fresh"
definition ex_base :: base where "ex_base = projr (fst ex_load)"

lemma ex_load: "load_base ex_api_env ex_thread ex_fresh = (Inr ex_base, snd ex_load)"
  using ex_fresh_facts by (auto simp: ex_base_def ex_load_def split: prod.splits sum.splits)

lemmas ex_base_facts = ex_fresh_facts [unfolded ex_load, simplified]

definition ex_updated :: "config res \<times> ex_bytes api" where
  "ex_updated = node_update ex_api_env ex_base [ex_as_n1 (VInt 5)] (snd ex_load)"

lemma ex_updated: "node_update ex_api_env ex_base [ex_as_n1 (VInt 5)] (snd ex_load) = (Inr (projr (fst ex_updated)), snd ex_updated)"
  using ex_base_facts by (simp add: ex_updated_def prod_eq_iff)

lemma ex_api_env_ok: "serde_ok (ae_serde ex_api_env)" "plain_specs (le_specs (ae_loop ex_api_env))"
  "le_uuid (ae_loop ex_api_env) n \<noteq> []"
  by (auto simp: ex_api_env_def ex_api_loop_def ex_serde_ok plain_specs_def ex_loop_env_def channel_specs_def
      List.map_filter_simps ch_persists_def ex_uuid_def uuid_groups_def split: if_split_asm)

lemma ex_thread_wf: "wf_dict (cfg_configurable ex_thread)"
  by code_simp

theorem update_reads_back_witness:
  "\<exists>rts cp chs u tup sv chs'. run_updates ex_api_env ex_base [ex_as_n1 (VInt 5)] = Inr rts
    \<and> apply_writes (ba_checkpoint ex_base) (ba_channels ex_base) (map snd rts) (Some (ae_next ex_api_env)) (le_trigger_to_nodes (ae_loop ex_api_env)) = Inr (cp, chs, u)
    \<and> mem_get_tuple (ae_serde ex_api_env) (projr (fst ex_updated)) (api_saver (snd ex_updated)) = Inr (Some tup, sv)
    \<and> cp_channel_versions (ct_checkpoint tup) = cp_channel_versions cp \<and> cp_versions_seen (ct_checkpoint tup) = cp_versions_seen cp
    \<and> channels_from_checkpoint (le_specs (ae_loop ex_api_env)) (ct_checkpoint tup) None = Inr (chs', managed_specs (le_specs (ae_loop ex_api_env)))
    \<and> (\<forall>k. dict_get chs' k = dict_get chs k)"
proof (rule update_reads_back [OF ex_load ex_updated ex_api_env_ok])
  show "fresh_draw (ae_loop ex_api_env) (cp_channel_versions (ba_checkpoint ex_base))"
    by (rule fresh_draw_base) (simp_all add: ex_base_facts ex_api_env_def ex_api_loop_def ex_loop_env_def)
  show "wf_dict (cp_channel_versions (ba_checkpoint ex_base))" by (simp add: ex_base_facts)
  show "channels_inv (ba_channels ex_base)"
    using ex_base_facts by (auto simp: channels_inv_def list_all_iff map_of_eq_Some_iff split: channel.splits)
qed (rule ex_thread_wf)

text \<open>
  C21: A copy is faithful: the new checkpoint reads back the versions, the seen versions and the
  values of all channels of the original, has the parent of the original, and the original's blobs
  serve both.
\<close>

theorem copy_reads_back:
  fixes env :: "'b api_env"
  assumes "load_base env cfg s = (Inr b, s1)" "copy_update env b values s1 = (Inr r, s2)" "ba_saved b = Some t0"
    and "serde_ok (ae_serde env)" "\<And>n. le_uuid (ae_loop env) n \<noteq> []" "wf_dict (cp_channel_versions (ct_checkpoint t0))"
  shows "\<exists>tup sv. mem_get_tuple (ae_serde env) (result_config r) (api_saver s2) = Inr (Some tup, sv)
    \<and> cp_channel_versions (ct_checkpoint tup) = cp_channel_versions (ct_checkpoint t0)
    \<and> cp_versions_seen (ct_checkpoint tup) = cp_versions_seen (ct_checkpoint t0)
    \<and> (\<forall>k. dict_get (cp_channel_values (ct_checkpoint tup)) k = dict_get (cp_channel_values (ct_checkpoint t0)) k)
    \<and> ct_parent_config tup = ct_parent_config t0"
  by (rule copy_reads [OF assms])

definition ex_load1 :: "base res \<times> ex_bytes api" where "ex_load1 = load_base ex_api_env ex_thread ex_api1"
definition ex_base1 :: base where "ex_base1 = projr (fst ex_load1)"

lemma ex_load1_facts:
  "case load_base ex_api_env ex_thread ex_api1 of
     (Inl e, _) \<Rightarrow> False
   | (Inr b, s) \<Rightarrow> ba_saved b \<noteq> None \<and> cp_channel_versions (ct_checkpoint (the (ba_saved b))) = [(''a'', IVer 1)]
       \<and> \<not> isl (fst (copy_update ex_api_env b VNone s))"
  by code_simp

lemma ex_load1: "load_base ex_api_env ex_thread ex_api1 = (Inr ex_base1, snd ex_load1)"
  using ex_load1_facts by (auto simp: ex_base1_def ex_load1_def split: prod.splits sum.splits)

lemmas ex_base1_facts = ex_load1_facts [unfolded ex_load1, simplified]

definition ex_copied :: "superstep_result res \<times> ex_bytes api" where
  "ex_copied = copy_update ex_api_env ex_base1 VNone (snd ex_load1)"

lemma ex_copied: "copy_update ex_api_env ex_base1 VNone (snd ex_load1) = (Inr (projr (fst ex_copied)), snd ex_copied)"
  using ex_base1_facts by (simp add: ex_copied_def prod_eq_iff)

theorem copy_reads_back_witness:
  "\<exists>tup sv. mem_get_tuple (ae_serde ex_api_env) (result_config (projr (fst ex_copied))) (api_saver (snd ex_copied)) = Inr (Some tup, sv)
    \<and> cp_channel_versions (ct_checkpoint tup) = cp_channel_versions (ct_checkpoint (the (ba_saved ex_base1)))
    \<and> cp_versions_seen (ct_checkpoint tup) = cp_versions_seen (ct_checkpoint (the (ba_saved ex_base1)))
    \<and> (\<forall>k. dict_get (cp_channel_values (ct_checkpoint tup)) k = dict_get (cp_channel_values (ct_checkpoint (the (ba_saved ex_base1)))) k)
    \<and> ct_parent_config tup = ct_parent_config (the (ba_saved ex_base1))"
proof (rule copy_reads_back [OF ex_load1 ex_copied _ ex_api_env_ok(1,3)])
  show "ba_saved ex_base1 = Some (the (ba_saved ex_base1))" using ex_base1_facts by auto
  show "wf_dict (cp_channel_versions (ct_checkpoint (the (ba_saved ex_base1))))" using ex_base1_facts by auto
qed

text \<open>
  C11: Supersteps of updates never change or remove a checkpoint that is stored, also when they raise
  half way: its versions, metadata and parent stay, provided the ids that are drawn are new.
\<close>

theorem updates_keep_checkpoints:
  assumes "bulk_update_state env cfg uss s = (r, s')" "unused env (api_drawn s') s"
    and "dict_get (ns_storage (api_saver s) t ns) i = Some e"
  shows "dict_get (ns_storage (api_saver s') t ns) i = Some e"
proof -
  have "adds env s s'" using safe_bulk [of env cfg uss] assms(1,2) by (auto simp: safe_def dest!: spec [of _ s])
  then show ?thesis using assms(3) unfolding adds_def by blast
qed

lemma ex_key: "dict_get (ns_storage (api_saver ex_api1) t ns) i \<noteq> None \<longleftrightarrow> t = ''1'' \<and> ns = [] \<and> i = ex_id1"
  by (auto simp: ex_api1_def ex_thread_with_def ns_storage_def dict_get_or_def split: if_splits)

lemma ex_uuid_less: "n < 10 \<Longrightarrow> m < 10 \<Longrightarrow> ex_uuid n = ex_uuid m \<Longrightarrow> n = m"
proof -
  assume n: "n < 10" "m < 10" "ex_uuid n = ex_uuid m"
  then have "replicate 31 (CHR ''0'') @ [digit_char n] = replicate 31 (CHR ''0'') @ [digit_char m]"
    unfolding ex_uuid_def by (subst (asm) uuid_groups_eq_iff) simp_all
  then have "digit_char n = digit_char m" by simp
  then show "n = m" using of_digit_char [OF n(1)] of_digit_char [OF n(2)] by (metis add_left_cancel)
qed

theorem updates_keep_checkpoints_witness:
  "dict_get (ns_storage (api_saver (snd (bulk_update_state ex_api_env ex_thread [[\<lparr>su_values = VNone, su_as_node = VStr COPY, su_task_id = None\<rparr>]] ex_api1)))
     ''1'' []) ex_id1 = Some (the (dict_get (ns_storage (api_saver ex_api1) ''1'' []) ex_id1))"
proof (rule updates_keep_checkpoints)
  let ?us = "[[\<lparr>su_values = VNone, su_as_node = VStr COPY, su_task_id = None\<rparr>]]"
  let ?u = "bulk_update_state ex_api_env ex_thread ?us ex_api1"
  show "?u = (fst ?u, snd ?u)" by simp
  show "dict_get (ns_storage (api_saver ex_api1) ''1'' []) ex_id1 = Some (the (dict_get (ns_storage (api_saver ex_api1) ''1'' []) ex_id1))"
    using ex_key [of "''1''" "[]" ex_id1] by auto
  have d: "api_drawn (snd ?u) = 3" by code_simp
  have one: "ex_id1 = ex_uuid 1" by code_simp
  have "dict_get (ns_storage (api_saver ex_api1) t ns) (ex_uuid 2) = None" for t ns
    using ex_key [of t ns "ex_uuid 2"] ex_uuid_less [of 2 1] one by auto
  moreover have "{api_drawn ex_api1..<3} = {2}" by (auto simp: ex_api1_def ex_thread_with_def)
  ultimately show "unused ex_api_env (api_drawn (snd ?u)) ex_api1"
    by (simp add: d unused_def) (simp add: ex_api_env_def ex_api_loop_def)
qed

definition reads :: "('b, 'a) action \<Rightarrow> bool" where
  "reads m \<longleftrightarrow> (\<forall>s. same_data (api_saver (snd (m s))) (api_saver s))"

lemma reads_bind: "reads m \<Longrightarrow> (\<And>x. reads (f x)) \<Longrightarrow> reads (abind m f)"
  by (auto simp: reads_def abind_def split: prod.split sum.split) (metis same_data_trans snd_conv)+

lemma reads_pure [simp, intro]: "reads (aret x)" "reads (alift r)" "reads (\<lambda>s. (g s, s))" "reads (fresh_checkpoint env mk)"
  by (simp_all add: reads_def aret_def alift_def fresh_checkpoint_def same_data_def)

lemma reads_get [simp, intro]: "reads (saver_get env cfg)"
  by (auto simp: reads_def saver_get_def same_data_def split: sum.split dest!: mem_get_tuple_same)

lemma reads_load: "reads (load_base env cfg)"
  unfolding load_base_def by (intro reads_bind reads_pure reads_get; (intro reads_pure | simp split: option.split prod.split)?)

lemma unknown_fails:
  assumes "u \<in> set us" "su_as_node u = VStr n" "n \<notin> set (dict_keys (le_nodes (ae_loop env)))"
  shows "\<exists>e. run_updates env b us = Inl e"
proof -
  have u: "given_node (ae_loop env) u = Inl InvalidUpdateError"
    using assms(2,3) by (simp add: given_node_def known_node_def map_of_eq_None_iff)
  have "rmap (given_node (ae_loop env)) us = Inl e \<or> isl (rmap (given_node (ae_loop env)) us)" for e
    using assms(1) u by (induction us) (auto simp: rbind_def split: sum.splits)
  then have "isl (rmap (given_node (ae_loop env)) us)" by (metis isl_def)
  moreover have "us = [u] \<or> (\<nexists>w. us = [w])" using assms(1) by auto
  ultimately have "isl (valid_updates (ae_loop env) cp us)" for cp
    using u assms(2) by (auto simp: valid_updates_def rbind_def split: list.split)
  then obtain e where "valid_updates (ae_loop env) (ba_checkpoint b) us = Inl e" by (metis isl_def)
  then show ?thesis by (cases "reusable_ids (ae_loop env) b") (simp_all add: run_updates_def)
qed

text \<open>
  A superstep with an update for a node that the graph does not have raises, and nothing that the
  saver can read has changed: all updates are checked before the first one is run or stored.
\<close>

theorem unknown_node_rejected:
  assumes "u \<in> set us" "su_as_node u = VStr n" "n \<notin> set (dict_keys (le_nodes (ae_loop env)))"
    and "\<forall>w \<in> set us. su_as_node w \<notin> {VStr END, VStr INPUT, VStr COPY}"
  shows "\<exists>e s'. perform_superstep env cfg us s = (Inl e, s') \<and> same_data (api_saver s') (api_saver s)"
proof -
  obtain r s1 where load: "load_base env cfg s = (r, s1)" by (cases "load_base env cfg s")
  have s1: "same_data (api_saver s1) (api_saver s)" using reads_load [of env cfg] load by (auto simp: reads_def dest: spec [of _ s])
  obtain w rest where us: "us = w # rest" "su_as_node w \<notin> {VStr END, VStr INPUT, VStr COPY}"
    using assms(1,4) by (cases us) auto
  have "\<exists>e. superstep_once env cfg us s = (Inl e, s1)"
  proof (cases r)
    case (Inr b)
    obtain e where "run_updates env b us = Inl e" using unknown_fails [OF assms(1-3)] by blast
    then show ?thesis using load Inr us
      by (simp add: superstep_once_def abind_def finished_def node_update_def alift_def)
  qed (simp add: superstep_once_def abind_def load)
  then show ?thesis using s1 by (subst perform_superstep.simps) auto
qed

theorem unknown_node_rejected_witness:
  "\<exists>e s'. perform_superstep ex_api_env ex_thread [ex_as_n1 (VInt 5), \<lparr>su_values = VInt 6, su_as_node = VStr ''n3'', su_task_id = None\<rparr>] ex_api1
     = (Inl e, s') \<and> same_data (api_saver s') (api_saver ex_api1)"
  by (rule unknown_node_rejected [where n = "''n3''" and u = "\<lparr>su_values = VInt 6, su_as_node = VStr ''n3'', su_task_id = None\<rparr>"])
    (auto simp: ex_as_n1_def ex_api_env_def ex_api_loop_def ex_loop_env_def END_def INPUT_def COPY_def)

end
