(* ===== verification/Run_Defects.thy ===== *)
theory Run_Defects
  imports State_Updates
begin

section \<open>Runs that go wrong (pregel/_loop.py)\<close>

text \<open>
  Evaluations of the loop on small graphs in which it does something else than its comments say. The examples
  are those of the theories \<open>Run\<close> and \<open>State_Updates\<close>.
\<close>

subsection \<open>An empty command\<close>

text \<open>A command without an answer, an update or a destination is meant to raise \<open>EmptyInputError\<close>; but
  \<open>resume_is_map\<close> is only assigned when there is an answer.\<close>

definition ex_empty_command :: command where
  "ex_empty_command = \<lparr>cmd_graph = None, cmd_update = VNone, cmd_resume = VNone, cmd_goto = VList []\<rparr>"

lemma empty_command_unbound:
  "map_sum id (\<lambda>_. ()) (enter ex_api_loop ex_thread None (\<lambda>c ks. Inr []) (CommandInput ex_empty_command VNone))
     = Inl UnboundLocalError"
  by code_simp

subsection \<open>The first input to a delta channel\<close>

text \<open>On a new thread the input to a delta channel is stored as writes of the empty checkpoint that the run
  started from. That checkpoint is never stored, so the next checkpoint has no parent and the writes
  are not found: the live channel holds the input, the state that is read does not.\<close>

definition ex_delta_entered :: loop where
  "ex_delta_entered = projr (enter (ae_loop ex_delta_env) ex_thread None (\<lambda>c ks. Inr []) (ValueInput (VInt 1)))"

lemma first_delta_input_is_lost:
  "map_option ch_get (dict_get (lo_channels ex_delta_entered) ''a'') = Some (Inr (VList [VInt 1]))"
  "(case run_saves ex_serde (lo_saves ex_delta_entered) saver_init of
      Inr sv \<Rightarrow> ex_read ex_delta_env ex_thread \<lparr>api_saver = sv, api_drawn = 3\<rparr> | Inl _ \<Rightarrow> None)
     = Some (VList [])"
  by code_simp+

subsection \<open>A task that failed after it wrote\<close>

text \<open>The writes that a task made before it failed are stored with its error. A resume puts all of them but
  the error into the task again, which is then not due, although it should be executed again.\<close>

definition ex_failed_loop :: loop where
  "ex_failed_loop =
     (let lo = snd (tick ex_api_loop False (projr (enter ex_api_loop ex_thread None (\<lambda>c ks. Inr []) (ValueInput (VInt 1)))))
      in case loop_tasks lo of
           [t] \<Rightarrow> (let ws = [(''b'', VInt 2)]; lo = set_task_writes (et_id t) (\<lambda>old. old @ ws) lo
                   in projr (commit_task ex_api_loop [] [] (t\<lparr>tw_writes := tw_writes t @ ws\<rparr>) (Failed (VStr ''boom'')) lo))
         | _ \<Rightarrow> lo)"

definition ex_resumed :: loop where
  "ex_resumed = snd (tick ex_api_loop False (projr (enter ex_api_loop ex_thread
      (case run_saves ex_serde (lo_saves ex_failed_loop) saver_init of
         Inr sv \<Rightarrow> (case mem_get_tuple ex_serde ex_thread sv of Inr (tup, _) \<Rightarrow> tup | Inl _ \<Rightarrow> None) | Inl _ \<Rightarrow> None)
      (\<lambda>c ks. Inr []) NoInput)))"

lemma failed_task_is_not_due:
  "map tw_name (loop_tasks ex_resumed) = [''n1'']"
  "filter (\<lambda>t. tw_writes t = []) (loop_tasks ex_resumed) = []"
  by code_simp+

subsection \<open>Untracked values that are saved on exit\<close>

text \<open>\<open>put_writes\<close> does not save writes to untracked channels. With the durability \<open>exit\<close> the pending writes
  of a run that fails are saved when it is left, and there they are not filtered.\<close>

definition ex_exit_env :: loop_env where
  "ex_exit_env = ex_api_loop\<lparr>le_durability := DExit, le_input_keys := Many [''a'', ''u''],
     le_specs := le_specs ex_api_loop @ [(''u'', ChannelSpec (UntrackedValue \<lparr>uv_key = ''u'', uv_value = None, uv_guard = True\<rparr>))]\<rparr>"

definition ex_exit_loop :: loop where
  "ex_exit_loop =
     (let lo = snd (tick ex_exit_env False (projr (enter ex_exit_env ex_thread None (\<lambda>c ks. Inr []) (ValueInput (VDict [(''a'', VInt 1)])))))
      in case loop_tasks lo of
           [t] \<Rightarrow> (let ws = [(''u'', VInt 7)]; lo = set_task_writes (et_id t) (\<lambda>old. old @ ws) lo
                   in projr (commit_task ex_exit_env [] [] (t\<lparr>tw_writes := tw_writes t @ ws\<rparr>) (Failed (VStr ''boom'')) lo))
         | _ \<Rightarrow> lo)"

lemma untracked_saved_on_exit:
  "(case exit_saves ex_exit_env OtherError ex_exit_loop of
      Inr lo \<Rightarrow> List.map_filter (\<lambda>s. case s of SaveWrites _ ws _ _ \<Rightarrow> Some ws | SaveCheckpoint _ _ _ _ \<Rightarrow> None) (lo_saves lo)
    | Inl _ \<Rightarrow> []) = [[(''u'', VInt 7), (''__error__'', VStr ''boom'')]]"
  by code_simp

end
