(* ===== verification/Add_Messages.thy ===== *)
theory Add_Messages
  imports Messages
begin

section \<open>\<open>add_messages\<close> (graph/message.py)\<close>

text \<open>
  The reducer of message lists: a message of the right list replaces the message with its identifier, a
  \<open>RemoveMessage\<close> removes it, other messages are appended. The parameters are those of the theory
  \<open>Messages\<close>; \<open>uuid n\<close> is the identifier that the \<open>n\<close>-th call of \<open>uuid4\<close> draws. The code sets the
  identifiers in the message objects themselves, here the messages are values.
\<close>

subsection \<open>The code\<close>

definition REMOVE_ALL_MESSAGES :: string where "REMOVE_ALL_MESSAGES = ''__remove_all__''"

definition as_messages :: "val \<Rightarrow> val list" where
  "as_messages v = (case v of VList xs \<Rightarrow> xs | _ \<Rightarrow> [v])"

text \<open>\<open>if m.id is None: m.id = str(uuid.uuid4())\<close>, for each message.\<close>

fun assign_ids :: "(nat \<Rightarrow> string) \<Rightarrow> nat \<Rightarrow> val list \<Rightarrow> val list" where
  "assign_ids uuid n [] = []"
| "assign_ids uuid n (m # ms) =
     (if msg_id m = None then set_msg_id (uuid n) m # assign_ids uuid (n + 1) ms
      else m # assign_ids uuid n ms)"

definition drawn_ids :: "val list \<Rightarrow> nat" where
  "drawn_ids ms = length (filter (\<lambda>m. msg_id m = None) ms)"

definition removes_all :: "val \<Rightarrow> bool" where
  "removes_all m \<longleftrightarrow> is_remove m \<and> msg_id m = Some REMOVE_ALL_MESSAGES"

text \<open>\<open>right[remove_all_idx + 1:]\<close>, where the index is that of the last such message.\<close>

fun after_remove_all :: "val list \<Rightarrow> val list option" where
  "after_remove_all [] = None"
| "after_remove_all (m # ms) =
     (case after_remove_all ms of Some r \<Rightarrow> Some r | None \<Rightarrow> if removes_all m then Some ms else None)"

text \<open>\<open>merged\<close>, \<open>merged_by_id\<close> and \<open>ids_to_remove\<close>.\<close>

type_synonym merge_state = "val list \<times> (string option, nat) dict \<times> string option list"

definition merge_msg :: "val \<Rightarrow> merge_state \<Rightarrow> merge_state res" where
  "merge_msg m = (\<lambda>(merged, by_id, to_remove).
     case dict_get by_id (msg_id m) of
       Some i \<Rightarrow>
         if is_remove m then Inr (merged, by_id, List.insert (msg_id m) to_remove)
         else Inr (merged[i := m], by_id, removeAll (msg_id m) to_remove)
     | None \<Rightarrow>
         if is_remove m then Inl ValueError
         else Inr (merged @ [m], dict_set (msg_id m) (length merged) by_id, to_remove))"

definition merge_messages :: "val list \<Rightarrow> val list \<Rightarrow> val list res" where
  "merge_messages left right =
     rbind (rfold merge_msg right (left, dict_of (map (\<lambda>(i, m). (msg_id m, i)) (enumerate 0 left)), []))
       (\<lambda>(merged, _, to_remove). Inr (filter (\<lambda>m. msg_id m \<notin> set to_remove) merged))"

definition add_messages ::
  "(val list \<Rightarrow> val list res) \<Rightarrow> (nat \<Rightarrow> string) \<Rightarrow> (val list \<Rightarrow> val list res) \<Rightarrow> string option \<Rightarrow> nat \<Rightarrow> val \<Rightarrow> val \<Rightarrow> val res" where
  "add_messages conv uuid fmt form n left right =
     rbind (conv (as_messages left)) (\<lambda>left.
     rbind (conv (as_messages right)) (\<lambda>right.
       if \<not> (list_all is_msg left \<and> list_all is_msg right) then Inl AttributeError
       else
         let right = assign_ids uuid (n + drawn_ids left) right; left = assign_ids uuid n left
         in case after_remove_all right of
              Some rest \<Rightarrow> Inr (VList rest)
            | None \<Rightarrow> rbind (merge_messages left right) (\<lambda>merged.
                if form = Some ''langchain-openai'' then map_sum id VList (fmt merged)
                else if form = None \<or> form = Some [] then Inr (VList merged)
                else Inl ValueError)))"

text \<open>The decorator: with both lists it merges, with one it raises, with none it returns the reducer,
  which is \<open>None\<close> here.\<close>

definition add_messages_wrapper :: "(val \<Rightarrow> val \<Rightarrow> val res) \<Rightarrow> val \<Rightarrow> val \<Rightarrow> val option res" where
  "add_messages_wrapper func left right =
     (if left \<noteq> VNone \<and> right \<noteq> VNone then map_sum id Some (func left right)
      else if left \<noteq> VNone \<or> right \<noteq> VNone then Inl ValueError
      else Inr None)"

subsection \<open>The newest message of each identifier\<close>

text \<open>What a list of messages amounts to: the identifiers in the order in which they come first, each with
  its last message, without those whose last message removes them.\<close>

definition newest :: "val list \<Rightarrow> string option \<Rightarrow> val" where
  "newest ms i = last (filter (\<lambda>m. msg_id m = i) ms)"

fun first_ids :: "val list \<Rightarrow> string option list" where
  "first_ids [] = []"
| "first_ids (m # ms) = msg_id m # filter (\<lambda>i. i \<noteq> msg_id m) (first_ids ms)"

definition newest_messages :: "val list \<Rightarrow> val list" where
  "newest_messages ms = filter (\<lambda>m. \<not> is_remove m) (map (newest ms) (first_ids ms))"

text \<open>A message of \<open>right\<close> removes what is in neither list before it.\<close>

fun unknown_removal :: "string option set \<Rightarrow> val list \<Rightarrow> bool" where
  "unknown_removal known [] = False"
| "unknown_removal known (m # ms) =
     (is_remove m \<and> msg_id m \<notin> known \<or> unknown_removal (insert (msg_id m) known) ms)"

lemma set_first_ids [simp]: "set (first_ids ms) = msg_id ` set ms"
  by (induction ms) auto

lemma first_ids_snoc:
  "first_ids (ms @ [m]) = (if msg_id m \<in> msg_id ` set ms then first_ids ms else first_ids ms @ [msg_id m])"
  by (induction ms) auto

lemma distinct_first_ids: "distinct (first_ids ms)"
  by (induction ms) auto

lemma newest_snoc: "newest (ms @ [m]) i = (if i = msg_id m then m else newest ms i)"
  by (auto simp: newest_def)

lemma newest_in:
  assumes "i \<in> msg_id ` set ms"
  shows "newest ms i \<in> set ms" "msg_id (newest ms i) = i"
proof -
  have "filter (\<lambda>m. msg_id m = i) ms \<noteq> []" using assms by (auto simp: filter_empty_conv)
  then have "newest ms i \<in> set (filter (\<lambda>m. msg_id m = i) ms)" unfolding newest_def by (rule last_in_set)
  then show "newest ms i \<in> set ms" "msg_id (newest ms i) = i" by auto
qed

subsection \<open>What the loop computes\<close>

definition kept :: "val list \<Rightarrow> val list" where "kept ms = filter (\<lambda>m. \<not> is_remove m) ms"

definition merge_inv :: "val list \<Rightarrow> merge_state \<Rightarrow> bool" where
  "merge_inv ms = (\<lambda>(merged, by_id, to_remove).
     merged = map (newest (kept ms)) (first_ids ms)
     \<and> (\<forall>k i. dict_get by_id k = Some i \<longleftrightarrow> i < length (first_ids ms) \<and> first_ids ms ! i = k)
     \<and> (\<forall>k \<in> msg_id ` set ms. k \<in> set to_remove \<longleftrightarrow> is_remove (newest ms k)) \<and> set to_remove \<subseteq> msg_id ` set ms
     \<and> msg_id ` set (kept ms) = msg_id ` set ms)"

lemma merge_inv_known:
  assumes "merge_inv ms (merged, by_id, to_remove)"
  shows "(\<exists>i. dict_get by_id k = Some i) \<longleftrightarrow> k \<in> msg_id ` set ms"
proof -
  have "k \<in> msg_id ` set ms \<longleftrightarrow> (\<exists>i < length (first_ids ms). first_ids ms ! i = k)"
    unfolding set_first_ids [symmetric] by (rule in_set_conv_nth)
  then show ?thesis using assms by (auto simp: merge_inv_def)
qed

lemma map_newest_update:
  assumes "i < length ks" "ks ! i = msg_id m" "distinct ks"
  shows "(map (newest ms) ks)[i := m] = map (newest (ms @ [m])) ks"
proof (rule nth_equalityI)
  fix j assume "j < length ((map (newest ms) ks)[i := m])"
  then have j: "j < length ks" by simp
  then have "ks ! j = msg_id m \<longleftrightarrow> i = j" using assms nth_eq_iff_index_eq [of ks i j] by auto
  then show "(map (newest ms) ks)[i := m] ! j = map (newest (ms @ [m])) ks ! j"
    using assms j by (auto simp: newest_snoc nth_list_update)
qed simp

lemma merge_msg_inv:
  assumes inv: "merge_inv ms st" and known: "is_remove m \<longrightarrow> msg_id m \<in> msg_id ` set ms"
  shows "\<exists>st'. merge_msg m st = Inr st' \<and> merge_inv (ms @ [m]) st'"
proof -
  obtain merged by_id to_remove where st: "st = (merged, by_id, to_remove)" by (cases st)
  note inv' = inv [unfolded st]
  show ?thesis
  proof (cases "msg_id m \<in> msg_id ` set ms")
    case True
    then obtain i where i: "dict_get by_id (msg_id m) = Some i" using merge_inv_known [OF inv'] by blast
    then have pos: "i < length (first_ids ms)" "first_ids ms ! i = msg_id m"
      using inv' by (auto simp: merge_inv_def)
    have "(map (newest (kept ms)) (first_ids ms))[i := m] = map (newest (kept ms @ [m])) (first_ids ms)"
      by (rule map_newest_update [OF pos distinct_first_ids])
    then have upd: "(map (newest (kept ms)) (first_ids ms))[i := m] = map (newest (kept ms @ [m])) (first_ids ms)" .
    show ?thesis
    proof (cases "is_remove m")
      case rm: True
      have "merge_inv (ms @ [m]) (merged, by_id, List.insert (msg_id m) to_remove)"
        using inv' True rm by (auto simp: merge_inv_def kept_def first_ids_snoc newest_snoc)
      then show ?thesis using i rm by (simp add: st merge_msg_def)
    next
      case keep: False
      have "merge_inv (ms @ [m]) (merged[i := m], by_id, removeAll (msg_id m) to_remove)"
        using inv' True keep upd by (auto simp: merge_inv_def kept_def first_ids_snoc newest_snoc)
      then show ?thesis using i keep by (simp add: st merge_msg_def)
    qed
  next
    case False
    then have "dict_get by_id (msg_id m) = None" "\<not> is_remove m"
      using merge_inv_known [OF inv', of "msg_id m"] known by auto
    moreover have "length merged = length (first_ids ms)" using inv' by (simp add: merge_inv_def)
    moreover have "\<forall>x \<in> set ms. msg_id x \<noteq> msg_id m" using False by (auto simp: image_iff)
    moreover have "first_ids ms ! i \<noteq> msg_id m" if "i < length (first_ids ms)" for i
      using nth_mem [OF that] False by auto
    moreover have "msg_id m \<notin> set to_remove" using inv' False by (auto simp: merge_inv_def)
    ultimately show ?thesis
      using inv' False by (auto simp: st merge_msg_def merge_inv_def kept_def first_ids_snoc newest_snoc nth_append less_Suc_eq)
  qed
qed

lemma merge_fold:
  assumes "merge_inv ms st"
  shows "if unknown_removal (msg_id ` set ms) right then rfold merge_msg right st = Inl ValueError
    else \<exists>st'. rfold merge_msg right st = Inr st' \<and> merge_inv (ms @ right) st'"
  using assms
proof (induction right arbitrary: ms st)
  case Nil
  then show ?case by simp
next
  case (Cons m right)
  show ?case
  proof (cases "is_remove m \<and> msg_id m \<notin> msg_id ` set ms")
    case True
    obtain merged by_id to_remove where st: "st = (merged, by_id, to_remove)" by (cases st)
    have "dict_get by_id (msg_id m) = None"
      using merge_inv_known [OF Cons.prems [unfolded st], of "msg_id m"] True by auto
    then show ?thesis using True by (simp add: st merge_msg_def)
  next
    case False
    then obtain st' where st': "merge_msg m st = Inr st'" "merge_inv (ms @ [m]) st'"
      using merge_msg_inv [OF Cons.prems] by blast
    have "msg_id ` set (ms @ [m]) = insert (msg_id m) (msg_id ` set ms)" by auto
    with Cons.IH [OF st'(2)] st'(1) False show ?thesis by auto
  qed
qed

lemma newest_kept: "\<not> is_remove (newest ms k) \<Longrightarrow> k \<in> msg_id ` set ms \<Longrightarrow> newest (kept ms) k = newest ms k"
proof (induction ms rule: rev_induct)
  case (snoc m ms)
  then show ?case by (auto simp: kept_def newest_snoc split: if_splits)
qed simp

lemma merged_newest:
  assumes "merge_inv ms (merged, by_id, to_remove)"
  shows "filter (\<lambda>m. msg_id m \<notin> set to_remove) merged = newest_messages ms"
proof -
  have "msg_id (newest (kept ms) k) = k" if "k \<in> set (first_ids ms)" for k
    using that assms by (intro newest_in) (auto simp: merge_inv_def)
  then have "filter (\<lambda>k. msg_id (newest (kept ms) k) \<notin> set to_remove) (first_ids ms)
      = filter (\<lambda>k. \<not> is_remove (newest ms k)) (first_ids ms)"
    using assms by (intro filter_cong) (auto simp: merge_inv_def)
  then show ?thesis
    using assms by (auto simp: newest_messages_def merge_inv_def filter_map comp_def newest_kept)
qed

lemma merge_messages_eq:
  assumes "list_all (\<lambda>m. \<not> is_remove m) left" and "distinct (map msg_id left)"
  shows "merge_messages left right =
    (if unknown_removal (msg_id ` set left) right then Inl ValueError else Inr (newest_messages (left @ right)))"
proof -
  have ids: "first_ids left = map msg_id left" using assms(2)
    by (induction left) (auto simp: filter_id_conv image_iff)
  have kept: "kept left = left" using assms(1) by (simp add: kept_def list_all_iff filter_id_conv)
  have new: "newest left (msg_id m) = m" if m: "m \<in> set left" for m
  proof -
    have "inj_on msg_id (set left)" using assms(2) by (simp add: distinct_map)
    then show ?thesis using newest_in [of "msg_id m" left] m by (auto dest: inj_onD)
  qed
  let ?by_id = "dict_of (map (\<lambda>(i, m). (msg_id m, i)) (enumerate 0 left))"
  have "dict_get ?by_id k = Some i \<longleftrightarrow> i < length left \<and> msg_id (left ! i) = k" for k i
  proof -
    have "map fst (map (\<lambda>(i, m). (msg_id m, i)) (enumerate 0 left)) = map msg_id left"
      by (rule nth_equalityI) (auto simp: nth_enumerate_eq)
    then have "distinct (map fst (map (\<lambda>(i, m). (msg_id m, i)) (enumerate 0 left)))" using assms(2) by simp
    then have "map_of (rev (map (\<lambda>(i, m). (msg_id m, i)) (enumerate 0 left))) k = Some i
        \<longleftrightarrow> (k, i) \<in> set (map (\<lambda>(i, m). (msg_id m, i)) (enumerate 0 left))"
      by (subst map_of_eq_Some_iff) (simp_all only: rev_map [symmetric] distinct_rev set_rev)
    moreover have "dict_get ?by_id k = map_of (rev (map (\<lambda>(i, m). (msg_id m, i)) (enumerate 0 left))) k"
      by (simp add: dict_of_def dict_get_update split: option.split)
    ultimately have "dict_get ?by_id k = Some i \<longleftrightarrow> (k, i) \<in> set (map (\<lambda>(i, m). (msg_id m, i)) (enumerate 0 left))"
      by simp
    also have "\<dots> \<longleftrightarrow> i < length left \<and> msg_id (left ! i) = k"
      by (auto simp: in_set_enumerate_eq)
    finally show ?thesis .
  qed
  then have init: "merge_inv left (left, ?by_id, [])"
    using assms(1) new by (auto simp: merge_inv_def ids kept list_all_iff intro!: nth_equalityI)
  show ?thesis
  proof (cases "unknown_removal (msg_id ` set left) right")
    case True
    with merge_fold [OF init, of right] show ?thesis by (simp add: merge_messages_def)
  next
    case False
    then obtain merged by_id to_remove where
      fold: "rfold merge_msg right (left, ?by_id, []) = Inr (merged, by_id, to_remove)" and
      inv: "merge_inv (left @ right) (merged, by_id, to_remove)"
      using merge_fold [OF init, of right] by (metis prod_cases3)
    let ?ms = "left @ right"
    have "filter (\<lambda>m. msg_id m \<notin> set to_remove) merged = newest_messages ?ms"
      by (rule merged_newest [OF inv])
    then show ?thesis using False fold by (simp add: merge_messages_def)
  qed
qed

lemma assign_ids_id: "list_all (\<lambda>m. msg_id m \<noteq> None) ms \<Longrightarrow> assign_ids uuid n ms = ms"
  by (induction ms) auto

lemma after_remove_all_None: "list_all (\<lambda>m. \<not> removes_all m) ms \<Longrightarrow> after_remove_all ms = None"
  by (induction ms) auto

lemma after_remove_all_last:
  "list_all (\<lambda>m. \<not> removes_all m) ys \<Longrightarrow> removes_all m \<Longrightarrow> after_remove_all (xs @ m # ys) = Some ys"
  by (induction xs) (auto simp: after_remove_all_None)

lemma after_remove_all_eq:
  "after_remove_all ms = (if list_ex removes_all ms then Some (rev (takeWhile (\<lambda>m. \<not> removes_all m) (rev ms))) else None)"
proof (cases "list_ex removes_all ms")
  case True
  then obtain xs m ys where ms: "ms = xs @ m # ys" "removes_all m" "\<forall>y \<in> set ys. \<not> removes_all y"
    using split_list_last_prop [of ms removes_all] by (auto simp: list_ex_iff)
  then have "takeWhile (\<lambda>m. \<not> removes_all m) (rev ms) = rev ys" by (simp, subst takeWhile_append2) auto
  with ms after_remove_all_last [of ys m xs] True show ?thesis by (simp add: list_all_iff)
next
  case False
  then show ?thesis by (simp add: after_remove_all_None list_all_iff list_ex_iff)
qed

subsection \<open>The claims\<close>

text \<open>The lists of a call: messages, with identifiers after the assignment; the left one has no duplicates and
  removes nothing.\<close>

definition merge_lists :: "(val list \<Rightarrow> val list res) \<Rightarrow> (nat \<Rightarrow> string) \<Rightarrow> nat \<Rightarrow> val \<Rightarrow> val \<Rightarrow> val list \<Rightarrow> val list \<Rightarrow> bool" where
  "merge_lists conv uuid n left right L R \<longleftrightarrow>
     (\<exists>l r. conv (as_messages left) = Inr l \<and> conv (as_messages right) = Inr r \<and> list_all is_msg l \<and> list_all is_msg r
        \<and> L = assign_ids uuid n l \<and> R = assign_ids uuid (n + drawn_ids l) r)
     \<and> list_all (\<lambda>m. \<not> is_remove m) L \<and> distinct (map msg_id L)"

text \<open>
  C39: What \<open>add_messages\<close> returns for two lists of messages, called without a format, when the left list
  removes nothing and has each identifier once (messages without an identifier get a drawn one first). If a message of the right list removes all messages, the
  result is what comes after the last such message. Otherwise it raises \<open>ValueError\<close> if the right list
  removes a message that is in neither list before it; and otherwise it returns, for the identifiers in the
  order in which the two lists mention them first, the last message with that identifier, unless that one
  removes it.
\<close>

theorem add_messages_newest:
  assumes "merge_lists conv uuid n left right L R"
  shows "add_messages conv uuid fmt None n left right =
    (if list_ex removes_all R then Inr (VList (rev (takeWhile (\<lambda>m. \<not> removes_all m) (rev R))))
     else if unknown_removal (msg_id ` set L) R then Inl ValueError
     else Inr (VList (newest_messages (L @ R))))"
proof -
  from assms obtain l r where "conv (as_messages left) = Inr l" "conv (as_messages right) = Inr r"
    "list_all is_msg l" "list_all is_msg r" "L = assign_ids uuid n l" "R = assign_ids uuid (n + drawn_ids l) r"
    by (auto simp: merge_lists_def)
  then show ?thesis
    using assms by (simp add: add_messages_def after_remove_all_eq merge_messages_eq merge_lists_def)
qed

theorem add_messages_newest_witness:
  "add_messages Inr (\<lambda>n. ''u'') Inr None 0 (VList [VMsg (Some ''1'') False (VStr ''a''), VMsg (Some ''2'') False (VStr ''b'')])
     (VList [VMsg (Some ''2'') True VNone, VMsg None False (VStr ''c''), VMsg (Some ''1'') False (VStr ''d'')])
   = Inr (VList [VMsg (Some ''1'') False (VStr ''d''), VMsg (Some ''u'') False (VStr ''c'')])
   \<and> add_messages Inr (\<lambda>n. ''u'') Inr None 0 (VList [VMsg (Some ''1'') False (VStr ''a'')])
     (VList [VMsg (Some ''2'') False (VStr ''b''), VMsg (Some REMOVE_ALL_MESSAGES) True VNone, VMsg None False (VStr ''c'')])
   = Inr (VList [VMsg (Some ''u'') False (VStr ''c'')])"
proof
  let ?l = "VList [VMsg (Some ''1'') False (VStr ''a''), VMsg (Some ''2'') False (VStr ''b'')]"
  let ?r = "VList [VMsg (Some ''2'') True VNone, VMsg None False (VStr ''c''), VMsg (Some ''1'') False (VStr ''d'')]"
  let ?R = "[VMsg (Some ''2'') True VNone, VMsg (Some ''u'') False (VStr ''c''), VMsg (Some ''1'') False (VStr ''d'')]"
  have lists: "merge_lists Inr (\<lambda>n. ''u'') 0 ?l ?r [VMsg (Some ''1'') False (VStr ''a''), VMsg (Some ''2'') False (VStr ''b'')] ?R"
    by (simp add: merge_lists_def as_messages_def)
  show "add_messages Inr (\<lambda>n. ''u'') Inr None 0 ?l ?r
      = Inr (VList [VMsg (Some ''1'') False (VStr ''d''), VMsg (Some ''u'') False (VStr ''c'')])"
    by (subst add_messages_newest [OF lists]) (simp_all add: removes_all_def REMOVE_ALL_MESSAGES_def newest_messages_def newest_def)
next
  let ?l = "VList [VMsg (Some ''1'') False (VStr ''a'')]"
  let ?r = "VList [VMsg (Some ''2'') False (VStr ''b''), VMsg (Some REMOVE_ALL_MESSAGES) True VNone, VMsg None False (VStr ''c'')]"
  let ?R = "[VMsg (Some ''2'') False (VStr ''b''), VMsg (Some REMOVE_ALL_MESSAGES) True VNone, VMsg (Some ''u'') False (VStr ''c'')]"
  have lists: "merge_lists Inr (\<lambda>n. ''u'') 0 ?l ?r [VMsg (Some ''1'') False (VStr ''a'')] ?R"
    by (simp add: merge_lists_def as_messages_def)
  show "add_messages Inr (\<lambda>n. ''u'') Inr None 0 ?l ?r = Inr (VList [VMsg (Some ''u'') False (VStr ''c'')])"
    by (subst add_messages_newest [OF lists]) (simp add: removes_all_def)
qed

subsection \<open>The batch reducer for delta channels\<close>

text \<open>The right list brings back an identifier that it has removed.\<close>

fun brings_back :: "string option set \<Rightarrow> val list \<Rightarrow> bool" where
  "brings_back removed [] = False"
| "brings_back removed (m # ms) =
     (if is_remove m then brings_back (insert (msg_id m) removed) ms
      else msg_id m \<in> removed \<or> brings_back removed ms)"

lemma newest_messages_snoc:
  assumes m: "msg_id m = Some k" and nb: "is_remove m \<or> Some k \<notin> msg_id ` set ms \<or> \<not> is_remove (newest ms (Some k))"
  shows "apply_msg m (newest_messages ms) = newest_messages (ms @ [m])"
proof -
  have ids: "msg_id (newest ms i) = i" if "i \<in> set (first_ids ms)" for i using newest_in that by auto
  show ?thesis
  proof (cases "is_remove m")
    case True
    have "filter (\<lambda>x. msg_id x \<noteq> Some k) (newest_messages ms)
        = map (newest ms) (filter (\<lambda>i. i \<noteq> Some k \<and> \<not> is_remove (newest ms i)) (first_ids ms))"
      using ids by (auto simp: newest_messages_def filter_map comp_def intro!: arg_cong [where f = "map (newest ms)"] filter_cong)
    also have "\<dots> = map (newest (ms @ [m])) (filter (\<lambda>i. \<not> is_remove (newest (ms @ [m]) i)) (first_ids ms))"
      using True m by (auto simp: newest_snoc intro!: map_cong filter_cong)
    also have "\<dots> = newest_messages (ms @ [m])"
      using True m by (auto simp: newest_messages_def first_ids_snoc filter_map comp_def newest_snoc)
    finally show ?thesis using True m by (simp add: apply_msg_def)
  next
    case keep: False
    have some: "(\<exists>x \<in> set (newest_messages ms). msg_id x = Some k) \<longleftrightarrow> Some k \<in> msg_id ` set ms"
      using keep nb ids m by (force simp: newest_messages_def)
    show ?thesis
    proof (cases "Some k \<in> msg_id ` set ms")
      case True
      have "map (\<lambda>x. if msg_id x = Some k then m else x) (newest_messages ms)
          = map (newest (ms @ [m])) (filter (\<lambda>i. \<not> is_remove (newest ms i)) (first_ids ms))"
        using ids m by (auto simp: newest_messages_def filter_map comp_def newest_snoc)
      also have "\<dots> = newest_messages (ms @ [m])"
        using True keep nb m
        by (auto simp: newest_messages_def first_ids_snoc filter_map comp_def newest_snoc intro!: arg_cong [where f = "map _"] filter_cong)
      finally show ?thesis using True keep m some by (simp add: apply_msg_def)
    next
      case False
      then have old: "i \<noteq> Some k" if "i \<in> set (first_ids ms)" for i using that unfolding set_first_ids by metis
      have unchanged: "map (newest (ms @ [m])) (first_ids ms) = map (newest ms) (first_ids ms)"
        by (rule map_cong [OF refl]) (use old m in \<open>simp add: newest_snoc del: set_first_ids\<close>)
      have "newest_messages (ms @ [m]) = newest_messages ms @ [m]"
        using False keep m by (simp add: newest_messages_def first_ids_snoc unchanged newest_snoc [of ms m "Some k"])
      then show ?thesis using False keep m some by (auto simp: apply_msg_def)
    qed
  qed
qed

lemma fold_newest:
  assumes "list_all (\<lambda>m. msg_id m \<noteq> None) right" and "\<forall>i \<in> msg_id ` set ms. is_remove (newest ms i) \<longrightarrow> i \<in> removed"
    and "\<not> brings_back removed right"
  shows "fold apply_msg right (newest_messages ms) = newest_messages (ms @ right)"
  using assms
proof (induction right arbitrary: ms removed)
  case (Cons m right)
  then obtain k where k: "msg_id m = Some k" by auto
  have step: "apply_msg m (newest_messages ms) = newest_messages (ms @ [m])"
    by (rule newest_messages_snoc [OF k]) (use Cons.prems k in \<open>auto split: if_splits\<close>)
  let ?removed = "if is_remove m then insert (msg_id m) removed else removed"
  have "fold apply_msg right (newest_messages (ms @ [m])) = newest_messages ((ms @ [m]) @ right)"
    by (rule Cons.IH [of "ms @ [m]" ?removed]) (use Cons.prems in \<open>auto simp: newest_snoc split: if_splits\<close>)
  then show ?case by (simp add: step)
qed simp

lemma newest_messages_ok:
  "list_all (\<lambda>m. \<not> is_remove m) (newest_messages ms) \<and> distinct (map msg_id (newest_messages ms))
     \<and> set (newest_messages ms) \<subseteq> set ms"
proof -
  have "map msg_id (newest_messages ms) = filter (\<lambda>i. \<not> is_remove (newest ms i)) (first_ids ms)"
    unfolding newest_messages_def filter_map map_map
    by (rule map_idI [THEN trans]) (use newest_in in \<open>auto simp: comp_def\<close>)
  moreover have "newest ms i \<in> set ms" if "i \<in> set (first_ids ms)" for i using that newest_in(1) by auto
  ultimately show ?thesis by (auto simp: newest_messages_def list_all_iff distinct_first_ids)
qed

text \<open>A list as the reducers keep it, and the updates on which they agree: each is a list of messages with
  identifiers that does not remove all, removes nothing that is in neither list before it, and brings
  back nothing that it has removed itself.\<close>

definition kept_list :: "val list \<Rightarrow> bool" where
  "kept_list ms \<longleftrightarrow> list_all (\<lambda>m. is_msg m \<and> msg_id m \<noteq> None \<and> \<not> is_remove m) ms \<and> distinct (map msg_id ms)"

fun agreed_updates :: "val list \<Rightarrow> val list list \<Rightarrow> bool" where
  "agreed_updates L [] = True"
| "agreed_updates L (R # Rs) =
     (list_all (\<lambda>m. is_msg m \<and> msg_id m \<noteq> None \<and> \<not> removes_all m) R \<and> \<not> unknown_removal (msg_id ` set L) R
      \<and> \<not> brings_back {} R \<and> agreed_updates (newest_messages (L @ R)) Rs)"

lemma kept_list_newest:
  assumes "kept_list L" "list_all (\<lambda>m. is_msg m \<and> msg_id m \<noteq> None \<and> \<not> removes_all m) R"
  shows "kept_list (newest_messages (L @ R))"
  using newest_messages_ok [of "L @ R"] assms by (auto simp: kept_list_def list_all_iff)

lemma kept_list_newest_id: "kept_list L \<Longrightarrow> newest_messages L = L"
  using merge_messages_eq [of L "[]"] by (simp add: merge_messages_def kept_list_def list_all_iff)

lemma kept_distinct_ids: "kept_list L \<Longrightarrow> distinct_ids L"
  unfolding kept_list_def distinct_ids_def
  by (induction L) (force simp: List.map_filter_simps set_ids image_iff split: option.splits)+

lemma one_update:
  assumes "kept_list L" "agreed_updates L [R]"
  shows "fold apply_msg R L = newest_messages (L @ R)"
    and "conv L = Inr L \<Longrightarrow> conv R = Inr R \<Longrightarrow> add_messages conv uuid fmt None n (VList L) (VList R) = Inr (VList (newest_messages (L @ R)))"
proof -
  have rm: "\<not> is_remove (newest L i)" if "i \<in> msg_id ` set L" for i
    using newest_in(1) [OF that] assms(1) by (simp add: kept_list_def list_all_iff)
  have "fold apply_msg R (newest_messages L) = newest_messages (L @ R)"
    by (rule fold_newest [where removed = "{}"]) (use assms(2) rm in \<open>auto simp: list_all_iff\<close>)
  then show "fold apply_msg R L = newest_messages (L @ R)" by (simp add: kept_list_newest_id [OF assms(1)])
  show "add_messages conv uuid fmt None n (VList L) (VList R) = Inr (VList (newest_messages (L @ R)))"
    if "conv L = Inr L" "conv R = Inr R"
    using assms that
    by (simp add: add_messages_def as_messages_def assign_ids_id after_remove_all_None merge_messages_eq kept_list_def list_all_iff)
qed

lemma updates_fold:
  assumes "kept_list L" "agreed_updates L Rs" "\<And>ms. list_all is_msg ms \<Longrightarrow> conv ms = Inr ms"
  shows "rfold (\<lambda>R l. add_messages conv uuid fmt None n l (VList R)) Rs (VList L) = Inr (VList (fold apply_msg (concat Rs) L))"
  using assms(1,2)
proof (induction Rs arbitrary: L)
  case (Cons R Rs)
  have one: "agreed_updates L [R]" using Cons.prems by simp
  have "conv L = Inr L" "conv R = Inr R"
    using assms(3) Cons.prems by (simp_all add: kept_list_def list_all_iff)
  then have "add_messages conv uuid fmt None n (VList L) (VList R) = Inr (VList (newest_messages (L @ R)))"
    by (rule one_update(2) [OF Cons.prems(1) one])
  moreover have "kept_list (newest_messages (L @ R))" using kept_list_newest Cons.prems by simp
  ultimately show ?case using Cons.IH Cons.prems by (simp add: one_update(1) [OF Cons.prems(1) one])
qed simp

lemma flatten_lists: "flatten (map VList Rs) = concat Rs"
  by (induction Rs) auto

lemma agreed_msgs: "agreed_updates L Rs \<Longrightarrow> list_all is_msg (concat Rs)"
  by (induction Rs arbitrary: L) (auto simp: list_all_iff)

text \<open>
  C40: The batch reducer of delta channels, given all the updates of a superstep, returns what applying
  \<open>add_messages\<close> (without a format) to one update after the other returns, for a list of messages
  with distinct identifiers and without removals, and updates that are lists of messages with
  identifiers, none of which removes all messages, removes a message that is neither in the list nor earlier in
  the update, or brings back a message that the same update has removed. (The conversion leaves lists
  of messages as they are.)
\<close>

theorem delta_reducer_is_add_messages:
  assumes "kept_list L" "agreed_updates L Rs" and "\<And>ms. list_all is_msg ms \<Longrightarrow> conv ms = Inr ms"
  shows "messages_delta_reducer conv (VList L) (map VList Rs)
     = rfold (\<lambda>R l. add_messages conv uuid fmt None n l (VList R)) Rs (VList L)"
proof -
  have "messages_delta_reducer conv (VList L) (map VList Rs) = Inr (VList (fold apply_msg (concat Rs) L))"
    using messages_delta_reducer_eq [of conv L "map VList Rs"] assms(1,3) kept_distinct_ids [OF assms(1)] agreed_msgs [OF assms(2)]
    by (simp add: flatten_lists kept_list_def list_all_iff)
  then show ?thesis using updates_fold [OF assms] by simp
qed

theorem delta_reducer_is_add_messages_witness:
  "messages_delta_reducer Inr (VList [VMsg (Some ''1'') False (VStr ''a''), VMsg (Some ''2'') False (VStr ''b'')])
     [VList [VMsg (Some ''3'') False (VStr ''c''), VMsg (Some ''2'') False (VStr ''d''), VMsg (Some ''1'') True VNone],
      VList [VMsg (Some ''1'') False (VStr ''e'')]]
   = Inr (VList [VMsg (Some ''2'') False (VStr ''d''), VMsg (Some ''3'') False (VStr ''c''), VMsg (Some ''1'') False (VStr ''e'')])"
proof -
  let ?L = "[VMsg (Some ''1'') False (VStr ''a''), VMsg (Some ''2'') False (VStr ''b'')]"
  let ?Rs = "[[VMsg (Some ''3'') False (VStr ''c''), VMsg (Some ''2'') False (VStr ''d''), VMsg (Some ''1'') True VNone],
      [VMsg (Some ''1'') False (VStr ''e'')]]"
  have "messages_delta_reducer Inr (VList ?L) (map VList ?Rs)
      = rfold (\<lambda>R l. add_messages Inr (\<lambda>n. ''u'') Inr None 0 l (VList R)) ?Rs (VList ?L)"
    by (rule delta_reducer_is_add_messages)
      (simp_all add: kept_list_def removes_all_def REMOVE_ALL_MESSAGES_def newest_messages_def newest_def)
  also have "\<dots> = Inr (VList [VMsg (Some ''2'') False (VStr ''d''), VMsg (Some ''3'') False (VStr ''c''), VMsg (Some ''1'') False (VStr ''e'')])"
    by code_simp
  finally show ?thesis by simp
qed

text \<open>A message that is removed and written again keeps its place in \<open>add_messages\<close> and goes to the end in the batch
  reducer, a difference that its documentation does not list.\<close>

lemma removed_and_written_again:
  defines "L \<equiv> [VMsg (Some ''1'') False (VStr ''a''), VMsg (Some ''2'') False (VStr ''b'')]"
    and "R \<equiv> [VMsg (Some ''1'') True VNone, VMsg (Some ''1'') False (VStr ''c'')]"
  shows "add_messages Inr (\<lambda>n. ''u'') Inr None 0 (VList L) (VList R) = Inr (VList [VMsg (Some ''1'') False (VStr ''c''), VMsg (Some ''2'') False (VStr ''b'')])"
    and "messages_delta_reducer Inr (VList L) [VList R] = Inr (VList [VMsg (Some ''2'') False (VStr ''b''), VMsg (Some ''1'') False (VStr ''c'')])"
  unfolding assms by code_simp+

end
