(* ===== verification/Migrate.thy ===== *)
theory Migrate
  imports Graph_Compile
begin

section \<open>Checkpoints of older versions (graph/state.py, pregel/main.py)\<close>

text \<open>
  Older versions of the library used other channels to trigger the nodes of a graph: \<open>start:n\<close> for the edges from the start,
  \<open>branch:s:c:n\<close> for the branches, and the channel of a node for its edges. \<open>_migrate_checkpoint\<close> moves their
  versions, the versions that nodes have seen of them, and their values to the channels \<open>branch:to:n\<close>. After the
  migration a node is due exactly when it was before.
\<close>

subsection \<open>The code\<close>

definition move_seen :: "string \<Rightarrow> string \<Rightarrow> versions \<Rightarrow> versions" where
  "move_seen k new_k ss =
     (case dict_get ss k of
        None \<Rightarrow> ss
      | Some s \<Rightarrow> let ss = AList.delete k ss
                  in dict_set new_k (case dict_get ss new_k of Some w \<Rightarrow> max s w | None \<Rightarrow> s) ss)"

definition on_seen :: "string \<Rightarrow> (versions \<Rightarrow> versions) \<Rightarrow> (string, versions) dict \<Rightarrow> (string, versions) dict" where
  "on_seen n f seen = (case dict_get seen n of None \<Rightarrow> seen | Some ss \<Rightarrow> dict_set n (f ss) seen)"

definition move_node_seen :: "string \<Rightarrow> string \<Rightarrow> (string, versions) dict \<Rightarrow> (string, versions) dict" where
  "move_node_seen node k seen =
     on_seen INTERRUPT (move_seen k (branch_to node)) (on_seen node (move_seen k (branch_to node)) seen)"

definition merged_version :: "string \<Rightarrow> version \<Rightarrow> versions \<Rightarrow> version" where
  "merged_version new_k v vers = (case dict_get vers new_k of Some w \<Rightarrow> max w v | None \<Rightarrow> v)"

text \<open>The first two loops: a channel that triggered one node.\<close>

definition move_channel :: "string \<Rightarrow> string \<Rightarrow> checkpoint \<Rightarrow> checkpoint" where
  "move_channel k node cp =
     (case dict_get (cp_channel_versions cp) k of
        None \<Rightarrow> cp
      | Some v \<Rightarrow>
          let new_k = branch_to node; values' = cp_channel_values cp
          in cp\<lparr>cp_channel_versions := dict_set new_k (merged_version new_k v (cp_channel_versions cp))
                  (AList.delete k (cp_channel_versions cp)),
                cp_versions_seen := move_node_seen node k (cp_versions_seen cp),
                cp_channel_values :=
                  (case (dict_get values' new_k, dict_get values' k) of
                     (None, Some x) \<Rightarrow> dict_set new_k x (AList.delete k values')
                   | _ \<Rightarrow> values')\<rparr>)"

definition start_target :: "string \<Rightarrow> string option" where
  "start_target k = (if take 6 k = ''start:'' then Some (split_on (CHR '':'') k ! 1) else None)"

definition branch_target :: "string \<Rightarrow> string option" where
  "branch_target k = (if take 7 k = ''branch:'' \<and> length (filter (\<lambda>c. c = CHR '':'') k) = 3
     then Some (List.last (split_on (CHR '':'') k)) else None)"

definition move_channels :: "string list \<Rightarrow> (string \<Rightarrow> string option) \<Rightarrow> checkpoint \<Rightarrow> checkpoint" where
  "move_channels nodes target cp = fold (\<lambda>k cp. case target k of
        Some node \<Rightarrow> if node \<in> set nodes then move_channel k node cp else cp
      | None \<Rightarrow> cp) (dict_keys (cp_channel_versions cp)) cp"

text \<open>The third loop: the channel of a node, whose version goes to all its successors.\<close>

definition move_to_end :: "string \<Rightarrow> version \<Rightarrow> val option \<Rightarrow> string \<Rightarrow> checkpoint \<Rightarrow> checkpoint" where
  "move_to_end k v c end_key cp =
     (let new_k = branch_to end_key
      in cp\<lparr>cp_channel_versions := dict_set new_k (merged_version new_k v (cp_channel_versions cp)) (cp_channel_versions cp),
            cp_versions_seen := move_node_seen end_key k (cp_versions_seen cp),
            cp_channel_values :=
              (case (dict_get (cp_channel_values cp) new_k, c) of
                 (None, Some x) \<Rightarrow> dict_set new_k x (cp_channel_values cp)
               | _ \<Rightarrow> cp_channel_values cp)\<rparr>)"

definition targets_of :: "(string \<times> string) list \<Rightarrow> string \<Rightarrow> string list" where
  "targets_of edges k = map snd (filter (\<lambda>(s, e). s = k \<and> s \<noteq> START \<and> e \<noteq> END) edges)"

definition move_source :: "(string \<times> string) list \<Rightarrow> string \<Rightarrow> checkpoint \<Rightarrow> checkpoint" where
  "move_source edges k cp =
     (case dict_get (cp_channel_versions cp) k of
        None \<Rightarrow> cp
      | Some v \<Rightarrow>
          let c = dict_get (cp_channel_values cp) k;
              cp = fold (move_to_end k v c) (targets_of edges k)
                (cp\<lparr>cp_channel_versions := AList.delete k (cp_channel_versions cp),
                    cp_channel_values := AList.delete k (cp_channel_values cp)\<rparr>)
          in cp\<lparr>cp_versions_seen := on_seen INTERRUPT (AList.delete k) (cp_versions_seen cp)\<rparr>)"

definition move_sources :: "string list \<Rightarrow> (string \<times> string) list \<Rightarrow> checkpoint \<Rightarrow> checkpoint" where
  "move_sources nodes edges cp =
     fold (\<lambda>k cp. if k \<noteq> START \<and> k \<in> set nodes then move_source edges k cp else cp) (dict_keys (cp_channel_versions cp)) cp"

text \<open>\<open>pending_sends\<close> is a field of checkpoints before version 4; the edges are in the order in which the
  set of the builder yields them.\<close>

definition migrate_pending_sends :: "val list \<Rightarrow> checkpoint \<Rightarrow> checkpoint res" where
  "migrate_pending_sends pending_sends cp =
     (if cp_v cp < 4 \<and> pending_sends \<noteq> []
      then (case max_version (cp_channel_versions cp) of
              None \<Rightarrow> Inl ValueError
            | Some v \<Rightarrow> Inr (cp\<lparr>cp_channel_values := dict_set TASKS (VList pending_sends) (cp_channel_values cp),
                               cp_channel_versions := dict_set TASKS v (cp_channel_versions cp)\<rparr>))
      else Inr cp)"

definition migrate_channels :: "string list \<Rightarrow> (string \<times> string) list \<Rightarrow> checkpoint \<Rightarrow> checkpoint" where
  "migrate_channels nodes edges cp =
     move_sources nodes edges (move_channels nodes branch_target (move_channels nodes start_target cp))"

definition migrate_checkpoint :: "string list \<Rightarrow> (string \<times> string) list \<Rightarrow> val list \<Rightarrow> checkpoint \<Rightarrow> checkpoint res" where
  "migrate_checkpoint nodes edges pending_sends cp =
     rbind (migrate_pending_sends pending_sends cp) (\<lambda>cp.
       Inr (if cp_channel_versions cp = [] \<or> cp_v cp \<ge> 3 then cp else migrate_channels nodes edges cp))"

subsection \<open>Which nodes are due\<close>

text \<open>The version of a channel is newer than what a node has seen of it.\<close>

definition version_unseen :: "checkpoint \<Rightarrow> string \<Rightarrow> string \<Rightarrow> bool" where
  "version_unseen cp n c \<longleftrightarrow>
     (case dict_get (cp_channel_versions cp) c of
        None \<Rightarrow> False
      | Some v \<Rightarrow> (case dict_get (dict_get_or (cp_versions_seen cp) n []) c of None \<Rightarrow> True | Some s \<Rightarrow> s < v))"





definition max_opt :: "version option \<Rightarrow> version option \<Rightarrow> version option" where
  "max_opt a b = (case a of None \<Rightarrow> b | Some x \<Rightarrow> (case b of None \<Rightarrow> a | Some y \<Rightarrow> Some (max x y)))"


subsection \<open>The versions and what a node has seen\<close>










lemma max_opt_simps [simp]: "max_opt a None = a" "max_opt (max_opt a b) b = max_opt a b" "max_opt a b = None \<longleftrightarrow> a = None \<and> b = None"
  by (auto simp: max_opt_def split: option.splits)






subsection \<open>A whole loop\<close>







subsection \<open>The three loops\<close>








lemma start_target_branch_to [simp]: "start_target (branch_to m) = None"
  by (simp add: start_target_def branch_to_def)












text \<open>An old checkpoint: the start triggered \<open>a\<close>, which ran and has edges to \<open>b\<close> and \<open>c\<close>.\<close>

definition ex_old :: checkpoint where
  "ex_old = \<lparr>cp_v = 1, cp_id = ''1f'', cp_ts = [], cp_channel_values = [(''a'', VStr ''a'')],
     cp_channel_versions = [(''start:a'', IVer 2), (''a'', IVer 3)],
     cp_versions_seen = [(''a'', [(''start:a'', IVer 2)])], cp_updated_channels = None\<rparr>"

definition ex_old_nodes :: "string list" where "ex_old_nodes = [''a'', ''b'', ''c'']"
definition ex_old_edges :: "(string \<times> string) list" where "ex_old_edges = [(''a'', ''b''), (''a'', ''c'')]"



text \<open>What the run has been interrupted for moves to the first successor of a node only, so that it is
  interrupted once more: all versions are seen before the migration, and not after it.\<close>

definition ex_interrupted :: checkpoint where
  "ex_interrupted = ex_old\<lparr>cp_versions_seen := [(INTERRUPT, [(''start:a'', IVer 2), (''a'', IVer 3)])]\<rparr>"

lemma migration_interrupts_again:
  "list_all (\<lambda>c. \<not> version_unseen ex_interrupted INTERRUPT c) (dict_keys (cp_channel_versions ex_interrupted))"
  "version_unseen (projr (migrate_checkpoint ex_old_nodes ex_old_edges [] ex_interrupted)) INTERRUPT (branch_to ''c'')"
  by code_simp+

end
