(* ===== verification/Sse.thy ===== *)
theory Sse
  imports Prelude
begin

section \<open>Server-sent events (langgraph_sdk/sse.py)\<close>

text \<open>
  A client reads the events of a run from a stream of bytes that arrives in chunks. \<open>BytesLineDecoder\<close> splits the
  bytes into lines, \<open>SSEDecoder\<close> the lines into events. Bytes are strings here; a text is kept as its UTF-8
  encoding, and decoding checks that it is one. \<open>orjson.loads\<close> is the parameter \<open>loads\<close>.
\<close>

subsection \<open>Lines\<close>

definition LF :: char where "LF = CHR 10"
definition CR :: char where "CR = CHR 13"

lemma LF_CR [simp]: "LF \<noteq> CR" "CR \<noteq> LF" by (simp_all add: LF_def CR_def)

text \<open>\<open>bytes.splitlines\<close>, with the line that has been begun.\<close>

fun split_lines :: "string \<Rightarrow> string \<Rightarrow> string list" where
  "split_lines line [] = (if line = [] then [] else [line])"
| "split_lines line (c # s) =
     (if c = CR \<and> s \<noteq> [] \<and> hd s = LF then line # split_lines [] (tl s)
      else if c = CR \<or> c = LF then line # split_lines [] s
      else split_lines (line @ [c]) s)"

abbreviation splitlines :: "string \<Rightarrow> string list" where
  "splitlines s \<equiv> split_lines [] s"

record line_decoder =
  ld_buffer :: string
  ld_trailing_cr :: bool

definition line_decoder_init :: line_decoder where
  "line_decoder_init = \<lparr>ld_buffer = [], ld_trailing_cr = False\<rparr>"

definition decode_lines :: "string \<Rightarrow> line_decoder \<Rightarrow> string list \<times> line_decoder" where
  "decode_lines text d =
     (let text = (if ld_trailing_cr d then CR # text else text);
          cr = (text \<noteq> [] \<and> List.last text = CR);
          text = (if cr then butlast text else text);
          d = d\<lparr>ld_trailing_cr := cr\<rparr>
      in if text = [] then ([], d)
         else
           let trailing_newline = (List.last text \<in> {LF, CR});
               lines = splitlines text
           in if length lines = 1 \<and> \<not> trailing_newline
              then ([], d\<lparr>ld_buffer := ld_buffer d @ hd lines\<rparr>)
              else
                let (lines, buffer) = (if ld_buffer d \<noteq> [] then ((ld_buffer d @ hd lines) # tl lines, []) else (lines, []))
                in if trailing_newline then (lines, d\<lparr>ld_buffer := buffer\<rparr>)
                   else (butlast lines, d\<lparr>ld_buffer := buffer @ List.last lines\<rparr>))"

definition flush_lines :: "line_decoder \<Rightarrow> string list \<times> line_decoder" where
  "flush_lines d =
     (if ld_buffer d = [] \<and> \<not> ld_trailing_cr d then ([], d)
      else ([ld_buffer d], \<lparr>ld_buffer = [], ld_trailing_cr = False\<rparr>))"

text \<open>The lines of a response that yields these chunks: those before it ends or fails, and the decoder.\<close>

fun feed_lines :: "string list \<Rightarrow> line_decoder \<Rightarrow> string list \<times> line_decoder" where
  "feed_lines [] d = ([], d)"
| "feed_lines (chunk # chunks) d =
     (let (ls, d) = decode_lines chunk d; (ls', d) = feed_lines chunks d in (ls @ ls', d))"

definition iter_lines_raw :: "string list \<Rightarrow> string list" where
  "iter_lines_raw chunks =
     (let (ls, d) = feed_lines chunks line_decoder_init in ls @ fst (flush_lines d))"

text \<open>The complete lines of a text and what remains after them.\<close>

fun chop :: "string \<Rightarrow> string \<Rightarrow> string list \<times> string" where
  "chop line [] = ([], line)"
| "chop line (c # s) =
     (if c = CR \<and> s \<noteq> [] \<and> hd s = LF then (let (ls, r) = chop [] (tl s) in (line # ls, r))
      else if c = CR \<or> c = LF then (let (ls, r) = chop [] s in (line # ls, r))
      else chop (line @ [c]) s)"

lemma split_lines_chop: "split_lines line s = (let (ls, r) = chop line s in ls @ (if r = [] then [] else [r]))"
  by (induction line s rule: chop.induct) (auto split: prod.splits)

lemma chop_append:
  assumes "s \<noteq> [] \<longrightarrow> List.last s = CR \<longrightarrow> t = [] \<or> hd t \<noteq> LF"
  shows "chop line (s @ t) = (let (ls, r) = chop line s; (ls', r') = chop r t in (ls @ ls', r'))"
  using assms
proof (induction line s rule: chop.induct)
  case (2 line c s)
  then show ?case by (cases s) (auto split: prod.splits if_splits)
qed (simp split: prod.splits)

lemma chop_line: "chop (l @ line) s = (case chop line s of ([], r) \<Rightarrow> ([], l @ r) | (x # ls, r) \<Rightarrow> ((l @ x) # ls, r))"
proof (induction line s arbitrary: l rule: chop.induct)
  case (2 line c s)
  consider "c = CR \<and> s \<noteq> [] \<and> hd s = LF" | "\<not> (c = CR \<and> s \<noteq> [] \<and> hd s = LF)" "c = CR \<or> c = LF" | "c \<noteq> CR" "c \<noteq> LF" by blast
  then show ?case
  proof cases
    case 3
    then show ?thesis using 2(3) [of l] by simp
  next
    case 1
    then show ?thesis by (cases "chop [] (tl s)") simp
  next
    case 2
    then show ?thesis by (cases "chop [] s"; cases "chop [] (tl s)") auto
  qed
qed simp

lemma chop_none: "fst (chop line s) = [] \<Longrightarrow> snd (chop line s) = line @ s"
  by (induction line s rule: chop.induct) (auto split: prod.splits if_splits)

lemma chop_remainder: "s \<noteq> [] \<Longrightarrow> snd (chop line s) = [] \<longleftrightarrow> List.last s \<in> {LF, CR}"
proof (induction line s rule: chop.induct)
  case (2 line c s)
  show ?case
  proof (cases "s = []")
    case False
    then show ?thesis using 2 by (cases s) (auto split: prod.splits if_splits)
  qed (auto split: if_splits)
qed simp

text \<open>A chunk continues the text, with the carriage return that was held back.\<close>

definition held :: "line_decoder \<Rightarrow> string" where
  "held d = (if ld_trailing_cr d then [CR] else [])"

lemma decode_lines_chop:
  "\<exists>s. held d @ text = s @ held (snd (decode_lines text d))
     \<and> (fst (decode_lines text d), ld_buffer (snd (decode_lines text d))) = chop (ld_buffer d) s
     \<and> (s \<noteq> [] \<longrightarrow> List.last s = CR \<longrightarrow> ld_trailing_cr (snd (decode_lines text d)))"
proof -
  define t where "t = held d @ text"
  define cr where "cr = (t \<noteq> [] \<and> List.last t = CR)"
  define s where "s = (if cr then butlast t else t)"
  have t: "t = s @ (if cr then [CR] else [])"
    using append_butlast_last_id [of t] by (auto simp: s_def cr_def simp del: append_butlast_last_id)
  have dec: "decode_lines text d =
      (if s = [] then ([], d\<lparr>ld_trailing_cr := cr\<rparr>)
       else if length (splitlines s) = 1 \<and> List.last s \<notin> {LF, CR}
       then ([], d\<lparr>ld_trailing_cr := cr, ld_buffer := ld_buffer d @ hd (splitlines s)\<rparr>)
       else let (lines, buffer) = (if ld_buffer d \<noteq> [] then ((ld_buffer d @ hd (splitlines s)) # tl (splitlines s), []) else (splitlines s, []))
            in if List.last s \<in> {LF, CR} then (lines, d\<lparr>ld_trailing_cr := cr, ld_buffer := buffer\<rparr>)
               else (butlast lines, d\<lparr>ld_trailing_cr := cr, ld_buffer := buffer @ List.last lines\<rparr>))"
    unfolding decode_lines_def Let_def s_def cr_def t_def held_def by (auto split: prod.splits)
  have cr': "ld_trailing_cr (snd (decode_lines text d)) = cr"
    by (simp add: dec split: prod.splits)
  obtain ls r where c: "chop [] s = (ls, r)" by (cases "chop [] s")
  have rem: "r = [] \<longleftrightarrow> List.last s \<in> {LF, CR}" if "s \<noteq> []" using chop_remainder [OF that, of "[]"] c by simp
  have "(fst (decode_lines text d), ld_buffer (snd (decode_lines text d))) = chop (ld_buffer d) s"
    using c rem chop_line [of "ld_buffer d" "[]" s] chop_none [of "[]" s]
    by (auto simp: dec split_lines_chop split: list.splits prod.splits if_splits)
  moreover have "held d @ text = s @ held (snd (decode_lines text d))"
    using t by (simp add: t_def cr' held_def)
  moreover have "s \<noteq> [] \<longrightarrow> List.last s = CR \<longrightarrow> ld_trailing_cr (snd (decode_lines text d))"
    by (auto simp: cr' s_def cr_def split: if_splits)
  ultimately show ?thesis by blast
qed

lemma feed_lines_chop:
  "\<exists>s. held d @ concat chunks = s @ held (snd (feed_lines chunks d))
     \<and> (fst (feed_lines chunks d), ld_buffer (snd (feed_lines chunks d))) = chop (ld_buffer d) s"
proof (induction chunks arbitrary: d)
  case Nil
  then show ?case by (intro exI [of _ "[]"]) simp
next
  case (Cons chunk chunks)
  obtain ls d1 where 1: "decode_lines chunk d = (ls, d1)" by (cases "decode_lines chunk d")
  obtain ls' d2 where 2: "feed_lines chunks d1 = (ls', d2)" by (cases "feed_lines chunks d1")
  from decode_lines_chop [of d chunk] 1
  obtain s where s: "held d @ chunk = s @ held d1" "(ls, ld_buffer d1) = chop (ld_buffer d) s"
    "s \<noteq> [] \<longrightarrow> List.last s = CR \<longrightarrow> ld_trailing_cr d1" by auto
  from Cons.IH [of d1] 2
  obtain s' where s': "held d1 @ concat chunks = s' @ held d2" "(ls', ld_buffer d2) = chop (ld_buffer d1) s'" by auto
  have "s' = [] \<or> hd s' \<noteq> LF" if "s \<noteq> []" "List.last s = CR"
    using s(3) s'(1) that by (cases s') (auto simp: held_def)
  then have "chop (ld_buffer d) (s @ s') = (ls @ ls', ld_buffer d2)"
    using s(2) s'(2) by (subst chop_append) (auto split: prod.splits)
  moreover have "held d @ concat (chunk # chunks) = (s @ s') @ held d2"
    using s(1) s'(1) by (simp add: append_assoc [symmetric] del: append_assoc) (simp add: append_assoc)
  ultimately show ?case using 1 2 by (intro exI [of _ "s @ s'"]) simp
qed

lemma iter_lines_raw_eq: "iter_lines_raw chunks = splitlines (concat chunks)"
proof -
  obtain ls d where f: "feed_lines chunks line_decoder_init = (ls, d)" by (cases "feed_lines chunks line_decoder_init")
  with feed_lines_chop [of line_decoder_init chunks]
  obtain s where s: "concat chunks = s @ held d" "(ls, ld_buffer d) = chop [] s"
    by (auto simp: held_def line_decoder_init_def)
  have "chop [] (s @ held d) = (let (ls, r) = chop [] s; (ls', r') = chop r (held d) in (ls @ ls', r'))"
    by (rule chop_append) (auto simp: held_def)
  then show ?thesis
    using s(2) by (simp add: iter_lines_raw_def f s(1) split_lines_chop flush_lines_def held_def split: prod.splits)
qed

text \<open>
  The lines that are read from a stream are the lines of its bytes, wherever the stream is cut into chunks.
\<close>

theorem lines_of_chunks: "iter_lines_raw chunks = splitlines (concat chunks)"
  by (rule iter_lines_raw_eq)

subsection \<open>Texts and numbers\<close>

text \<open>\<open>bytes.decode()\<close> raises \<open>UnicodeDecodeError\<close>, a \<open>ValueError\<close>, unless the bytes are valid UTF-8. For the first byte of a
  character of several bytes: the range of the second one, and how many follow it.\<close>

definition utf8_head :: "nat \<Rightarrow> (nat \<times> nat \<times> nat) option" where
  "utf8_head b =
     (if 0xC2 \<le> b \<and> b \<le> 0xDF then Some (0x80, 0xBF, 0)
      else if b = 0xE0 then Some (0xA0, 0xBF, 1)
      else if b = 0xED then Some (0x80, 0x9F, 1)
      else if 0xE1 \<le> b \<and> b \<le> 0xEF then Some (0x80, 0xBF, 1)
      else if b = 0xF0 then Some (0x90, 0xBF, 2)
      else if 0xF1 \<le> b \<and> b \<le> 0xF3 then Some (0x80, 0xBF, 2)
      else if b = 0xF4 then Some (0x80, 0x8F, 2)
      else None)"

fun utf8_ok :: "nat list \<Rightarrow> bool" where
  "utf8_ok [] = True"
| "utf8_ok (b # bs) =
     (if b < 0x80 then utf8_ok bs
      else case utf8_head b of
        None \<Rightarrow> False
      | Some (lo, hi, n) \<Rightarrow> n < length bs \<and> lo \<le> bs ! 0 \<and> bs ! 0 \<le> hi
          \<and> list_all (\<lambda>x. 0x80 \<le> x \<and> x \<le> 0xBF) (take n (tl bs)) \<and> utf8_ok (drop (n + 1) bs))"

definition decode_text :: "string \<Rightarrow> string res" where
  "decode_text s = (if utf8_ok (map of_char s) then Inr s else Inl ValueError)"

text \<open>\<open>int\<close> of bytes: white space around an optional sign and digits, which single underscores may separate;
  a \<open>ValueError\<close> is \<open>None\<close> here.\<close>

definition is_space :: "char \<Rightarrow> bool" where
  "is_space c \<longleftrightarrow> c \<in> set '' '' \<or> (9 \<le> (of_char c :: nat) \<and> (of_char c :: nat) \<le> 13)"

definition is_digit :: "char \<Rightarrow> bool" where
  "is_digit c \<longleftrightarrow> 48 \<le> (of_char c :: nat) \<and> (of_char c :: nat) \<le> 57"

fun digits_ok :: "string \<Rightarrow> bool" where
  "digits_ok [] = False"
| "digits_ok [c] = is_digit c"
| "digits_ok (c # d # s) = (is_digit c \<and> (if d = CHR ''_'' then digits_ok s else digits_ok (d # s)))"

definition digits_value :: "string \<Rightarrow> int" where
  "digits_value s = fold (\<lambda>c n. 10 * n + (of_char c - 48)) (filter is_digit s) 0"

definition py_int :: "string \<Rightarrow> int option" where
  "py_int s =
     (let s = rev (dropWhile is_space (rev (dropWhile is_space s)));
          neg = (s \<noteq> [] \<and> hd s = CHR ''-'');
          s = (if s \<noteq> [] \<and> hd s \<in> {CHR ''+'', CHR ''-''} then tl s else s)
      in if digits_ok s \<and> length (filter is_digit s) \<le> 4300
         then Some (if neg then - digits_value s else digits_value s) else None)"

subsection \<open>Events\<close>

record stream_part =
  part_event :: string
  part_data :: val
  part_id :: "string option"

record sse_decoder =
  sse_event :: string
  sse_data :: string
  sse_last_event_id :: string
  sse_retry :: "int option"

definition sse_decoder_init :: sse_decoder where
  "sse_decoder_init = \<lparr>sse_event = [], sse_data = [], sse_last_event_id = [], sse_retry = None\<rparr>"

definition last_event_id :: "sse_decoder \<Rightarrow> string option" where
  "last_event_id d = (if sse_last_event_id d = [] then None else Some (sse_last_event_id d))"

definition dispatch_event :: "(string \<Rightarrow> val res) \<Rightarrow> sse_decoder \<Rightarrow> (stream_part option \<times> sse_decoder) res" where
  "dispatch_event loads d =
     (if sse_event d = [] \<and> sse_data d = [] \<and> sse_last_event_id d = [] \<and> sse_retry d = None then Inr (None, d)
      else rbind (if sse_data d = [] then Inr VNone else loads (sse_data d)) (\<lambda>x.
        Inr (Some \<lparr>part_event = sse_event d, part_data = x, part_id = last_event_id d\<rparr>,
             d\<lparr>sse_event := [], sse_data := [], sse_retry := None\<rparr>)))"

definition set_field :: "string \<Rightarrow> string \<Rightarrow> sse_decoder \<Rightarrow> sse_decoder res" where
  "set_field name x d =
     (if name = ''event'' then rbind (decode_text x) (\<lambda>t. Inr (d\<lparr>sse_event := t\<rparr>))
      else if name = ''data'' then Inr (d\<lparr>sse_data := sse_data d @ x\<rparr>)
      else if name = ''id'' then
        (if CHR 0x00 \<in> set x then Inr d else rbind (decode_text x) (\<lambda>t. Inr (d\<lparr>sse_last_event_id := t\<rparr>)))
      else if name = ''retry'' then Inr (case py_int x of Some n \<Rightarrow> d\<lparr>sse_retry := Some n\<rparr> | None \<Rightarrow> d)
      else Inr d)"

definition decode_event :: "(string \<Rightarrow> val res) \<Rightarrow> string \<Rightarrow> sse_decoder \<Rightarrow> (stream_part option \<times> sse_decoder) res" where
  "decode_event loads line d =
     (if line = [] then dispatch_event loads d
      else if hd line = CHR '':'' then Inr (None, d)
      else
        let name = takeWhile (\<lambda>c. c \<noteq> CHR '':'') line;
            x = drop (Suc (length name)) line;
            x = (if x \<noteq> [] \<and> hd x = CHR '' '' then tl x else x)
        in rbind (set_field name x d) (\<lambda>d. Inr (None, d)))"

end
