(* ===== verification/Http_Stream.thy ===== *)
theory Http_Stream
  imports Sse Ids "HOL-Library.Sublist"
begin

section \<open>The event stream of a run (langgraph_sdk/_sync/http.py)\<close>

text \<open>
  \<open>SyncHttpClient.stream\<close> requests a stream of events and yields them. When the connection fails and the server has named
  a location to continue at, the client reconnects there, up to five times, and tells the server the last event
  it got. The HTTP library is the parameter \<open>hs_send\<close>, which maps the number of a request and the request to a response; its body
  arrives in chunks and may fail after them. \<open>hs_loads\<close> is \<open>orjson.loads\<close>, \<open>hs_urlparse\<close> the
  parts of a URL. The names of response headers are in lower case, as the library compares them. The asynchronous client does the same in coroutines.
\<close>

subsection \<open>Errors of a response (errors.py)\<close>

datatype status_error = BadRequestError | AuthenticationError | PermissionDeniedError | NotFoundError | ConflictError
  | UnprocessableEntityError | RateLimitError | InternalServerError | APIStatusError

definition map_status_error :: "int \<Rightarrow> status_error" where
  "map_status_error status =
     (if status = 400 then BadRequestError
      else if status = 401 then AuthenticationError
      else if status = 403 then PermissionDeniedError
      else if status = 404 then NotFoundError
      else if status = 409 then ConflictError
      else if status = 422 then UnprocessableEntityError
      else if status = 429 then RateLimitError
      else if status \<ge> 500 then InternalServerError
      else APIStatusError)"

text \<open>\<open>HTTPError\<close> stands for what the HTTP library raises, \<open>DecodeError\<close> for an event that cannot be decoded.\<close>

datatype http_error = HTTPError | TransportError | StatusError status_error | CrossOrigin | DecodeError err

type_synonym 'a http = "http_error + 'a"

definition raise_for_status :: "int \<Rightarrow> unit http" where
  "raise_for_status status = (if status < 400 then Inr () else Inl (StatusError (map_status_error status)))"

subsection \<open>Requests\<close>

record request =
  rq_method :: string
  rq_path :: string
  rq_headers :: "(string, string) dict"
  rq_content :: "string option"
  rq_params :: val

record response =
  rs_status :: int
  rs_headers :: "(string, string) dict"
  rs_chunks :: "string list"
  rs_fails :: bool

record parsed_url =
  url_scheme :: string
  url_netloc :: string
  url_host :: string
  url_port :: "nat option"

record http_stream =
  hs_method :: string
  hs_path :: string
  hs_content :: "string option"
  hs_params :: val
  hs_headers :: "(string, string) dict"
  hs_base :: parsed_url
  hs_urlparse :: "string \<Rightarrow> parsed_url"
  hs_loads :: "string \<Rightarrow> val res"
  hs_send :: "nat \<Rightarrow> request \<Rightarrow> response http"

definition default_port :: "string \<Rightarrow> nat" where
  "default_port scheme = (if scheme = ''https'' then 443 else 80)"

text \<open>\<open>port or _default_port(scheme)\<close>: a port of 0 counts as none.\<close>

definition url_origin :: "parsed_url \<Rightarrow> string \<times> string \<times> nat" where
  "url_origin u = (url_scheme u, url_host u,
     case url_port u of Some p \<Rightarrow> if p = 0 then default_port (url_scheme u) else p | None \<Rightarrow> default_port (url_scheme u))"

definition validate_reconnect_location :: "http_stream \<Rightarrow> string \<Rightarrow> string http" where
  "validate_reconnect_location env location =
     (let u = hs_urlparse env location
      in if url_scheme u = [] \<and> url_netloc u = [] then Inr location
         else if url_origin (hs_base env) \<noteq> url_origin u then Inl CrossOrigin
         else Inr location)"

definition encode_headers :: "string option \<Rightarrow> (string, string) dict" where
  "encode_headers content =
     (case content of
        Some body \<Rightarrow> [(''Content-Length'', int_str (int (length body))), (''Content-Type'', ''application/json'')]
      | None \<Rightarrow> [])"

definition request_headers :: "http_stream \<Rightarrow> (string, string) dict" where
  "request_headers env = dict_update
     (dict_set ''Cache-Control'' ''no-store'' (dict_set ''Accept'' ''text/event-stream'' (encode_headers (hs_content env))))
     (hs_headers env)"

definition lower_char :: "char \<Rightarrow> char" where
  "lower_char c = (let n = of_char c :: nat in if 65 \<le> n \<and> n \<le> 90 then char_of (n + 32) else c)"

definition content_header :: "string \<Rightarrow> bool" where
  "content_header k \<longleftrightarrow> map lower_char k \<in> {''content-length'', ''content-type''}"

definition reconnect_headers :: "http_stream \<Rightarrow> (string, string) dict" where
  "reconnect_headers env = filter (\<lambda>(k, _). \<not> content_header k) (request_headers env)"

definition stream_request :: "http_stream \<Rightarrow> string option \<Rightarrow> string option \<Rightarrow> request" where
  "stream_request env reconnect_path last_id =
     (let headers = (case reconnect_path of None \<Rightarrow> request_headers env | Some _ \<Rightarrow> reconnect_headers env);
          headers = (case last_id of Some i \<Rightarrow> dict_set ''Last-Event-ID'' i headers | None \<Rightarrow> headers)
      in case reconnect_path of
           None \<Rightarrow> \<lparr>rq_method = hs_method env, rq_path = hs_path env, rq_headers = headers, rq_content = hs_content env, rq_params = hs_params env\<rparr>
         | Some p \<Rightarrow> \<lparr>rq_method = ''GET'', rq_path = p, rq_headers = headers, rq_content = None, rq_params = VNone\<rparr>)"

subsection \<open>Reading a response\<close>

fun contains :: "string \<Rightarrow> string \<Rightarrow> bool" where
  "contains p s = (take (length p) s = p \<or> (case s of [] \<Rightarrow> False | _ # s \<Rightarrow> contains p s))"

definition is_event_stream :: "response \<Rightarrow> bool" where
  "is_event_stream rs \<longleftrightarrow> contains ''text/event-stream''
     (takeWhile (\<lambda>c. c \<noteq> CHR '';'') (dict_get_or (rs_headers rs) ''content-type'' []))"

definition yielded :: "stream_part \<Rightarrow> bool" where
  "yielded p \<longleftrightarrow> part_event p \<noteq> [] \<or> part_data p \<noteq> VNone"

definition next_last_id :: "sse_decoder \<Rightarrow> string option \<Rightarrow> string option" where
  "next_last_id d last_id = (if last_event_id d \<noteq> None then last_event_id d else last_id)"

text \<open>The events of some lines, the decoder after them, and the last identifier.\<close>

fun read_events :: "(string \<Rightarrow> val res) \<Rightarrow> string list \<Rightarrow> sse_decoder \<Rightarrow> string option \<Rightarrow>
    stream_part list \<times> (sse_decoder \<times> string option) http" where
  "read_events loads [] d last_id = ([], Inr (d, last_id))"
| "read_events loads (line # ls) d last_id =
     (case decode_event loads (rev (dropWhile (\<lambda>c. c = LF) (rev line))) d of
        Inl e \<Rightarrow> ([], Inl (DecodeError e))
      | Inr (None, d) \<Rightarrow> read_events loads ls d last_id
      | Inr (Some p, d) \<Rightarrow>
          let (ps, r) = read_events loads ls d (next_last_id d last_id)
          in ((if yielded p then [p] else []) @ ps, r))"

text \<open>The end of a response flushes the event that is not complete.\<close>

definition read_end :: "(string \<Rightarrow> val res) \<Rightarrow> sse_decoder \<Rightarrow> string option \<Rightarrow> stream_part list \<times> string option http" where
  "read_end loads d last_id =
     (case decode_event loads [] d of
        Inl e \<Rightarrow> ([], Inl (DecodeError e))
      | Inr (None, d) \<Rightarrow> ([], Inr last_id)
      | Inr (Some p, d) \<Rightarrow> (if yielded p then [p] else [], Inr (next_last_id d last_id)))"

text \<open>A response that was accepted: its events, and whether it failed with the last identifier.\<close>

definition read_body :: "(string \<Rightarrow> val res) \<Rightarrow> response \<Rightarrow> string option \<Rightarrow> stream_part list \<times> (bool \<times> string option) http" where
  "read_body loads rs last_id =
     (let ls = (if rs_fails rs then fst (feed_lines (rs_chunks rs) line_decoder_init) else iter_lines_raw (rs_chunks rs))
      in case read_events loads ls sse_decoder_init last_id of
           (ps, Inl e) \<Rightarrow> (ps, Inl e)
         | (ps, Inr (d, last_id)) \<Rightarrow>
             if rs_fails rs then (ps, Inr (True, last_id))
             else (case read_end loads d last_id of (qs, r) \<Rightarrow>
                    (ps @ qs, case r of Inl e \<Rightarrow> Inl e | Inr last_id \<Rightarrow> Inr (False, last_id))))"

text \<open>The checks before the body is read, with the location to reconnect to.\<close>

definition accept_response :: "http_stream \<Rightarrow> string option \<Rightarrow> response \<Rightarrow> string option http" where
  "accept_response env reconnect_path rs =
     (case raise_for_status (rs_status rs) of
        Inl e \<Rightarrow> Inl e
      | Inr _ \<Rightarrow>
          if \<not> is_event_stream rs then Inl TransportError
          else (case dict_get_or (rs_headers rs) ''location'' [] of
                  [] \<Rightarrow> Inr reconnect_path
                | loc \<Rightarrow> map_sum id Some (validate_reconnect_location env loc)))"

text \<open>\<open>left\<close> is \<open>max_reconnect_attempts - reconnect_attempts\<close>, \<open>i\<close> the number of the request. The result has the events that
  are yielded, how the stream ends, and the requests.\<close>

fun stream_loop :: "http_stream \<Rightarrow> nat \<Rightarrow> nat \<Rightarrow> string option \<Rightarrow> string option \<Rightarrow> stream_part list \<times> unit http \<times> request list" where
  "stream_loop env left i reconnect_path last_id =
     (let rq = stream_request env reconnect_path last_id
      in case hs_send env i rq of
           Inl e \<Rightarrow> ([], Inl e, [rq])
         | Inr rs \<Rightarrow>
             (case accept_response env reconnect_path rs of
                Inl e \<Rightarrow> ([], Inl e, [rq])
              | Inr reconnect_path \<Rightarrow>
                  (case read_body (hs_loads env) rs last_id of
                     (ps, Inl e) \<Rightarrow> (ps, Inl e, [rq])
                   | (ps, Inr (fails, last_id)) \<Rightarrow>
                       if \<not> fails then (ps, Inr (), [rq])
                       else if reconnect_path = None then (ps, Inl HTTPError, [rq])
                       else (case left of
                               0 \<Rightarrow> (ps, Inl TransportError, [rq])
                             | Suc left \<Rightarrow>
                                 (case stream_loop env left (Suc i) reconnect_path last_id of
                                    (qs, r, rqs) \<Rightarrow> (ps @ qs, r, rq # rqs))))))"

declare stream_loop.simps [simp del]

definition http_stream_run :: "http_stream \<Rightarrow> stream_part list \<times> unit http \<times> request list" where
  "http_stream_run env = stream_loop env 5 0 None None"

subsection \<open>The requests\<close>

definition reconnect_request :: "http_stream \<Rightarrow> request \<Rightarrow> bool" where
  "reconnect_request env rq \<longleftrightarrow> rq_method rq = ''GET'' \<and> rq_content rq = None \<and> rq_params rq = VNone
     \<and> validate_reconnect_location env (rq_path rq) = Inr (rq_path rq)
     \<and> list_all (\<lambda>(k, _). \<not> content_header k) (rq_headers rq)"

lemma validate_same: "validate_reconnect_location env l = Inr l' \<Longrightarrow> l' = l"
  by (auto simp: validate_reconnect_location_def Let_def split: if_splits)

lemma map_sum_Some [simp]: "map_sum id Some x = Inr y \<longleftrightarrow> (\<exists>z. x = Inr z \<and> y = Some z)"
  by (cases x) auto

lemma accept_response_path:
  assumes "accept_response env rp rs = Inr (Some p)" and "\<And>q. rp = Some q \<Longrightarrow> validate_reconnect_location env q = Inr q"
  shows "validate_reconnect_location env p = Inr p"
  using assms by (auto simp: accept_response_def split: sum.splits if_splits list.splits dest: validate_same)

lemma list_all_dict_set: "list_all (\<lambda>(k, _). P k) d \<Longrightarrow> P k \<Longrightarrow> list_all (\<lambda>(k, _). P k) (dict_set k x d)"
  by (induction d) auto

lemma reconnect_headers_ok:
  "list_all (\<lambda>(k, _). \<not> content_header k)
     (case last_id of Some i \<Rightarrow> dict_set ''Last-Event-ID'' i (reconnect_headers e) | None \<Rightarrow> reconnect_headers e)"
proof -
  have "\<not> content_header ''Last-Event-ID''" by code_simp
  moreover have "list_all (\<lambda>(k, _). \<not> content_header k) (reconnect_headers e)"
    by (auto simp: reconnect_headers_def list_all_iff)
  ultimately show ?thesis by (auto intro: list_all_dict_set split: option.split)
qed

lemma stream_request_reconnect:
  "validate_reconnect_location env p = Inr p \<Longrightarrow> reconnect_request env (stream_request env (Some p) last_id)"
  using reconnect_headers_ok [where last_id = last_id] by (simp add: reconnect_request_def stream_request_def Let_def)

lemma stream_loop_requests:
  assumes "\<And>q. rp = Some q \<Longrightarrow> validate_reconnect_location env q = Inr q"
    and "stream_loop env left i rp last_id = (ps, r, rqs)"
  shows "length rqs \<le> Suc left \<and> list_all (reconnect_request env) (tl rqs)
     \<and> (rp \<noteq> None \<longrightarrow> list_all (reconnect_request env) rqs)"
  using assms
proof (induction left arbitrary: i rp last_id ps r rqs)
  case 0
  then show ?case
    using stream_request_reconnect
    by (auto simp: stream_loop.simps [of env 0] Let_def split: sum.splits prod.splits if_splits)
next
  case (Suc left)
  let ?rq = "stream_request env rp last_id"
  have first: "rp \<noteq> None \<longrightarrow> reconnect_request env ?rq" using Suc.prems(1) stream_request_reconnect by auto
  show ?case
  proof (cases "rqs = [?rq]")
    case True
    then show ?thesis using first by simp
  next
    case False
    then obtain rs p last' qs r' rqs' where rec: "hs_send env i ?rq = Inr rs" "accept_response env rp rs = Inr (Some p)"
      "stream_loop env left (Suc i) (Some p) last' = (qs, r', rqs')" "rqs = ?rq # rqs'"
      using Suc.prems(2)
      by (auto simp: stream_loop.simps [of env "Suc left"] Let_def split: sum.splits prod.splits if_splits)
    have "validate_reconnect_location env p = Inr p" using accept_response_path [OF rec(2)] Suc.prems(1) by blast
    then show ?thesis using Suc.IH [OF _ rec(3)] rec(4) first by auto
  qed
qed

text \<open>
  A stream makes at most six requests. All but the first are \<open>GET\<close>s without content and parameters to a location of
  the same origin, without the headers that describe the content.
\<close>

theorem reconnects_bounded:
  "length (snd (snd (http_stream_run env))) \<le> 6 \<and> list_all (reconnect_request env) (tl (snd (snd (http_stream_run env))))"
  using stream_loop_requests [of None env 5 0 None] by (cases "http_stream_run env") (auto simp: http_stream_run_def)

subsection \<open>What a server sends\<close>

text \<open>An event as the server writes it: identifier, name and data, each on its line, and an empty line.\<close>

record sent_event =
  ev_id :: string
  ev_name :: string
  ev_data :: string

definition event_lines :: "sent_event \<Rightarrow> string list" where
  "event_lines e = [''id: '' @ ev_id e, ''event: '' @ ev_name e, ''data: '' @ ev_data e, []]"

definition event_bytes :: "sent_event list \<Rightarrow> string" where
  "event_bytes es = concat (map (\<lambda>l. l @ [LF]) (concat (map event_lines es)))"

definition plain_text :: "string \<Rightarrow> bool" where
  "plain_text s \<longleftrightarrow> list_all (\<lambda>c. c \<notin> {LF, CR}) s"

definition sendable :: "(string \<Rightarrow> val res) \<Rightarrow> sent_event \<Rightarrow> bool" where
  "sendable loads e \<longleftrightarrow> plain_text (ev_id e) \<and> plain_text (ev_name e) \<and> plain_text (ev_data e)
     \<and> ev_id e \<noteq> [] \<and> ev_name e \<noteq> [] \<and> ev_data e \<noteq> [] \<and> CHR 0x00 \<notin> set (ev_id e)
     \<and> utf8_ok (map of_char (ev_id e)) \<and> utf8_ok (map of_char (ev_name e)) \<and> \<not> isl (loads (ev_data e))"

definition event_part :: "(string \<Rightarrow> val res) \<Rightarrow> sent_event \<Rightarrow> stream_part" where
  "event_part loads e = \<lparr>part_event = ev_name e, part_data = projr (loads (ev_data e)), part_id = Some (ev_id e)\<rparr>"

definition events_after :: "string option \<Rightarrow> sent_event list \<Rightarrow> sent_event list" where
  "events_after last_id es = (case last_id of None \<Rightarrow> es | Some i \<Rightarrow> tl (dropWhile (\<lambda>e. ev_id e \<noteq> i) es))"

text \<open>A response to a request: the events after the last one the client has, or, if the connection fails, any part of
  them from the beginning, which may end within an event.\<close>

definition serves :: "http_stream \<Rightarrow> sent_event list \<Rightarrow> nat \<Rightarrow> bool" where
  "serves env es n \<longleftrightarrow> (\<forall>i rq. \<exists>rs l. hs_send env i rq = Inr rs \<and> rs_status rs < 400 \<and> is_event_stream rs
     \<and> dict_get (rs_headers rs) ''location'' = Some l \<and> l \<noteq> [] \<and> validate_reconnect_location env l = Inr l
     \<and> (let sent = event_bytes (events_after (dict_get (rq_headers rq) ''Last-Event-ID'') es)
        in if rs_fails rs then i < n \<and> prefix (concat (rs_chunks rs)) sent else concat (rs_chunks rs) = sent))"

subsection \<open>Lines of the bytes\<close>

lemma chop_plain: "plain_text l \<Longrightarrow> chop line (l @ s) = chop (line @ l) s"
  by (induction l arbitrary: line) (auto simp: plain_text_def)

lemma chop_lines:
  assumes "list_all plain_text ls" and "prefix p (concat (map (\<lambda>l. l @ [LF]) ls))"
  shows "\<exists>m \<le> length ls. fst (chop [] p) = take m ls
    \<and> (p = concat (map (\<lambda>l. l @ [LF]) ls) \<longrightarrow> m = length ls \<and> snd (chop [] p) = [])"
  using assms
proof (induction ls arbitrary: p)
  case Nil
  then show ?case by simp
next
  case (Cons l ls)
  let ?rest = "concat (map (\<lambda>l. l @ [LF]) ls)"
  have plain: "plain_text l" using Cons.prems by simp
  from Cons.prems(2) consider "prefix p l" | q where "p = (l @ [LF]) @ q" "prefix q ?rest"
    by (auto simp: prefix_append prefix_Cons)
  then show ?case
  proof cases
    case 1
    then have "plain_text p" using plain by (auto simp: plain_text_def prefix_def)
    then have "chop [] p = ([], p)" using chop_plain [of p "[]" "[]"] by simp
    moreover have "p \<noteq> concat (map (\<lambda>l. l @ [LF]) (l # ls))" using 1 by (auto simp: prefix_def)
    ultimately show ?thesis by (intro exI [of _ 0]) simp
  next
    case 2
    from Cons.IH [OF _ 2(2)] Cons.prems(1) obtain m where m: "m \<le> length ls" "fst (chop [] q) = take m ls"
      "q = ?rest \<longrightarrow> m = length ls \<and> snd (chop [] q) = []" by auto
    have "chop [] p = (l # fst (chop [] q), snd (chop [] q))"
      using chop_plain [OF plain, of "[]" "LF # q"] by (simp add: 2(1) split: prod.split)
    then show ?thesis using m 2(1) by (intro exI [of _ "Suc m"]) auto
  qed
qed

lemma event_lines_plain: "sendable loads e \<Longrightarrow> list_all plain_text (event_lines e)"
  by (auto simp: sendable_def event_lines_def plain_text_def LF_def CR_def)

lemma plain_bytes: "list_all (sendable loads) es \<Longrightarrow> list_all plain_text (concat (map event_lines es))"
  by (induction es) (auto dest: event_lines_plain)

lemma event_bytes_no_CR: "list_all (sendable loads) es \<Longrightarrow> CR \<notin> set (event_bytes es)"
  using plain_bytes [of loads es] by (auto simp: event_bytes_def list_all_iff plain_text_def)

lemma failed_lines:
  assumes "list_all (sendable loads) es" and "prefix (concat chunks) (event_bytes es)"
  shows "\<exists>m \<le> 4 * length es. fst (feed_lines chunks line_decoder_init) = take m (concat (map event_lines es))"
proof -
  obtain d where d: "snd (feed_lines chunks line_decoder_init) = d" by blast
  obtain s where s: "concat chunks = s @ held d" "(fst (feed_lines chunks line_decoder_init), ld_buffer d) = chop [] s"
    using feed_lines_chop [of line_decoder_init chunks] d by (auto simp: held_def line_decoder_init_def)
  have "CR \<notin> set (concat chunks)" using assms event_bytes_no_CR set_mono_prefix by blast
  then have "concat chunks = s" using s(1) by (auto simp: held_def split: if_splits)
  then have p: "fst (feed_lines chunks line_decoder_init) = fst (chop [] (concat chunks))" using s(2) by (metis fst_conv)
  have len: "length (concat (map event_lines es)) = 4 * length es" by (induction es) (simp_all add: event_lines_def)
  show ?thesis
    using chop_lines [OF plain_bytes [OF assms(1)] assms(2) [unfolded event_bytes_def]] unfolding p len by blast
qed

lemma complete_lines:
  assumes "list_all (sendable loads) es" and "concat chunks = event_bytes es"
  shows "iter_lines_raw chunks = concat (map event_lines es)"
proof -
  have "prefix (concat chunks) (concat (map (\<lambda>l. l @ [LF]) (concat (map event_lines es))))"
    using assms(2) by (simp add: event_bytes_def)
  from chop_lines [OF plain_bytes [OF assms(1)] this] assms(2) [unfolded event_bytes_def]
  have "chop [] (concat chunks) = (concat (map event_lines es), [])" by (auto simp: prod_eq_iff)
  then show ?thesis by (simp add: iter_lines_raw_eq split_lines_chop)
qed

subsection \<open>Events of the lines\<close>

definition idle :: "string \<Rightarrow> sse_decoder" where
  "idle i = \<lparr>sse_event = [], sse_data = [], sse_last_event_id = i, sse_retry = None\<rparr>"

lemma strip_plain: "plain_text l \<Longrightarrow> rev (dropWhile (\<lambda>c. c = LF) (rev l)) = l"
  by (cases "rev l") (auto simp: plain_text_def rev_swap)

lemma read_event_lines:
  assumes "sendable loads e"
  shows "read_events loads (event_lines e @ ls) (idle i) last_id =
    (let (ps, r) = read_events loads ls (idle (ev_id e)) (Some (ev_id e)) in (event_part loads e # ps, r))"
    and "m < 4 \<Longrightarrow> \<exists>d. read_events loads (take m (event_lines e)) (idle i) last_id = ([], Inr (d, last_id))"
proof -
  obtain x where x: "loads (ev_data e) = Inr x" using assms by (cases "loads (ev_data e)") (auto simp: sendable_def)
  have plain: "plain_text (''id: '' @ ev_id e)" "plain_text (''event: '' @ ev_name e)" "plain_text (''data: '' @ ev_data e)"
    using event_lines_plain [OF assms] by (simp_all add: event_lines_def del: append_Cons)
  have id_line: "decode_event loads (''id: '' @ ev_id e) d = Inr (None, d\<lparr>sse_last_event_id := ev_id e\<rparr>)" for d
    using assms by (simp add: decode_event_def set_field_def decode_text_def sendable_def Let_def)
  have event_line: "decode_event loads (''event: '' @ ev_name e) d = Inr (None, d\<lparr>sse_event := ev_name e\<rparr>)" for d
    using assms by (simp add: decode_event_def set_field_def decode_text_def sendable_def Let_def)
  have data_line: "decode_event loads (''data: '' @ ev_data e) d = Inr (None, d\<lparr>sse_data := sse_data d @ ev_data e\<rparr>)" for d
    by (simp add: decode_event_def set_field_def Let_def)
  have lines: "read_events loads ((''id: '' @ ev_id e) # ls) d l = read_events loads ls (d\<lparr>sse_last_event_id := ev_id e\<rparr>) l"
    "read_events loads ((''event: '' @ ev_name e) # ls) d l = read_events loads ls (d\<lparr>sse_event := ev_name e\<rparr>) l"
    "read_events loads ((''data: '' @ ev_data e) # ls) d l = read_events loads ls (d\<lparr>sse_data := sse_data d @ ev_data e\<rparr>) l" for ls d l
    by (simp_all only: read_events.simps strip_plain [OF plain(1)] strip_plain [OF plain(2)] strip_plain [OF plain(3)]
        id_line event_line data_line sum.case prod.case option.case)
  show "read_events loads (event_lines e @ ls) (idle i) last_id =
    (let (ps, r) = read_events loads ls (idle (ev_id e)) (Some (ev_id e)) in (event_part loads e # ps, r))"
    unfolding event_lines_def append_Cons [of _ _ ls] append_Nil lines
    using assms x
    by (simp add: idle_def decode_event_def dispatch_event_def last_event_id_def next_last_id_def event_part_def yielded_def
        sendable_def split: prod.split)
  have first_lines: "take 1 (event_lines e) = [''id: '' @ ev_id e]" "take 2 (event_lines e) = [''id: '' @ ev_id e, ''event: '' @ ev_name e]"
    "take 3 (event_lines e) = [''id: '' @ ev_id e, ''event: '' @ ev_name e, ''data: '' @ ev_data e]"
    by (simp_all add: event_lines_def numeral_2_eq_2 numeral_3_eq_3)
  assume "m < 4"
  then consider "m = 0" | "m = 1" | "m = 2" | "m = 3" by linarith
  then show "\<exists>d. read_events loads (take m (event_lines e)) (idle i) last_id = ([], Inr (d, last_id))"
    by cases (auto simp only: first_lines take_0 read_events.simps(1) lines)
qed

lemma read_sent:
  assumes "list_all (sendable loads) es" and "m \<le> 4 * length es"
  shows "\<exists>j d. j \<le> length es
    \<and> read_events loads (take m (concat (map event_lines es))) (idle i) last_id =
        (map (event_part loads) (take j es), Inr (d, if j = 0 then last_id else Some (ev_id (es ! (j - 1)))))
    \<and> (m = 4 * length es \<longrightarrow> j = length es \<and> (\<exists>i. d = idle i))"
  using assms
proof (induction es arbitrary: m i last_id)
  case Nil
  then show ?case by auto
next
  case (Cons e es)
  have e: "sendable loads e" and len: "length (event_lines e) = 4" using Cons.prems by (simp_all add: event_lines_def)
  show ?case
  proof (cases "m < 4")
    case True
    then have "take m (concat (map event_lines (e # es))) = take m (event_lines e)" using len by simp
    then show ?thesis using read_event_lines(2) [OF e True, of i last_id] True by (intro exI [of _ 0]) (auto simp del: concat.simps)
  next
    case False
    then obtain k where k: "m = 4 + k" "k \<le> 4 * length es" using Cons.prems(2) by (metis add_diff_inverse_nat add_le_cancel_left length_Cons mult_Suc_right)
    have "list_all (sendable loads) es" using Cons.prems(1) by simp
    from Cons.IH [OF this k(2), of "ev_id e" "Some (ev_id e)"] obtain j d where j: "j \<le> length es"
      "read_events loads (take k (concat (map event_lines es))) (idle (ev_id e)) (Some (ev_id e)) =
        (map (event_part loads) (take j es), Inr (d, if j = 0 then Some (ev_id e) else Some (ev_id (es ! (j - 1)))))"
      "k = 4 * length es \<longrightarrow> j = length es \<and> (\<exists>i. d = idle i)" by blast
    have "take m (concat (map event_lines (e # es))) = event_lines e @ take k (concat (map event_lines es))"
      using k(1) len by simp
    then show ?thesis
      using j k(1) read_event_lines(1) [OF e] by (intro exI [of _ "Suc j"] exI [of _ d]) (auto simp: nth_Cons')
  qed
qed

text \<open>The body of a response: if it fails, the client has some of the events and knows the last one of them.\<close>

lemma read_body_fails:
  assumes "list_all (sendable loads) es" and "rs_fails rs" and "prefix (concat (rs_chunks rs)) (event_bytes es)"
  shows "\<exists>j \<le> length es. read_body loads rs last_id =
    (map (event_part loads) (take j es), Inr (True, if j = 0 then last_id else Some (ev_id (es ! (j - 1)))))"
proof -
  obtain m where m: "m \<le> 4 * length es" "fst (feed_lines (rs_chunks rs) line_decoder_init) = take m (concat (map event_lines es))"
    using failed_lines [OF assms(1,3)] by blast
  have init: "sse_decoder_init = idle []" by (simp add: sse_decoder_init_def idle_def)
  from read_sent [OF assms(1) m(1), of "[]" last_id] obtain j d where j: "j \<le> length es"
    "read_events loads (take m (concat (map event_lines es))) (idle []) last_id =
      (map (event_part loads) (take j es), Inr (d, if j = 0 then last_id else Some (ev_id (es ! (j - 1)))))" by blast
  then have "read_body loads rs last_id =
      (map (event_part loads) (take j es), Inr (True, if j = 0 then last_id else Some (ev_id (es ! (j - 1)))))"
    using assms(2) m(2) by (simp add: read_body_def init)
  with j(1) show ?thesis by blast
qed

lemma read_body_complete:
  assumes "list_all (sendable loads) es" and "\<not> rs_fails rs" and "concat (rs_chunks rs) = event_bytes es"
  shows "\<exists>last. read_body loads rs last_id = (map (event_part loads) es, Inr (False, last))"
proof -
  have len: "length (concat (map event_lines es)) = 4 * length es" by (induction es) (simp_all add: event_lines_def)
  have init: "sse_decoder_init = idle []" by (simp add: sse_decoder_init_def idle_def)
  from read_sent [OF assms(1) order_refl, of "[]" last_id] obtain last d where
    "read_events loads (concat (map event_lines es)) (idle []) last_id = (map (event_part loads) es, Inr (idle d, last))"
    by (force simp: len [symmetric])
  moreover obtain l where "read_end loads (idle d) last = ([], Inr l)"
    by (cases "d = []") (simp_all add: read_end_def decode_event_def dispatch_event_def idle_def yielded_def)
  ultimately show ?thesis
    using assms(2) complete_lines [OF assms(1,3)] by (simp add: read_body_def init)
qed

subsection \<open>Every event once\<close>

lemma events_after_nth:
  assumes "distinct (map ev_id es)" and "n < length es"
  shows "events_after (Some (ev_id (es ! n))) es = drop (Suc n) es"
  using assms
proof (induction es arbitrary: n)
  case (Cons e es)
  show ?case
  proof (cases n)
    case (Suc m)
    then have "ev_id (es ! m) \<in> ev_id ` set es" using Cons.prems(2) by simp
    then have "ev_id e \<noteq> ev_id (es ! m)" using Cons.prems(1) by auto
    then show ?thesis using Cons Suc by (simp add: events_after_def)
  qed (simp add: events_after_def)
qed simp

lemma last_id_header:
  assumes "dict_get (hs_headers env) ''Last-Event-ID'' = None"
  shows "dict_get (rq_headers (stream_request env rp last_id)) ''Last-Event-ID'' = last_id"
proof -
  have "''Last-Event-ID'' \<notin> fst ` set (hs_headers env)" using assms by (simp add: map_of_eq_None_iff)
  then have "dict_get (rev (hs_headers env)) ''Last-Event-ID'' = None" by (simp add: map_of_eq_None_iff)
  then have none: "dict_get (request_headers env) ''Last-Event-ID'' = None"
    by (simp add: request_headers_def dict_get_update encode_headers_def split: option.split)
  then have "dict_get (reconnect_headers env) ''Last-Event-ID'' = None"
    by (auto simp: reconnect_headers_def map_of_eq_None_iff)
  with none show ?thesis by (auto simp: stream_request_def Let_def split: option.split)
qed

lemma accept_served:
  assumes "rs_status rs < 400" "is_event_stream rs" "dict_get (rs_headers rs) ''location'' = Some l" "l \<noteq> []"
    and "validate_reconnect_location env l = Inr l"
  shows "accept_response env rp rs = Inr (Some l)"
  using assms by (auto simp: accept_response_def raise_for_status_def dict_get_or_def split: list.split)

lemma served:
  assumes "serves env es n" and "dict_get (hs_headers env) ''Last-Event-ID'' = None" and "events_after last_id es = rest"
  obtains rs l where "hs_send env i (stream_request env rp last_id) = Inr rs" "accept_response env rp rs = Inr (Some l)"
    "rs_fails rs \<Longrightarrow> i < n \<and> prefix (concat (rs_chunks rs)) (event_bytes rest)"
    "\<not> rs_fails rs \<Longrightarrow> concat (rs_chunks rs) = event_bytes rest"
proof -
  let ?rq = "stream_request env rp last_id"
  obtain rs l where rs: "hs_send env i ?rq = Inr rs" "rs_status rs < 400" "is_event_stream rs" "dict_get (rs_headers rs) ''location'' = Some l"
    "l \<noteq> []" "validate_reconnect_location env l = Inr l"
    "let sent = event_bytes rest in if rs_fails rs then i < n \<and> prefix (concat (rs_chunks rs)) sent else concat (rs_chunks rs) = sent"
    using assms(1) [unfolded serves_def, rule_format, of i ?rq] unfolding last_id_header [OF assms(2)] assms(3) by blast
  show thesis
    by (rule that [OF rs(1) accept_served [OF rs(2-6)]]) (use rs(7) in \<open>simp_all add: Let_def\<close>)
qed

lemma stream_loop_events:
  assumes "list_all (sendable (hs_loads env)) es" and "distinct (map ev_id es)"
    and "dict_get (hs_headers env) ''Last-Event-ID'' = None" and "serves env es n" and "n \<le> i + left"
    and "k \<le> length es" and "events_after last_id es = drop k es"
  shows "\<exists>rqs. stream_loop env left i rp last_id = (map (event_part (hs_loads env)) (drop k es), Inr (), rqs)"
  using assms(5-7)
proof (induction left arbitrary: i k rp last_id)
  case 0
  let ?rq = "stream_request env rp last_id"
  have ok: "list_all (sendable (hs_loads env)) (drop k es)" using assms(1) by (auto simp: list_all_iff dest: in_set_dropD)
  obtain rs l where served: "hs_send env i ?rq = Inr rs" "accept_response env rp rs = Inr (Some l)"
    "rs_fails rs \<Longrightarrow> i < n \<and> prefix (concat (rs_chunks rs)) (event_bytes (drop k es))"
    "\<not> rs_fails rs \<Longrightarrow> concat (rs_chunks rs) = event_bytes (drop k es)"
    by (rule served [OF assms(4,3) 0(3), of i rp]) blast
  then have rs: "hs_send env i ?rq = Inr rs" "accept_response env rp rs = Inr (Some l)" "\<not> rs_fails rs"
    "concat (rs_chunks rs) = event_bytes (drop k es)" using 0(1) by auto
  from read_body_complete [OF ok rs(3,4), of last_id] obtain last where
    "read_body (hs_loads env) rs last_id = (map (event_part (hs_loads env)) (drop k es), Inr (False, last))" by blast
  then show ?case using rs by (simp add: stream_loop.simps [of env 0] Let_def)
next
  case (Suc left)
  let ?rq = "stream_request env rp last_id"
  have ok: "list_all (sendable (hs_loads env)) (drop k es)" using assms(1) by (auto simp: list_all_iff dest: in_set_dropD)
  obtain rs l where rs: "hs_send env i ?rq = Inr rs" "accept_response env rp rs = Inr (Some l)"
    "rs_fails rs \<Longrightarrow> i < n \<and> prefix (concat (rs_chunks rs)) (event_bytes (drop k es))"
    "\<not> rs_fails rs \<Longrightarrow> concat (rs_chunks rs) = event_bytes (drop k es)"
    by (rule served [OF assms(4,3) Suc.prems(3), of i rp]) blast
  show ?case
  proof (cases "rs_fails rs")
    case False
    with rs(4) read_body_complete [OF ok False, of last_id] obtain last where
      "read_body (hs_loads env) rs last_id = (map (event_part (hs_loads env)) (drop k es), Inr (False, last))" by auto
    then show ?thesis using rs(1,2) by (simp add: stream_loop.simps [of env "Suc left"] Let_def)
  next
    case True
    with rs(3) read_body_fails [OF ok True, of last_id] obtain j where j: "j \<le> length (drop k es)"
      "read_body (hs_loads env) rs last_id = (map (event_part (hs_loads env)) (take j (drop k es)),
         Inr (True, if j = 0 then last_id else Some (ev_id (drop k es ! (j - 1)))))" by auto
    let ?last = "if j = 0 then last_id else Some (ev_id (drop k es ! (j - 1)))"
    have "events_after ?last es = drop (k + j) es"
      using Suc.prems(3) j(1) events_after_nth [OF assms(2), of "k + (j - 1)"] by auto
    moreover have "k + j \<le> length es" using j(1) Suc.prems(2) by simp
    ultimately obtain rqs where
      "stream_loop env left (Suc i) (Some l) ?last = (map (event_part (hs_loads env)) (drop (k + j) es), Inr (), rqs)"
      using Suc.IH [of "Suc i" "k + j" ?last "Some l"] Suc.prems(1) by auto
    moreover have "take j (drop k es) @ drop (k + j) es = drop k es" by (metis append_take_drop_id drop_drop add.commute)
    ultimately show ?thesis
      using rs(1,2) j(2) by (simp add: stream_loop.simps [of env "Suc left"] Let_def map_append [symmetric] del: map_append)
  qed
qed

text \<open>
  If at most five of the connections fail, each wherever it may, and the server sends the events after the one the
  client names (events with distinct identifiers, each with a name and data), then the stream yields every event
  once and in order, and ends. The caller does not set the header that names the last event.
\<close>

theorem events_exactly_once:
  assumes "list_all (sendable (hs_loads env)) es" and "distinct (map ev_id es)"
    and "dict_get (hs_headers env) ''Last-Event-ID'' = None" and "serves env es 5"
  shows "\<exists>rqs. http_stream_run env = (map (event_part (hs_loads env)) es, Inr (), rqs)"
  using stream_loop_events [OF assms(1-4), of 0 5 0 None None] by (simp add: http_stream_run_def events_after_def)

text \<open>Two events; the first connection fails within the second one, the others send what is left in two chunks.\<close>

definition ex_loads :: "string \<Rightarrow> val res" where "ex_loads s = Inr (VStr s)"

definition ex_events :: "sent_event list" where
  "ex_events = [\<lparr>ev_id = ''1'', ev_name = ''values'', ev_data = ''a''\<rparr>, \<lparr>ev_id = ''2'', ev_name = ''values'', ev_data = ''b''\<rparr>]"

definition ex_send :: "nat \<Rightarrow> request \<Rightarrow> response http" where
  "ex_send i rq =
     (let sent = event_bytes (events_after (dict_get (rq_headers rq) ''Last-Event-ID'') ex_events)
      in Inr \<lparr>rs_status = 200, rs_headers = [(''content-type'', ''text/event-stream; charset=utf-8''), (''location'', ''/runs/1/stream'')],
           rs_chunks = (if i = 0 then [take 35 sent] else [take 7 sent, drop 7 sent]), rs_fails = (i = 0)\<rparr>)"

definition ex_urlparse :: "string \<Rightarrow> parsed_url" where
  "ex_urlparse s = \<lparr>url_scheme = [], url_netloc = [], url_host = [], url_port = None\<rparr>"

definition ex_stream :: http_stream where
  "ex_stream = \<lparr>hs_method = ''POST'', hs_path = ''/runs/stream'', hs_content = Some ''{}'', hs_params = VNone, hs_headers = [],
     hs_base = \<lparr>url_scheme = ''http'', url_netloc = ''localhost'', url_host = ''localhost'', url_port = None\<rparr>,
     hs_urlparse = ex_urlparse, hs_loads = ex_loads, hs_send = ex_send\<rparr>"

lemma ex_serves: "serves ex_stream ex_events 5"
proof -
  have "is_event_stream \<lparr>rs_status = 200, rs_headers = [(''content-type'', ''text/event-stream; charset=utf-8''), (''location'', ''/runs/1/stream'')],
      rs_chunks = cs, rs_fails = f\<rparr>" for cs f
    by (simp add: is_event_stream_def dict_get_or_def)
  then show ?thesis
    by (auto simp: serves_def ex_stream_def ex_send_def Let_def validate_reconnect_location_def ex_urlparse_def take_is_prefix)
qed

theorem events_exactly_once_witness:
  "\<exists>rqs. http_stream_run ex_stream =
     ([\<lparr>part_event = ''values'', part_data = VStr ''a'', part_id = Some ''1''\<rparr>, \<lparr>part_event = ''values'', part_data = VStr ''b'', part_id = Some ''2''\<rparr>],
      Inr (), rqs)"
proof -
  have "list_all (sendable (hs_loads ex_stream)) ex_events" "distinct (map ev_id ex_events)"
    "dict_get (hs_headers ex_stream) ''Last-Event-ID'' = None" by code_simp+
  from events_exactly_once [OF this ex_serves] show ?thesis
    by (simp add: ex_stream_def ex_events_def event_part_def ex_loads_def)
qed

text \<open>The client reconnects once, after the first event.\<close>

lemma ex_stream_requests:
  "map (\<lambda>rq. (rq_method rq, rq_path rq, rq_content rq, dict_get (rq_headers rq) ''Last-Event-ID'')) (snd (snd (http_stream_run ex_stream)))
   = [(''POST'', ''/runs/stream'', Some ''{}'', None), (''GET'', ''/runs/1/stream'', None, Some ''1'')]"
  by code_simp

text \<open>The lines of an event's data are joined without the line feed that the specification of server-sent events puts
  between them.\<close>

lemma data_lines_joined:
  "fst (http_stream_run (ex_stream\<lparr>hs_send := (\<lambda>i rq. Inr \<lparr>rs_status = 200, rs_headers = [(''content-type'', ''text/event-stream'')],
      rs_chunks = [''data: a'' @ [LF] @ ''data: b'' @ [LF, LF]], rs_fails = False\<rparr>)\<rparr>))
   = [\<lparr>part_event = [], part_data = VStr ''ab'', part_id = None\<rparr>]"
  by code_simp

subsection \<open>Requests that wait for a result\<close>

text \<open>\<open>request_reconnect\<close>: the body of the response is the result; if reading it fails, the client asks for it at the location the
  server named. A missing body is sent as the JSON value \<open>null\<close>. \<open>raise_for_status\<close> of the HTTP library accepts the statuses
  from 200 to 299.\<close>

definition decode_json :: "http_stream \<Rightarrow> response \<Rightarrow> val http" where
  "decode_json env rs =
     (if rs_fails rs then Inl HTTPError
      else if concat (rs_chunks rs) = [] then Inr VNone
      else map_sum DecodeError id (hs_loads env (concat (rs_chunks rs))))"

fun request_reconnect ::
  "http_stream \<Rightarrow> nat \<Rightarrow> nat \<Rightarrow> string \<Rightarrow> string \<Rightarrow> string \<Rightarrow> val \<Rightarrow> (string, string) dict \<Rightarrow> val http \<times> request list" where
  "request_reconnect env limit i path method content params headers =
     (let headers = dict_update (encode_headers (Some content)) headers;
          rq = \<lparr>rq_method = method, rq_path = path, rq_headers = headers, rq_content = Some content, rq_params = params\<rparr>
      in case hs_send env i rq of
           Inl e \<Rightarrow> (Inl e, [rq])
         | Inr rs \<Rightarrow>
             if \<not> (200 \<le> rs_status rs \<and> rs_status rs < 300) then (Inl HTTPError, [rq])
             else
               let loc = dict_get_or (rs_headers rs) ''location'' []
               in (case limit of
                     0 \<Rightarrow> (decode_json env rs, [rq])
                   | Suc limit \<Rightarrow>
                       if loc = [] then (decode_json env rs, [rq])
                       else (case validate_reconnect_location env loc of
                               Inl e \<Rightarrow> (Inl e, [rq])
                             | Inr _ \<Rightarrow>
                                 (case decode_json env rs of
                                    Inl HTTPError \<Rightarrow>
                                      (case request_reconnect env limit (Suc i) loc ''GET'' ''null'' VNone headers of
                                         (r, rqs) \<Rightarrow> (r, rq # rqs))
                                  | r \<Rightarrow> (r, [rq])))))"

declare request_reconnect.simps [simp del]

text \<open>The headers of the first request are those of the next ones, and so the length of its body: a reconnect sends \<open>null\<close> with
  another length.\<close>

lemma stale_content_length:
  "map (\<lambda>rq. (rq_method rq, rq_content rq, dict_get (rq_headers rq) ''Content-Length'')) (snd (request_reconnect ex_stream 5 0
      ''/runs/wait'' ''POST'' ''[1, 2, 3]'' VNone []))
   = [(''POST'', Some ''[1, 2, 3]'', Some ''9''), (''GET'', Some ''null'', Some ''9'')]"
  by code_simp

end
