(* ===== verification/Spec2Isabelle.thy ===== *)
theory Spec2Isabelle
  imports Messages Uuid6 Apply_Writes Resume Tasks Checkpointing Delta_History Loop Run Persistence Run_Invariant Loop_Props Writers State_Graph Graph_Steps Graph_Builder Store_Batch Retry Cache_Memory Subgraphs Run_Defects Add_Messages Migrate Http_Stream
begin

text \<open>
  A verification development for the execution core of LangGraph.

  LangGraph runs a graph of nodes in supersteps, after the model of Pregel. The state of a run is a set of
  channels. A superstep prepares a task for every node that a channel triggers and for every packet
  that was sent to a node, lets the tasks run, and applies their writes to the channels all at once;
  the new versions of the channels decide which nodes are due next. After a superstep the channels are saved
  as a checkpoint, with the writes of the tasks that finished, so that a later run resumes from there.
  The library is in \<open>src/libs/langgraph/langgraph\<close> (LG below), the savers, stores and caches
  in \<open>src/libs/checkpoint/langgraph\<close> (CK).

  \<^bold>\<open>Theories and code.\<close>

  \<^item> Prelude: the values, exceptions and dictionaries of Python that all theories use. A function that
    may raise returns \<open>'a res\<close>, a sum with the exception on the left; a \<open>dict\<close> is an association
    list in insertion order, a \<open>set\<close> whose order matters to nothing is a list or a set. Objects are
    values: a method that mutates \<open>self\<close> returns the changed record.

  \<^item> \<open>Channel_Contract\<close>, \<open>Channels_Value\<close>, \<open>Channels_Barrier\<close>, \<open>Channels_Reduce\<close>, Channels (\<open>LG/channels\<close>): one record
    for each class, one definition for each method (\<open>update\<close>, \<open>get\<close>, \<open>consume\<close>, \<open>finish\<close>,
    \<open>checkpoint\<close>, \<open>from_checkpoint\<close>). What the algorithm relies on is the locale \<open>channel_contract\<close>, and
    \<open>persistent_channel\<close> adds the round trip through a checkpoint; each class is an interpretation.
    Channels dispatches over the classes, and the dispatch is an interpretation again.
    Messages and \<open>Add_Messages\<close> (\<open>LG/graph/message.py\<close>) have the reducers of messages, show when the one for delta channels does
    not depend on how the writes are batched, and when both agree.

  \<^item> Ids, Uuid6 (\<open>CK/checkpoint/base/id.py\<close>, parts of \<open>LG/pregel/_algo.py\<close> and of the savers): ids and versions
    and their order. New versions grow, under both savers (locale \<open>version_source\<close>); ids made later compare higher.

  \<^item> \<open>Pregel_Types\<close>, \<open>Pregel_IO\<close> (\<open>LG/types.py\<close>, \<open>LG/_internal\<close>, \<open>LG/pregel/_io.py\<close>): the records that the algorithm
    passes around, and reading inputs, commands and outputs.

  \<^item> \<open>Apply_Writes\<close>, Tasks, Resume (\<open>LG/pregel/_algo.py\<close>, \<open>_read.py\<close>, \<open>LG/managed\<close>): \<open>apply_writes\<close> as one
    fold, refined to a description of every channel by itself; \<open>prepare_next_tasks\<close>
    and \<open>prepare_single_task\<close> for every kind of task; \<open>interrupt\<close> and the scratchpad. The candidates
    that the code computes from the updated channels give the same tasks as looking at all nodes.

  \<^item> Checkpointing (\<open>LG/pregel/_checkpoint.py\<close>): checkpoints from channels and back, snapshots of delta channels.

  \<^item> \<open>Saver_Base\<close>, \<open>Memory_Saver\<close>, \<open>Delta_History\<close> (\<open>CK/checkpoint/base\<close>, \<open>CK/checkpoint/memory\<close>): the in-memory saver with all
    operations, its reachable states and their invariant, and the two ways to collect the history of a delta
    channel. The default method of the base class is proved inside the locale \<open>checkpoint_saver\<close>.

  \<^item> \<open>Loop_State\<close>, Loop, Run (\<open>LG/pregel/_loop.py\<close>, \<open>_runner.py\<close>, \<open>stream\<close> in \<open>main.py\<close>): the fields of \<open>PregelLoop\<close>,
    entering and leaving a run, \<open>tick\<close>, \<open>after_tick\<close>, what the end of a task records. The tasks are user
    code, so a run is a step relation: between \<open>tick\<close> and \<open>after_tick\<close> the runner may do any finite sequence of
    \<open>runner_step\<close>, in any order of the tasks. \<open>Run.superstep\<close> is one round; \<open>stream_run\<close> is the
    executable loop for a round that is given as a function. What is submitted to the saver is recorded in order in
    \<open>lo_saves\<close>, and \<open>run_saves\<close> executes it.
    \<open>Run_Invariant\<close> has the interface for invariants of runs (locale \<open>run_invariant\<close>, interpreted in \<open>Loop_Props\<close>);
    Persistence proves that the newest checkpoint restores the live channels after every superstep; \<open>Run_Defects\<close>
    evaluates runs in which the code goes wrong.

  \<^item> Writers, \<open>State_Graph\<close>, \<open>Graph_Compile\<close>, \<open>Graph_Steps\<close>, \<open>Graph_Builder\<close> (\<open>LG/pregel/_write.py\<close>, \<open>LG/graph\<close>): the writers of a node and
    the branches; the builder and \<open>compile\<close>; what the compiled nodes read and write, in terms of the builder's
    edges; which nodes are due after a superstep; what a builder that was built by its methods satisfies.
    Migrate has \<open>_migrate_checkpoint\<close> of \<open>state.py\<close> and \<open>main.py\<close>: a checkpoint of an older version makes the same nodes
    due after it is moved to the channels of today.

  \<^item> \<open>State_Api\<close>, \<open>State_Api_Props\<close>, \<open>State_Updates\<close>, Subgraphs (\<open>main.py\<close>, \<open>debug.py\<close>): reading and
    updating the state of a thread between runs, and the search for a subgraph. An operation there is an action on the
    saver, which keeps what was saved before an exception.

  \<^item> Retry (\<open>LG/pregel/_retry.py\<close>), \<open>Cache_Memory\<close> (\<open>CK/cache/memory\<close>), \<open>Store_Text\<close>, \<open>Store_Memory\<close>, \<open>Store_Props\<close>, \<open>Store_Batch\<close>
    (\<open>CK/store\<close>): attempts at a task; the cache of writes; the in-memory store as a refinement of
    a map from namespaces and keys to values, searches, and the removal of repeated operations.

  \<^item> Sse, \<open>Http_Stream\<close> (\<open>src/libs/sdk-py/langgraph_sdk\<close>: \<open>sse.py\<close>, \<open>_sync/http.py\<close>, \<open>errors.py\<close>, \<open>_shared/utilities.py\<close>): how a client
    reads the events of a run from a stream of bytes and reconnects. The lines do not depend on the chunks in which the
    bytes arrive, reconnects are bounded and stay at the origin, and after up to five broken connections every event has
    been yielded once and in order (\<open>events_exactly_once\<close>).

  \<^bold>\<open>Parameters.\<close> Code of other packages is an argument: hash functions, serializers (with the
  hypothesis that loading inverts dumping), the reducers of channels, clocks and random sources, embeddings
  and floating point numbers, reflection over type annotations. Each hypothesis about one
  has a witness with a concrete instance. Lower-case definitions named \<open>ex_...\<close> are these instances and the examples.

  \<^bold>\<open>Loops.\<close> Recursion on data is structural or has a measure. The walks to the ancestors of a checkpoint and
  the loop of a run may run forever in the code, so they are \<open>partial_function\<close>s whose value is
  \<open>None\<close> when they do not return. That the walks return in every reachable saver, and that a run returns
  within the recursion limit whatever its tasks do, are theorems; no fuel is used. Retries terminate because the attempts are
  bounded by the policies.

  \<^bold>\<open>Not modelled.\<close> Threads, futures, timers and event loops: the model takes the order of events they produce as
  arbitrary. The asynchronous methods, which repeat the synchronous ones in coroutines. Streaming of events to
  clients, remote graphs, the endpoints of the SDK and the command line, which transport data over HTTP or call Docker.
  Serialization, where the work is done by the package msgpack. The savers and stores on SQL databases, whose
  logic is SQL text. Drawing, the functional API and the prebuilt agents, which are adapters. Two aspects of Python are
  abstracted: objects that are shared are copied, which is sound where the code copies before it mutates; and
  values are a datatype of numbers, strings, lists, dictionaries and the library's own
  classes, on which user code acts through parameters only.
\<close>

end
